(* ===== verification/Go_Base.thy ===== *)
theory Go_Base
  imports Main "HOL-Library.AList" "HOL-Library.Multiset"
begin

text \<open>
  Prelude of the development: the pieces of Go that the model of couchcast uses everywhere.
  Machine integers are \<open>int\<close> with the 64-bit wrap-around written out (\<open>wrap64\<close>) where a
  value can leave the range, division truncates toward zero (\<open>go_div\<close>), a \<open>time.Time\<close> is
  the number of nanoseconds since the Unix epoch, a \<open>time.Duration\<close> a number of
  nanoseconds.  Small lemmas on lists and association lists that the components share are
  here too, in the collections declared below.
\<close>

named_theorems go_arith \<open>unfolding rules for Go integer and time arithmetic\<close>
named_theorems list_ops \<open>what the list helpers do to the ids of a queue\<close>

section \<open>Integers\<close>

type_synonym uuid = nat

definition uuid_nil :: uuid where
  "uuid_nil = 0"

text \<open>The value of an \<open>int64\<close> expression whose mathematical value is \<open>x\<close>.\<close>

definition wrap64 :: "int \<Rightarrow> int" where
  "wrap64 x = (x + 9223372036854775808) mod 18446744073709551616 - 9223372036854775808"

abbreviation max_int64 :: int where
  "max_int64 \<equiv> 9223372036854775807"

abbreviation min_int64 :: int where
  "min_int64 \<equiv> - 9223372036854775808"

definition is_int64 :: "int \<Rightarrow> bool" where
  "is_int64 x \<longleftrightarrow> min_int64 \<le> x \<and> x \<le> max_int64"

lemma wrap64_id [simp]: "is_int64 x \<Longrightarrow> wrap64 x = x"
  by (simp add: wrap64_def is_int64_def)

lemma is_int64_wrap64 [simp]: "is_int64 (wrap64 x)"
proof -
  have "0 \<le> (x + 9223372036854775808) mod 18446744073709551616"
    and "(x + 9223372036854775808) mod 18446744073709551616 < 18446744073709551616"
    by simp_all
  then show ?thesis unfolding wrap64_def is_int64_def by linarith
qed

text \<open>Go's \<open>/\<close> and \<open>%\<close> on signed integers: truncation toward zero.\<close>

definition go_div :: "int \<Rightarrow> int \<Rightarrow> int" where
  "go_div a b = sgn a * sgn b * (\<bar>a\<bar> div \<bar>b\<bar>)"

definition go_mod :: "int \<Rightarrow> int \<Rightarrow> int" where
  "go_mod a b = a - b * go_div a b"

lemma go_div_nonneg [go_arith]: "0 \<le> a \<Longrightarrow> 0 < b \<Longrightarrow> go_div a b = a div b"
  by (cases "a = 0") (simp_all add: go_div_def)

lemma go_div_uminus [go_arith]: "go_div (- a) b = - go_div a b"
  by (simp add: go_div_def)

lemma go_div_bound: "0 \<le> a \<Longrightarrow> 0 < b \<Longrightarrow> 0 \<le> go_div a b \<and> go_div a b \<le> a"
  by (simp add: go_div_nonneg pos_imp_zdiv_nonneg_iff int_div_less_self less_imp_le
      zdiv_mono2 [of a 1 b, simplified])

section \<open>Time\<close>

type_synonym time = int
type_synonym duration = int

definition millisecond :: duration where "millisecond = 1000000"
definition second :: duration where "second = 1000000000"
definition minute :: duration where "minute = 60000000000"

text \<open>
  \<open>time.Time{}\<close> is midnight of January 1 of the year 1, 62135596800 seconds before the
  epoch; it is what a missing entry of a \<open>map[...]time.Time\<close> reads as.
\<close>

definition zero_time :: time where
  "zero_time = - 62135596800000000000"

text \<open>\<open>t.Sub(u)\<close> saturates at the ends of the \<open>int64\<close> range of a duration.\<close>

definition time_sub :: "time \<Rightarrow> time \<Rightarrow> duration" where
  "time_sub t u = max min_int64 (min max_int64 (t - u))"

text \<open>\<open>Duration.Milliseconds\<close> truncates toward zero, \<open>Time.UnixMilli\<close> rounds down.\<close>

definition dur_ms :: "duration \<Rightarrow> int" where
  "dur_ms d = go_div d 1000000"

definition unix_milli :: "time \<Rightarrow> int" where
  "unix_milli t = t div 1000000"

definition unix_sec :: "time \<Rightarrow> int" where
  "unix_sec t = t div 1000000000"

lemma time_sub_exact: "is_int64 (t - u) \<Longrightarrow> time_sub t u = t - u"
  by (simp add: time_sub_def is_int64_def)

lemma time_sub_mono: "t \<le> t' \<Longrightarrow> time_sub t u \<le> time_sub t' u"
  by (simp add: time_sub_def)

lemma time_sub_self [simp]: "time_sub t t = 0"
  by (simp add: time_sub_def)

lemma time_sub_nonneg: "u \<le> t \<Longrightarrow> 0 \<le> time_sub t u"
  by (simp add: time_sub_def)

lemma go_div_mono: "a \<le> a' \<Longrightarrow> 0 < b \<Longrightarrow> go_div a b \<le> go_div a' b"
proof -
  assume le: "a \<le> a'" and b: "0 < b"
  consider "0 \<le> a" | "a < 0" "0 \<le> a'" | "a' < 0" by linarith
  then show ?thesis
  proof cases
    case 1
    with le b show ?thesis by (simp add: go_div_nonneg zdiv_mono1)
  next
    case 2
    then have "go_div a b = - ((- a) div b)"
      using go_div_uminus [of "- a" b] go_div_nonneg [of "- a" b] b by simp
    moreover have "0 \<le> (- a) div b" using 2 b by (simp add: pos_imp_zdiv_nonneg_iff)
    moreover have "0 \<le> go_div a' b" using 2 b by (simp add: go_div_bound)
    ultimately show ?thesis by linarith
  next
    case 3
    with le have "a < 0" by linarith
    then have "go_div a b = - ((- a) div b)"
      using go_div_uminus [of "- a" b] go_div_nonneg [of "- a" b] b by simp
    moreover have "go_div a' b = - ((- a') div b)"
      using 3 go_div_uminus [of "- a'" b] go_div_nonneg [of "- a'" b] b by simp
    moreover have "(- a') div b \<le> (- a) div b" using le b by (simp add: zdiv_mono1)
    ultimately show ?thesis by linarith
  qed
qed

lemma dur_ms_mono: "d \<le> d' \<Longrightarrow> dur_ms d \<le> dur_ms d'"
  by (simp add: dur_ms_def go_div_mono)

lemma dur_ms_nonneg: "0 \<le> d \<Longrightarrow> 0 \<le> dur_ms d"
  by (simp add: dur_ms_def go_div_bound)

lemma dur_ms_0 [simp]: "dur_ms 0 = 0"
  by (simp add: dur_ms_def go_div_def)

lemma dur_ms_of_ms: "0 \<le> n \<Longrightarrow> dur_ms (n * 1000000) = n"
  by (simp add: dur_ms_def go_div_nonneg)

section \<open>Lists and maps\<close>

text \<open>
  \<open>slices.IndexFunc\<close>: the position of the first element that satisfies a predicate; the
  code's \<open>-1\<close> is \<open>None\<close>.
\<close>

fun find_index :: "('a \<Rightarrow> bool) \<Rightarrow> 'a list \<Rightarrow> nat option" where
  "find_index p [] = None"
| "find_index p (x # xs) = (if p x then Some 0 else map_option Suc (find_index p xs))"

lemma find_index_Some:
  "find_index p xs = Some i \<Longrightarrow> i < length xs \<and> p (xs ! i) \<and> (\<forall>j<i. \<not> p (xs ! j))"
proof (induction xs arbitrary: i)
  case Nil
  then show ?case by simp
next
  case (Cons x xs)
  show ?case
  proof (cases "p x")
    case True
    with Cons.prems show ?thesis by simp
  next
    case False
    with Cons.prems obtain k where k: "find_index p xs = Some k" and i: "i = Suc k" by auto
    from Cons.IH [OF k] have "k < length xs \<and> p (xs ! k) \<and> (\<forall>j<k. \<not> p (xs ! j))" .
    with False i show ?thesis by (auto simp: less_Suc_eq_0_disj)
  qed
qed

lemma find_index_None: "find_index p xs = None \<longleftrightarrow> (\<forall>x \<in> set xs. \<not> p x)"
  by (induction xs) auto

text \<open>\<open>append(xs[:i], xs[i+1:]...)\<close>.\<close>

definition remove_nth :: "nat \<Rightarrow> 'a list \<Rightarrow> 'a list" where
  "remove_nth i xs = take i xs @ drop (Suc i) xs"

lemma map_remove_nth: "map f (remove_nth i xs) = remove_nth i (map f xs)"
  by (simp add: remove_nth_def take_map drop_map)

lemma length_remove_nth: "i < length xs \<Longrightarrow> length (remove_nth i xs) = length xs - 1"
  by (simp add: remove_nth_def)

lemma mset_remove_nth: "i < length xs \<Longrightarrow> mset xs = add_mset (xs ! i) (mset (remove_nth i xs))"
proof -
  assume i: "i < length xs"
  have "mset xs = mset (take i xs @ xs ! i # drop (Suc i) xs)"
    using id_take_nth_drop [OF i] by simp
  then show ?thesis by (simp add: remove_nth_def)
qed

lemma set_remove_nth_distinct:
  "i < length xs \<Longrightarrow> distinct xs \<Longrightarrow> set (remove_nth i xs) = set xs - {xs ! i}"
proof -
  assume i: "i < length xs" and d: "distinct xs"
  from mset_remove_nth [OF i] have "set xs = insert (xs ! i) (set (remove_nth i xs))"
    by (metis set_mset_add_mset_insert set_mset_mset)
  moreover have "xs ! i \<notin> set (remove_nth i xs)"
    using d id_take_nth_drop [OF i] by (metis distinct.simps(2) distinct_append not_distinct_conv_prefix
        remove_nth_def Un_iff set_append disjoint_iff list.set_intros(1))
  ultimately show ?thesis by blast
qed

lemma distinct_remove_nth: "i < length xs \<Longrightarrow> distinct xs \<Longrightarrow> distinct (remove_nth i xs)"
proof -
  assume i: "i < length xs" and d: "distinct xs"
  from d i have "distinct (take i xs @ xs ! i # drop (Suc i) xs)"
    using id_take_nth_drop [OF i] by simp
  then show ?thesis by (auto simp: remove_nth_def)
qed

lemma remove_nth_simps [simp]:
  "remove_nth 0 (x # xs) = xs"
  "remove_nth (Suc i) (x # xs) = x # remove_nth i xs"
  by (simp_all add: remove_nth_def)

lemma remove_nth_filter:
  "distinct (map f xs) \<Longrightarrow> i < length xs \<Longrightarrow> f (xs ! i) = k \<Longrightarrow>
   remove_nth i xs = filter (\<lambda>x. f x \<noteq> k) xs"
proof (induction xs arbitrary: i)
  case Nil
  then show ?case by simp
next
  case (Cons x xs)
  show ?case
  proof (cases i)
    case 0
    with Cons.prems have "k \<notin> f ` set xs" by simp
    then have "\<forall>y \<in> set xs. f y \<noteq> k" by blast
    with 0 Cons.prems show ?thesis by (simp add: filter_id_conv)
  next
    case (Suc j)
    with Cons.prems have "xs ! j \<in> set xs" and "f (xs ! j) = k" and "f x \<notin> f ` set xs"
      by simp_all
    then have "f x \<noteq> k" by (metis imageI)
    moreover have "remove_nth j xs = filter (\<lambda>x. f x \<noteq> k) xs"
    proof (rule Cons.IH)
      show "distinct (map f xs)" using Cons.prems(1) by simp
      show "j < length xs" using Cons.prems(2) Suc by simp
      show "f (xs ! j) = k" by fact
    qed
    ultimately show ?thesis using Suc by simp
  qed
qed

lemma in_set_tl: "x \<in> set (tl xs) \<Longrightarrow> x \<in> set xs"
  by (cases xs) simp_all

end
