(* ===== verification/Go_Float.thy ===== *)
theory Go_Float
  imports Complex_Main Go_Base
begin

text \<open>
  Go's \<open>float64\<close> arithmetic as the model uses it: a value is the rational number it stands
  for, and every operation rounds its exact result to 53 significant bits, ties to even
  (\<open>fl64\<close>).  The exponent is unbounded here: the values the code computes with (a number of
  milliseconds times a playback rate, a number of viewers times a threshold) stay far from
  the ends of the exponent range, and products of an integer with a subnormal number are
  exact in both readings.
\<close>

fun nbits :: "nat \<Rightarrow> nat" where
  "nbits n = (if n = 0 then 0 else Suc (nbits (n div 2)))"

declare nbits.simps [simp del]

definition pow2 :: "int \<Rightarrow> rat" where
  "pow2 k = (if 0 \<le> k then 2 ^ nat k else 1 / 2 ^ nat (- k))"

text \<open>\<open>ilog2 x\<close> is the exponent of a positive \<open>x\<close>: the \<open>k\<close> with \<open>2^k \<le> x < 2^(k+1)\<close>.\<close>

definition ilog2 :: "rat \<Rightarrow> int" where
  "ilog2 x = (let (p, q) = quotient_of x; k = int (nbits (nat p)) - int (nbits (nat q))
     in if pow2 k \<le> x then k else k - 1)"

definition rne :: "rat \<Rightarrow> int" where
  "rne x = (let f = \<lfloor>x\<rfloor>; r = x - of_int f
     in if r < 1 / 2 then f else if 1 / 2 < r then f + 1 else if even f then f else f + 1)"

definition fl64 :: "rat \<Rightarrow> rat" where
  "fl64 x = (if x = 0 then 0
     else let e = ilog2 \<bar>x\<bar> - 52 in sgn x * of_int (rne (\<bar>x\<bar> / pow2 e)) * pow2 e)"

definition f64_mul :: "rat \<Rightarrow> rat \<Rightarrow> rat" where
  "f64_mul a b = fl64 (a * b)"

definition f64_div :: "rat \<Rightarrow> rat \<Rightarrow> rat" where
  "f64_div a b = fl64 (a / b)"

definition f64_of_int :: "int \<Rightarrow> rat" where
  "f64_of_int n = fl64 (of_int n)"

text \<open>\<open>int64(x)\<close> of a float in range drops the fraction.\<close>

definition f64_trunc :: "rat \<Rightarrow> int" where
  "f64_trunc x = (if 0 \<le> x then \<lfloor>x\<rfloor> else - \<lfloor>- x\<rfloor>)"

definition is_f64 :: "rat \<Rightarrow> bool" where
  "is_f64 x \<longleftrightarrow> (\<exists>m e. x = of_int m * pow2 e \<and> \<bar>m\<bar> \<le> 2 ^ 53)"

section \<open>Powers of two\<close>

lemma pow2_powi: "pow2 k = 2 powi k"
  unfolding pow2_def power_int_def by (simp add: inverse_eq_divide power_one_over)

lemma pow2_pos [simp]: "0 < pow2 k"
  by (simp add: pow2_def)

lemma pow2_nonneg [simp]: "0 \<le> pow2 k"
  by (simp add: less_imp_le)

lemma pow2_nonzero [simp]: "pow2 k \<noteq> 0"
  by (simp add: less_imp_neq [symmetric])

lemma pow2_not_neg [simp]: "\<not> pow2 k < 0"
  by (simp add: not_less)

lemma pow2_add: "pow2 (a + b) = pow2 a * pow2 b"
  by (simp add: pow2_powi power_int_add)

lemma pow2_sum: "c = a + b \<Longrightarrow> pow2 c = pow2 a * pow2 b"
  by (simp add: pow2_add)

lemma pow2_52: "pow2 52 = 2 ^ 52" and pow2_53: "pow2 53 = 2 ^ 53"
  by (simp_all add: pow2_def)

lemma pow2_mono: "a \<le> b \<Longrightarrow> pow2 a \<le> pow2 b"
  by (simp add: pow2_powi power_int_increasing)

lemma pow2_less: "pow2 a < pow2 b \<Longrightarrow> a < b"
  using pow2_mono [of b a] by (meson not_le)

lemma pow2_nat [simp]: "pow2 (int n) = 2 ^ n"
  by (simp add: pow2_def)

lemma pow2_diff: "pow2 a / pow2 b = pow2 (a - b)"
  by (simp add: pow2_powi power_int_diff)

section \<open>The exponent\<close>

lemma nbits_bounds: "0 < n \<Longrightarrow> 2 ^ (nbits n - 1) \<le> n \<and> n < 2 ^ nbits n"
proof (induction n rule: nbits.induct)
  case (1 n)
  show ?case
  proof (cases "n div 2 = 0")
    case True
    with "1.prems" have "n = 1" by linarith
    then show ?thesis by (simp add: nbits.simps)
  next
    case False
    then have "0 < n div 2" by simp
    with "1.IH" "1.prems" have ih: "2 ^ (nbits (n div 2) - 1) \<le> n div 2 \<and> n div 2 < 2 ^ nbits (n div 2)"
      by simp
    have nb: "nbits n = Suc (nbits (n div 2))" using "1.prems" by (simp add: nbits.simps [of n])
    have "nbits (n div 2) \<noteq> 0" using False by (simp add: nbits.simps [of "n div 2"])
    then have "2 ^ nbits (n div 2) = (2::nat) * 2 ^ (nbits (n div 2) - 1)"
      by (metis power_eq_if)
    with ih have "2 ^ nbits (n div 2) \<le> 2 * (n div 2)" and "n div 2 + 1 \<le> 2 ^ nbits (n div 2)"
      by linarith+
    moreover have "2 * (n div 2) \<le> n" and "n \<le> 2 * (n div 2) + 1" by linarith+
    moreover have "(2::nat) ^ nbits n = 2 * 2 ^ nbits (n div 2)" and "nbits n - 1 = nbits (n div 2)"
      by (simp_all add: nb)
    ultimately show ?thesis by (simp only:) linarith
  qed
qed

lemma ilog2_bounds:
  assumes x: "0 < x"
  shows "pow2 (ilog2 x) \<le> x \<and> x < pow2 (ilog2 x + 1)"
proof -
  obtain p q where pq: "quotient_of x = (p, q)" by (cases "quotient_of x")
  then have q0: "0 < q" by (rule quotient_of_denom_pos)
  have xq: "x = of_int p / of_int q" using pq by (rule quotient_of_div)
  with x q0 have p0: "0 < p" by (simp add: zero_less_divide_iff)
  define bp where "bp = nbits (nat p)"
  define bq where "bq = nbits (nat q)"
  define k where "k = int bp - int bq"
  have bp: "2 ^ (bp - 1) \<le> nat p" "nat p < 2 ^ bp"
    using nbits_bounds [of "nat p"] p0 by (simp_all add: bp_def)
  have bq: "2 ^ (bq - 1) \<le> nat q" "nat q < 2 ^ bq"
    using nbits_bounds [of "nat q"] q0 by (simp_all add: bq_def)
  have bp1: "bp \<ge> 1" and bq1: "bq \<ge> 1"
    using p0 q0 by (simp_all add: bp_def bq_def nbits.simps [of "nat p"] nbits.simps [of "nat q"])
  have P: "pow2 (int bp - 1) \<le> of_int p" "of_int p < pow2 (int bp)"
  proof -
    have "int (2 ^ (bp - 1)) \<le> p" using bp(1) p0 by linarith
    then have "(of_int (int (2 ^ (bp - 1))) :: rat) \<le> of_int p" by (simp only: of_int_le_iff)
    moreover have "pow2 (int bp - 1) = 2 ^ (bp - 1)" using bp1 by (simp add: pow2_def nat_diff_distrib)
    ultimately show "pow2 (int bp - 1) \<le> of_int p" by simp
    have "p < int (2 ^ bp)" using bp(2) p0 by linarith
    then have "(of_int p :: rat) < of_int (int (2 ^ bp))" by (simp only: of_int_less_iff)
    then show "of_int p < pow2 (int bp)" by simp
  qed
  have Q: "pow2 (int bq - 1) \<le> of_int q" "of_int q < pow2 (int bq)"
  proof -
    have "int (2 ^ (bq - 1)) \<le> q" using bq(1) q0 by linarith
    then have "(of_int (int (2 ^ (bq - 1))) :: rat) \<le> of_int q" by (simp only: of_int_le_iff)
    moreover have "pow2 (int bq - 1) = 2 ^ (bq - 1)" using bq1 by (simp add: pow2_def nat_diff_distrib)
    ultimately show "pow2 (int bq - 1) \<le> of_int q" by simp
    have "q < int (2 ^ bq)" using bq(2) q0 by linarith
    then have "(of_int q :: rat) < of_int (int (2 ^ bq))" by (simp only: of_int_less_iff)
    then show "of_int q < pow2 (int bq)" by simp
  qed
  have qr: "(0::rat) < of_int q" using q0 by simp
  have lo: "pow2 (k - 1) \<le> x"
  proof -
    have "pow2 (k - 1) * of_int q \<le> pow2 (k - 1) * pow2 (int bq)" using Q(2) by simp
    also have "\<dots> = pow2 (int bp - 1)" by (rule pow2_sum [symmetric]) (simp add: k_def)
    also have "\<dots> \<le> of_int p" by (rule P(1))
    finally show ?thesis using qr by (simp add: xq pos_le_divide_eq)
  qed
  have hi: "x < pow2 (k + 1)"
  proof -
    have "of_int p < pow2 (int bp)" by (rule P(2))
    also have "\<dots> = pow2 (k + 1) * pow2 (int bq - 1)" by (rule pow2_sum) (simp add: k_def)
    also have "\<dots> \<le> pow2 (k + 1) * of_int q" using Q(1) by simp
    finally show ?thesis using qr by (simp add: xq pos_divide_less_eq)
  qed
  have "ilog2 x = (if pow2 k \<le> x then k else k - 1)"
    by (simp add: ilog2_def pq Let_def k_def bp_def bq_def)
  with lo hi show ?thesis by (auto simp: not_le)
qed

lemma ilog2_mono: "0 < x \<Longrightarrow> x \<le> y \<Longrightarrow> ilog2 x \<le> ilog2 y"
proof -
  assume x: "0 < x" and xy: "x \<le> y"
  then have "pow2 (ilog2 x) < pow2 (ilog2 y + 1)"
    using ilog2_bounds [of x] ilog2_bounds [of y] by linarith
  then show ?thesis using pow2_less by force
qed

section \<open>Rounding\<close>

lemma rne_of_int [simp]: "rne (of_int n) = n"
  by (simp add: rne_def)

lemma rne_floor: "rne x = \<lfloor>x\<rfloor> \<or> rne x = \<lfloor>x\<rfloor> + 1"
  by (simp add: rne_def Let_def)

lemma rne_mono: "x \<le> y \<Longrightarrow> rne x \<le> rne y"
proof -
  assume xy: "x \<le> y"
  then have f: "\<lfloor>x\<rfloor> \<le> \<lfloor>y\<rfloor>" by (rule floor_mono)
  show ?thesis
  proof (cases "\<lfloor>x\<rfloor> = \<lfloor>y\<rfloor>")
    case True
    then show ?thesis using xy by (auto simp: rne_def Let_def)
  next
    case False
    with f have "\<lfloor>x\<rfloor> + 1 \<le> \<lfloor>y\<rfloor>" by linarith
    then show ?thesis using rne_floor [of x] rne_floor [of y] by linarith
  qed
qed

lemma rne_ge_int: "of_int n \<le> x \<Longrightarrow> n \<le> rne x"
  using rne_mono [of "of_int n" x] by simp

lemma rne_le_int: "x \<le> of_int n \<Longrightarrow> rne x \<le> n"
  using rne_mono [of x "of_int n"] by simp

lemma fl64_0 [simp]: "fl64 0 = 0"
  by (simp add: fl64_def)

lemma fl64_pos: "0 < x \<Longrightarrow> fl64 x = of_int (rne (x / pow2 (ilog2 x - 52))) * pow2 (ilog2 x - 52)"
  by (simp add: fl64_def Let_def)

lemma fl64_minus: "fl64 (- x) = - fl64 x"
  by (simp add: fl64_def Let_def sgn_minus)

lemma scaled_bounds:
  assumes x: "0 < x"
  shows "2 ^ 52 \<le> x / pow2 (ilog2 x - 52) \<and> x / pow2 (ilog2 x - 52) < 2 ^ 53"
proof -
  have "pow2 (ilog2 x) = 2 ^ 52 * pow2 (ilog2 x - 52)"
    unfolding pow2_52 [symmetric] by (rule pow2_sum) simp
  moreover have "pow2 (ilog2 x + 1) = 2 ^ 53 * pow2 (ilog2 x - 52)"
    unfolding pow2_53 [symmetric] by (rule pow2_sum) simp
  ultimately show ?thesis
    using ilog2_bounds [OF x] by (simp add: pos_le_divide_eq pos_divide_less_eq)
qed

lemma fl64_pos_bounds:
  assumes x: "0 < x"
  shows "pow2 (ilog2 x) \<le> fl64 x \<and> fl64 x \<le> pow2 (ilog2 x + 1)"
proof -
  let ?e = "ilog2 x - 52"
  let ?r = "rne (x / pow2 ?e)"
  have "(2::int) ^ 52 \<le> ?r" using scaled_bounds [OF x] by (intro rne_ge_int) simp
  then have lo: "(2::rat) ^ 52 \<le> of_int ?r"
    by (metis of_int_le_iff of_int_numeral of_int_power)
  have "?r \<le> (2::int) ^ 53" using scaled_bounds [OF x] by (intro rne_le_int) simp
  then have hi: "of_int ?r \<le> (2::rat) ^ 53"
    by (metis of_int_le_iff of_int_numeral of_int_power)
  have "pow2 (ilog2 x) = 2 ^ 52 * pow2 ?e"
    unfolding pow2_52 [symmetric] by (rule pow2_sum) simp
  moreover have "pow2 (ilog2 x + 1) = 2 ^ 53 * pow2 ?e"
    unfolding pow2_53 [symmetric] by (rule pow2_sum) simp
  moreover have "2 ^ 52 * pow2 ?e \<le> of_int ?r * pow2 ?e" using lo by (intro mult_right_mono) simp_all
  moreover have "of_int ?r * pow2 ?e \<le> 2 ^ 53 * pow2 ?e" using hi by (intro mult_right_mono) simp_all
  ultimately show ?thesis by (simp add: fl64_pos [OF x])
qed

lemma fl64_mono_pos:
  assumes x: "0 < x" and xy: "x \<le> y"
  shows "fl64 x \<le> fl64 y"
proof (cases "ilog2 x = ilog2 y")
  case True
  have y: "0 < y" using x xy by linarith
  let ?p = "pow2 (ilog2 y - 52)"
  have "x / ?p \<le> y / ?p" using xy by (rule divide_right_mono) simp
  then have "rne (x / ?p) \<le> rne (y / ?p)" by (rule rne_mono)
  then show ?thesis using x y True by (simp add: fl64_pos)
next
  case False
  have y: "0 < y" using x xy by linarith
  from False ilog2_mono [OF x xy] have "ilog2 x + 1 \<le> ilog2 y" by linarith
  then have "pow2 (ilog2 x + 1) \<le> pow2 (ilog2 y)" by (rule pow2_mono)
  then show ?thesis using fl64_pos_bounds [OF x] fl64_pos_bounds [OF y] by linarith
qed

lemma fl64_nonneg: "0 \<le> x \<Longrightarrow> 0 \<le> fl64 x"
proof (cases "x = 0")
  case False
  moreover assume "0 \<le> x"
  ultimately have "pow2 (ilog2 x) \<le> fl64 x" using fl64_pos_bounds [of x] by simp
  then show ?thesis by (rule order_trans [OF pow2_nonneg])
qed simp

lemma fl64_mono: "x \<le> y \<Longrightarrow> fl64 x \<le> fl64 y"
proof -
  assume xy: "x \<le> y"
  consider "0 < x" | "x \<le> 0" "0 \<le> y" | "y < 0" by linarith
  then show ?thesis
  proof cases
    case 1
    then show ?thesis using xy by (rule fl64_mono_pos)
  next
    case 2
    then have "0 \<le> fl64 (- x)" and "0 \<le> fl64 y" by (simp_all add: fl64_nonneg)
    then show ?thesis by (simp add: fl64_minus)
  next
    case 3
    then have "fl64 (- y) \<le> fl64 (- x)" using xy by (intro fl64_mono_pos) simp_all
    then show ?thesis by (simp add: fl64_minus)
  qed
qed

lemma fl64_exact_pos:
  assumes x: "0 < x" and f: "is_f64 x"
  shows "fl64 x = x"
proof -
  obtain m e where me: "x = of_int m * pow2 e" and m: "\<bar>m\<bar> \<le> 2 ^ 53"
    using f by (auto simp: is_f64_def)
  have m0: "0 < m" using x me by (simp add: zero_less_mult_iff)
  let ?e = "ilog2 x - 52"
  have "\<exists>n. x / pow2 ?e = of_int n"
  proof (cases "?e \<le> e")
    case True
    then have "pow2 e / pow2 ?e = pow2 (int (nat (e - ?e)))" by (simp add: pow2_diff)
    then have "of_int m * (pow2 e / pow2 ?e) = of_int (m * 2 ^ nat (e - ?e))"
      by (simp only: pow2_nat of_int_mult of_int_power of_int_numeral)
    then have "x / pow2 ?e = of_int (m * 2 ^ nat (e - ?e))" unfolding me by simp
    then show ?thesis by blast
  next
    case False
    have "of_int m \<le> (2::rat) ^ 53"
      using m m0 by (metis abs_of_pos of_int_le_iff of_int_numeral of_int_power)
    then have "x \<le> pow2 53 * pow2 e" using me by (simp add: pow2_def [of 53])
    also have "\<dots> = pow2 (e + 53)" by (simp add: pow2_add)
    finally have le: "x \<le> pow2 (e + 53)" .
    moreover have "pow2 (ilog2 x) \<le> x" using ilog2_bounds [OF x] by simp
    moreover have "pow2 (e + 53) \<le> pow2 (ilog2 x)" using False by (intro pow2_mono) simp
    ultimately have "x = pow2 (ilog2 x)" by linarith
    then have "x / pow2 ?e = pow2 (ilog2 x) / pow2 ?e" by simp
    also have "\<dots> = pow2 52" by (simp add: pow2_diff)
    also have "\<dots> = of_int (2 ^ 52)" by (simp add: pow2_def)
    finally show ?thesis by blast
  qed
  then obtain n where n: "x / pow2 ?e = of_int n" by blast
  then have "rne (x / pow2 ?e) = n" by simp
  with n show ?thesis by (simp add: fl64_pos [OF x] field_simps)
qed

lemma is_f64_minus: "is_f64 x \<Longrightarrow> is_f64 (- x)"
proof -
  assume "is_f64 x"
  then obtain m e where "x = of_int m * pow2 e" and "\<bar>m\<bar> \<le> 2 ^ 53" by (auto simp: is_f64_def)
  then have "- x = of_int (- m) * pow2 e \<and> \<bar>- m\<bar> \<le> 2 ^ 53" by simp
  then show ?thesis unfolding is_f64_def by blast
qed

lemma fl64_exact: "is_f64 x \<Longrightarrow> fl64 x = x"
proof -
  assume f: "is_f64 x"
  consider "x = 0" | "0 < x" | "0 < - x" by linarith
  then show ?thesis
  proof cases
    case 3
    then have "fl64 (- x) = - x" using f by (intro fl64_exact_pos is_f64_minus)
    then show ?thesis by (simp add: fl64_minus)
  qed (use f in \<open>simp_all add: fl64_exact_pos\<close>)
qed

lemma is_f64_scaled: "\<bar>m\<bar> \<le> 2 ^ 53 \<Longrightarrow> is_f64 (of_int m / 2 ^ k)"
proof -
  assume "\<bar>m\<bar> \<le> 2 ^ 53"
  moreover have "of_int m / 2 ^ k = of_int m * pow2 (- int k)"
    by (simp add: pow2_def)
  ultimately show ?thesis unfolding is_f64_def by blast
qed

lemma is_f64_int: "\<bar>m\<bar> \<le> 2 ^ 53 \<Longrightarrow> is_f64 (of_int m)"
  using is_f64_scaled [of m 0] by simp

lemma f64_of_int_exact: "\<bar>n\<bar> \<le> 2 ^ 53 \<Longrightarrow> f64_of_int n = of_int n"
  by (simp add: f64_of_int_def fl64_exact is_f64_int)

section \<open>Truncation\<close>

lemma f64_trunc_of_int [simp]: "f64_trunc (of_int n) = n"
  by (simp add: f64_trunc_def)

lemma f64_trunc_mono: "x \<le> y \<Longrightarrow> f64_trunc x \<le> f64_trunc y"
proof -
  assume xy: "x \<le> y"
  consider "0 \<le> x" | "x < 0" "0 \<le> y" | "y < 0" by linarith
  then show ?thesis
  proof cases
    case 1
    with xy show ?thesis by (simp add: f64_trunc_def floor_mono)
  next
    case 2
    then have "0 \<le> \<lfloor>- x\<rfloor>" and "0 \<le> \<lfloor>y\<rfloor>" by (simp_all only: zero_le_floor)
    moreover have "f64_trunc x = - \<lfloor>- x\<rfloor>" using 2(1) by (simp add: f64_trunc_def)
    moreover have "f64_trunc y = \<lfloor>y\<rfloor>" using 2(2) by (simp add: f64_trunc_def)
    ultimately show ?thesis by linarith
  next
    case 3
    with xy have "\<lfloor>- y\<rfloor> \<le> \<lfloor>- x\<rfloor>" by (intro floor_mono) simp
    with 3 xy show ?thesis by (simp add: f64_trunc_def)
  qed
qed

lemma f64_trunc_nonneg: "0 \<le> x \<Longrightarrow> 0 \<le> f64_trunc x"
  by (simp add: f64_trunc_def)

lemma f64_trunc_le: "0 \<le> x \<Longrightarrow> of_int (f64_trunc x) \<le> x \<and> x < of_int (f64_trunc x) + 1"
  unfolding f64_trunc_def using floor_correct [of x] by simp

end
