(* ===== verification/Entity.thy ===== *)
theory Entity
  imports Go_Float
begin

text \<open>
  The domain types of \<open>internal/entity\<close>: users, rooms, memberships, bans, mutes, invite
  links, media, queue items and messages, with the predicates the package defines on them.
  A pointer field is an \<open>option\<close>, an identifier a \<open>uuid\<close>, a Go string a list of bytes.
  Fields carry a prefix because record selectors are global constants.
\<close>

section \<open>Users (\<open>user.go\<close>)\<close>

datatype site_role = SiteUser | SiteAdmin

record user =
  u_id :: uuid
  u_name :: string
  u_password_hash :: string
  u_role :: site_role
  u_banned_at :: "time option"
  u_banned_reason :: "string option"
  u_banned_by :: "uuid option"
  u_created :: time
  u_color :: string

definition avatar_colors :: "string list" where
  "avatar_colors =
     [''amber'', ''coral'', ''rose'', ''violet'', ''sky'', ''teal'', ''lime'', ''slate'']"

definition valid_avatar_color :: "string \<Rightarrow> bool" where
  "valid_avatar_color c \<longleftrightarrow> c = '''' \<or> c \<in> set avatar_colors"

definition user_is_admin :: "user option \<Rightarrow> bool" where
  "user_is_admin u = (case u of None \<Rightarrow> False | Some v \<Rightarrow> u_role v = SiteAdmin)"

definition user_is_banned :: "user option \<Rightarrow> bool" where
  "user_is_banned u = (case u of None \<Rightarrow> False | Some v \<Rightarrow> u_banned_at v \<noteq> None)"

record session =
  s_token_hash :: "nat list"
  s_id :: uuid
  s_user :: uuid
  s_user_agent :: string
  s_created :: time
  s_last_seen :: time
  s_expires :: time

section \<open>Rooms (\<open>room.go\<close>)\<close>

datatype visibility = VisPublic | VisPrivate

text \<open>\<open>RoleNone\<close> is the empty string, the role of somebody who is not a member.\<close>

datatype room_role = RoleNone | RoleOwner | RoleModerator | RoleMember

definition is_moderator :: "room_role \<Rightarrow> bool" where
  "is_moderator r \<longleftrightarrow> r = RoleOwner \<or> r = RoleModerator"

record settings =
  vote_mode :: bool
  skip_threshold :: rat
  viewers_can_add :: bool
  loop_queue :: bool
  slow_mode_sec :: int
  pause_when_empty :: bool
  wait_for_buffering :: bool
  fair_queue :: bool

definition default_settings :: settings where
  "default_settings = \<lparr>vote_mode = False, skip_threshold = 1 / 2, viewers_can_add = True,
     loop_queue = False, slow_mode_sec = 0, pause_when_empty = True,
     wait_for_buffering = True, fair_queue = False\<rparr>"

text \<open>
  A \<open>Room\<close> row.  The playback columns are the persisted clock (\<open>Clock.clock_from\<close>).
\<close>

record room_info =
  ri_id :: uuid
  ri_slug :: string
  ri_name :: string
  ri_owner :: uuid
  ri_visibility :: visibility
  ri_description :: string
  ri_settings :: settings
  ri_current :: "uuid option"
  ri_playing :: bool
  ri_position_ms :: int
  ri_position_at :: time
  ri_rate :: rat
  ri_pinned :: "int option"
  ri_scheduled :: "time option"
  ri_created :: time
  ri_updated :: time

definition room_is_public :: "room_info option \<Rightarrow> bool" where
  "room_is_public r = (case r of None \<Rightarrow> False | Some i \<Rightarrow> ri_visibility i = VisPublic)"

record room_member =
  rm_room :: uuid
  rm_user :: uuid
  rm_username :: string
  rm_role :: room_role
  rm_joined :: time

record room_ban =
  rb_room :: uuid
  rb_user :: uuid
  rb_username :: string
  rb_banned_by :: "uuid option"
  rb_reason :: string
  rb_created :: time

datatype invite_status = InvitePending | InviteAccepted | InviteDeclined

record invite =
  iv_id :: uuid
  iv_room :: uuid
  iv_room_slug :: string
  iv_room_name :: string
  iv_invitee :: uuid
  iv_inviter :: "uuid option"
  iv_inviter_name :: string
  iv_status :: invite_status
  iv_created :: time

record room_mute =
  mu_room :: uuid
  mu_user :: uuid
  mu_username :: string
  mu_muted_by :: "uuid option"
  mu_reason :: string
  mu_until :: time
  mu_created :: time

definition mute_active :: "room_mute option \<Rightarrow> time \<Rightarrow> bool" where
  "mute_active m t = (case m of None \<Rightarrow> False | Some x \<Rightarrow> t < mu_until x)"

record invite_link =
  il_id :: uuid
  il_room :: uuid
  il_room_slug :: string
  il_room_name :: string
  il_created_by :: "uuid option"
  il_creator :: string
  il_expires :: "time option"
  il_max_uses :: "int option"
  il_uses :: int
  il_revoked :: "time option"
  il_created :: time

text \<open>\<open>Usable\<close> returns whether the link admits people and, when not, the reason.\<close>

definition link_usable :: "invite_link \<Rightarrow> time \<Rightarrow> bool \<times> string" where
  "link_usable l t =
     (if il_revoked l \<noteq> None then (False, ''revoked'')
      else if (case il_expires l of None \<Rightarrow> False | Some e \<Rightarrow> \<not> t < e) then (False, ''expired'')
      else if (case il_max_uses l of None \<Rightarrow> False | Some n \<Rightarrow> n \<le> il_uses l) then (False, ''used up'')
      else (True, ''''))"

section \<open>Media (\<open>media.go\<close>)\<close>

datatype media_status =
  MediaQueued | MediaProbing | MediaDownloading | MediaPackaging | MediaUploading
  | MediaReady | MediaFailed

record rendition =
  rd_id :: string
  rd_height :: int
  rd_width :: int
  rd_codec :: string
  rd_bitrate :: int

record subtitle =
  sub_lang :: string
  sub_name :: string
  sub_auto :: bool

record media_chapter =
  ch_start_ms :: int
  ch_end_ms :: int
  ch_title :: string

record storyboard =
  sb_interval_ms :: int
  sb_width :: int
  sb_height :: int
  sb_cols :: int
  sb_rows :: int
  sb_count :: int
  sb_sheets :: int

record media =
  m_id :: uuid
  m_source_key :: string
  m_source_url :: string
  m_title :: string
  m_duration_ms :: int
  m_thumbnail_url :: string
  m_status :: media_status
  m_progress :: rat
  m_speed_bps :: int
  m_eta_ms :: int
  m_error :: string
  m_size_bytes :: int
  m_renditions :: "rendition list"
  m_subtitles :: "subtitle list"
  m_chapters :: "media_chapter list"
  m_storyboard :: "storyboard option"
  m_s3_prefix :: string
  m_created :: time
  m_updated :: time
  m_last_accessed :: time

text \<open>\<open>IsReady\<close> is called on nil pointers too: a missing row is not ready.\<close>

definition media_is_ready :: "media option \<Rightarrow> bool" where
  "media_is_ready m = (case m of None \<Rightarrow> False | Some x \<Rightarrow> m_status x = MediaReady)"

definition media_in_progress :: "media \<Rightarrow> bool" where
  "media_in_progress m = (case m_status m of
      MediaQueued \<Rightarrow> True | MediaProbing \<Rightarrow> True | MediaDownloading \<Rightarrow> True
    | MediaPackaging \<Rightarrow> True | MediaUploading \<Rightarrow> True | _ \<Rightarrow> False)"

section \<open>Queue items and messages (\<open>queue.go\<close>, \<open>message.go\<close>)\<close>

record queue_item =
  qi_id :: uuid
  qi_room :: uuid
  qi_media :: uuid
  qi_added_by :: "uuid option"
  qi_added_name :: string
  qi_rank :: string
  qi_votes :: int
  qi_created :: time
  qi_played :: "time option"

record playback_state =
  ps_current :: "uuid option"
  ps_playing :: bool
  ps_position_ms :: int
  ps_position_at :: time
  ps_rate :: rat

record quote =
  qt_id :: int
  qt_username :: string
  qt_body :: string

record message =
  ms_id :: int
  ms_room :: uuid
  ms_user :: "uuid option"
  ms_username :: string
  ms_color :: string
  ms_body :: string
  ms_system :: bool
  ms_created :: time
  ms_edited :: "time option"
  ms_deleted :: "time option"
  ms_deleted_by :: "uuid option"
  ms_reply :: "quote option"

section \<open>Reports (\<open>report.go\<close>)\<close>

definition report_reasons :: "string list" where
  "report_reasons = [''copyright'', ''illegal'', ''nsfw'', ''other'']"

definition valid_report_reason :: "string \<Rightarrow> bool" where
  "valid_report_reason r \<longleftrightarrow> r \<in> set report_reasons"

definition bug_category_valid :: "string \<Rightarrow> bool" where
  "bug_category_valid c \<longleftrightarrow>
     c \<in> set [''playback'', ''sync'', ''subtitles'', ''chat'', ''other'']"

section \<open>Facts\<close>

lemma media_in_progress_iff:
  "media_in_progress m \<longleftrightarrow> m_status m \<noteq> MediaReady \<and> m_status m \<noteq> MediaFailed"
  by (cases "m_status m") (simp_all add: media_in_progress_def)

lemma media_is_ready_simps [simp]:
  "media_is_ready None = False"
  "media_is_ready (Some m) \<longleftrightarrow> m_status m = MediaReady"
  by (simp_all add: media_is_ready_def)

lemma user_is_simps [simp]:
  "user_is_banned None = False"
  "user_is_admin None = False"
  "user_is_banned (Some u) \<longleftrightarrow> u_banned_at u \<noteq> None"
  "user_is_admin (Some u) \<longleftrightarrow> u_role u = SiteAdmin"
  by (simp_all add: user_is_banned_def user_is_admin_def)

lemma room_is_public_simps [simp]:
  "room_is_public None = False"
  "room_is_public (Some i) \<longleftrightarrow> ri_visibility i = VisPublic"
  by (simp_all add: room_is_public_def)

end
