(* ===== verification/Protocol.thy ===== *)
theory Protocol
  imports Entity "HOL-Library.Word"
begin

text \<open>
  \<open>internal/protocol\<close>: the messages of the room WebSocket.  The client's messages are the
  constructors of \<open>client_msg\<close>, as \<open>DecodeEnvelope\<close> types them; the server's are records,
  gathered in \<open>server_msg\<close> for what a connection is sent.  The JSON text itself is the
  standard library's business; \<open>decode_shape\<close> is the part of the decoder that decides which
  shape a message type has.
\<close>

section \<open>Client to server\<close>

record settings_set =
  ss_vote_mode :: "bool option"
  ss_skip_threshold :: "rat option"
  ss_viewers_can_add :: "bool option"
  ss_loop :: "bool option"
  ss_slow_mode_sec :: "int option"
  ss_pause_when_empty :: "bool option"
  ss_wait_for_buffering :: "bool option"
  ss_fair_queue :: "bool option"

datatype client_msg =
  CPing int
| CPlay bool
| CPause
| CSeek int
| CNext
| CJump uuid
| CQueueAdd string bool bool
| CQueueRemove uuid
| CQueueMove uuid "uuid option"
| CQueueRetry uuid
| CQueueVote uuid
| CQueueReplay uuid
| CQueueClearPlayed
| CQueueClear
| CQueueShuffle
| CQueueAddMany "string list" bool
| CSkipVote
| CSettingsSet settings_set
| CSessionEnd
| CRateSet rat
| CChatSend string "int option"
| CChatDelete int
| CChatEdit int string
| CChatClear
| CChatPin int
| CChatUnpin
| CChatTyping
| CReact string
| CReport string int

text \<open>The \<open>type\<close> field of each client message.\<close>

fun client_type :: "client_msg \<Rightarrow> string" where
  "client_type (CPing _) = ''ping''"
| "client_type (CPlay _) = ''play''"
| "client_type CPause = ''pause''"
| "client_type (CSeek _) = ''seek''"
| "client_type CNext = ''next''"
| "client_type (CJump _) = ''jump''"
| "client_type (CQueueAdd _ _ _) = ''queue.add''"
| "client_type (CQueueRemove _) = ''queue.remove''"
| "client_type (CQueueMove _ _) = ''queue.move''"
| "client_type (CQueueRetry _) = ''queue.retry''"
| "client_type (CQueueVote _) = ''queue.vote''"
| "client_type (CQueueReplay _) = ''queue.replay''"
| "client_type CQueueClearPlayed = ''queue.clearPlayed''"
| "client_type CQueueClear = ''queue.clear''"
| "client_type CQueueShuffle = ''queue.shuffle''"
| "client_type (CQueueAddMany _ _) = ''queue.addMany''"
| "client_type CSkipVote = ''skip.vote''"
| "client_type (CSettingsSet _) = ''settings.set''"
| "client_type CSessionEnd = ''session.end''"
| "client_type (CRateSet _) = ''rate.set''"
| "client_type (CChatSend _ _) = ''chat.send''"
| "client_type (CChatDelete _) = ''chat.delete''"
| "client_type (CChatEdit _ _) = ''chat.edit''"
| "client_type CChatClear = ''chat.clear''"
| "client_type (CChatPin _) = ''chat.pin''"
| "client_type CChatUnpin = ''chat.unpin''"
| "client_type CChatTyping = ''chat.typing''"
| "client_type (CReact _) = ''react''"
| "client_type (CReport _ _) = ''report''"

text \<open>
  The switch of \<open>DecodeEnvelope\<close>: the struct a message of the type is decoded into; a type
  with no body has \<open>ShNone\<close>, an unknown type is an error.
\<close>

datatype shape =
  ShNone | ShPing | ShPlay | ShSeek | ShRateSet | ShItemRef | ShQueueAdd | ShQueueAddMany
| ShQueueMove | ShSettingsSet | ShChatSend | ShChatDelete | ShChatEdit | ShChatPin | ShReact
| ShReport

definition decode_shape :: "string \<Rightarrow> shape option" where
  "decode_shape typ =
     (if typ = ''ping'' then Some ShPing
      else if typ = ''play'' then Some ShPlay
      else if typ \<in> {''pause'', ''next'', ''skip.vote'', ''queue.clearPlayed'', ''queue.clear'',
         ''queue.shuffle'', ''session.end'', ''chat.typing'', ''chat.clear'', ''chat.unpin''}
        then Some ShNone
      else if typ = ''seek'' then Some ShSeek
      else if typ = ''rate.set'' then Some ShRateSet
      else if typ \<in> {''jump'', ''queue.remove'', ''queue.retry'', ''queue.vote'', ''queue.replay''}
        then Some ShItemRef
      else if typ = ''queue.add'' then Some ShQueueAdd
      else if typ = ''queue.addMany'' then Some ShQueueAddMany
      else if typ = ''queue.move'' then Some ShQueueMove
      else if typ = ''settings.set'' then Some ShSettingsSet
      else if typ = ''chat.send'' then Some ShChatSend
      else if typ = ''chat.delete'' then Some ShChatDelete
      else if typ = ''chat.edit'' then Some ShChatEdit
      else if typ = ''chat.pin'' then Some ShChatPin
      else if typ = ''react'' then Some ShReact
      else if typ = ''report'' then Some ShReport
      else None)"

fun msg_shape :: "client_msg \<Rightarrow> shape" where
  "msg_shape (CPing _) = ShPing"
| "msg_shape (CPlay _) = ShPlay"
| "msg_shape (CSeek _) = ShSeek"
| "msg_shape (CRateSet _) = ShRateSet"
| "msg_shape (CJump _) = ShItemRef"
| "msg_shape (CQueueRemove _) = ShItemRef"
| "msg_shape (CQueueRetry _) = ShItemRef"
| "msg_shape (CQueueVote _) = ShItemRef"
| "msg_shape (CQueueReplay _) = ShItemRef"
| "msg_shape (CQueueAdd _ _ _) = ShQueueAdd"
| "msg_shape (CQueueAddMany _ _) = ShQueueAddMany"
| "msg_shape (CQueueMove _ _) = ShQueueMove"
| "msg_shape (CSettingsSet _) = ShSettingsSet"
| "msg_shape (CChatSend _ _) = ShChatSend"
| "msg_shape (CChatDelete _) = ShChatDelete"
| "msg_shape (CChatEdit _ _) = ShChatEdit"
| "msg_shape (CChatPin _) = ShChatPin"
| "msg_shape (CReact _) = ShReact"
| "msg_shape (CReport _ _) = ShReport"
| "msg_shape _ = ShNone"

section \<open>Server to client\<close>

record playback =
  pb_type :: string
  pb_item :: "uuid option"
  pb_playing :: bool
  pb_position_ms :: int
  pb_at_server_ms :: int
  pb_rate :: rat
  pb_seq :: "64 word"

record media_info =
  mi_id :: uuid
  mi_title :: string
  mi_duration_ms :: int
  mi_thumbnail_url :: string
  mi_status :: "media_status option"
  mi_progress :: rat
  mi_speed_bps :: int
  mi_eta_ms :: int
  mi_error :: string
  mi_renditions :: "rendition list"
  mi_subtitles :: "subtitle list"
  mi_chapters :: "media_chapter list"
  mi_storyboard :: "storyboard option"
  mi_manifest :: string
  mi_token :: string
  mi_source_url :: string

record queue_entry =
  qe_id :: uuid
  qe_media :: media_info
  qe_added_by :: string
  qe_votes :: int
  qe_voted :: bool
  qe_current :: bool
  qe_played_ms :: int

record presence =
  pr_username :: string
  pr_color :: string
  pr_role :: room_role
  pr_buffering :: bool
  pr_lag_ms :: int

record chat_message =
  cm_type :: string
  cm_id :: int
  cm_username :: string
  cm_color :: string
  cm_body :: string
  cm_system :: bool
  cm_created_ms :: int
  cm_edited_ms :: int
  cm_reply :: "quote option"

record room_view =
  rv_id :: uuid
  rv_slug :: string
  rv_name :: string
  rv_visibility :: visibility
  rv_settings :: settings
  rv_owner :: string
  rv_description :: string
  rv_pinned :: "chat_message option"
  rv_scheduled_ms :: int

record snapshot =
  sn_type :: string
  sn_room :: room_view
  sn_playback :: playback
  sn_queue :: "queue_entry list"
  sn_played :: "queue_entry list"
  sn_members :: "presence list"
  sn_guests :: nat
  sn_skip_votes :: nat
  sn_skip_voted :: bool
  sn_skip_needed :: int
  sn_waiting :: "string list"
  sn_countdown_ms :: int

record welcome_msg =
  we_me :: "string option"
  we_role :: room_role
  we_snapshot :: snapshot
  we_messages :: "chat_message list"

datatype server_msg =
  SWelcome welcome_msg
| SPong int int
| SRoomState snapshot
| SPlayback playback
| SChatMessage chat_message
| SChatDeleted int
| SChatEdited chat_message
| SChatCleared
| SChatPinned "chat_message option"
| STyping string
| SReaction string string
| SKicked string
| SError string string int

section \<open>Facts\<close>

text \<open>The decoder knows every message and gives each the body it is defined with.\<close>

lemma decode_client_type: "decode_shape (client_type m) = Some (msg_shape m)"
  by (cases m) (simp_all add: decode_shape_def)

end
