(* ===== verification/Clock.thy ===== *)
theory Clock
  imports Protocol
begin

text \<open>
  \<open>room/clock.go\<close>: the playback clock as a value.  Its position at time \<open>t\<close> is the stored
  position plus the elapsed milliseconds times the rate, in \<open>float64\<close> (\<open>Go_Float\<close>), and
  is held at the end of media whose length is known.  The lemmas bound the position, show
  that it never runs backwards and that a restart at the current position loses nothing,
  and that the end-of-item deadline computed from \<open>remaining\<close> is late enough.
\<close>

record clock =
  c_current :: "uuid option"
  c_playing :: bool
  c_position_ms :: int
  c_position_at :: time
  c_rate :: rat
  c_seq :: "64 word"

definition elapsed_ms :: "clock \<Rightarrow> time \<Rightarrow> int" where
  "elapsed_ms c t = f64_trunc (f64_mul (f64_of_int (dur_ms (time_sub t (c_position_at c)))) (c_rate c))"

definition position :: "clock \<Rightarrow> time \<Rightarrow> int \<Rightarrow> int" where
  "position c t duration =
     (if \<not> c_playing c then c_position_ms c
      else let pos = wrap64 (c_position_ms c + elapsed_ms c t)
        in if 0 < duration \<and> duration < pos then duration else pos)"

definition restart :: "bool \<Rightarrow> int \<Rightarrow> time \<Rightarrow> clock \<Rightarrow> clock" where
  "restart pl pos now c = c\<lparr>c_playing := pl, c_position_ms := pos, c_position_at := now,
     c_seq := c_seq c + 1\<rparr>"

definition remaining :: "clock \<Rightarrow> time \<Rightarrow> int \<Rightarrow> duration" where
  "remaining c now duration =
     (let left = wrap64 (f64_trunc (f64_div (f64_of_int (wrap64 (duration - position c now duration)))
            (c_rate c)) * millisecond)
      in max left 0)"

definition is_current :: "clock \<Rightarrow> uuid \<Rightarrow> bool" where
  "is_current c i \<longleftrightarrow> c_current c = Some i"

definition clock_playback :: "clock \<Rightarrow> playback" where
  "clock_playback c = \<lparr>pb_type = ''playback'', pb_item = c_current c, pb_playing = c_playing c,
     pb_position_ms = c_position_ms c, pb_at_server_ms = unix_milli (c_position_at c),
     pb_rate = c_rate c, pb_seq = c_seq c\<rparr>"

definition clock_state :: "clock \<Rightarrow> playback_state" where
  "clock_state c = \<lparr>ps_current = c_current c, ps_playing = c_playing c,
     ps_position_ms = c_position_ms c, ps_position_at = c_position_at c, ps_rate = c_rate c\<rparr>"

definition clock_from :: "room_info \<Rightarrow> clock" where
  "clock_from i = \<lparr>c_current = ri_current i, c_playing = ri_playing i,
     c_position_ms = ri_position_ms i, c_position_at = ri_position_at i,
     c_rate = (if ri_rate i \<le> 0 then 1 else ri_rate i), c_seq = 0\<rparr>"

definition start_from :: "int \<Rightarrow> int \<Rightarrow> int" where
  "start_from pos duration = (if 0 < duration \<and> duration \<le> pos then 0 else pos)"

definition clamp_seek :: "int \<Rightarrow> int \<Rightarrow> int" where
  "clamp_seek pos duration =
     (let p = max pos 0 in if 0 < duration then min p duration else p)"

section \<open>Simplification rules\<close>

lemma restart_simps [simp]:
  "c_current (restart pl p t c) = c_current c"
  "c_playing (restart pl p t c) = pl"
  "c_position_ms (restart pl p t c) = p"
  "c_position_at (restart pl p t c) = t"
  "c_rate (restart pl p t c) = c_rate c"
  "c_seq (restart pl p t c) = c_seq c + 1"
  by (simp_all add: restart_def)

lemma clock_state_simps [simp]:
  "ps_current (clock_state c) = c_current c"
  "ps_playing (clock_state c) = c_playing c"
  "ps_position_ms (clock_state c) = c_position_ms c"
  "ps_position_at (clock_state c) = c_position_at c"
  "ps_rate (clock_state c) = c_rate c"
  by (simp_all add: clock_state_def)

section \<open>Well-formed clocks\<close>

text \<open>
  A position inside half the \<open>int64\<close> range and one of the speeds up to 16: the code's own
  values are inside these by far (\<open>allowed_rates\<close> ends at 2).
\<close>

definition clock_ok :: "clock \<Rightarrow> bool" where
  "clock_ok c \<longleftrightarrow> 0 \<le> c_position_ms c \<and> c_position_ms c \<le> 2 ^ 62
     \<and> 1 / 256 \<le> c_rate c \<and> c_rate c \<le> 16"

lemma clock_ok_restart:
  "clock_ok c \<Longrightarrow> 0 \<le> p \<Longrightarrow> p \<le> 2 ^ 62 \<Longrightarrow> clock_ok (restart pl p t c)"
  by (simp add: clock_ok_def)

lemma dur_ms_time_sub_bound: "\<bar>dur_ms (time_sub t u)\<bar> \<le> 9223372036854"
proof -
  have m: "dur_ms min_int64 = - 9223372036854" and M: "dur_ms max_int64 = 9223372036854"
    by (simp_all add: dur_ms_def go_div_def)
  have "dur_ms min_int64 \<le> dur_ms (time_sub t u)" and "dur_ms (time_sub t u) \<le> dur_ms max_int64"
    by (intro dur_ms_mono, simp add: time_sub_def)+
  with m M show ?thesis by linarith
qed

lemma f64_elapsed_exact: "f64_of_int (dur_ms (time_sub t u)) = of_int (dur_ms (time_sub t u))"
  using dur_ms_time_sub_bound [of t u] by (intro f64_of_int_exact) simp

lemma elapsed_ms_alt:
  "elapsed_ms c t = f64_trunc (fl64 (of_int (dur_ms (time_sub t (c_position_at c))) * c_rate c))"
  by (simp add: elapsed_ms_def f64_elapsed_exact f64_mul_def)

lemma elapsed_ms_mono: "0 \<le> c_rate c \<Longrightarrow> t \<le> t' \<Longrightarrow> elapsed_ms c t \<le> elapsed_ms c t'"
  unfolding elapsed_ms_alt
  by (intro f64_trunc_mono fl64_mono mult_right_mono)
    (simp_all add: dur_ms_mono time_sub_mono)

lemma elapsed_ms_at [simp]: "elapsed_ms c (c_position_at c) = 0"
  using f64_trunc_of_int [of 0] by (simp add: elapsed_ms_alt fl64_def)

lemma elapsed_ms_nonneg: "0 \<le> c_rate c \<Longrightarrow> c_position_at c \<le> t \<Longrightarrow> 0 \<le> elapsed_ms c t"
  using elapsed_ms_mono [of c "c_position_at c" t] by simp

text \<open>Rounding to \<open>float64\<close> never crosses an integer, so truncation is off by less than 1.\<close>

lemma f64_trunc_fl64_bounds:
  assumes "0 \<le> x" and "x \<le> 2 ^ 52"
  shows "\<lfloor>x\<rfloor> \<le> f64_trunc (fl64 x)" and "f64_trunc (fl64 x) \<le> \<lceil>x\<rceil>"
proof -
  have c: "\<lceil>x\<rceil> \<le> 2 ^ 52" using assms(2) by (simp add: ceiling_le_iff)
  have f: "0 \<le> \<lfloor>x\<rfloor>" using assms(1) by simp
  have fc: "\<lfloor>x\<rfloor> \<le> \<lceil>x\<rceil>" by (rule floor_le_ceiling)
  have "fl64 (of_int \<lfloor>x\<rfloor>) = of_int \<lfloor>x\<rfloor>" and "fl64 (of_int \<lceil>x\<rceil>) = of_int \<lceil>x\<rceil>"
    using f fc c by (auto intro!: fl64_exact is_f64_int)
  then have "of_int \<lfloor>x\<rfloor> \<le> fl64 x" and "fl64 x \<le> of_int \<lceil>x\<rceil>"
    using fl64_mono [of "of_int \<lfloor>x\<rfloor>" x] fl64_mono [of x "of_int \<lceil>x\<rceil>"] by simp_all
  then have "f64_trunc (of_int \<lfloor>x\<rfloor>) \<le> f64_trunc (fl64 x)"
    and "f64_trunc (fl64 x) \<le> f64_trunc (of_int \<lceil>x\<rceil>)" by (simp_all only: f64_trunc_mono)
  then show "\<lfloor>x\<rfloor> \<le> f64_trunc (fl64 x)" and "f64_trunc (fl64 x) \<le> \<lceil>x\<rceil>" by simp_all
qed

lemma elapsed_product_bounds:
  assumes "clock_ok c" and "c_position_at c \<le> t"
  shows "0 \<le> of_int (dur_ms (time_sub t (c_position_at c))) * c_rate c"
    and "of_int (dur_ms (time_sub t (c_position_at c))) * c_rate c \<le> 2 ^ 48"
proof -
  let ?e = "of_int (dur_ms (time_sub t (c_position_at c))) :: rat"
  have e: "0 \<le> ?e" using assms(2) by (simp add: dur_ms_nonneg time_sub_nonneg)
  have "dur_ms (time_sub t (c_position_at c)) \<le> 2 ^ 44"
    using dur_ms_time_sub_bound [of t "c_position_at c"] by simp
  then have e2: "?e \<le> 2 ^ 44" by (simp add: of_int_le_iff [of _ "2 ^ 44", symmetric] del: of_int_le_iff)
  have r: "0 \<le> c_rate c" "c_rate c \<le> 16" using assms(1) by (simp_all add: clock_ok_def)
  show "0 \<le> ?e * c_rate c" using e r by simp
  have "?e * c_rate c \<le> 2 ^ 44 * 16" using e e2 r by (intro mult_mono) simp_all
  then show "?e * c_rate c \<le> 2 ^ 48" by simp
qed

lemma elapsed_ms_bounds:
  assumes "clock_ok c" and "c_position_at c \<le> t"
  shows "\<lfloor>of_int (dur_ms (time_sub t (c_position_at c))) * c_rate c\<rfloor> \<le> elapsed_ms c t"
    and "elapsed_ms c t \<le> \<lceil>of_int (dur_ms (time_sub t (c_position_at c))) * c_rate c\<rceil>"
    and "0 \<le> elapsed_ms c t" and "elapsed_ms c t \<le> 2 ^ 48"
proof -
  note b = elapsed_product_bounds [OF assms]
  note u = f64_trunc_fl64_bounds [OF b(1) order_trans [OF b(2)]]
  show 1: "\<lfloor>of_int (dur_ms (time_sub t (c_position_at c))) * c_rate c\<rfloor> \<le> elapsed_ms c t"
    and 2: "elapsed_ms c t \<le> \<lceil>of_int (dur_ms (time_sub t (c_position_at c))) * c_rate c\<rceil>"
    using u unfolding elapsed_ms_alt by simp_all
  have "0 \<le> \<lfloor>of_int (dur_ms (time_sub t (c_position_at c))) * c_rate c\<rfloor>"
    using b(1) by (simp only: zero_le_floor)
  with 1 show "0 \<le> elapsed_ms c t" by (rule order_trans [rotated])
  have "\<lceil>of_int (dur_ms (time_sub t (c_position_at c))) * c_rate c\<rceil> \<le> 2 ^ 48"
    using b(2) by (simp add: ceiling_le_iff)
  with 2 show "elapsed_ms c t \<le> 2 ^ 48" by (rule order_trans)
qed

lemma position_playing:
  assumes "clock_ok c" and "c_position_at c \<le> t" and "c_playing c"
  shows "position c t d = (if 0 < d then min d (c_position_ms c + elapsed_ms c t)
                           else c_position_ms c + elapsed_ms c t)"
proof -
  have "is_int64 (c_position_ms c + elapsed_ms c t)"
    using elapsed_ms_bounds(3,4) [OF assms(1,2)] assms(1) by (simp add: clock_ok_def is_int64_def)
  then show ?thesis using assms(3) by (simp add: position_def Let_def)
qed

section \<open>What the clock promises\<close>

lemma position_paused [simp]: "\<not> c_playing c \<Longrightarrow> position c t d = c_position_ms c"
  by (simp add: position_def)

lemma position_mono:
  assumes "clock_ok c" and "c_position_at c \<le> t" and "t \<le> t'"
  shows "position c t d \<le> position c t' d"
proof (cases "c_playing c")
  case True
  have "elapsed_ms c t \<le> elapsed_ms c t'"
    using assms(1,3) by (intro elapsed_ms_mono) (simp_all add: clock_ok_def)
  moreover have "c_position_at c \<le> t'" using assms(2,3) by (rule order_trans)
  ultimately show ?thesis using assms True by (auto simp: position_playing)
qed simp

lemma position_bounds:
  assumes "clock_ok c" and "c_position_at c \<le> t" and "0 < d" and "c_position_ms c \<le> d"
  shows "c_position_ms c \<le> position c t d" and "position c t d \<le> d"
  using assms elapsed_ms_bounds(3) [OF assms(1,2)]
  by (cases "c_playing c"; simp add: position_playing)+

lemma position_nonneg:
  assumes "clock_ok c" and "c_position_at c \<le> t" and "0 \<le> d"
  shows "0 \<le> position c t d"
  using assms elapsed_ms_bounds(3) [OF assms(1,2)]
  by (cases "c_playing c") (simp_all add: position_playing clock_ok_def)

lemma position_at_restart [simp]:
  "is_int64 p \<Longrightarrow> position (restart pl p t c) t d = (if pl \<and> 0 < d \<and> d < p then d else p)"
  using elapsed_ms_at [of "restart pl p t c"] by (cases pl) (simp_all add: position_def Let_def)

lemma start_from_bounds:
  "0 \<le> p \<Longrightarrow> 0 \<le> start_from p d \<and> start_from p d \<le> p \<and> (0 < d \<longrightarrow> start_from p d < d)"
  by (auto simp: start_from_def)

lemma clamp_seek_bounds:
  "0 \<le> clamp_seek p d \<and> (0 < d \<longrightarrow> clamp_seek p d \<le> d)
   \<and> (0 \<le> p \<longrightarrow> (d \<le> 0 \<or> p \<le> d) \<longrightarrow> clamp_seek p d = p)"
  by (auto simp: clamp_seek_def)

section \<open>The end-of-item deadline\<close>

lemma remaining_nonneg: "0 \<le> remaining c now d"
  by (simp add: remaining_def Let_def)

text \<open>
  Media of up to a year (\<open>2^35\<close> ms): the deadline then fits a duration.  \<open>remaining\<close> is
  at least the distance to the end divided by the rate, less a millisecond.
\<close>

lemma remaining_lower:
  assumes ok: "clock_ok c" and at: "c_position_at c \<le> now" and d: "0 < d" "d \<le> 2 ^ 35"
    and le: "position c now d \<le> d"
  obtains k where "remaining c now d = k * 1000000" and "0 \<le> k"
    and "of_int (d - position c now d) / c_rate c < of_int k + 1" and "k \<le> 2 ^ 43"
proof -
  let ?x = "of_int (d - position c now d) / c_rate c"
  let ?k = "f64_trunc (f64_div (of_int (d - position c now d)) (c_rate c))"
  have r: "1 / 256 \<le> c_rate c" "0 < c_rate c" using ok by (simp_all add: clock_ok_def)
  have p0: "0 \<le> position c now d" using ok at d by (intro position_nonneg) simp_all
  have D: "0 \<le> d - position c now d" "d - position c now d \<le> 2 ^ 35" using le p0 d(2) by simp_all
  have x0: "0 \<le> ?x" using D(1) r(2) by simp
  have D2: "of_int (d - position c now d) \<le> (2 ^ 35 :: rat)"
    using D(2) by (metis of_int_le_iff of_int_numeral of_int_power)
  have "?x \<le> 2 ^ 35 / (1 / 256)" using D(1) D2 r by (intro frac_le) simp_all
  then have x1: "?x \<le> 2 ^ 43" by simp
  have x2: "?x \<le> 2 ^ 52" using x1 by (rule order_trans) simp
  note b = f64_trunc_fl64_bounds [OF x0 x2, folded f64_div_def]
  have "0 \<le> \<lfloor>?x\<rfloor>" using x0 by (simp only: zero_le_floor)
  with b(1) have k0: "0 \<le> ?k" by linarith
  have "\<lceil>?x\<rceil> \<le> 2 ^ 43" using x1 by (simp add: ceiling_le_iff)
  with b(2) have k1: "?k \<le> 2 ^ 43" by linarith
  have "\<lfloor>?x\<rfloor> \<le> ?k" using b(1) by linarith
  then have kx: "?x < of_int ?k + 1" by linarith
  have "is_int64 (?k * 1000000)" and "is_int64 (d - position c now d)"
    using k0 k1 D by (simp_all add: is_int64_def)
  moreover have "f64_of_int (d - position c now d) = of_int (d - position c now d)"
    using D by (intro f64_of_int_exact) simp
  ultimately have "remaining c now d = ?k * 1000000"
    using k0 by (simp add: remaining_def millisecond_def Let_def)
  from that [OF this k0 kx k1] show ?thesis .
qed

text \<open>
  The grace of half a second covers every rounding: when the timer armed for \<open>remaining\<close> plus
  500 ms fires, the position is the end of the media.
\<close>

lemma end_reached:
  assumes ok: "clock_ok c" and pl: "c_playing c" and at: "c_position_at c \<le> now"
    and d: "0 < d" "d \<le> 2 ^ 35" and rate: "1 / 4 \<le> c_rate c"
    and span: "now - c_position_at c \<le> 4 * 10 ^ 17"
    and late: "now + remaining c now d + 500 * millisecond \<le> t"
  shows "position c t d = d"
proof -
  let ?r = "c_rate c"
  let ?e = "dur_ms (time_sub now (c_position_at c))"
  have r: "0 < ?r" using ok by (simp add: clock_ok_def)
  have pd: "position c now d \<le> d"
    using pl at d position_playing [OF ok at pl, of d] by simp
  obtain k where k: "remaining c now d = k * 1000000" "0 \<le> k"
    "of_int (d - position c now d) / ?r < of_int k + 1" "k \<le> 2 ^ 43"
    using remaining_lower [OF ok at d pd] .
  let ?t = "now + remaining c now d + 500 * millisecond"
  have t: "c_position_at c \<le> ?t" "?t \<le> t"
    using at late k(1,2) by (simp_all add: millisecond_def)
  have span': "now - c_position_at c + (k + 500) * 1000000 \<le> max_int64"
    using span k(4) by simp
  have sub: "time_sub ?t (c_position_at c) = now - c_position_at c + (k + 500) * 1000000"
    "time_sub now (c_position_at c) = now - c_position_at c"
    using span' at k(1,2) by (simp_all add: time_sub_def millisecond_def algebra_simps)
  have e': "dur_ms (time_sub ?t (c_position_at c)) = ?e + k + 500"
    using at k(2) unfolding sub by (simp add: dur_ms_def go_div_nonneg)
  have "position c now d \<le> c_position_ms c + elapsed_ms c now"
    using pl d by (simp add: position_playing [OF ok at])
  then have "position c now d \<le> c_position_ms c + \<lceil>of_int ?e * ?r\<rceil>"
    using elapsed_ms_bounds(2) [OF ok at] by linarith
  then have "of_int (position c now d)
      \<le> (of_int (c_position_ms c) + of_int \<lceil>of_int ?e * ?r\<rceil> :: rat)"
    by (metis of_int_add of_int_le_iff)
  moreover have "of_int \<lceil>of_int ?e * ?r\<rceil> < of_int ?e * ?r + 1" by linarith
  moreover have "of_int (d - position c now d) < (of_int k + 1) * ?r"
    using k(3) r by (simp add: divide_less_eq)
  ultimately have "of_int d - of_int (c_position_ms c) < (of_int ?e + of_int k + 1) * ?r + 1"
    by (simp add: algebra_simps)
  also have "\<dots> \<le> (of_int ?e + of_int k + 500) * ?r"
    using rate by (simp add: algebra_simps)
  also have "\<dots> = of_int (?e + k + 500) * ?r" by simp
  finally have "d - c_position_ms c \<le> \<lfloor>of_int (?e + k + 500) * ?r\<rfloor>"
    by (simp add: le_floor_iff)
  also have "\<dots> \<le> elapsed_ms c ?t"
    using elapsed_ms_bounds(1) [OF ok t(1)] unfolding e' .
  finally have "position c ?t d = d"
    using pl d by (simp add: position_playing [OF ok t(1)])
  then have "d \<le> position c t d" using position_mono [OF ok t] by metis
  moreover have "position c t d \<le> d"
    using pl d position_playing [OF ok order_trans [OF t]] by simp
  ultimately show ?thesis by simp
qed

section \<open>Properties\<close>

text \<open>
  C1: The advance timer is never early: for a playing clock, media of at most a year, a rate of
  at least 1/4 and a position set less than twelve years ago, at any time at least
  \<open>remaining\<close> plus the 500 ms grace after \<open>now\<close> the position is the end of the media, whatever
  \<open>float64\<close> rounded.
\<close>

theorem advance_deadline_reaches_end:
  assumes "clock_ok c" and "c_playing c" and "c_position_at c \<le> now"
    and "0 < d" and "d \<le> 2 ^ 35" and "1 / 4 \<le> c_rate c"
    and "now - c_position_at c \<le> 4 * 10 ^ 17"
    and "now + remaining c now d + 500 * millisecond \<le> t"
  shows "position c t d = d"
  using assms by (rule end_reached)

theorem advance_deadline_reaches_end_witness:
  "let c = \<lparr>c_current = Some 7, c_playing = True, c_position_ms = 1500, c_position_at = 10,
            c_rate = 5 / 4, c_seq = 3\<rparr>
   in position c (20 + remaining c 20 90000 + 500 * millisecond) 90000 = 90000"
  unfolding Let_def
  by (rule advance_deadline_reaches_end [where now = 20]) (simp_all add: clock_ok_def)

text \<open>
  C2: While nobody touches it the clock only moves forward and never past the end of the media:
  for media of known length and a start inside it, the position at a later time is at least
  the position now, at least the stored one and at most the length; and a restart at the
  current position (pause, resume, a change of speed) continues from exactly there.
\<close>

theorem position_forward_bounded:
  assumes "clock_ok c" and "c_position_at c \<le> t" and "t \<le> t'" and "0 < d" and "c_position_ms c \<le> d"
  shows "c_position_ms c \<le> position c t d \<and> position c t d \<le> position c t' d
    \<and> position c t' d \<le> d
    \<and> position (restart pl (position c t d) t (c\<lparr>c_rate := r\<rparr>)) t d = position c t d"
proof -
  have b: "c_position_ms c \<le> position c t d" "position c t d \<le> d"
    using assms by (auto intro: position_bounds)
  have b': "position c t' d \<le> d" using assms by (intro position_bounds(2)) simp_all
  have "c_position_ms c + elapsed_ms c t \<le> 2 ^ 62 + 2 ^ 48"
    using elapsed_ms_bounds(4) [OF assms(1,2)] assms(1) by (simp add: clock_ok_def)
  then have "position c t d \<le> 2 ^ 62 + 2 ^ 48"
    using assms(1,2,4) by (cases "c_playing c") (simp_all add: position_playing clock_ok_def)
  then have "is_int64 (position c t d)"
    using b(1) assms(1) by (simp add: is_int64_def clock_ok_def)
  then show ?thesis using b b' position_mono [OF assms(1-3)] by simp
qed

theorem position_forward_bounded_witness:
  "let c = \<lparr>c_current = Some 7, c_playing = True, c_position_ms = 1500, c_position_at = 10,
            c_rate = 5 / 4, c_seq = 3\<rparr>
   in c_position_ms c \<le> position c 20 90000 \<and> position c 20 90000 \<le> position c 5000000000 90000
    \<and> position c 5000000000 90000 \<le> 90000
    \<and> position (restart False (position c 20 90000) 20 (c\<lparr>c_rate := 2\<rparr>)) 20 90000
        = position c 20 90000"
  unfolding Let_def
  by (rule position_forward_bounded) (simp_all add: clock_ok_def)

end
