(* ===== verification/Rank.thy ===== *)
theory Rank
  imports Go_Base "HOL-Library.List_Lexorder" "HOL-Library.Char_ord" "HOL-Library.Product_Lexorder"
begin

text \<open>
  Queue ranks: \<open>QueueItem.Rank\<close> is a zero-padded decimal string, written \<open>%08d\<close> by the room
  and \<open>lpad(n::text, 8, '0')\<close> by the SQL of \<open>repository/queue.go\<close>, and compared as text.
  The lemmas show that below \<open>10^8\<close> both agree and the text order is the numeric order.
\<close>

definition digit :: "nat \<Rightarrow> char" where
  "digit d = char_of (48 + d)"

fun dec :: "nat \<Rightarrow> string" where
  "dec n = (if n < 10 then [digit n] else dec (n div 10) @ [digit (n mod 10)])"

declare dec.simps [simp del]

text \<open>\<open>fmt.Sprintf("%08d", n)\<close> pads and never cuts; \<open>lpad(s, 8, '0')\<close> cuts on the right.\<close>

definition fmt_08d :: "nat \<Rightarrow> string" where
  "fmt_08d n = replicate (8 - length (dec n)) (CHR ''0'') @ dec n"

definition lpad8 :: "string \<Rightarrow> string" where
  "lpad8 s = (if length s < 8 then replicate (8 - length s) (CHR ''0'') @ s else take 8 s)"

text \<open>The cast \<open>rank::bigint\<close> of a string of digits.\<close>

definition rank_num :: "string \<Rightarrow> nat" where
  "rank_num s = foldl (\<lambda>n c. 10 * n + (of_char c - 48)) 0 s"

section \<open>Fixed-width numerals\<close>

fun digits :: "nat \<Rightarrow> nat \<Rightarrow> string" where
  "digits 0 n = []"
| "digits (Suc w) n = digits w (n div 10) @ [digit (n mod 10)]"

lemma length_digits [simp]: "length (digits w n) = w"
  by (induction w arbitrary: n) simp_all

lemma of_char_digit [simp]: "d < 10 \<Longrightarrow> of_char (digit d) = 48 + d"
  by (simp add: digit_def)

lemma digit_less: "a < 10 \<Longrightarrow> b < 10 \<Longrightarrow> (digit a < digit b) = (a < b)"
  by (simp add: less_char_def)

lemma digit_inj: "a < 10 \<Longrightarrow> b < 10 \<Longrightarrow> (digit a = digit b) = (a = b)"
  using of_char_digit [of a] of_char_digit [of b] by (metis add_left_cancel)

lemma lex_snoc:
  "length xs = length ys \<Longrightarrow>
   (xs @ [a] < ys @ [b :: 'a :: linorder]) = (xs < ys \<or> xs = ys \<and> a < b)"
proof (induction xs ys rule: list_induct2)
  case (Cons x xs y ys)
  then show ?case by (auto simp: Cons_less_Cons)
qed (simp add: Cons_less_Cons)

lemma divmod10_less:
  "(n div 10 < m div 10 \<or> n div 10 = m div 10 \<and> n mod 10 < m mod 10) = (n < (m :: nat))"
proof -
  have "b < 10 \<Longrightarrow> d < 10 \<Longrightarrow> (a < c \<or> a = c \<and> b < d) = (10 * a + b < 10 * c + d)"
    for a b c d :: nat by auto
  from this [of "n mod 10" "m mod 10" "n div 10" "m div 10"] show ?thesis by simp
qed

lemma digits_eq_less:
  "n < 10 ^ w \<Longrightarrow> m < 10 ^ w \<Longrightarrow>
   (digits w n = digits w m) = (n = m) \<and> (digits w n < digits w m) = (n < m)"
proof (induction w arbitrary: n m)
  case (Suc w)
  have "n div 10 < 10 ^ w" "m div 10 < 10 ^ w" using Suc.prems by auto
  note IH = Suc.IH [OF this]
  have "(digits (Suc w) n = digits (Suc w) m) = (n div 10 = m div 10 \<and> n mod 10 = m mod 10)"
    using IH by (simp add: digit_inj)
  also have "\<dots> = (n = m)" by (metis mult_div_mod_eq)
  finally have eq: "(digits (Suc w) n = digits (Suc w) m) = (n = m)" .
  have "(digits (Suc w) n < digits (Suc w) m)
      = (n div 10 < m div 10 \<or> n div 10 = m div 10 \<and> n mod 10 < m mod 10)"
    using IH by (simp add: lex_snoc digit_less)
  also have "\<dots> = (n < m)" by (rule divmod10_less)
  finally show ?case using eq by simp
qed simp

lemma dec_digits:
  "0 < w \<Longrightarrow> n < 10 ^ w \<Longrightarrow>
   length (dec n) \<le> w \<and> replicate (w - length (dec n)) (CHR ''0'') @ dec n = digits w n"
proof (induction w arbitrary: n)
  case (Suc w)
  have "char_of (of_char (CHR ''0'') :: nat) = CHR ''0''" by (rule char_of_char)
  then have d0: "digit 0 = CHR ''0''" by (simp add: digit_def)
  have z: "digits w 0 = replicate w (CHR ''0'')"
    by (induction w) (simp_all add: d0 replicate_append_same)
  show ?case
  proof (cases "n < 10")
    case True
    then show ?thesis using z by (simp add: dec.simps [of n])
  next
    case False
    have "n div 10 < 10 ^ w" using Suc.prems by auto
    moreover from this False have "0 < w" by (cases w) auto
    ultimately have "length (dec (n div 10)) \<le> w
        \<and> replicate (w - length (dec (n div 10))) (CHR ''0'') @ dec (n div 10) = digits w (n div 10)"
      by (intro Suc.IH)
    then show ?thesis using False by (simp add: dec.simps [of n])
  qed
qed simp

lemma fmt_08d_digits: "n < 10 ^ 8 \<Longrightarrow> fmt_08d n = digits 8 n"
  using dec_digits [of 8 n] by (simp add: fmt_08d_def)

lemma lpad8_dec: "n < 10 ^ 8 \<Longrightarrow> lpad8 (dec n) = fmt_08d n"
  using dec_digits [of 8 n] by (cases "length (dec n) < 8") (simp_all add: fmt_08d_def lpad8_def)

lemma fmt_08d_less: "n < 10 ^ 8 \<Longrightarrow> m < 10 ^ 8 \<Longrightarrow> (fmt_08d n < fmt_08d m) = (n < m)"
  using digits_eq_less [of n 8 m] by (simp only: fmt_08d_digits)

lemma fmt_08d_inj: "n < 10 ^ 8 \<Longrightarrow> m < 10 ^ 8 \<Longrightarrow> (fmt_08d n = fmt_08d m) = (n = m)"
  using digits_eq_less [of n 8 m] by (simp only: fmt_08d_digits)

lemma rank_num_snoc: "rank_num (s @ [c]) = 10 * rank_num s + (of_char c - 48)"
  by (simp add: rank_num_def)

lemma rank_num_digits: "n < 10 ^ w \<Longrightarrow> rank_num (digits w n) = n"
proof (induction w arbitrary: n)
  case (Suc w)
  then have "rank_num (digits w (n div 10)) = n div 10" by auto
  then show ?case by (simp add: rank_num_snoc)
qed (simp add: rank_num_def)

lemma rank_num_fmt_08d: "n < 10 ^ 8 \<Longrightarrow> rank_num (fmt_08d n) = n"
  by (simp only: fmt_08d_digits rank_num_digits)

end
