(* ===== verification/Order.thy ===== *)
theory Order
  imports Entity Rank
begin

text \<open>
  \<open>room/order.go\<close>: the order rules of the queue as pure functions of the queue and the
  current item, and the command errors of \<open>room.go\<close> they may answer.  A pointer to a queue
  item is the item: the queue holds each id once, so equal pointers are equal items.

  The lemmas say that every rule returns a permutation of the queue, what it puts first, and
  what each rule is for: votes sort the waiting items, turns give no adder two turns ahead of
  another, a move keeps everything else in order.
\<close>

section \<open>Command errors\<close>

text \<open>
  \<open>Rejected\<close> is \<open>room.Error\<close> with its protocol code; the others are the repository's
  \<open>ErrNotFound\<close> and \<open>ErrConflict\<close> and any internal failure.
\<close>

datatype cerr = Rejected string string | NotFoundErr | ConflictErr | InternalErr

definition err_forbidden :: cerr where
  "err_forbidden = Rejected ''forbidden'' ''insufficient permissions''"

definition err_no_current :: cerr where
  "err_no_current = Rejected ''invalid'' ''nothing is playing''"

definition not_found :: "string \<Rightarrow> cerr" where
  "not_found what = Rejected ''not_found'' (what @ '' not found'')"

definition invalid :: "string \<Rightarrow> cerr" where
  "invalid msg = Rejected ''invalid'' msg"

section \<open>The rules\<close>

definition is_cur :: "uuid option \<Rightarrow> queue_item \<Rightarrow> bool" where
  "is_cur cur it \<longleftrightarrow> cur = Some (qi_id it)"

fun split_from ::
    "uuid option \<Rightarrow> queue_item option \<Rightarrow> queue_item list \<Rightarrow> queue_item option \<times> queue_item list" where
  "split_from cur c [] = (c, [])"
| "split_from cur c (it # q) =
     (if is_cur cur it then split_from cur (Some it) q
      else let (c', w) = split_from cur c q in (c', it # w))"

definition split_current ::
    "queue_item list \<Rightarrow> uuid option \<Rightarrow> queue_item option \<times> queue_item list" where
  "split_current q cur = split_from cur None q"

definition with_current :: "queue_item option \<Rightarrow> queue_item list \<Rightarrow> queue_item list" where
  "with_current c w = (case c of None \<Rightarrow> w | Some it \<Rightarrow> it # w)"

text \<open>
  \<open>sort.SliceStable\<close> with votes descending, then age: the stable sort by the key whose order
  is the comparison function (\<open>vote_key_less\<close>).
\<close>

definition vote_before :: "queue_item \<Rightarrow> queue_item \<Rightarrow> bool" where
  "vote_before a b =
     (if qi_votes a \<noteq> qi_votes b then qi_votes b < qi_votes a else qi_created a < qi_created b)"

definition vote_key :: "queue_item \<Rightarrow> int \<times> int" where
  "vote_key it = (- qi_votes it, qi_created it)"

definition vote_order :: "queue_item list \<Rightarrow> uuid option \<Rightarrow> queue_item list" where
  "vote_order q cur = (let (c, w) = split_current q cur in with_current c (sort_key vote_key w))"

definition adder :: "queue_item \<Rightarrow> uuid" where
  "adder it = (case qi_added_by it of None \<Rightarrow> uuid_nil | Some u \<Rightarrow> u)"

text \<open>The adders in the order they first appear, and each one's items.\<close>

fun adders :: "queue_item list \<Rightarrow> uuid list \<Rightarrow> uuid list" where
  "adders [] order = order"
| "adders (it # w) order =
     adders w (if adder it \<in> set order then order else order @ [adder it])"

definition groups :: "queue_item list \<Rightarrow> uuid \<Rightarrow> queue_item list" where
  "groups w a = filter (\<lambda>it. adder it = a) w"

definition turn_order :: "queue_item option \<Rightarrow> uuid list \<Rightarrow> uuid list" where
  "turn_order c order = (case c of None \<Rightarrow> order
     | Some it \<Rightarrow> (case find_index (\<lambda>a. a = adder it) order of
           None \<Rightarrow> order
         | Some i \<Rightarrow> drop (Suc i) order @ take (Suc i) order))"

text \<open>One pass of the inner loop, and the outer loop as the code runs it.\<close>

fun fair_round :: "uuid list \<Rightarrow> (uuid \<Rightarrow> queue_item list) \<Rightarrow> queue_item list
    \<Rightarrow> queue_item list \<times> (uuid \<Rightarrow> queue_item list)" where
  "fair_round [] g turns = (turns, g)"
| "fair_round (a # as) g turns =
     (case g a of [] \<Rightarrow> fair_round as g turns
      | x # xs \<Rightarrow> fair_round as (g(a := xs)) (turns @ [x]))"

partial_function (option) fair_loop ::
    "nat \<Rightarrow> uuid list \<Rightarrow> (uuid \<Rightarrow> queue_item list) \<Rightarrow> queue_item list \<Rightarrow> queue_item list option" where
  "fair_loop n order g turns =
     (if length turns < n
      then (case fair_round order g turns of (turns', g') \<Rightarrow> fair_loop n order g' turns')
      else Some turns)"

definition fair_order_loop :: "queue_item list \<Rightarrow> uuid option \<Rightarrow> queue_item list option" where
  "fair_order_loop q cur =
     (case split_current q cur of (c, w) \<Rightarrow>
        if length w < 2 then Some q
        else map_option (with_current c)
               (fair_loop (length w) (turn_order c (adders w [])) (groups w) []))"

text \<open>
  The turns the loop computes, by recursion on the number of rounds; \<open>fair_order\<close> is the value
  of \<open>fair_order_loop\<close>, which always returns (\<open>fair_order_loop_eq\<close>).
\<close>

definition heads :: "uuid list \<Rightarrow> (uuid \<Rightarrow> queue_item list) \<Rightarrow> queue_item list" where
  "heads order g = map (\<lambda>a. hd (g a)) (filter (\<lambda>a. g a \<noteq> []) order)"

primrec turn_list :: "nat \<Rightarrow> uuid list \<Rightarrow> (uuid \<Rightarrow> queue_item list) \<Rightarrow> queue_item list" where
  "turn_list 0 order g = []"
| "turn_list (Suc m) order g = heads order g @ turn_list m order (\<lambda>a. tl (g a))"

definition fair_turns :: "queue_item option \<Rightarrow> queue_item list \<Rightarrow> queue_item list" where
  "fair_turns c w = turn_list (length w) (turn_order c (adders w [])) (groups w)"

definition fair_order :: "queue_item list \<Rightarrow> uuid option \<Rightarrow> queue_item list" where
  "fair_order q cur =
     (let (c, w) = split_current q cur in
      if length w < 2 then q else with_current c (fair_turns c w))"

definition place_after ::
    "queue_item list \<Rightarrow> nat \<Rightarrow> uuid option \<Rightarrow> uuid option \<Rightarrow> cerr + queue_item list" where
  "place_after q idx after cur =
     (let item = q ! idx;
          rest = remove_nth idx q;
          anchor = (case after of None \<Rightarrow> Some 0
                    | Some a \<Rightarrow> map_option Suc (find_index (\<lambda>it. qi_id it = a) rest))
      in case anchor of
           None \<Rightarrow> Inl (not_found ''anchor item'')
         | Some i \<Rightarrow>
             let i' = (if cur \<noteq> None \<and> i = 0 \<and> rest \<noteq> [] \<and> is_cur cur (hd rest) then 1 else i)
             in Inr (take i' rest @ item # drop i' rest))"

definition batch_after_current ::
    "queue_item list \<Rightarrow> queue_item list \<Rightarrow> uuid option \<Rightarrow> queue_item list" where
  "batch_after_current q batch cur =
     (let (c, w) = split_current q cur in with_current c (batch @ w))"

text \<open>
  \<open>shuffle n\<close> stands for the swaps \<open>rand.Shuffle(n, swap)\<close> performs, all of them below \<open>n\<close>.
\<close>

definition swap_nth :: "'a list \<Rightarrow> nat \<times> nat \<Rightarrow> 'a list" where
  "swap_nth xs ij = (case ij of (i, j) \<Rightarrow> xs[i := xs ! j, j := xs ! i])"

definition shuffled ::
    "queue_item list \<Rightarrow> uuid option \<Rightarrow> (nat \<Rightarrow> (nat \<times> nat) list) \<Rightarrow> queue_item list" where
  "shuffled q cur shuffle =
     (if cur \<noteq> None \<and> q \<noteq> [] \<and> is_cur cur (hd q)
      then hd q # foldl swap_nth (tl q) (shuffle (length (tl q)))
      else foldl swap_nth q (shuffle (length q)))"

definition following :: "queue_item list \<Rightarrow> nat option \<Rightarrow> queue_item option" where
  "following q idx =
     (case idx of
        Some i \<Rightarrow> if i < length q then Some (q ! i) else if q \<noteq> [] then Some (hd q) else None
      | None \<Rightarrow> if q \<noteq> [] then Some (hd q) else None)"

text \<open>The renumbering at the end of \<open>applyOrderLocked\<close>.\<close>

fun renumber_from :: "nat \<Rightarrow> queue_item list \<Rightarrow> queue_item list" where
  "renumber_from n [] = []"
| "renumber_from n (it # q) = it\<lparr>qi_rank := fmt_08d n\<rparr> # renumber_from (Suc n) q"

definition renumber :: "queue_item list \<Rightarrow> queue_item list" where
  "renumber q = renumber_from 1 q"

definition item_by_id :: "queue_item list \<Rightarrow> uuid \<Rightarrow> queue_item option" where
  "item_by_id q i = find (\<lambda>it. qi_id it = i) q"

definition index_of :: "queue_item list \<Rightarrow> uuid \<Rightarrow> nat option" where
  "index_of q i = find_index (\<lambda>it. qi_id it = i) q"

section \<open>Looking up\<close>

lemma item_by_id_Some:
  "item_by_id q i = Some it \<Longrightarrow> it \<in> set q \<and> qi_id it = i"
  by (auto simp: item_by_id_def find_Some_iff in_set_conv_nth)

lemma item_by_id_None: "item_by_id q i = None \<longleftrightarrow> i \<notin> qi_id ` set q"
  by (auto simp: item_by_id_def find_None_iff)

lemma index_of_Some:
  "index_of q i = Some k \<Longrightarrow> k < length q \<and> qi_id (q ! k) = i"
  unfolding index_of_def by (drule find_index_Some) simp

lemma index_of_None: "index_of q i = None \<longleftrightarrow> i \<notin> qi_id ` set q"
  by (auto simp: index_of_def find_index_None)

lemma item_by_id_nth:
  "distinct (map qi_id q) \<Longrightarrow> it \<in> set q \<Longrightarrow> item_by_id q (qi_id it) = Some it"
proof (induction q)
  case (Cons x q)
  show ?case
  proof (cases "qi_id x = qi_id it")
    case True
    with Cons.prems have "x = it" by (metis distinct.simps(2) image_eqI list.set_map list.simps(9) set_ConsD)
    then show ?thesis by (simp add: item_by_id_def)
  next
    case False
    then have "it \<in> set q" using Cons.prems(2) by auto
    with Cons False show ?thesis by (simp add: item_by_id_def)
  qed
qed simp

section \<open>The current item and the others\<close>

lemma split_from_snd [simp]: "snd (split_from cur c q) = filter (\<lambda>it. \<not> is_cur cur it) q"
  by (induction cur c q rule: split_from.induct) (auto split: prod.splits)

lemma split_from_fst:
  "fst (split_from cur c q) = (case filter (is_cur cur) q of [] \<Rightarrow> c | xs \<Rightarrow> Some (last xs))"
  by (induction cur c q rule: split_from.induct) (auto split: prod.splits list.splits)

lemma split_current_waiting [simp]:
  "snd (split_current q cur) = filter (\<lambda>it. \<not> is_cur cur it) q"
  by (simp add: split_current_def)

lemma distinct_ids_inj:
  "distinct (map qi_id q) \<Longrightarrow> x \<in> set q \<Longrightarrow> y \<in> set q \<Longrightarrow> qi_id x = qi_id y \<Longrightarrow> x = y"
  by (metis distinct_map inj_on_def)

lemma filter_is_cur:
  assumes "distinct (map qi_id q)"
  shows "filter (is_cur cur) q = [] \<or> (\<exists>it. filter (is_cur cur) q = [it])"
proof -
  have "distinct (map qi_id (filter (is_cur cur) q))" using assms by (rule distinct_map_filter)
  moreover have "\<forall>x \<in> set (filter (is_cur cur) q). cur = Some (qi_id x)" by (simp add: is_cur_def)
  ultimately show ?thesis
    by (cases "filter (is_cur cur) q" rule: remdups_adj.cases) auto
qed

lemma split_current_cases [consumes 1, case_names none some]:
  assumes d: "distinct (map qi_id q)"
  obtains (none) "split_current q cur = (None, q)" "\<forall>it \<in> set q. \<not> is_cur cur it"
  | (some) it where "split_current q cur = (Some it, filter (\<lambda>it. \<not> is_cur cur it) q)"
      "it \<in> set q" "cur = Some (qi_id it)" "filter (is_cur cur) q = [it]"
proof (cases "filter (is_cur cur) q = []")
  case True
  then have "\<forall>it \<in> set q. \<not> is_cur cur it" by (simp add: filter_empty_conv)
  moreover have "split_current q cur = (None, q)"
    using True split_from_fst [of cur None q] \<open>\<forall>it \<in> set q. \<not> is_cur cur it\<close>
    by (metis filter_True list.simps(4) prod.collapse split_current_def split_current_waiting)
  ultimately show ?thesis using none by blast
next
  case False
  then obtain it where it: "filter (is_cur cur) q = [it]" using filter_is_cur [OF d] by blast
  then have "it \<in> set (filter (is_cur cur) q)" by simp
  then have m: "it \<in> set q" "cur = Some (qi_id it)" by (simp_all add: is_cur_def)
  have "split_current q cur = (Some it, filter (\<lambda>it. \<not> is_cur cur it) q)"
    using it split_from_fst [of cur None q] split_from_snd [of cur None q]
    by (simp add: split_current_def prod_eq_iff)
  with m it show ?thesis using some by blast
qed

lemma mset_split:
  assumes "distinct (map qi_id q)" and "split_current q cur = (c, w)"
  shows "mset (with_current c w) = mset q"
  using assms(1)
proof (cases rule: split_current_cases [where cur = cur])
  case none
  then show ?thesis using assms(2) by (simp add: with_current_def)
next
  case (some it)
  have "mset q = mset (filter (is_cur cur) q) + mset (filter (\<lambda>it. \<not> is_cur cur it) q)"
    by simp
  with some assms(2) show ?thesis by (auto simp: with_current_def simp del: mset_filter)
qed

lemma with_current_mset:
  "mset w' = mset w \<Longrightarrow> mset (with_current c w') = mset (with_current c w)"
  by (cases c) (simp_all add: with_current_def)

lemma split_waiting_set:
  "split_current q cur = (c, w) \<Longrightarrow> w = filter (\<lambda>it. \<not> is_cur cur it) q"
  by (metis snd_conv split_current_waiting)

section \<open>Votes\<close>

lemma vote_key_less: "vote_key a < vote_key b \<longleftrightarrow> vote_before a b"
  by (auto simp: vote_key_def vote_before_def less_prod_def')

lemma vote_order_mset: "distinct (map qi_id q) \<Longrightarrow> mset (vote_order q cur) = mset q"
proof -
  assume d: "distinct (map qi_id q)"
  obtain c w where cw: "split_current q cur = (c, w)" by (cases "split_current q cur")
  then have "mset (vote_order q cur) = mset (with_current c w)"
    unfolding vote_order_def Let_def by (simp only: prod.case) (rule with_current_mset, simp)
  with mset_split [OF d cw] show ?thesis by simp
qed

section \<open>Turns\<close>

lemma adders_props:
  "distinct order \<Longrightarrow>
   distinct (adders w order) \<and> set (adders w order) = set order \<union> adder ` set w"
  by (induction w order rule: adders.induct) auto

lemma turn_order_props:
  "distinct order \<Longrightarrow> distinct (turn_order c order) \<and> set (turn_order c order) = set order"
proof -
  assume d: "distinct order"
  have rot: "set (drop i order @ take i order) = set order \<and> distinct (drop i order @ take i order)" for i
  proof -
    have "set (take i order @ drop i order) = set order" "distinct (take i order @ drop i order)"
      using d by (simp_all only: append_take_drop_id)
    then show ?thesis by (metis Int_commute Un_commute distinct_append set_append)
  qed
  show ?thesis
    unfolding turn_order_def using d rot
    by (simp only: split: option.split) (metis option.exhaust)
qed

lemma heads_Cons:
  "heads (a # as) g = (case g a of [] \<Rightarrow> heads as g | x # xs \<Rightarrow> x # heads as g)"
  by (simp add: heads_def split: list.splits)

lemma heads_cong: "(\<And>a. a \<in> set order \<Longrightarrow> g a = g' a) \<Longrightarrow> heads order g = heads order g'"
  unfolding heads_def by (intro map_cong filter_cong) auto

lemma fair_round_heads:
  "distinct order \<Longrightarrow> fair_round order g turns =
     (turns @ heads order g, \<lambda>a. if a \<in> set order then tl (g a) else g a)"
proof (induction order g turns rule: fair_round.induct)
  case (1 g turns)
  then show ?case by (simp add: heads_def)
next
  case (2 a as g turns)
  show ?case
  proof (cases "g a")
    case Nil
    with 2 show ?thesis by (auto simp: heads_Cons)
  next
    case (Cons x xs)
    have h: "heads as (g(a := xs)) = heads as g" using 2(3) by (intro heads_cong) auto
    have "(\<lambda>b. if b \<in> set as then tl ((g(a := xs)) b) else (g(a := xs)) b)
        = (\<lambda>b. if b \<in> set (a # as) then tl (g b) else g b)"
      using 2(3) Cons by (intro ext) simp
    moreover have "fair_round as (g(a := xs)) (turns @ [x])
        = ((turns @ [x]) @ heads as (g(a := xs)),
           \<lambda>b. if b \<in> set as then tl ((g(a := xs)) b) else (g(a := xs)) b)"
      using 2(2) [OF Cons] 2(3) by (simp del: fun_upd_apply)
    ultimately show ?thesis using Cons h by (simp add: heads_Cons)
  qed
qed

lemma turn_list_cong:
  "(\<And>a. a \<in> set order \<Longrightarrow> g a = g' a) \<Longrightarrow> turn_list m order g = turn_list m order g'"
proof (induction m arbitrary: g g')
  case (Suc m)
  have "heads order g = heads order g'" using Suc.prems by (rule heads_cong)
  moreover have "turn_list m order (\<lambda>a. tl (g a)) = turn_list m order (\<lambda>a. tl (g' a))"
    using Suc.prems by (intro Suc.IH) simp
  ultimately show ?case by simp
qed simp

lemma turn_list_empty: "(\<And>a. a \<in> set order \<Longrightarrow> g a = []) \<Longrightarrow> turn_list m order g = []"
proof (induction m arbitrary: g)
  case (Suc m)
  then have "turn_list m order (\<lambda>a. tl (g a)) = []" by simp
  with Suc.prems show ?case by (simp add: heads_def filter_False)
qed simp

lemma length_heads:
  "(\<Sum>a\<leftarrow>order. length (g a)) = length (heads order g) + (\<Sum>a\<leftarrow>order. length (tl (g a)))"
proof (induction order)
  case (Cons a as)
  then show ?case by (cases "g a") (simp_all add: heads_Cons)
qed (simp add: heads_def)

text \<open>The loop ends, with the rounds of \<open>turn_list\<close>.\<close>

lemma fair_loop_result:
  "distinct order \<Longrightarrow> (\<And>a. a \<in> set order \<Longrightarrow> length (g a) \<le> m) \<Longrightarrow>
   n = length turns + (\<Sum>a\<leftarrow>order. length (g a)) \<Longrightarrow>
   fair_loop n order g turns = Some (turns @ turn_list m order g)"
proof (induction m arbitrary: g turns)
  case 0
  then have "(\<Sum>a\<leftarrow>order. length (g a)) = 0" by (simp add: sum_list_eq_0_iff)
  with 0 show ?case by (simp add: fair_loop.simps)
next
  case (Suc m)
  show ?case
  proof (cases "length turns < n")
    case False
    with Suc.prems(3) have "(\<Sum>a\<leftarrow>order. length (g a)) = 0" by simp
    then have "\<forall>a \<in> set order. g a = []" by (simp add: sum_list_eq_0_iff)
    with False show ?thesis
      by (simp add: fair_loop.simps turn_list_empty heads_def filter_False del: turn_list.simps)
  next
    case True
    let ?g = "\<lambda>a. if a \<in> set order then tl (g a) else g a"
    have sum: "(\<Sum>a\<leftarrow>order. length (?g a)) = (\<Sum>a\<leftarrow>order. length (tl (g a)))"
      by (intro arg_cong [where f = sum_list] map_cong) simp_all
    have "fair_loop n order ?g (turns @ heads order g)
        = Some ((turns @ heads order g) @ turn_list m order ?g)"
    proof (rule Suc.IH [OF Suc.prems(1)])
      fix a assume "a \<in> set order"
      then show "length (?g a) \<le> m" using Suc.prems(2) [of a] by simp
    next
      show "n = length (turns @ heads order g) + (\<Sum>a\<leftarrow>order. length (?g a))"
        using Suc.prems(3) length_heads [of g order] unfolding sum by simp
    qed
    moreover have "turn_list m order ?g = turn_list m order (\<lambda>a. tl (g a))"
      by (rule turn_list_cong) simp
    ultimately show ?thesis
      using True by (simp add: fair_loop.simps [of n order g] fair_round_heads [OF Suc.prems(1)])
  qed
qed

lemma groups_sum:
  "distinct order \<Longrightarrow> adder ` set w \<subseteq> set order \<Longrightarrow>
   (\<Sum>a\<leftarrow>order. length (groups w a)) = length w"
proof (induction w)
  case (Cons it w)
  have "(\<Sum>a\<leftarrow>order. length (groups (it # w) a))
      = (\<Sum>a\<leftarrow>order. (if a = adder it then 1 else 0)) + (\<Sum>a\<leftarrow>order. length (groups w a))"
    unfolding sum_list_addf [symmetric] by (intro arg_cong [where f = sum_list] map_cong) (auto simp: groups_def)
  moreover have "(\<Sum>a\<leftarrow>order. (if a = adder it then 1 else 0 :: nat)) = 1"
    using Cons.prems by (simp add: sum_list_distinct_conv_sum_set)
  ultimately show ?case using Cons by simp
qed (simp add: groups_def)

lemma groups_length: "length (groups w a) \<le> length w"
  by (simp add: groups_def)

lemma fair_turn_order:
  "distinct (turn_order c (adders w []))"
  "set (turn_order c (adders w [])) = adder ` set w"
  using adders_props [of "[]" w] turn_order_props [of "adders w []" c] by auto

lemma fair_order_loop_eq: "fair_order_loop q cur = Some (fair_order q cur)"
proof -
  obtain c w where cw: "split_current q cur = (c, w)" by (cases "split_current q cur")
  have "fair_loop (length w) (turn_order c (adders w [])) (groups w) [] = Some (fair_turns c w)"
    unfolding fair_turns_def
    by (subst fair_loop_result [where m = "length w"])
      (simp_all add: fair_turn_order groups_length groups_sum)
  then show ?thesis by (simp add: fair_order_loop_def fair_order_def cw Let_def)
qed

text \<open>Each adder's own items come out in their order.\<close>

lemma heads_of_adder:
  assumes "distinct order" and "\<And>b it. b \<in> set order \<Longrightarrow> it \<in> set (g b) \<Longrightarrow> adder it = b"
    and "a \<in> set order"
  shows "filter (\<lambda>it. adder it = a) (heads order g) = (case g a of [] \<Rightarrow> [] | x # _ \<Rightarrow> [x])"
  using assms
proof (induction order)
  case (Cons b bs)
  have hd: "g b \<noteq> [] \<Longrightarrow> adder (hd (g b)) = b" using Cons.prems(2) by simp
  show ?case
  proof (cases "a = b")
    case True
    then have "\<forall>it \<in> set (heads bs g). adder it \<noteq> a"
      using Cons.prems(1,2) by (auto simp: heads_def) (metis hd_in_set)
    then have "filter (\<lambda>it. adder it = a) (heads bs g) = []" by (simp add: filter_False)
    then show ?thesis using True hd by (cases "g b") (simp_all add: heads_Cons)
  next
    case False
    then have "filter (\<lambda>it. adder it = a) (heads bs g) = (case g a of [] \<Rightarrow> [] | x # _ \<Rightarrow> [x])"
      using Cons.prems by (intro Cons.IH) auto
    then show ?thesis using False hd by (cases "g b") (simp_all add: heads_Cons)
  qed
qed simp

lemma turn_list_of_adder:
  assumes "distinct order" and "\<And>b it. b \<in> set order \<Longrightarrow> it \<in> set (g b) \<Longrightarrow> adder it = b"
    and "a \<in> set order"
  shows "filter (\<lambda>it. adder it = a) (turn_list m order g) = take m (g a)"
  using assms(2)
proof (induction m arbitrary: g)
  case (Suc m)
  have "filter (\<lambda>it. adder it = a) (turn_list m order (\<lambda>a. tl (g a))) = take m (tl (g a))"
    using Suc.prems by (intro Suc.IH) (auto dest: in_set_tl)
  moreover note heads_of_adder [OF assms(1) Suc.prems assms(3)]
  ultimately show ?case by (cases "g a") simp_all
qed simp

lemma turn_list_adders:
  "(\<And>b it. b \<in> set order \<Longrightarrow> it \<in> set (g b) \<Longrightarrow> adder it = b) \<Longrightarrow>
   it \<in> set (turn_list m order g) \<Longrightarrow> adder it \<in> set order"
proof (induction m arbitrary: g)
  case (Suc m)
  from Suc.prems(2) consider "it \<in> set (heads order g)" | "it \<in> set (turn_list m order (\<lambda>a. tl (g a)))"
    by auto
  then show ?case
  proof cases
    case 1
    then show ?thesis using Suc.prems(1) by (auto simp: heads_def)
  next
    case 2
    then show ?thesis using Suc.prems(1) by (intro Suc.IH [OF _ 2]) (auto dest: in_set_tl)
  qed
qed simp

lemma groups_adder: "it \<in> set (groups w b) \<Longrightarrow> adder it = b"
  by (simp add: groups_def)

lemma fair_turns_of_adder: "filter (\<lambda>it. adder it = a) (fair_turns c w) = filter (\<lambda>it. adder it = a) w"
proof (cases "a \<in> adder ` set w")
  case True
  then have "filter (\<lambda>it. adder it = a) (fair_turns c w) = take (length w) (groups w a)"
    unfolding fair_turns_def
    by (intro turn_list_of_adder fair_turn_order(1)) (auto simp: fair_turn_order(2) groups_def)
  then show ?thesis by (simp add: groups_def)
next
  case False
  have "adder it \<in> adder ` set w" if "it \<in> set (fair_turns c w)" for it
    using turn_list_adders [OF groups_adder that [unfolded fair_turns_def]]
    by (simp add: fair_turn_order(2))
  with False have "\<forall>it \<in> set (fair_turns c w). adder it \<noteq> a" by metis
  moreover from False have "\<forall>it \<in> set w. adder it \<noteq> a" by (metis imageI)
  ultimately show ?thesis by (simp add: filter_False)
qed

lemma fair_turns_mset: "mset (fair_turns c w) = mset w"
proof (rule multiset_eqI)
  fix x
  have "count (mset xs) x = count (mset (filter (\<lambda>it. adder it = adder x) xs)) x" for xs
    by simp
  then show "count (mset (fair_turns c w)) x = count (mset w) x"
    using fair_turns_of_adder [of "adder x" c w] by metis
qed

lemma fair_order_mset: "distinct (map qi_id q) \<Longrightarrow> mset (fair_order q cur) = mset q"
proof -
  assume d: "distinct (map qi_id q)"
  obtain c w where cw: "split_current q cur = (c, w)" by (cases "split_current q cur")
  have "mset (with_current c (fair_turns c w)) = mset (with_current c w)"
    by (rule with_current_mset) (rule fair_turns_mset)
  with mset_split [OF d cw] show ?thesis by (simp add: fair_order_def cw Let_def)
qed

text \<open>
  In every prefix of the turns nobody has two turns more than somebody who is still waiting
  for one.
\<close>

definition turns_of :: "uuid \<Rightarrow> queue_item list \<Rightarrow> nat" where
  "turns_of a q = length (filter (\<lambda>it. adder it = a) q)"

lemma turns_of_append [simp]: "turns_of a (xs @ ys) = turns_of a xs + turns_of a ys"
  by (simp add: turns_of_def)

lemma turns_of_take_le: "turns_of a (take k xs) \<le> turns_of a xs"
  unfolding turns_of_def by (metis append_take_drop_id filter_append le_add1 length_append)

lemma turn_list_fair:
  assumes "distinct order" and "\<And>b it. b \<in> set order \<Longrightarrow> it \<in> set (g b) \<Longrightarrow> adder it = b"
    and "a \<in> set order" and "b \<in> set order"
  shows "turns_of a (take k (turn_list m order g)) \<le> turns_of b (take k (turn_list m order g)) + 1
         \<or> length (g b) \<le> turns_of b (take k (turn_list m order g))"
  using assms(2)
proof (induction m arbitrary: g k)
  case (Suc m)
  let ?h = "heads order g" and ?r = "turn_list m order (\<lambda>a. tl (g a))"
  have h: "turns_of x ?h = (if g x = [] then 0 else 1)" if "x \<in> set order" for x
    using heads_of_adder [OF assms(1) Suc.prems that] by (simp add: turns_of_def split: list.splits)
  have tl: "turns_of a (take j ?r) \<le> turns_of b (take j ?r) + 1
      \<or> length (tl (g b)) \<le> turns_of b (take j ?r)" for j
    using Suc.prems by (intro Suc.IH) (auto dest: in_set_tl)
  show ?case
  proof (cases "k \<le> length ?h")
    case True
    then show ?thesis using turns_of_take_le [of a k ?h] h [OF assms(3)] by (simp split: if_splits)
  next
    case False
    then have "take k (turn_list (Suc m) order g) = ?h @ take (k - length ?h) ?r" by simp
    then show ?thesis
      using tl [of "k - length ?h"] h [OF assms(3)] h [OF assms(4)]
      by (auto split: if_splits simp del: One_nat_def)
  qed
qed (simp add: turns_of_def)

section \<open>Placing\<close>

lemma place_after_Inr:
  assumes "place_after q idx after cur = Inr r" and "idx < length q"
  shows "\<exists>i. i \<le> length (remove_nth idx q)
    \<and> r = take i (remove_nth idx q) @ q ! idx # drop i (remove_nth idx q)"
proof -
  let ?rest = "remove_nth idx q"
  obtain i where i: "(case after of None \<Rightarrow> Some 0
      | Some a \<Rightarrow> map_option Suc (find_index (\<lambda>it. qi_id it = a) ?rest)) = Some i"
    using assms(1) by (auto simp: place_after_def Let_def split: option.splits)
  then have "i \<le> length ?rest"
    by (auto split: option.splits dest!: find_index_Some)
  moreover have "1 \<le> length ?rest" if "?rest \<noteq> []" using that by (cases ?rest) simp_all
  ultimately show ?thesis
    using assms(1) i by (auto simp: place_after_def Let_def split: if_splits)
qed

lemma place_after_mset:
  assumes "place_after q idx after cur = Inr r" and "idx < length q"
  shows "mset r = mset q"
proof -
  obtain i where "r = take i (remove_nth idx q) @ q ! idx # drop i (remove_nth idx q)"
    using place_after_Inr [OF assms] by blast
  then have "mset r = add_mset (q ! idx) (mset (take i (remove_nth idx q) @ drop i (remove_nth idx q)))"
    by (simp del: append_take_drop_id)
  also have "\<dots> = mset q"
    unfolding append_take_drop_id using mset_remove_nth [OF assms(2)] by simp
  finally show ?thesis .
qed

lemma place_after_others:
  assumes "place_after q idx after cur = Inr r" and "idx < length q" and "distinct (map qi_id q)"
  shows "filter (\<lambda>it. qi_id it \<noteq> qi_id (q ! idx)) r = filter (\<lambda>it. qi_id it \<noteq> qi_id (q ! idx)) q"
proof -
  obtain i where "r = take i (remove_nth idx q) @ q ! idx # drop i (remove_nth idx q)"
    using place_after_Inr [OF assms(1,2)] by blast
  then have "filter (\<lambda>it. qi_id it \<noteq> qi_id (q ! idx)) r
      = filter (\<lambda>it. qi_id it \<noteq> qi_id (q ! idx)) (take i (remove_nth idx q) @ drop i (remove_nth idx q))"
    by (simp del: append_take_drop_id)
  then show ?thesis
    unfolding append_take_drop_id using remove_nth_filter [OF assms(3,2) refl] by simp
qed

lemma batch_mset:
  assumes "distinct (map qi_id q)"
  shows "mset (batch_after_current q batch cur) = mset q + mset batch"
proof -
  obtain c w where cw: "split_current q cur = (c, w)" by (cases "split_current q cur")
  have "mset (with_current c (batch @ w)) = mset (with_current c w) + mset batch"
    by (cases c) (simp_all add: with_current_def)
  with mset_split [OF assms cw] show ?thesis by (simp add: batch_after_current_def cw)
qed

lemma swap_nth_mset: "fst p < length xs \<Longrightarrow> snd p < length xs \<Longrightarrow> mset (swap_nth xs p) = mset xs"
  by (cases p) (simp add: swap_nth_def mset_swap)

lemma length_swap_nth [simp]: "length (swap_nth xs p) = length xs"
  by (simp add: swap_nth_def split: prod.splits)

lemma foldl_swap_mset:
  "(\<forall>p \<in> set ps. fst p < length xs \<and> snd p < length xs) \<Longrightarrow> mset (foldl swap_nth xs ps) = mset xs"
  by (induction ps arbitrary: xs) (simp_all add: swap_nth_mset)

lemma shuffled_mset:
  "(\<forall>n. \<forall>p \<in> set (shuffle n). fst p < n \<and> snd p < n) \<Longrightarrow> mset (shuffled q cur shuffle) = mset q"
proof (cases q)
  case Nil
  moreover assume "\<forall>n. \<forall>p \<in> set (shuffle n). fst p < n \<and> snd p < n"
  then have "shuffle 0 = []" by (cases "shuffle 0") (simp, metis list.set_intros(1) not_less_zero)
  ultimately show ?thesis by (simp add: shuffled_def)
qed (simp add: shuffled_def foldl_swap_mset)

section \<open>Renumbering\<close>

lemma renumber_from_ids [simp]: "map qi_id (renumber_from n q) = map qi_id q"
  by (induction n q rule: renumber_from.induct) simp_all

lemma renumber_from_length [simp]: "length (renumber_from n q) = length q"
  by (induction n q rule: renumber_from.induct) simp_all

lemma renumber_from_nth:
  "i < length q \<Longrightarrow> renumber_from n q ! i = (q ! i)\<lparr>qi_rank := fmt_08d (n + i)\<rparr>"
  by (induction n q arbitrary: i rule: renumber_from.induct) (auto simp: less_Suc_eq_0_disj)

lemma renumber_ids [simp]: "map qi_id (renumber q) = map qi_id q"
  by (simp add: renumber_def)

lemma length_renumber [simp]: "length (renumber q) = length q"
  by (simp add: renumber_def)

lemma following_mem: "following q i = Some it \<Longrightarrow> it \<in> set q"
  by (auto simp: following_def split: option.splits if_splits)

lemma following_None: "following q i = None \<longleftrightarrow> q = []"
  by (auto simp: following_def split: option.splits)

lemma split_current_fst_cur: "split_current q cur = (Some it, w) \<Longrightarrow> is_cur cur it"
proof -
  assume a: "split_current q cur = (Some it, w)"
  then have "(case filter (is_cur cur) q of [] \<Rightarrow> None | xs \<Rightarrow> Some (last xs)) = Some it"
    using split_from_fst [of cur None q] by (simp add: split_current_def)
  then have "filter (is_cur cur) q \<noteq> []" "it = last (filter (is_cur cur) q)"
    by (auto split: list.splits)
  then have "it \<in> set (filter (is_cur cur) q)" using last_in_set by blast
  then show ?thesis by simp
qed

lemma waiting_with_current:
  assumes "split_current q cur = (c, w)" and "set w' \<subseteq> set w"
  shows "filter (\<lambda>it. \<not> is_cur cur it) (with_current c w') = w'"
proof -
  have "\<forall>it \<in> set w'. \<not> is_cur cur it"
    using assms split_waiting_set [OF assms(1)] by auto
  then have "filter (\<lambda>it. \<not> is_cur cur it) w' = w'" by simp
  then show ?thesis
    using split_current_fst_cur [of q cur _ w] assms(1) by (cases c) (simp_all add: with_current_def)
qed

lemma fair_order_waiting:
  assumes "split_current q cur = (c, w)"
  shows "filter (\<lambda>it. \<not> is_cur cur it) (fair_order q cur) = (if length w < 2 then w else fair_turns c w)"
proof -
  have "set (fair_turns c w) = set w" by (metis fair_turns_mset set_mset_mset)
  then have "filter (\<lambda>it. \<not> is_cur cur it) (with_current c (fair_turns c w)) = fair_turns c w"
    by (intro waiting_with_current [OF assms]) simp
  then show ?thesis
    using split_waiting_set [OF assms] by (simp add: fair_order_def assms Let_def)
qed

lemma fair_turns_fair:
  "turns_of a (take k (fair_turns c w)) \<le> turns_of b (take k (fair_turns c w)) + 1
   \<or> turns_of b (take k (fair_turns c w)) = turns_of b (fair_turns c w)"
proof -
  have zero: "turns_of x (take k (fair_turns c w)) = 0" if "x \<notin> adder ` set w" for x
  proof -
    have "filter (\<lambda>it. adder it = x) w = []" using that by (auto simp: filter_empty_conv)
    then have "turns_of x (fair_turns c w) = 0" by (simp add: turns_of_def fair_turns_of_adder)
    then show ?thesis using turns_of_take_le [of x k "fair_turns c w"] by simp
  qed
  consider "a \<notin> adder ` set w" | "b \<notin> adder ` set w" | "a \<in> adder ` set w" "b \<in> adder ` set w"
    by blast
  then show ?thesis
  proof cases
    case 1
    then show ?thesis by (simp add: zero)
  next
    case 2
    then have "turns_of b (fair_turns c w) = 0"
      by (auto simp: turns_of_def fair_turns_of_adder filter_empty_conv)
    then show ?thesis using 2 by (simp add: zero)
  next
    case 3
    have "turns_of b (fair_turns c w) = length (groups w b)"
      by (simp add: turns_of_def fair_turns_of_adder groups_def)
    moreover have "turns_of a (take k (fair_turns c w)) \<le> turns_of b (take k (fair_turns c w)) + 1
        \<or> length (groups w b) \<le> turns_of b (take k (fair_turns c w))"
      unfolding fair_turns_def using 3
      by (intro turn_list_fair fair_turn_order(1) groups_adder) (simp_all add: fair_turn_order(2))
    ultimately show ?thesis using turns_of_take_le [of b k "fair_turns c w"] by auto
  qed
qed

section \<open>Properties\<close>

text \<open>
  C3: The turn loop of \<open>fairOrder\<close> always ends: for every queue and current item the loop
  returns the interleaving \<open>fair_order\<close> defines by rounds, and nobody's own videos change
  their order among the waiting ones.
\<close>

theorem fair_order_terminates:
  "fair_order_loop q cur = Some (fair_order q cur)
   \<and> filter (\<lambda>it. adder it = a) (filter (\<lambda>it. \<not> is_cur cur it) (fair_order q cur))
     = filter (\<lambda>it. adder it = a) (filter (\<lambda>it. \<not> is_cur cur it) q)"
proof -
  obtain c w where cw: "split_current q cur = (c, w)" by (cases "split_current q cur")
  show ?thesis
    using fair_order_loop_eq [of q cur] split_waiting_set [OF cw]
    by (simp only: fair_order_waiting [OF cw] fair_turns_of_adder if_distrib cong: if_cong) simp
qed

text \<open>
  C4: Turns are fair: in any prefix of the waiting videos after \<open>fairOrder\<close>, one person has at
  most one more than another, unless all of the other's videos are already in the prefix.
\<close>

theorem fair_order_fair:
  "turns_of a (take k (filter (\<lambda>it. \<not> is_cur cur it) (fair_order q cur)))
     \<le> turns_of b (take k (filter (\<lambda>it. \<not> is_cur cur it) (fair_order q cur))) + 1
   \<or> turns_of b (take k (filter (\<lambda>it. \<not> is_cur cur it) (fair_order q cur)))
     = turns_of b (filter (\<lambda>it. \<not> is_cur cur it) q)"
proof -
  obtain c w where cw: "split_current q cur = (c, w)" by (cases "split_current q cur")
  have w: "filter (\<lambda>it. \<not> is_cur cur it) q = w" using split_waiting_set [OF cw] by simp
  have all: "turns_of b (fair_turns c w) = turns_of b w"
    by (simp add: turns_of_def fair_turns_of_adder)
  show ?thesis
  proof (cases "length w < 2")
    case True
    have "turns_of a (take k w) \<le> length (take k w)" unfolding turns_of_def by (rule length_filter_le)
    also have "\<dots> \<le> 1" using True by simp
    finally show ?thesis using True by (simp add: fair_order_waiting [OF cw])
  next
    case False
    then show ?thesis using fair_turns_fair [of a k c w b] unfolding all w fair_order_waiting [OF cw] by simp
  qed
qed

text \<open>
  C5: \<open>voteOrder\<close> is a stable sort: it permutes the queue, puts the current item first and
  leaves no waiting item after one with fewer votes or, with as many votes, a younger one;
  waiting items with equal votes and age keep their order.
\<close>

theorem vote_order_correct:
  assumes "distinct (map qi_id q)"
  shows "mset (vote_order q cur) = mset q
    \<and> (\<forall>it \<in> set q. cur = Some (qi_id it) \<longrightarrow> hd (vote_order q cur) = it)
    \<and> sorted_wrt (\<lambda>x y. \<not> vote_before y x) (filter (\<lambda>it. \<not> is_cur cur it) (vote_order q cur))
    \<and> (\<forall>k. filter (\<lambda>it. vote_key it = k) (filter (\<lambda>it. \<not> is_cur cur it) (vote_order q cur))
         = filter (\<lambda>it. vote_key it = k) (filter (\<lambda>it. \<not> is_cur cur it) q))"
proof (intro conjI ballI impI allI)
  obtain c w where cw: "split_current q cur = (c, w)" by (cases "split_current q cur")
  have vo: "vote_order q cur = with_current c (sort_key vote_key w)"
    by (simp add: vote_order_def cw)
  have wt: "filter (\<lambda>it. \<not> is_cur cur it) (vote_order q cur) = sort_key vote_key w"
    unfolding vo by (intro waiting_with_current [OF cw]) simp
  show "mset (vote_order q cur) = mset q" using assms by (rule vote_order_mset)
  show "hd (vote_order q cur) = it" if it: "it \<in> set q" "cur = Some (qi_id it)" for it
    using assms
  proof (cases rule: split_current_cases [where cur = cur])
    case none
    with it show ?thesis by (metis is_cur_def)
  next
    case (some it')
    have "qi_id it' = qi_id it" using some(3) it(2) by (metis option.inject)
    then have "it' = it" by (rule distinct_ids_inj [OF assms some(2) it(1)])
    moreover have "c = Some it'" using cw some(1) by simp
    ultimately show ?thesis by (simp add: vo with_current_def)
  qed
  have "sorted (map vote_key (sort_key vote_key w))" by (rule sorted_sort_key)
  then show "sorted_wrt (\<lambda>x y. \<not> vote_before y x) (filter (\<lambda>it. \<not> is_cur cur it) (vote_order q cur))"
    unfolding wt by (simp add: sorted_wrt_map vote_key_less [symmetric] not_less)
  show "filter (\<lambda>it. vote_key it = k) (filter (\<lambda>it. \<not> is_cur cur it) (vote_order q cur))
      = filter (\<lambda>it. vote_key it = k) (filter (\<lambda>it. \<not> is_cur cur it) q)" for k
    unfolding wt using split_waiting_set [OF cw] by (simp add: sort_key_stable)
qed

text \<open>
  A move succeeds exactly when its anchor is in the rest of the queue (or no anchor is
  given); it then permutes the queue, leaves the order of all other items alone, and the moved
  item stands right behind the anchor, or at the head, behind a current item that leads.
\<close>

theorem place_after_correct:
  assumes "idx < length q" and "distinct (map qi_id q)"
  shows "case place_after q idx after cur of
      Inl e \<Rightarrow> e = not_found ''anchor item''
        \<and> (\<exists>a. after = Some a \<and> a \<notin> qi_id ` set (remove_nth idx q))
    | Inr r \<Rightarrow> mset r = mset q
        \<and> filter (\<lambda>it. qi_id it \<noteq> qi_id (q ! idx)) r = filter (\<lambda>it. qi_id it \<noteq> qi_id (q ! idx)) q
        \<and> (\<exists>i. i < length r \<and> r ! i = q ! idx
             \<and> (if i = 0 then after = None else
                   after = Some (qi_id (r ! (i - 1))) \<or> (after = None \<and> i = 1 \<and> is_cur cur (hd r))))"
proof (cases "place_after q idx after cur")
  case (Inl e)
  then show ?thesis
    by (auto simp: place_after_def Let_def find_index_None split: option.splits)
next
  case (Inr r)
  let ?rest = "remove_nth idx q"
  obtain i where i: "i \<le> length ?rest" "r = take i ?rest @ q ! idx # drop i ?rest"
    "if i = 0 then after = None else
       after = Some (qi_id (?rest ! (i - 1))) \<or> (after = None \<and> i = 1 \<and> is_cur cur (hd ?rest))"
  proof (cases after)
    case None
    with Inr that [of 0] that [of 1] show thesis
      by (cases ?rest) (auto simp: place_after_def Let_def split: if_splits)
  next
    case (Some a)
    with Inr obtain k where k: "find_index (\<lambda>it. qi_id it = a) ?rest = Some k"
      by (auto simp: place_after_def Let_def split: option.splits)
    from find_index_Some [OF k] have "k < length ?rest" "qi_id (?rest ! k) = a" by simp_all
    with Inr Some k that [of "Suc k"] show thesis by (simp add: place_after_def Let_def)
  qed
  have "i < length r" "r ! i = q ! idx" using i(1,2) by (simp_all add: nth_append)
  moreover have "r ! (i - 1) = ?rest ! (i - 1)" "hd r = hd ?rest" if "i \<noteq> 0"
    using that i(1,2) by (cases ?rest; simp add: nth_append hd_append hd_take)+
  ultimately have "i < length r \<and> r ! i = q ! idx
      \<and> (if i = 0 then after = None else
            after = Some (qi_id (r ! (i - 1))) \<or> (after = None \<and> i = 1 \<and> is_cur cur (hd r)))"
    using i(3) by (cases "i = 0") simp_all
  then show ?thesis
    using place_after_mset [OF Inr assms(1)] place_after_others [OF Inr assms]
    unfolding Inr sum.case by blast
qed

section \<open>Sample queues\<close>

definition sample_item :: "uuid \<Rightarrow> uuid option \<Rightarrow> int \<Rightarrow> queue_item" where
  "sample_item i by v = \<lparr>qi_id = i, qi_room = 1, qi_media = 100 + i, qi_added_by = by,
     qi_added_name = [], qi_rank = fmt_08d i, qi_votes = v, qi_created = int i, qi_played = None\<rparr>"

definition sample_queue :: "queue_item list" where
  "sample_queue = [sample_item 1 (Some 11) 0, sample_item 2 (Some 11) 1, sample_item 3 (Some 12) 4]"

lemma sample_queue_ids: "distinct (map qi_id sample_queue)" "length sample_queue = 3"
  by (simp_all add: sample_queue_def sample_item_def)

theorem vote_order_correct_witness: "mset (vote_order sample_queue (Some 1)) = mset sample_queue"
  using vote_order_correct [OF sample_queue_ids(1), of "Some 1"] by blast

theorem place_after_correct_witness:
  "(case place_after sample_queue 2 (Some 1) (Some 1) of Inl e \<Rightarrow> False | Inr r \<Rightarrow> mset r = mset sample_queue)"
proof -
  have "place_after sample_queue 2 (Some 1) (Some 1)
      = Inr [sample_item 1 (Some 11) 0, sample_item 3 (Some 12) 4, sample_item 2 (Some 11) 1]"
    by (simp add: place_after_def sample_queue_def sample_item_def remove_nth_def numeral_2_eq_2)
  then show ?thesis
    using place_after_correct [of 2 sample_queue "Some 1" "Some 1"] sample_queue_ids by simp
qed

end
