(* ===== verification/Access.thy ===== *)
theory Access
  imports Entity
begin

text \<open>
  \<open>internal/access\<close>: the one place where room permissions are decided.  \<open>can\<close> and
  \<open>can_target\<close> are \<open>Can\<close> and \<open>CanTarget\<close>; the clock reading that \<open>Actor.Muted\<close> takes
  from \<open>time.Now\<close> is the argument \<open>now\<close>.  The lemmas give the permission matrix: who is
  barred from everything, what each role implies, and that the roles form a chain.
\<close>

datatype action =
  ViewRoom | Chat | Vote | ReportMedia | AddToQueue | ControlPlayback | ManageQueue
  | ManageSettings | ModerateChat | Invite | BanMember | RemoveMember | ManageModerators
  | ManageRoom | DeleteRoom

record actor =
  a_user :: "user option"
  a_member :: "room_member option"
  a_banned :: bool
  a_muted_until :: "time option"

definition muted :: "time \<Rightarrow> actor \<Rightarrow> bool" where
  "muted now a = (case a_muted_until a of None \<Rightarrow> False | Some t \<Rightarrow> now < t)"

definition actor_role :: "actor \<Rightarrow> room_role" where
  "actor_role a = (case a_member a of None \<Rightarrow> RoleNone | Some m \<Rightarrow> rm_role m)"

definition is_user :: "actor \<Rightarrow> bool" where
  "is_user a \<longleftrightarrow> a_user a \<noteq> None \<and> \<not> user_is_banned (a_user a)"

definition is_admin :: "actor \<Rightarrow> bool" where
  "is_admin a \<longleftrightarrow> is_user a \<and> user_is_admin (a_user a)"

definition is_mod :: "actor \<Rightarrow> bool" where
  "is_mod a \<longleftrightarrow> is_user a \<and> is_moderator (actor_role a)"

definition is_owner :: "actor \<Rightarrow> bool" where
  "is_owner a \<longleftrightarrow> is_user a \<and> actor_role a = RoleOwner"

definition can :: "time \<Rightarrow> actor \<Rightarrow> action \<Rightarrow> room_info option \<Rightarrow> bool" where
  "can now a act room =
     (if room = None \<or> (a_user a \<noteq> None \<and> user_is_banned (a_user a)) \<or> a_banned a then False
      else
        let can_view = room_is_public room \<or> a_member a \<noteq> None \<or> is_admin a in
        case act of
          ViewRoom \<Rightarrow> can_view
        | ReportMedia \<Rightarrow> is_user a \<and> can_view
        | Chat \<Rightarrow> is_user a \<and> can_view \<and> \<not> muted now a
        | Vote \<Rightarrow> is_user a \<and> can_view \<and> \<not> muted now a
        | AddToQueue \<Rightarrow> is_mod a \<or> (is_user a \<and> can_view
            \<and> viewers_can_add (ri_settings (the room)) \<and> \<not> muted now a)
        | ControlPlayback \<Rightarrow> is_mod a
        | ManageQueue \<Rightarrow> is_mod a
        | ManageSettings \<Rightarrow> is_mod a
        | ModerateChat \<Rightarrow> is_mod a
        | Invite \<Rightarrow> is_mod a
        | BanMember \<Rightarrow> is_mod a
        | RemoveMember \<Rightarrow> is_mod a
        | ManageModerators \<Rightarrow> is_owner a
        | ManageRoom \<Rightarrow> is_owner a
        | DeleteRoom \<Rightarrow> is_owner a \<or> is_admin a)"

definition can_target :: "time \<Rightarrow> actor \<Rightarrow> action \<Rightarrow> room_info option \<Rightarrow> room_role \<Rightarrow> bool" where
  "can_target now a act room target =
     (if \<not> can now a act room then False
      else case target of
          RoleOwner \<Rightarrow> False
        | RoleModerator \<Rightarrow> is_owner a
        | _ \<Rightarrow> True)"

section \<open>Lemmas\<close>

lemma can_denied [simp]:
  "can now a act None = False"
  "a_banned a \<Longrightarrow> can now a act room = False"
  "user_is_banned (a_user a) \<Longrightarrow> can now a act room = False"
  by (auto simp: can_def user_is_banned_def)

lemma is_owner_imp_mod: "is_owner a \<Longrightarrow> is_mod a"
  by (simp add: is_owner_def is_mod_def is_moderator_def)

lemma is_mod_imp_user: "is_mod a \<Longrightarrow> is_user a"
  by (simp add: is_mod_def)

lemma is_mod_imp_member: "is_mod a \<Longrightarrow> a_member a \<noteq> None"
  by (auto simp: is_mod_def is_moderator_def actor_role_def split: option.splits)

lemma can_imp_user: "can now a act room \<Longrightarrow> act \<noteq> ViewRoom \<Longrightarrow> a_user a \<noteq> None"
  by (cases act)
    (auto simp: can_def is_user_def is_mod_def is_owner_def is_admin_def Let_def split: if_splits)

lemma can_imp_view: "can now a act room \<Longrightarrow> can now a ViewRoom room"
  using is_mod_imp_member [of a] is_owner_imp_mod [of a]
  by (cases act) (auto simp: can_def Let_def split: if_splits)

lemma can_playback_iff:
  "can now a ControlPlayback (Some i) \<longleftrightarrow> \<not> a_banned a \<and> is_mod a"
  by (auto simp: can_def is_mod_def is_user_def)

text \<open>
  \<open>require\<close> of \<open>apihttp\<close> and \<open>requireLocked\<close> of the room ask nothing but \<open>can\<close>, so a
  stronger role never loses an action a weaker one has.
\<close>

fun role_rank :: "room_role \<Rightarrow> nat" where
  "role_rank RoleNone = 0"
| "role_rank RoleMember = 1"
| "role_rank RoleModerator = 2"
| "role_rank RoleOwner = 3"

lemma role_rank_owner: "role_rank r \<ge> 3 \<longleftrightarrow> r = RoleOwner"
  by (cases r) auto

lemma role_rank_mod: "role_rank r \<ge> 2 \<longleftrightarrow> is_moderator r"
  by (cases r) (auto simp: is_moderator_def)

lemma can_mono_role:
  assumes c: "can now a act room"
    and up: "role_rank (actor_role a) \<le> role_rank (actor_role b)"
    and same: "a_user b = a_user a" "a_banned b = a_banned a" "a_muted_until b = a_muted_until a"
    and member: "a_member a \<noteq> None \<longrightarrow> a_member b \<noteq> None"
  shows "can now b act room"
proof -
  have u: "is_user b = is_user a" "is_admin b = is_admin a" "muted now b = muted now a"
    using same by (simp_all add: is_user_def is_admin_def muted_def)
  have m: "is_mod a \<Longrightarrow> is_mod b" and ow: "is_owner a \<Longrightarrow> is_owner b"
    using up u(1) unfolding is_mod_def is_owner_def
    by (auto simp: role_rank_owner [symmetric] role_rank_mod [symmetric])
  show ?thesis using c u m ow member same
    by (cases act) (auto simp: can_def Let_def split: if_splits)
qed

section \<open>Properties\<close>


text \<open>
  C7: Roles form a chain: with a higher room role, and nothing else changed, an actor keeps
  every action; and nobody but the owner acts on a moderator, nobody at all on the owner.
\<close>

theorem roles_form_a_chain:
  assumes "can now a act room"
    and "role_rank (actor_role a) \<le> role_rank (actor_role b)"
    and "a_user b = a_user a" and "a_banned b = a_banned a" and "a_muted_until b = a_muted_until a"
    and "a_member a = None \<or> a_member b \<noteq> None"
  shows "can now b act room \<and> can_target now b act room RoleMember
    \<and> (can_target now b act room RoleModerator \<longleftrightarrow> is_owner b)
    \<and> \<not> can_target now b act room RoleOwner"
proof -
  have "can now b act room" using assms by (intro can_mono_role [OF assms(1)]) auto
  then show ?thesis by (simp add: can_target_def)
qed

definition sample_room :: room_info where
  "sample_room = \<lparr>ri_id = 1, ri_slug = ''r'', ri_name = ''R'', ri_owner = 1,
     ri_visibility = VisPrivate, ri_description = [], ri_settings = default_settings,
     ri_current = None, ri_playing = False, ri_position_ms = 0, ri_position_at = 0, ri_rate = 1,
     ri_pinned = None, ri_scheduled = None, ri_created = 0, ri_updated = 0\<rparr>"

definition sample_user :: "uuid \<Rightarrow> user" where
  "sample_user i = \<lparr>u_id = i, u_name = ''ann'', u_password_hash = [], u_role = SiteUser,
     u_banned_at = None, u_banned_reason = None, u_banned_by = None, u_created = 0, u_color = []\<rparr>"

definition sample_actor :: "uuid \<Rightarrow> room_role \<Rightarrow> actor" where
  "sample_actor i r = \<lparr>a_user = Some (sample_user i),
     a_member = Some \<lparr>rm_room = 1, rm_user = i, rm_username = ''ann'', rm_role = r, rm_joined = 0\<rparr>,
     a_banned = False, a_muted_until = None\<rparr>"

lemmas sample_defs = sample_room_def sample_user_def sample_actor_def default_settings_def
  can_def is_user_def is_mod_def is_owner_def is_admin_def is_moderator_def actor_role_def
  muted_def Let_def


theorem roles_form_a_chain_witness:
  "can 5 (sample_actor 3 RoleOwner) Invite (Some sample_room)
   \<and> can_target 5 (sample_actor 3 RoleOwner) Invite (Some sample_room) RoleModerator"
proof -
  have "can 5 (sample_actor 3 RoleModerator) Invite (Some sample_room)"
    "is_owner (sample_actor 3 RoleOwner)" by (simp_all add: sample_defs)
  then show ?thesis
    using roles_form_a_chain [of 5 "sample_actor 3 RoleModerator" Invite "Some sample_room" "sample_actor 3 RoleOwner"]
    by (simp add: sample_actor_def actor_role_def)
qed

end
