(* ===== verification/Repository.thy ===== *)
theory Repository
  imports Order
begin

text \<open>
  \<open>internal/repository\<close> as far as rooms use it: the tables as lists of rows, and each method
  as the function on tables that its SQL is.  Foreign keys are kept as the schema declares
  them: deleting a queue item deletes its votes and clears the rooms that were on it, and a
  room cannot be saved with a current item that has no row.  Every statement that must affect
  a row answers \<open>NotFoundErr\<close> when none matches.  \<open>now\<close> is the server's \<open>now()\<close>.  Fresh
  identifiers (\<open>gen_random_uuid()\<close>, identity columns) come from counters.
\<close>

record item_row =
  ir_id :: uuid
  ir_room :: uuid
  ir_media :: uuid
  ir_added_by :: "uuid option"
  ir_rank :: string
  ir_created :: time
  ir_played :: "time option"

record msg_row =
  mr_id :: int
  mr_room :: uuid
  mr_user :: "uuid option"
  mr_body :: string
  mr_reply :: "int option"
  mr_system :: bool
  mr_created :: time
  mr_edited :: "time option"
  mr_deleted :: "time option"
  mr_deleted_by :: "uuid option"

record db =
  d_rooms :: "room_info list"
  d_users :: "user list"
  d_members :: "room_member list"
  d_items :: "item_row list"
  d_votes :: "(uuid \<times> uuid) list"
  d_media :: "media list"
  d_jobs :: "uuid list"
  d_messages :: "msg_row list"
  d_bans :: "room_ban list"
  d_mutes :: "room_mute list"
  d_invites :: "invite list"
  d_links :: "(string \<times> invite_link) list"
  d_stars :: "(uuid \<times> uuid) list"
  d_slugs :: "(string \<times> uuid) list"
  d_next :: uuid
  d_next_msg :: int

type_synonym 'a outcome = "(cerr + 'a) \<times> db"

section \<open>Users and members\<close>

definition get_user :: "db \<Rightarrow> uuid \<Rightarrow> cerr + user" where
  "get_user d i = (case find (\<lambda>u. u_id u = i) (d_users d) of None \<Rightarrow> Inl NotFoundErr | Some u \<Rightarrow> Inr u)"

definition username_of :: "db \<Rightarrow> uuid option \<Rightarrow> string" where
  "username_of d i = (case i of None \<Rightarrow> ''''
     | Some j \<Rightarrow> (case find (\<lambda>u. u_id u = j) (d_users d) of None \<Rightarrow> '''' | Some u \<Rightarrow> u_name u))"

definition color_of :: "db \<Rightarrow> uuid option \<Rightarrow> string" where
  "color_of d i = (case i of None \<Rightarrow> ''''
     | Some j \<Rightarrow> (case find (\<lambda>u. u_id u = j) (d_users d) of None \<Rightarrow> '''' | Some u \<Rightarrow> u_color u))"

definition to_lower :: "string \<Rightarrow> string" where
  "to_lower s = map (\<lambda>c. let n = of_char c :: nat in
     if 65 \<le> n \<and> n \<le> 90 then char_of (n + 32) else c) s"

definition user_ids_by_username :: "db \<Rightarrow> string list \<Rightarrow> (string \<times> uuid) list" where
  "user_ids_by_username d names =
     map (\<lambda>u. (to_lower (u_name u), u_id u)) (filter (\<lambda>u. to_lower (u_name u) \<in> set names) (d_users d))"

definition get_member :: "db \<Rightarrow> uuid \<Rightarrow> uuid \<Rightarrow> cerr + room_member" where
  "get_member d rid uid =
     (case find (\<lambda>m. rm_room m = rid \<and> rm_user m = uid) (d_members d) of
        None \<Rightarrow> Inl NotFoundErr
      | Some m \<Rightarrow> (case get_user d uid of Inl e \<Rightarrow> Inl e | Inr u \<Rightarrow> Inr (m\<lparr>rm_username := u_name u\<rparr>)))"

section \<open>Rooms\<close>

definition find_room :: "db \<Rightarrow> uuid \<Rightarrow> room_info option" where
  "find_room d rid = find (\<lambda>i. ri_id i = rid) (d_rooms d)"

definition get_room :: "db \<Rightarrow> uuid \<Rightarrow> cerr + room_info" where
  "get_room d rid = (case find_room d rid of None \<Rightarrow> Inl NotFoundErr | Some i \<Rightarrow> Inr i)"

definition map_room :: "uuid \<Rightarrow> (room_info \<Rightarrow> room_info) \<Rightarrow> db \<Rightarrow> db" where
  "map_room rid f d = d\<lparr>d_rooms := map (\<lambda>i. if ri_id i = rid then f i else i) (d_rooms d)\<rparr>"

text \<open>\<open>Repo.exec\<close> on one room.\<close>

definition exec_room :: "uuid \<Rightarrow> (room_info \<Rightarrow> room_info) \<Rightarrow> db \<Rightarrow> unit outcome" where
  "exec_room rid f d =
     (if find_room d rid = None then (Inl NotFoundErr, d) else (Inr (), map_room rid f d))"

definition update_room_playback :: "time \<Rightarrow> uuid \<Rightarrow> playback_state \<Rightarrow> db \<Rightarrow> unit outcome" where
  "update_room_playback now rid p d =
     (if ps_current p \<noteq> None \<and> the (ps_current p) \<notin> ir_id ` set (d_items d)
         \<and> find_room d rid \<noteq> None then (Inl InternalErr, d)
      else (Inr (), map_room rid (\<lambda>i. i\<lparr>ri_current := ps_current p, ri_playing := ps_playing p,
             ri_position_ms := ps_position_ms p, ri_position_at := ps_position_at p,
             ri_rate := ps_rate p, ri_updated := now\<rparr>) d))"

definition set_room_schedule :: "time \<Rightarrow> uuid \<Rightarrow> time option \<Rightarrow> db \<Rightarrow> unit outcome" where
  "set_room_schedule now rid t d = exec_room rid (\<lambda>i. i\<lparr>ri_scheduled := t, ri_updated := now\<rparr>) d"

definition update_room_settings :: "time \<Rightarrow> uuid \<Rightarrow> settings \<Rightarrow> db \<Rightarrow> unit outcome" where
  "update_room_settings now rid s d = exec_room rid (\<lambda>i. i\<lparr>ri_settings := s, ri_updated := now\<rparr>) d"

definition set_pinned_message :: "uuid \<Rightarrow> int option \<Rightarrow> db \<Rightarrow> unit outcome" where
  "set_pinned_message rid i d = exec_room rid (\<lambda>r. r\<lparr>ri_pinned := i\<rparr>) d"

definition list_playing_room_ids :: "db \<Rightarrow> uuid list" where
  "list_playing_room_ids d =
     map ri_id (filter (\<lambda>i. ri_playing i \<and> ri_current i \<noteq> None) (d_rooms d))"

section \<open>The queue\<close>

definition queued_in :: "uuid \<Rightarrow> item_row \<Rightarrow> bool" where
  "queued_in rid r \<longleftrightarrow> ir_room r = rid \<and> ir_played r = None"

definition played_in :: "uuid \<Rightarrow> item_row \<Rightarrow> bool" where
  "played_in rid r \<longleftrightarrow> ir_room r = rid \<and> ir_played r \<noteq> None"

definition to_item :: "db \<Rightarrow> item_row \<Rightarrow> queue_item" where
  "to_item d r = \<lparr>qi_id = ir_id r, qi_room = ir_room r, qi_media = ir_media r,
     qi_added_by = ir_added_by r, qi_added_name = username_of d (ir_added_by r),
     qi_rank = ir_rank r, qi_votes = int (length (filter (\<lambda>v. fst v = ir_id r) (d_votes d))),
     qi_created = ir_created r, qi_played = ir_played r\<rparr>"

definition rank_key :: "item_row \<Rightarrow> string \<times> time" where
  "rank_key r = (ir_rank r, ir_created r)"

definition list_queue :: "db \<Rightarrow> uuid \<Rightarrow> queue_item list" where
  "list_queue d rid = map (to_item d) (sort_key rank_key (filter (queued_in rid) (d_items d)))"

definition list_played :: "db \<Rightarrow> uuid \<Rightarrow> nat \<Rightarrow> queue_item list" where
  "list_played d rid limit =
     take limit (map (to_item d)
       (sort_key (\<lambda>r. - the (ir_played r)) (filter (played_in rid) (d_items d))))"

text \<open>\<open>coalesce(max(rank)::bigint, 0)\<close> over the queued items of the room; \<open>max\<close> is on text.\<close>

definition max_rank :: "db \<Rightarrow> uuid \<Rightarrow> nat" where
  "max_rank d rid = (case map ir_rank (filter (queued_in rid) (d_items d)) of
     [] \<Rightarrow> 0 | r # rs \<Rightarrow> rank_num (fold max rs r))"

definition mark_queue_item_played :: "uuid \<Rightarrow> uuid \<Rightarrow> time \<Rightarrow> db \<Rightarrow> unit outcome" where
  "mark_queue_item_played rid iid t d =
     (let hit = (\<lambda>r. queued_in rid r \<and> ir_id r = iid) in
      if filter hit (d_items d) = [] then (Inl NotFoundErr, d)
      else (Inr (), d\<lparr>d_items := map (\<lambda>r. if hit r then r\<lparr>ir_played := Some t\<rparr> else r) (d_items d)\<rparr>))"

definition requeue_played :: "uuid \<Rightarrow> db \<Rightarrow> unit outcome" where
  "requeue_played rid d =
     (let base = max_rank d rid;
          ordered = map ir_id (sort_key (\<lambda>r. (the (ir_played r), ir_created r))
                      (filter (played_in rid) (d_items d)));
          put = (\<lambda>r. case find_index (\<lambda>i. i = ir_id r) ordered of
                   None \<Rightarrow> r
                 | Some k \<Rightarrow> r\<lparr>ir_played := None, ir_rank := lpad8 (dec (base + k + 1))\<rparr>)
      in (Inr (), d\<lparr>d_items := map put (d_items d)\<rparr>))"

text \<open>Deleting items, with what the foreign keys do to votes and rooms.\<close>

definition drop_items :: "(item_row \<Rightarrow> bool) \<Rightarrow> db \<Rightarrow> db" where
  "drop_items p d =
     (let gone = ir_id ` set (filter p (d_items d)) in
      d\<lparr>d_items := filter (\<lambda>r. \<not> p r) (d_items d),
        d_votes := filter (\<lambda>v. fst v \<notin> gone) (d_votes d),
        d_rooms := map (\<lambda>i. if ri_current i \<noteq> None \<and> the (ri_current i) \<in> gone
                            then i\<lparr>ri_current := None\<rparr> else i) (d_rooms d)\<rparr>)"

definition clear_played :: "uuid \<Rightarrow> db \<Rightarrow> unit outcome" where
  "clear_played rid d = (Inr (), drop_items (played_in rid) d)"

definition clear_queue :: "uuid \<Rightarrow> uuid option \<Rightarrow> db \<Rightarrow> unit outcome" where
  "clear_queue rid keep d = (Inr (), drop_items (\<lambda>r. queued_in rid r \<and> keep \<noteq> Some (ir_id r)) d)"

definition delete_queue_item :: "uuid \<Rightarrow> uuid \<Rightarrow> db \<Rightarrow> unit outcome" where
  "delete_queue_item rid iid d =
     (let hit = (\<lambda>r. ir_room r = rid \<and> ir_id r = iid) in
      if filter hit (d_items d) = [] then (Inl NotFoundErr, d) else (Inr (), drop_items hit d))"

definition purge_played :: "time \<Rightarrow> nat \<Rightarrow> db \<Rightarrow> nat \<times> db" where
  "purge_played before keep d =
     (let newer = (\<lambda>r. length (filter (\<lambda>r'. played_in (ir_room r) r' \<and>
                   (the (ir_played r) < the (ir_played r'))) (d_items d)));
          hit = (\<lambda>r. ir_played r \<noteq> None \<and> (keep \<le> newer r \<or> the (ir_played r) < before))
      in (length (filter hit (d_items d)), drop_items hit d))"

definition add_queue_item :: "time \<Rightarrow> uuid \<Rightarrow> uuid \<Rightarrow> uuid option \<Rightarrow> db \<Rightarrow> queue_item outcome" where
  "add_queue_item now rid mid by d =
     (let r = \<lparr>ir_id = d_next d, ir_room = rid, ir_media = mid, ir_added_by = by,
               ir_rank = lpad8 (dec (max_rank d rid + 1)), ir_created = now, ir_played = None\<rparr>
      in (Inr \<lparr>qi_id = ir_id r, qi_room = rid, qi_media = mid, qi_added_by = by, qi_added_name = '''',
               qi_rank = ir_rank r, qi_votes = 0, qi_created = now, qi_played = None\<rparr>,
          d\<lparr>d_items := d_items d @ [r], d_next := Suc (d_next d)\<rparr>))"

text \<open>One \<open>UPDATE\<close> per id, the \<open>i\<close>-th rank \<open>i + 1\<close>, in one transaction.\<close>

fun set_ranks_from :: "nat \<Rightarrow> uuid \<Rightarrow> uuid list \<Rightarrow> item_row list \<Rightarrow> item_row list" where
  "set_ranks_from n rid [] rows = rows"
| "set_ranks_from n rid (i # ids) rows =
     set_ranks_from (Suc n) rid ids
       (map (\<lambda>r. if ir_room r = rid \<and> ir_id r = i then r\<lparr>ir_rank := fmt_08d n\<rparr> else r) rows)"

definition set_queue_ranks :: "uuid \<Rightarrow> uuid list \<Rightarrow> db \<Rightarrow> unit outcome" where
  "set_queue_ranks rid ids d = (Inr (), d\<lparr>d_items := set_ranks_from 1 rid ids (d_items d)\<rparr>)"

definition toggle_queue_vote :: "uuid \<Rightarrow> uuid \<Rightarrow> db \<Rightarrow> bool outcome" where
  "toggle_queue_vote iid uid d =
     (if (iid, uid) \<in> set (d_votes d)
      then (Inr False, d\<lparr>d_votes := filter (\<lambda>v. v \<noteq> (iid, uid)) (d_votes d)\<rparr>)
      else if iid \<notin> ir_id ` set (d_items d) then (Inl InternalErr, d)
      else (Inr True, d\<lparr>d_votes := d_votes d @ [(iid, uid)]\<rparr>))"

definition list_queue_votes :: "db \<Rightarrow> uuid \<Rightarrow> (uuid \<times> uuid) list" where
  "list_queue_votes d rid =
     map (\<lambda>v. (snd v, fst v))
       (filter (\<lambda>v. fst v \<in> ir_id ` set (filter (\<lambda>r. ir_room r = rid) (d_items d))) (d_votes d))"

definition list_room_ids_with_media :: "db \<Rightarrow> uuid \<Rightarrow> uuid list" where
  "list_room_ids_with_media d mid =
     remdups (map ir_room (filter (\<lambda>r. ir_media r = mid) (d_items d)))"

section \<open>Media\<close>

definition get_media :: "db \<Rightarrow> uuid \<Rightarrow> cerr + media" where
  "get_media d i = (case find (\<lambda>m. m_id m = i) (d_media d) of None \<Rightarrow> Inl NotFoundErr | Some m \<Rightarrow> Inr m)"

definition get_media_batch :: "db \<Rightarrow> uuid list \<Rightarrow> (uuid \<times> media) list" where
  "get_media_batch d ids = map (\<lambda>m. (m_id m, m)) (filter (\<lambda>m. m_id m \<in> set ids) (d_media d))"

definition new_media :: "time \<Rightarrow> uuid \<Rightarrow> string \<Rightarrow> string \<Rightarrow> media" where
  "new_media now i key url = \<lparr>m_id = i, m_source_key = key, m_source_url = url, m_title = '''',
     m_duration_ms = 0, m_thumbnail_url = '''', m_status = MediaQueued, m_progress = 0,
     m_speed_bps = 0, m_eta_ms = 0, m_error = '''', m_size_bytes = 0, m_renditions = [],
     m_subtitles = [], m_chapters = [], m_storyboard = None, m_s3_prefix = '''',
     m_created = now, m_updated = now, m_last_accessed = now\<rparr>"

definition create_media :: "time \<Rightarrow> string \<Rightarrow> string \<Rightarrow> db \<Rightarrow> (media \<times> bool) outcome" where
  "create_media now key url d =
     (case find (\<lambda>m. m_source_key m = key) (d_media d) of
        Some m \<Rightarrow> (Inr (m, False), d)
      | None \<Rightarrow> let m = new_media now (d_next d) key url
                in (Inr (m, True), d\<lparr>d_media := d_media d @ [m], d_next := Suc (d_next d)\<rparr>))"

definition set_media_status :: "time \<Rightarrow> uuid \<Rightarrow> media_status \<Rightarrow> db \<Rightarrow> unit outcome" where
  "set_media_status now i s d =
     (if filter (\<lambda>m. m_id m = i) (d_media d) = [] then (Inl NotFoundErr, d)
      else (Inr (), d\<lparr>d_media := map (\<lambda>m. if m_id m = i then m\<lparr>m_status := s, m_progress := 0,
             m_speed_bps := 0, m_eta_ms := 0, m_error := '''', m_updated := now\<rparr> else m) (d_media d)\<rparr>))"

definition enqueue_ingest :: "uuid \<Rightarrow> db \<Rightarrow> unit outcome" where
  "enqueue_ingest mid d = (Inr (), d\<lparr>d_jobs := d_jobs d @ [mid]\<rparr>)"

section \<open>Messages\<close>

definition visible :: "msg_row \<Rightarrow> bool" where
  "visible r \<longleftrightarrow> mr_deleted r = None"

definition find_msg :: "db \<Rightarrow> int \<Rightarrow> msg_row option" where
  "find_msg d i = find (\<lambda>r. mr_id r = i) (d_messages d)"

definition quote_of :: "db \<Rightarrow> msg_row \<Rightarrow> quote" where
  "quote_of d r = \<lparr>qt_id = mr_id r, qt_username = username_of d (mr_user r), qt_body = mr_body r\<rparr>"

text \<open>\<open>messageSelect\<close>: the quote is dropped once the quoted message is deleted.\<close>

definition to_message :: "db \<Rightarrow> msg_row \<Rightarrow> message" where
  "to_message d r = \<lparr>ms_id = mr_id r, ms_room = mr_room r, ms_user = mr_user r,
     ms_username = username_of d (mr_user r), ms_color = color_of d (mr_user r), ms_body = mr_body r,
     ms_system = mr_system r, ms_created = mr_created r, ms_edited = mr_edited r, ms_deleted = None,
     ms_deleted_by = None,
     ms_reply = (case mr_reply r of None \<Rightarrow> None
       | Some i \<Rightarrow> (case find_msg d i of None \<Rightarrow> None
           | Some q \<Rightarrow> if visible q then Some (quote_of d q) else None))\<rparr>"

definition append_msg :: "msg_row \<Rightarrow> db \<Rightarrow> db" where
  "append_msg r d = d\<lparr>d_messages := d_messages d @ [r], d_next_msg := d_next_msg d + 1\<rparr>"

text \<open>
  The join with \<open>users\<close> drops the row of an unknown author; the foreign key keeps that from
  happening, and so does the error here.
\<close>

definition create_message ::
    "time \<Rightarrow> uuid \<Rightarrow> uuid \<Rightarrow> string \<Rightarrow> int option \<Rightarrow> db \<Rightarrow> message outcome" where
  "create_message now rid uid body reply d =
     (if \<not> (case reply of None \<Rightarrow> True | Some i \<Rightarrow>
              \<exists>p \<in> set (d_messages d). mr_id p = i \<and> mr_room p = rid \<and> visible p)
      then (Inl NotFoundErr, d)
      else if uid \<notin> u_id ` set (d_users d) then (Inl InternalErr, d)
      else let r = \<lparr>mr_id = d_next_msg d, mr_room = rid, mr_user = Some uid, mr_body = body,
                    mr_reply = reply, mr_system = False, mr_created = now, mr_edited = None,
                    mr_deleted = None, mr_deleted_by = None\<rparr>
           in (Inr (to_message (append_msg r d) r), append_msg r d))"

definition create_system_message :: "time \<Rightarrow> uuid \<Rightarrow> string \<Rightarrow> db \<Rightarrow> message outcome" where
  "create_system_message now rid body d =
     (let r = \<lparr>mr_id = d_next_msg d, mr_room = rid, mr_user = None, mr_body = body, mr_reply = None,
               mr_system = True, mr_created = now, mr_edited = None, mr_deleted = None,
               mr_deleted_by = None\<rparr>
      in (Inr (to_message d r), append_msg r d))"

definition list_recent_messages :: "db \<Rightarrow> uuid \<Rightarrow> nat \<Rightarrow> message list" where
  "list_recent_messages d rid limit =
     (let rows = sort_key mr_id (filter (\<lambda>r. mr_room r = rid \<and> visible r) (d_messages d))
      in map (to_message d) (drop (length rows - limit) rows))"

definition get_message :: "db \<Rightarrow> uuid \<Rightarrow> int \<Rightarrow> cerr + message" where
  "get_message d rid i =
     (case find (\<lambda>r. mr_room r = rid \<and> mr_id r = i \<and> visible r) (d_messages d) of
        None \<Rightarrow> Inl NotFoundErr | Some r \<Rightarrow> Inr (to_message d r))"

definition edit_message ::
    "time \<Rightarrow> uuid \<Rightarrow> int \<Rightarrow> uuid \<Rightarrow> string \<Rightarrow> duration \<Rightarrow> db \<Rightarrow> message outcome" where
  "edit_message now rid i uid body window d =
     (let hit = (\<lambda>r. mr_id r = i \<and> mr_room r = rid \<and> mr_user r = Some uid \<and> visible r
                   \<and> \<not> mr_system r \<and> now - window < mr_created r)
      in if filter hit (d_messages d) = [] then (Inl NotFoundErr, d)
         else let d' = d\<lparr>d_messages := map (\<lambda>r. if hit r then r\<lparr>mr_body := body, mr_edited := Some now\<rparr>
                                              else r) (d_messages d)\<rparr>
              in (get_message d' rid i, d'))"

definition delete_message :: "time \<Rightarrow> uuid \<Rightarrow> int \<Rightarrow> uuid \<Rightarrow> bool \<Rightarrow> db \<Rightarrow> unit outcome" where
  "delete_message now rid i by only_own d =
     (let hit = (\<lambda>r. mr_id r = i \<and> mr_room r = rid \<and> visible r \<and> (\<not> only_own \<or> mr_user r = Some by))
      in if filter hit (d_messages d) = [] then (Inl NotFoundErr, d)
         else (Inr (), map_room rid (\<lambda>r. if ri_pinned r = Some i then r\<lparr>ri_pinned := None\<rparr> else r)
                 (d\<lparr>d_messages := map (\<lambda>r. if hit r then r\<lparr>mr_deleted := Some now, mr_deleted_by := Some by\<rparr>
                                         else r) (d_messages d)\<rparr>)))"

definition clear_messages :: "time \<Rightarrow> uuid \<Rightarrow> uuid \<Rightarrow> db \<Rightarrow> nat outcome" where
  "clear_messages now rid by d =
     (let hit = (\<lambda>r. mr_room r = rid \<and> visible r)
      in (Inr (length (filter hit (d_messages d))),
          map_room rid (\<lambda>r. r\<lparr>ri_pinned := None\<rparr>)
            (d\<lparr>d_messages := map (\<lambda>r. if hit r then r\<lparr>mr_deleted := Some now, mr_deleted_by := Some by\<rparr>
                                    else r) (d_messages d)\<rparr>)))"

end
