(* ===== verification/Room_State.thy ===== *)
theory Room_State
  imports Clock Access Repository
begin

text \<open>
  The state of one \<open>room.Room\<close> with its environment, and how commands run on it.

  A command is a function on \<open>st\<close>; a fallible one is a \<open>cmd\<close>, which returns \<open>Inl\<close> the error
  together with the state it left (Go does not undo what a failed command already did).  The
  room's mutex makes a command one step, so it reads the clock once: \<open>st_now\<close>.  The database
  is part of the state; \<open>st_faults\<close> decides, call by call, which \<open>Store\<close> and \<open>ChatStore\<close> calls
  fail (with no effect), so a lemma about all states is a lemma about all failures.  What a
  command tells the outside is collected: messages per connection, closed connections, push
  notifications, and \<open>st_armed\<close>, every timer callback ever armed that has not run, stopped or
  not, because a stopped timer's callback may already have fired.

  Iterating a Go map is iterating the list that stands for it: one of the orders Go may pick.
\<close>

section \<open>Dependencies and state\<close>

text \<open>
  \<open>Deps\<close>.  \<open>dp_bucket n\<close> is \<open>rate.NewLimiter(rate.Every(time.Second), n)\<close> of the package
  \<open>golang.org/x/time/rate\<close>: whether it allows an event at a time, given the times it was asked
  before; \<open>dp_add_limiter\<close> is the shared budget of \<open>queue.add\<close>.  \<open>dp_url_host\<close> is the host of
  a parsed URL, \<open>dp_clock_text\<close> a time in the server's zone as \<open>15:04\<close>.
\<close>

record notice =
  no_title :: string
  no_body :: string
  no_url :: string
  no_tag :: string

record deps =
  dp_chat :: bool
  dp_notifier :: bool
  dp_signer :: "(uuid \<Rightarrow> time \<Rightarrow> string) option"
  dp_wait_scale :: rat
  dp_persist_every :: duration
  dp_rejoin_grace :: duration
  dp_presence_every :: duration
  dp_add_limiter :: "(time list \<Rightarrow> time \<Rightarrow> bool) option"
  dp_bucket :: "nat \<Rightarrow> time list \<Rightarrow> time \<Rightarrow> bool"
  dp_url_host :: "string \<Rightarrow> string option"
  dp_clock_text :: "time \<Rightarrow> string"

type_synonym conn = nat

record viewer =
  v_user :: "user option"
  v_role :: room_role
  v_buffering :: bool
  v_ignored :: bool
  v_lag_ms :: int

datatype callback =
  CbAdvance uuid "64 word"
| CbEmpty
| CbBuffer
| CbWait
| CbCountdown
| CbPresence
| CbLeft uuid string

text \<open>A timer slot holds when its timer is due; \<open>None\<close> is the nil pointer.\<close>

record timers =
  t_advance :: "time option"
  t_empty :: "time option"
  t_buffer :: "time option"
  t_wait :: "time option"
  t_countdown :: "time option"
  t_presence :: "time option"
  t_left :: "uuid \<Rightarrow> time option"

definition no_timers :: timers where
  "no_timers = \<lparr>t_advance = None, t_empty = None, t_buffer = None, t_wait = None,
     t_countdown = None, t_presence = None, t_left = (\<lambda>_. None)\<rparr>"

record st =
  st_deps :: deps
  st_now :: time
  st_db :: db
  st_faults :: "bool list"
  st_sent :: "(conn \<times> server_msg) list"
  st_hung_up :: "(conn \<times> string) list"
  st_notified :: "(uuid \<times> notice) list"
  st_armed :: "(time \<times> callback) list"
  st_add_asked :: "uuid \<Rightarrow> time list"
  st_info :: room_info
  st_owner :: string
  st_queue :: "queue_item list"
  st_played :: "queue_item list"
  st_media :: "(uuid \<times> media) list"
  st_clock :: clock
  st_viewers :: "(conn \<times> viewer) list"
  st_skip_votes :: "uuid list"
  st_votes :: "uuid \<Rightarrow> uuid list"
  st_chat_asked :: "uuid \<Rightarrow> time list"
  st_react_asked :: "uuid \<Rightarrow> time list"
  st_last_chat :: "uuid \<Rightarrow> time"
  st_last_mention :: "uuid \<Rightarrow> time"
  st_left_at :: "uuid \<Rightarrow> time"
  st_timers :: timers
  st_last_persist :: time
  st_last_active :: time
  st_pinned :: "chat_message option"
  st_waiting :: "string list option"
  st_countdown :: "time option"
  st_closed :: bool
  st_unsaved :: bool

type_synonym 'a cmd = "st \<Rightarrow> (cerr + 'a) \<times> st"

section \<open>Running commands\<close>

definition okc :: "'a \<Rightarrow> 'a cmd" where
  "okc x s = (Inr x, s)"

definition failc :: "cerr \<Rightarrow> 'a cmd" where
  "failc e s = (Inl e, s)"

definition bindc :: "'a cmd \<Rightarrow> ('a \<Rightarrow> 'b cmd) \<Rightarrow> 'b cmd" where
  "bindc m f s = (case m s of (Inl e, s') \<Rightarrow> (Inl e, s') | (Inr x, s') \<Rightarrow> f x s')"

definition seqc :: "unit cmd \<Rightarrow> 'b cmd \<Rightarrow> 'b cmd" where
  "seqc m k = bindc m (\<lambda>_. k)"

definition doc :: "(st \<Rightarrow> st) \<Rightarrow> unit cmd" where
  "doc f s = (Inr (), f s)"

definition guardc :: "(st \<Rightarrow> bool) \<Rightarrow> cerr \<Rightarrow> unit cmd" where
  "guardc p e s = (if p s then (Inr (), s) else (Inl e, s))"

text \<open>One call of the store: the next fault decides whether it happens.\<close>

definition store :: "(db \<Rightarrow> 'a outcome) \<Rightarrow> 'a cmd" where
  "store f s = (case st_faults s of
      True # fs \<Rightarrow> (Inl InternalErr, s\<lparr>st_faults := fs\<rparr>)
    | fs \<Rightarrow> (case f (st_db s) of (r, d) \<Rightarrow> (r, s\<lparr>st_db := d, st_faults := tl fs\<rparr>)))"

definition query :: "(db \<Rightarrow> cerr + 'a) \<Rightarrow> 'a cmd" where
  "query f = store (\<lambda>d. (f d, d))"

text \<open>
  \<open>Repo.InTx\<close>: begin and commit are calls of their own; on any error the tables are as before.
\<close>

definition in_tx :: "'a cmd \<Rightarrow> 'a cmd" where
  "in_tx m s =
     (case store (\<lambda>d. (Inr (), d)) s of
        (Inl e, s1) \<Rightarrow> (Inl e, s1)
      | (Inr _, s1) \<Rightarrow> (case m s1 of
            (Inl e, s2) \<Rightarrow> (Inl e, s2\<lparr>st_db := st_db s1\<rparr>)
          | (Inr x, s2) \<Rightarrow> (case store (\<lambda>d. (Inr (), d)) s2 of
                (Inl e, s3) \<Rightarrow> (Inl e, s3\<lparr>st_db := st_db s1\<rparr>)
              | (Inr _, s3) \<Rightarrow> (Inr x, s3))))"

lemmas cmd_defs = okc_def failc_def bindc_def seqc_def doc_def guardc_def query_def

section \<open>Small readers\<close>

definition room_id :: "st \<Rightarrow> uuid" where
  "room_id s = ri_id (st_info s)"

definition prefs :: "st \<Rightarrow> settings" where
  "prefs s = ri_settings (st_info s)"

definition media_of :: "st \<Rightarrow> uuid \<Rightarrow> media option" where
  "media_of s i = map_of (st_media s) i"

definition has_item :: "st \<Rightarrow> uuid \<Rightarrow> bool" where
  "has_item s i \<longleftrightarrow> item_by_id (st_queue s) i \<noteq> None"

definition current_media :: "st \<Rightarrow> media option" where
  "current_media s = (case c_current (st_clock s) of None \<Rightarrow> None
     | Some i \<Rightarrow> (case item_by_id (st_queue s) i of None \<Rightarrow> None
         | Some it \<Rightarrow> media_of s (qi_media it)))"

definition require :: "actor \<Rightarrow> action \<Rightarrow> unit cmd" where
  "require a act = guardc (\<lambda>s. can (st_now s) a act (Some (st_info s))) err_forbidden"

text \<open>
  \<open>actor.User.Username\<close> and \<open>actor.User.ID\<close>: commands read them only after \<open>require\<close>, which
  lets no actor without a user through (\<open>can_imp_user\<close>).
\<close>

definition actor_name :: "actor \<Rightarrow> string" where
  "actor_name a = (case a_user a of None \<Rightarrow> '''' | Some u \<Rightarrow> u_name u)"

definition actor_id :: "actor \<Rightarrow> uuid" where
  "actor_id a = (case a_user a of None \<Rightarrow> uuid_nil | Some u \<Rightarrow> u_id u)"

definition actor_ref :: "actor \<Rightarrow> uuid option" where
  "actor_ref a = map_option u_id (a_user a)"

definition user_online :: "st \<Rightarrow> uuid \<Rightarrow> bool" where
  "user_online s i \<longleftrightarrow>
     (\<exists>cv \<in> set (st_viewers s). case v_user (snd cv) of None \<Rightarrow> False | Some u \<Rightarrow> u_id u = i)"

definition rejoin_grace :: "st \<Rightarrow> duration" where
  "rejoin_grace s = (if 0 < dp_rejoin_grace (st_deps s) then dp_rejoin_grace (st_deps s) else 2 * minute)"

definition patience :: "st \<Rightarrow> duration \<Rightarrow> duration" where
  "patience s d = (if 0 < dp_wait_scale (st_deps s)
     then f64_trunc (f64_mul (f64_of_int d) (dp_wait_scale (st_deps s))) else d)"

section \<open>Timers (\<open>timers.go\<close>)\<close>

definition after :: "duration \<Rightarrow> callback \<Rightarrow> st \<Rightarrow> st" where
  "after d cb s = s\<lparr>st_armed := st_armed s @ [(st_now s + d, cb)]\<rparr>"

definition set_timers :: "(timers \<Rightarrow> timers) \<Rightarrow> st \<Rightarrow> st" where
  "set_timers f s = s\<lparr>st_timers := f (st_timers s)\<rparr>"

text \<open>
  \<open>stopAll\<close> stops the timers and leaves the slots as they are; \<open>st_armed\<close> keeps the callbacks,
  which then find the room closed.
\<close>

definition close_room :: "st \<Rightarrow> st" where
  "close_room s = s\<lparr>st_closed := True\<rparr>"

section \<open>Sending\<close>

definition send_all :: "server_msg \<Rightarrow> st \<Rightarrow> st" where
  "send_all m s = s\<lparr>st_sent := st_sent s @ map (\<lambda>cv. (fst cv, m)) (st_viewers s)\<rparr>"

definition notify_user :: "uuid \<Rightarrow> notice \<Rightarrow> st \<Rightarrow> st" where
  "notify_user u n s = s\<lparr>st_notified := st_notified s @ [(u, n)]\<rparr>"

definition to_chat_message :: "message \<Rightarrow> chat_message" where
  "to_chat_message m = \<lparr>cm_type = ''chat.message'', cm_id = ms_id m, cm_username = ms_username m,
     cm_color = ms_color m, cm_body = ms_body m, cm_system = ms_system m,
     cm_created_ms = unix_milli (ms_created m),
     cm_edited_ms = (case ms_edited m of None \<Rightarrow> 0 | Some t \<Rightarrow> unix_milli t), cm_reply = ms_reply m\<rparr>"

text \<open>\<open>logLocked\<close>: a failure to store the line is swallowed.\<close>

definition log_line :: "string \<Rightarrow> st \<Rightarrow> st" where
  "log_line body s =
     (if \<not> dp_chat (st_deps s) then s
      else case store (create_system_message (st_now s) (room_id s) body) s of
          (Inl _, s') \<Rightarrow> s'
        | (Inr m, s') \<Rightarrow> send_all (SChatMessage (to_chat_message m)) s')"

text \<open>The UTF-8 bytes of U+201C, U+201D, U+2014, U+00D7 and U+2026.\<close>

definition lquote :: string where
  "lquote = [char_of (226 :: nat), char_of (128 :: nat), char_of (156 :: nat)]"

definition rquote :: string where
  "rquote = [char_of (226 :: nat), char_of (128 :: nat), char_of (157 :: nat)]"

definition em_dash :: string where
  "em_dash = [char_of (226 :: nat), char_of (128 :: nat), char_of (148 :: nat)]"

definition times_sign :: string where
  "times_sign = [char_of (195 :: nat), char_of (151 :: nat)]"

definition ellipsis :: string where
  "ellipsis = [char_of (226 :: nat), char_of (128 :: nat), char_of (166 :: nat)]"

definition trim_prefix :: "string \<Rightarrow> string \<Rightarrow> string" where
  "trim_prefix p s = (if take (length p) s = p then drop (length p) s else s)"

definition media_label :: "deps \<Rightarrow> media option \<Rightarrow> string" where
  "media_label dp mo = (case mo of None \<Rightarrow> ''a video''
     | Some m \<Rightarrow> if m_title m \<noteq> '''' then lquote @ m_title m @ rquote
         else (case dp_url_host dp (m_source_url m) of
             Some h \<Rightarrow> if h \<noteq> '''' then ''a video from '' @ trim_prefix ''www.'' h else ''a video''
           | None \<Rightarrow> ''a video''))"

definition media_title :: "media option \<Rightarrow> string" where
  "media_title mo = (case mo of None \<Rightarrow> ''A video''
     | Some m \<Rightarrow> if m_title m \<noteq> '''' then m_title m else m_source_url m)"

end
