(* ===== verification/Room_Snapshot.thy ===== *)
theory Room_Snapshot
  imports Room_State
begin

text \<open>
  \<open>room/snapshot.go\<close> and the counting part of \<open>room/votes.go\<close>: what viewers are told.  A
  snapshot is built once and personalised per connection.
\<close>

definition nil_media_info :: media_info where
  "nil_media_info = \<lparr>mi_id = uuid_nil, mi_title = '''', mi_duration_ms = 0, mi_thumbnail_url = '''',
     mi_status = None, mi_progress = 0, mi_speed_bps = 0, mi_eta_ms = 0, mi_error = '''',
     mi_renditions = [], mi_subtitles = [], mi_chapters = [], mi_storyboard = None,
     mi_manifest = '''', mi_token = '''', mi_source_url = ''''\<rparr>"

text \<open>The text of an id in a path; only its being a function of the id matters.\<close>

definition uuid_text :: "uuid \<Rightarrow> string" where
  "uuid_text i = dec i"

definition media_info_of :: "st \<Rightarrow> media option \<Rightarrow> media_info" where
  "media_info_of s mo = (case mo of None \<Rightarrow> nil_media_info
     | Some m \<Rightarrow>
       let ready = (m_status m = MediaReady \<and> dp_signer (st_deps s) \<noteq> None) in
       \<lparr>mi_id = m_id m, mi_title = m_title m, mi_duration_ms = m_duration_ms m,
         mi_thumbnail_url = m_thumbnail_url m, mi_status = Some (m_status m),
         mi_progress = m_progress m, mi_speed_bps = m_speed_bps m, mi_eta_ms = m_eta_ms m,
         mi_error = m_error m, mi_renditions = m_renditions m, mi_subtitles = m_subtitles m,
         mi_chapters = m_chapters m, mi_storyboard = m_storyboard m,
         mi_manifest = (if ready then ''/media/'' @ uuid_text (m_id m) @ ''/manifest.mpd'' else ''''),
         mi_token = (if ready then the (dp_signer (st_deps s)) (m_id m) (st_now s) else ''''),
         mi_source_url = m_source_url m\<rparr>)"

section \<open>Presence\<close>

fun bump_presence :: "user \<Rightarrow> viewer \<Rightarrow> presence list \<Rightarrow> presence list" where
  "bump_presence u v [] = [\<lparr>pr_username = u_name u, pr_color = u_color u, pr_role = v_role v,
      pr_buffering = v_buffering v, pr_lag_ms = v_lag_ms v\<rparr>]"
| "bump_presence u v (p # ps) =
     (if pr_username p = u_name u
      then p\<lparr>pr_buffering := pr_buffering p \<or> v_buffering v,
             pr_lag_ms := (if \<bar>pr_lag_ms p\<bar> < \<bar>v_lag_ms v\<bar> then v_lag_ms v else pr_lag_ms p)\<rparr> # ps
      else p # bump_presence u v ps)"

fun presence_from :: "viewer list \<Rightarrow> presence list \<times> nat \<Rightarrow> presence list \<times> nat" where
  "presence_from [] (ms, g) = (ms, g)"
| "presence_from (v # vs) (ms, g) =
     (case v_user v of None \<Rightarrow> presence_from vs (ms, Suc g)
      | Some u \<Rightarrow> presence_from vs (bump_presence u v ms, g))"

definition presence_of :: "viewer list \<Rightarrow> presence list \<times> nat" where
  "presence_of vs = (case presence_from vs ([], 0) of (ms, g) \<Rightarrow> (sort_key pr_username ms, g))"

definition viewers_of :: "st \<Rightarrow> viewer list" where
  "viewers_of s = map snd (st_viewers s)"

section \<open>Skip votes\<close>

definition online_users :: "viewer list \<Rightarrow> nat" where
  "online_users vs = length (remdups (map u_name (List.map_filter v_user vs)))"

definition skip_needed :: "settings \<Rightarrow> nat \<Rightarrow> int" where
  "skip_needed p n =
     (if \<not> vote_mode p then 0
      else let k = \<lceil>f64_mul (f64_of_int (int n)) (skip_threshold p)\<rceil> in if k < 1 then 1 else k)"

section \<open>Snapshots\<close>

definition queue_entry_of :: "st \<Rightarrow> queue_item \<Rightarrow> queue_entry" where
  "queue_entry_of s it = \<lparr>qe_id = qi_id it, qe_media = media_info_of s (media_of s (qi_media it)),
     qe_added_by = qi_added_name it, qe_votes = qi_votes it, qe_voted = False,
     qe_current = is_current (st_clock s) (qi_id it), qe_played_ms = 0\<rparr>"

definition played_entry_of :: "st \<Rightarrow> queue_item \<Rightarrow> queue_entry" where
  "played_entry_of s it = \<lparr>qe_id = qi_id it, qe_media = media_info_of s (media_of s (qi_media it)),
     qe_added_by = qi_added_name it, qe_votes = 0, qe_voted = False, qe_current = False,
     qe_played_ms = (case qi_played it of None \<Rightarrow> 0 | Some t \<Rightarrow> unix_milli t)\<rparr>"

definition room_view_of :: "st \<Rightarrow> room_view" where
  "room_view_of s = (let i = st_info s in
     \<lparr>rv_id = ri_id i, rv_slug = ri_slug i, rv_name = ri_name i, rv_visibility = ri_visibility i,
       rv_settings = ri_settings i, rv_owner = st_owner s, rv_description = ri_description i,
       rv_pinned = st_pinned s,
       rv_scheduled_ms = (case ri_scheduled i of None \<Rightarrow> 0 | Some t \<Rightarrow> unix_milli t)\<rparr>)"

definition snapshot_of :: "st \<Rightarrow> snapshot" where
  "snapshot_of s = (case presence_of (viewers_of s) of (members, guests) \<Rightarrow>
     \<lparr>sn_type = ''room.state'', sn_room = room_view_of s,
       sn_playback = (clock_playback (st_clock s))\<lparr>pb_type := ''''\<rparr>,
       sn_queue = map (queue_entry_of s) (st_queue s),
       sn_played = map (played_entry_of s) (st_played s),
       sn_members = members, sn_guests = guests,
       sn_skip_votes = length (st_skip_votes s), sn_skip_voted = False,
       sn_skip_needed = skip_needed (prefs s) (online_users (viewers_of s)),
       sn_waiting = (case st_waiting s of None \<Rightarrow> [] | Some w \<Rightarrow> w),
       sn_countdown_ms = (case st_countdown s of None \<Rightarrow> 0 | Some t \<Rightarrow> unix_milli t)\<rparr>)"

definition personalize ::
    "snapshot \<Rightarrow> viewer \<Rightarrow> uuid list \<Rightarrow> uuid list \<Rightarrow> snapshot" where
  "personalize base v skip voted = (case v_user v of None \<Rightarrow> base
     | Some u \<Rightarrow>
       let snap = base\<lparr>sn_skip_voted := u_id u \<in> set skip\<rparr> in
       if voted = [] then snap
       else snap\<lparr>sn_queue := map (\<lambda>e. e\<lparr>qe_voted := qe_id e \<in> set voted\<rparr>) (sn_queue base)\<rparr>)"

definition votes_for :: "st \<Rightarrow> viewer \<Rightarrow> uuid list" where
  "votes_for s v = (case v_user v of None \<Rightarrow> []
     | Some u \<Rightarrow> if vote_mode (prefs s) then st_votes s (u_id u) else [])"

definition personalized :: "st \<Rightarrow> snapshot \<Rightarrow> viewer \<Rightarrow> snapshot" where
  "personalized s base v = personalize base v (st_skip_votes s) (votes_for s v)"

definition snapshots :: "st \<Rightarrow> snapshot \<Rightarrow> conn option \<Rightarrow> (conn \<times> server_msg) list" where
  "snapshots s base except =
     map (\<lambda>cv. (fst cv, SRoomState (personalized s base (snd cv))))
       (filter (\<lambda>cv. except \<noteq> Some (fst cv)) (st_viewers s))"

definition send :: "(conn \<times> server_msg) list \<Rightarrow> st \<Rightarrow> st" where
  "send out s = s\<lparr>st_sent := st_sent s @ out\<rparr>"

definition broadcast :: "st \<Rightarrow> st" where
  "broadcast s = (let s' = set_timers (\<lambda>t. t\<lparr>t_presence := None\<rparr>) s
     in send (snapshots s' (snapshot_of s') None) s')"

definition presence_changed :: "st \<Rightarrow> st" where
  "presence_changed s =
     (let d = dp_presence_every (st_deps s) in
      if d \<le> 0 then broadcast s
      else if t_presence (st_timers s) = None
        then set_timers (\<lambda>t. t\<lparr>t_presence := Some (st_now s + d)\<rparr>) (after d CbPresence s)
      else s)"

definition flush_presence :: "st \<Rightarrow> st" where
  "flush_presence s = (if t_presence (st_timers s) = None then s else broadcast s)"

definition broadcast_playback :: "st \<Rightarrow> st" where
  "broadcast_playback s = send_all (SPlayback (clock_playback (st_clock s))) s"

end
