(* ===== verification/Room_Queue_State.thy ===== *)
theory Room_Queue_State
  imports Room_Snapshot
begin

text \<open>
  How a room holds its queue: loading it (\<open>reloadQueue\<close>), moving an item to the history
  (\<open>markPlayedLocked\<close>) and applying an order (\<open>applyOrderLocked\<close>, \<open>fair.go\<close>).  These are
  the only places besides the queue commands where queue and tables change together.
\<close>

definition played_kept :: nat where
  "played_kept = 20"

text \<open>The media rows and the votes of a reload, as the maps the room keeps.\<close>

definition votes_map :: "(uuid \<times> uuid) list \<Rightarrow> uuid \<Rightarrow> uuid list" where
  "votes_map vs u = map snd (filter (\<lambda>v. fst v = u) vs)"

definition reload_queue :: "unit cmd" where
  "reload_queue s =
     bindc (query (\<lambda>d. Inr (list_queue d (room_id s)))) (\<lambda>items.
     bindc (query (\<lambda>d. Inr (list_played d (room_id s) played_kept))) (\<lambda>played.
     bindc (query (\<lambda>d. Inr (get_media_batch d (map qi_media items @ map qi_media played)))) (\<lambda>media.
     bindc (query (\<lambda>d. Inr (list_queue_votes d (room_id s)))) (\<lambda>votes.
     doc (\<lambda>t. t\<lparr>st_votes := votes_map votes, st_queue := items, st_played := played,
               st_media := media\<rparr>))))) s"

text \<open>The part of \<open>markPlayedLocked\<close> after the store: from the queue to the head of the history.\<close>

definition retire :: "uuid \<Rightarrow> st \<Rightarrow> st" where
  "retire i s = (case index_of (st_queue s) i of None \<Rightarrow> s
     | Some k \<Rightarrow> s\<lparr>st_queue := remove_nth k (st_queue s),
         st_played := take played_kept
           ((st_queue s ! k)\<lparr>qi_played := Some (st_now s)\<rparr> # st_played s)\<rparr>)"

definition mark_played :: "uuid \<Rightarrow> unit cmd" where
  "mark_played i s =
     (case store (mark_queue_item_played (room_id s) i (st_now s)) s of
        (Inl e, s') \<Rightarrow> if e = NotFoundErr then (Inr (), retire i s') else (Inl e, s')
      | (Inr _, s') \<Rightarrow> (Inr (), retire i s'))"

definition apply_order :: "queue_item list \<Rightarrow> unit cmd" where
  "apply_order ordered s =
     (if ordered = st_queue s then (Inr (), s)
      else seqc (store (set_queue_ranks (room_id s) (map qi_id ordered)))
             (doc (\<lambda>t. t\<lparr>st_queue := renumber ordered\<rparr>)) s)"

definition fair_reorder :: "unit cmd" where
  "fair_reorder s =
     (if \<not> fair_queue (prefs s) \<or> vote_mode (prefs s) then (Inr (), s)
      else apply_order (fair_order (st_queue s) (c_current (st_clock s))) s)"

definition reorder_by_votes :: "unit cmd" where
  "reorder_by_votes s = apply_order (vote_order (st_queue s) (c_current (st_clock s))) s"

definition ordered_by_rule :: "settings \<Rightarrow> string" where
  "ordered_by_rule p =
     (if vote_mode p then ''the queue is ordered by votes while vote mode is on''
      else if fair_queue p then ''the queue takes turns while fair queue is on''
      else '''')"

section \<open>What they leave alone\<close>

text \<open>
  Two states agree outside the tables, the faults and the queue: everything that \<open>retire\<close>,
  \<open>apply_order\<close> and a failed reload keep.
\<close>

definition same_room :: "st \<Rightarrow> st \<Rightarrow> bool" where
  "same_room s t \<longleftrightarrow> st_deps t = st_deps s \<and> st_now t = st_now s \<and> st_info t = st_info s
     \<and> st_owner t = st_owner s \<and> st_clock t = st_clock s \<and> st_viewers t = st_viewers s
     \<and> st_skip_votes t = st_skip_votes s \<and> st_timers t = st_timers s \<and> st_waiting t = st_waiting s
     \<and> st_countdown t = st_countdown s \<and> st_closed t = st_closed s \<and> st_unsaved t = st_unsaved s"

lemma same_room_refl [simp]: "same_room s s"
  by (simp add: same_room_def)

lemma same_room_trans: "same_room s t \<Longrightarrow> same_room t u \<Longrightarrow> same_room s u"
  by (simp add: same_room_def)

text \<open>A store call touches the tables and the faults only.\<close>

lemma store_cases [case_names fault run]:
  assumes "store f s = (r, s')"
  obtains "r = Inl InternalErr" "s' = s\<lparr>st_faults := tl (st_faults s)\<rparr>"
  | d where "f (st_db s) = (r, d)" "s' = s\<lparr>st_db := d, st_faults := tl (st_faults s)\<rparr>"
  using assms unfolding store_def by (auto split: list.splits bool.splits prod.splits)

lemma store_same: "store f s = (r, s') \<Longrightarrow> same_room s s' \<and> st_queue s' = st_queue s
    \<and> st_played s' = st_played s \<and> st_media s' = st_media s \<and> st_votes s' = st_votes s
    \<and> st_sent s' = st_sent s \<and> st_armed s' = st_armed s"
  by (erule store_cases) (simp_all add: same_room_def)

lemma retire_same: "same_room s (retire i s)"
  by (simp add: retire_def same_room_def split: option.split)

lemma mark_played_same: "mark_played i s = (r, s') \<Longrightarrow> same_room s s'"
  unfolding mark_played_def
  using retire_same store_same same_room_trans
  by (fastforce split: prod.splits sum.splits if_splits)

lemma apply_order_same: "apply_order o' s = (r, s') \<Longrightarrow> same_room s s'"
  unfolding apply_order_def cmd_defs
  using store_same by (fastforce simp: same_room_def split: if_splits prod.splits sum.splits)

lemma mark_played_shrinks:
  assumes "mark_played i s = (Inr u, s')" and "i \<in> qi_id ` set (st_queue s)"
  shows "length (st_queue s') < length (st_queue s)"
proof -
  from assms(1) obtain r t where t: "store (mark_queue_item_played (room_id s) i (st_now s)) s = (r, t)"
    and s': "s' = retire i t"
    unfolding mark_played_def by (auto split: prod.splits sum.splits if_splits)
  have q: "st_queue t = st_queue s" using store_same [OF t] by simp
  obtain k where k: "index_of (st_queue s) i = Some k"
    using assms(2) index_of_None by (cases "index_of (st_queue s) i") auto
  from index_of_Some [OF k] have "k < length (st_queue s)" by simp
  with k show ?thesis unfolding s' by (simp add: retire_def q length_remove_nth)
qed

end
