(* ===== verification/Room_Playback.thy ===== *)
theory Room_Playback
  imports Room_Queue_State
begin

text \<open>
  \<open>room/playback.go\<close>, with \<open>endWaitLocked\<close> of \<open>presence.go\<close>: the commands that move the
  clock, advancing at the end of an item and persisting the clock.  A step that the code runs
  without an error result is a function on states; a failed save marks the room unsaved.
\<close>

section \<open>The clock in the room\<close>

definition current_duration :: "st \<Rightarrow> int" where
  "current_duration s = (case current_media s of None \<Rightarrow> 0 | Some m \<Rightarrow> m_duration_ms m)"

definition position_now :: "st \<Rightarrow> int" where
  "position_now s = position (st_clock s) (st_now s) (current_duration s)"

definition arm_empty_pause :: "st \<Rightarrow> st" where
  "arm_empty_pause s =
     (if \<not> pause_when_empty (prefs s) \<or> \<not> c_playing (st_clock s) \<or> st_viewers s \<noteq> []
         \<or> t_empty (st_timers s) \<noteq> None then s
      else set_timers (\<lambda>t. t\<lparr>t_empty := Some (st_now s + rejoin_grace s)\<rparr>)
             (after (rejoin_grace s) CbEmpty s))"

definition disarm_empty_pause :: "st \<Rightarrow> st" where
  "disarm_empty_pause s = set_timers (\<lambda>t. t\<lparr>t_empty := None\<rparr>) s"

definition schedule_advance :: "st \<Rightarrow> st" where
  "schedule_advance s =
     (let s' = set_timers (\<lambda>t. t\<lparr>t_advance := None\<rparr>) s in
      case (current_media s, c_current (st_clock s)) of
        (Some m, Some i) \<Rightarrow>
          if \<not> c_playing (st_clock s) \<or> m_duration_ms m \<le> 0 then s'
          else let d = wrap64 (remaining (st_clock s) (st_now s) (m_duration_ms m) + 500 * millisecond)
               in set_timers (\<lambda>t. t\<lparr>t_advance := Some (st_now s + d)\<rparr>)
                    (after d (CbAdvance i (c_seq (st_clock s))) s')
      | _ \<Rightarrow> s')"

definition set_playback :: "bool \<Rightarrow> int \<Rightarrow> st \<Rightarrow> st" where
  "set_playback pl pos s =
     arm_empty_pause (schedule_advance (s\<lparr>st_clock := restart pl pos (st_now s) (st_clock s)\<rparr>))"

section \<open>Persisting\<close>

definition persist :: "unit cmd" where
  "persist s =
     (let s1 = s\<lparr>st_last_persist := st_now s\<rparr>;
          s2 = (if c_playing (st_clock s1) \<and> ri_scheduled (st_info s1) \<noteq> None
                then snd (store (set_room_schedule (st_now s) (room_id s) None)
                       (s1\<lparr>st_info := (st_info s1)\<lparr>ri_scheduled := None\<rparr>\<rparr>))
                else s1)
      in store (update_room_playback (st_now s) (room_id s) (clock_state (st_clock s))) s2)"

definition save_playback :: "st \<Rightarrow> st" where
  "save_playback s = (case persist s of
      (Inl _, s') \<Rightarrow> s'\<lparr>st_unsaved := True\<rparr>
    | (Inr _, s') \<Rightarrow> s'\<lparr>st_unsaved := False\<rparr>)"

section \<open>Leaving a wait, a countdown, an item\<close>

definition end_wait :: "bool \<Rightarrow> st \<Rightarrow> st" where
  "end_wait resume s =
     (let s1 = set_timers (\<lambda>t. t\<lparr>t_wait := None\<rparr>) s in
      if st_waiting s1 = None then s1
      else let s2 = s1\<lparr>st_waiting := None\<rparr>;
               s3 = (if resume \<and> \<not> c_playing (st_clock s2) \<and> c_current (st_clock s2) \<noteq> None
                     then save_playback (set_playback True (c_position_ms (st_clock s2)) s2) else s2)
           in broadcast s3)"

definition cancel_countdown :: "st \<Rightarrow> st" where
  "cancel_countdown s =
     (let s1 = set_timers (\<lambda>t. t\<lparr>t_countdown := None\<rparr>) s in
      if st_countdown s1 = None then s1 else broadcast (s1\<lparr>st_countdown := None\<rparr>))"

definition set_current :: "queue_item option \<Rightarrow> st \<Rightarrow> st" where
  "set_current item s0 =
     (let s = s0\<lparr>st_skip_votes := []\<rparr> in
      case item of
        None \<Rightarrow> set_playback False 0 (s\<lparr>st_clock := (st_clock s)\<lparr>c_current := None\<rparr>\<rparr>)
      | Some it \<Rightarrow>
          let s1 = cancel_countdown (end_wait False s);
              s2 = s1\<lparr>st_clock := (st_clock s1)\<lparr>c_current := Some (qi_id it), c_rate := 1\<rparr>\<rparr>;
              m = media_of s2 (qi_media it);
              s3 = set_playback (media_is_ready m) 0 s2
          in (case qi_added_by it of
                Some u \<Rightarrow>
                  if dp_notifier (st_deps s3) \<and> \<not> user_online s3 u
                  then notify_user u \<lparr>no_title = ''Your video is starting'',
                         no_body = media_title m @ '' '' @ em_dash @ '' '' @ ri_name (st_info s3),
                         no_url = ''/r/'' @ ri_slug (st_info s3),
                         no_tag = ''start-'' @ uuid_text (qi_id it)\<rparr> s3
                  else s3
              | None \<Rightarrow> s3))"

section \<open>Advancing\<close>

definition allowed_rates :: "rat list" where
  "allowed_rates = [1 / 2, 3 / 4, 1, 5 / 4, 3 / 2, 2]"

text \<open>
  The loop of \<open>nextLocked\<close> over items whose ingest failed; each pass takes one item out of
  the queue, so it ends.
\<close>

function skip_failed :: "nat option \<Rightarrow> queue_item option cmd" where
  "skip_failed idx s =
     (case following (st_queue s) idx of
        None \<Rightarrow> (Inr None, s)
      | Some nxt \<Rightarrow>
          (case media_of s (qi_media nxt) of
             None \<Rightarrow> (Inr (Some nxt), s)
           | Some m \<Rightarrow>
               if m_status m \<noteq> MediaFailed then (Inr (Some nxt), s)
               else (case mark_played (qi_id nxt)
                       (log_line (''skipped '' @ media_label (st_deps s) (Some m) @ '' (not playable)'') s) of
                       (Inl e, s') \<Rightarrow> (Inl e, s')
                     | (Inr _, s') \<Rightarrow> skip_failed idx s')))"
  by pat_completeness auto

lemma log_line_same: "same_room s (log_line b s)"
  unfolding log_line_def using store_same
  by (fastforce simp: same_room_def send_all_def split: prod.splits sum.splits)

lemma log_line_queue [simp]:
  "st_queue (log_line b s) = st_queue s" "st_played (log_line b s) = st_played s"
  "st_media (log_line b s) = st_media s" "st_votes (log_line b s) = st_votes s"
  "st_armed (log_line b s) = st_armed s"
  unfolding log_line_def using store_same
  by (fastforce simp: send_all_def split: prod.splits sum.splits)+

termination skip_failed
proof (relation "measure (\<lambda>(idx, s). length (st_queue s))")
  fix idx s nxt m r s' u
  assume nxt: "following (st_queue s) idx = Some nxt"
    and "(r, s') = mark_played (qi_id nxt)
       (log_line (''skipped '' @ media_label (st_deps s) (Some m) @ '' (not playable)'') s)"
    and "r = Inr u"
  then have "mark_played (qi_id nxt)
     (log_line (''skipped '' @ media_label (st_deps s) (Some m) @ '' (not playable)'') s) = (Inr u, s')"
    by simp
  from mark_played_shrinks [OF this] following_mem [OF nxt]
  show "((idx, s'), idx, s) \<in> measure (\<lambda>(idx, s). length (st_queue s))" by simp
qed simp

declare skip_failed.simps [simp del]

definition next_item :: "unit cmd" where
  "next_item s =
     (case c_current (st_clock s) of
        None \<Rightarrow> (Inl err_no_current, s)
      | Some cur \<Rightarrow>
          let idx = index_of (st_queue s) cur in
          seqc (mark_played cur)
            (bindc (skip_failed idx) (\<lambda>nxt s1.
               if nxt = None \<and> loop_queue (prefs s1) \<and> st_played s1 \<noteq> []
               then seqc (store (requeue_played (room_id s1)))
                      (seqc reload_queue
                        (seqc (\<lambda>s2. if vote_mode (prefs s2) then reorder_by_votes s2 else (Inr (), s2))
                          (\<lambda>s2. let nxt = (case st_queue s2 of [] \<Rightarrow> None | it # _ \<Rightarrow> Some it) in
                             if st_viewers s2 = [] \<and> nxt \<noteq> None
                             then (Inr (), save_playback
                                     (log_line ''queue restarted from the top, paused until someone is back''
                                       (set_playback False 0
                                         (s2\<lparr>st_skip_votes := [],
                                            st_clock := (st_clock s2)\<lparr>c_current := map_option qi_id nxt,
                                                                      c_rate := 1\<rparr>\<rparr>))))
                             else (Inr (), save_playback (set_current nxt
                                     (log_line ''queue restarted from the top'' s2))))))
                      s1
               else (Inr (), save_playback (set_current nxt s1)))) s)"

definition pause_if_empty :: "st \<Rightarrow> st" where
  "pause_if_empty s0 =
     (let s = set_timers (\<lambda>t. t\<lparr>t_empty := None\<rparr>) s0 in
      if \<not> pause_when_empty (prefs s) \<or> \<not> c_playing (st_clock s) \<or> st_viewers s \<noteq> [] then s
      else log_line ''paused: everyone left'' (save_playback (set_playback False (position_now s) s)))"

definition on_ended :: "uuid \<Rightarrow> 64 word \<Rightarrow> st \<Rightarrow> st" where
  "on_ended i n s =
     (if \<not> is_current (st_clock s) i \<or> c_seq (st_clock s) \<noteq> n \<or> \<not> c_playing (st_clock s) then s
      else broadcast (snd (next_item s)))"

section \<open>Commands\<close>

definition rate_text :: "rat \<Rightarrow> string" where
  "rate_text r = (if r = 1 / 2 then ''0.5'' else if r = 3 / 4 then ''0.75'' else if r = 1 then ''1''
     else if r = 5 / 4 then ''1.25'' else if r = 3 / 2 then ''1.5'' else ''2'')"

definition set_rate :: "actor \<Rightarrow> rat \<Rightarrow> unit cmd" where
  "set_rate a r =
     seqc (require a ControlPlayback)
       (seqc (guardc (\<lambda>s. c_current (st_clock s) \<noteq> None) err_no_current)
         (seqc (guardc (\<lambda>s. r \<in> set allowed_rates) (invalid ''rate must be one of 0.5, 0.75, 1, 1.25, 1.5, 2''))
           (\<lambda>s. if r = c_rate (st_clock s) then (Inr (), s)
             else let pos = position_now s;
                      s1 = s\<lparr>st_clock := (st_clock s)\<lparr>c_rate := r\<rparr>\<rparr>;
                      s2 = save_playback (set_playback (c_playing (st_clock s1)) pos s1)
                  in (Inr (), broadcast_playback
                       (log_line (actor_name a @ '' set speed to '' @ rate_text r @ times_sign) s2)))))"

definition countdown_for :: duration where
  "countdown_for = 3 * second"

definition play :: "bool \<Rightarrow> actor \<Rightarrow> unit cmd" where
  "play counted a =
     seqc (require a ControlPlayback)
       (\<lambda>s. case current_media s of
          None \<Rightarrow> (Inl err_no_current, s)
        | Some m \<Rightarrow>
            if m_status m \<noteq> MediaReady then (Inl (invalid ''media is not ready yet''), s)
            else let s1 = end_wait False s in
              if c_playing (st_clock s1) then (Inr (), s1)
              else let pos = start_from (c_position_ms (st_clock s1)) (m_duration_ms m) in
                if (counted \<or> ri_scheduled (st_info s1) \<noteq> None) \<and> st_countdown s1 = None
                then let d = patience s1 countdown_for;
                         s2 = after d CbCountdown (s1\<lparr>st_countdown := Some (st_now s1 + countdown_for)\<rparr>)
                     in (Inr (), broadcast
                          (set_timers (\<lambda>t. t\<lparr>t_countdown := Some (st_now s1 + d)\<rparr>) s2))
                else (Inr (), broadcast_playback (save_playback
                        (set_playback True pos (cancel_countdown s1)))))"

definition end_countdown :: "st \<Rightarrow> st" where
  "end_countdown s =
     (if st_countdown s = None then s
      else let s1 = set_timers (\<lambda>t. t\<lparr>t_countdown := None\<rparr>) (s\<lparr>st_countdown := None\<rparr>) in
        case current_media s1 of
          None \<Rightarrow> broadcast s1
        | Some m \<Rightarrow>
            if m_status m \<noteq> MediaReady \<or> c_playing (st_clock s1) then broadcast s1
            else broadcast (save_playback (set_playback True
                   (start_from (c_position_ms (st_clock s1)) (m_duration_ms m)) s1)))"

definition pause :: "actor \<Rightarrow> unit cmd" where
  "pause a =
     seqc (require a ControlPlayback)
       (seqc (guardc (\<lambda>s. c_current (st_clock s) \<noteq> None) err_no_current)
         (\<lambda>s. let s1 = cancel_countdown (end_wait False s) in
            if \<not> c_playing (st_clock s1) then (Inr (), s1)
            else (Inr (), broadcast_playback (save_playback
                    (set_playback False (position_now s1) s1)))))"

definition seek :: "actor \<Rightarrow> int \<Rightarrow> unit cmd" where
  "seek a pos =
     seqc (require a ControlPlayback)
       (\<lambda>s. case current_media s of
          None \<Rightarrow> (Inl err_no_current, s)
        | Some m \<Rightarrow> (Inr (), broadcast_playback (save_playback (set_playback
              (c_playing (st_clock s) \<and> m_status m = MediaReady)
              (clamp_seek pos (m_duration_ms m)) s))))"

definition next_cmd :: "actor \<Rightarrow> unit cmd" where
  "next_cmd a =
     seqc (require a ControlPlayback)
       (seqc (guardc (\<lambda>s. c_current (st_clock s) \<noteq> None) err_no_current)
         (seqc (doc (\<lambda>s. log_line (actor_name a @ '' skipped '' @ media_label (st_deps s) (current_media s)) s))
           (seqc next_item (doc broadcast))))"

definition jump :: "actor \<Rightarrow> uuid \<Rightarrow> unit cmd" where
  "jump a i =
     seqc (require a ControlPlayback)
       (\<lambda>s. case item_by_id (st_queue s) i of
          None \<Rightarrow> (Inl (not_found ''queue item''), s)
        | Some target \<Rightarrow>
            seqc (\<lambda>s. case c_current (st_clock s) of
                    None \<Rightarrow> (Inr (), s)
                  | Some cur \<Rightarrow> if cur \<noteq> i then mark_played cur s else (Inr (), s))
              (doc (\<lambda>s. broadcast (log_line (actor_name a @ '' jumped to ''
                        @ media_label (st_deps s) (media_of s (qi_media target)))
                      (save_playback (set_current (Some target) s))))) s)"

definition room_playback :: "st \<Rightarrow> playback" where
  "room_playback s = (clock_playback (st_clock s))\<lparr>pb_type := ''''\<rparr>"

end
