(* ===== verification/Room_Queue.thy ===== *)
theory Room_Queue
  imports Room_Playback
begin

text \<open>
  \<open>room/queue.go\<close>: the queue commands and media updates.  The two commands that admit links
  take the room's mutex twice, with the admission between: each half is a command of its own
  (\<open>queue_add_check\<close> and \<open>queue_add_commit\<close>), so that other commands may run in between;
  \<open>queue_add\<close> and \<open>queue_add_many\<close> compose them.
\<close>

section \<open>Admission\<close>

text \<open>What \<open>Admitter.Admit\<close> answers: an admission, or one of the errors of \<open>ingest\<close>.\<close>

datatype admit_err = AdmUnsupported | AdmBlocked | AdmPrivate | AdmUnknownHost | AdmInternal

record admission =
  ad_key :: string
  ad_url :: string

definition admit_message :: "admit_err \<Rightarrow> string" where
  "admit_message e = (case e of
      AdmUnsupported \<Rightarrow> ''this link is not supported''
    | AdmBlocked \<Rightarrow> ''this video has been blocked by an administrator''
    | AdmPrivate \<Rightarrow> ''links to private or local addresses are not allowed''
    | AdmUnknownHost \<Rightarrow> ''this site could not be found''
    | AdmInternal \<Rightarrow> '''')"

definition admit_error :: "admit_err \<Rightarrow> cerr" where
  "admit_error e = (if admit_message e \<noteq> '''' then Rejected ''invalid'' (admit_message e) else InternalErr)"

text \<open>\<open>ingest.Service.Create\<close> and \<open>Retry\<close>.\<close>

definition ingest_create :: "admission \<Rightarrow> media cmd" where
  "ingest_create a s =
     bindc (store (create_media (st_now s) (ad_key a) (ad_url a)))
       (\<lambda>mc. if snd mc then seqc (store (enqueue_ingest (m_id (fst mc)))) (okc (fst mc))
             else okc (fst mc)) s"

definition ingest_retry :: "media \<Rightarrow> unit cmd" where
  "ingest_retry m s =
     (if m_status m \<noteq> MediaFailed then (Inl InternalErr, s)
      else seqc (store (set_media_status (st_now s) (m_id m) MediaQueued))
             (store (enqueue_ingest (m_id m))) s)"

section \<open>Adding\<close>

definition queue_limit :: nat where
  "queue_limit = 200"

definition can_add :: "actor \<Rightarrow> nat \<Rightarrow> unit cmd" where
  "can_add a n =
     seqc (guardc (\<lambda>s. \<not> st_closed s) (not_found ''room''))
       (seqc (require a AddToQueue)
         (guardc (\<lambda>s. length (st_queue s) + n \<le> queue_limit) (invalid ''queue is full'')))"

text \<open>\<open>QueueAddLimiter.Allow\<close>: asking counts, whatever the answer.\<close>

definition add_budget :: "actor \<Rightarrow> unit cmd" where
  "add_budget a s = (case (dp_add_limiter (st_deps s), a_user a) of
      (Some allow, Some u) \<Rightarrow>
        (if allow (st_add_asked s (u_id u)) (st_now s) then Inr ()
         else Inl (Rejected ''rate_limited'' ''you are adding videos too quickly''),
         s\<lparr>st_add_asked := (st_add_asked s)(u_id u := st_add_asked s (u_id u) @ [st_now s])\<rparr>)
    | _ \<Rightarrow> (Inr (), s))"

definition queue_add_check :: "actor \<Rightarrow> unit cmd" where
  "queue_add_check a = seqc (can_add a 1) (add_budget a)"

definition duplicate :: "uuid \<Rightarrow> unit cmd" where
  "duplicate mid =
     seqc (guardc (\<lambda>s. \<forall>it \<in> set (st_queue s). qi_media it \<noteq> mid)
             (Rejected ''duplicate'' ''this video is already in the queue''))
       (guardc (\<lambda>s. \<forall>it \<in> set (st_played s). qi_media it \<noteq> mid)
             (Rejected ''duplicate'' ''this video has already been played''))"

definition put_media :: "media \<Rightarrow> st \<Rightarrow> st" where
  "put_media m s = s\<lparr>st_media := AList.update (m_id m) m (st_media s)\<rparr>"

text \<open>Start the item when nothing is current, then tell everyone: the end of every add.\<close>

definition start_if_idle :: "queue_item \<Rightarrow> st \<Rightarrow> st" where
  "start_if_idle it s = (if c_current (st_clock s) = None
     then save_playback (set_current (Some it) s) else s)"

definition place_next :: "unit cmd" where
  "place_next s =
     (case place_after (st_queue s) (length (st_queue s) - 1) (c_current (st_clock s))
             (c_current (st_clock s)) of
        Inl e \<Rightarrow> (Inl e, s)
      | Inr ordered \<Rightarrow> apply_order ordered s)"

definition log_if_user :: "actor \<Rightarrow> string \<Rightarrow> st \<Rightarrow> st" where
  "log_if_user a line s = (if a_user a = None then s else log_line line s)"

definition named :: "actor \<Rightarrow> queue_item \<Rightarrow> queue_item" where
  "named a it = (case a_user a of None \<Rightarrow> it | Some u \<Rightarrow> it\<lparr>qi_added_name := u_name u\<rparr>)"

definition queue_add_commit :: "actor \<Rightarrow> admission \<Rightarrow> bool \<Rightarrow> bool \<Rightarrow> unit cmd" where
  "queue_add_commit a adm nxt force =
     seqc (can_add a 1)
       (bindc (in_tx
           (bindc (ingest_create adm) (\<lambda>m.
             seqc (if force then okc () else duplicate (m_id m))
               (\<lambda>s. bindc (store (add_queue_item (st_now s) (room_id s) (m_id m) (actor_ref a)))
                      (\<lambda>it. okc (m, it)) s))))
         (\<lambda>(m, it).
           seqc (doc (\<lambda>s. put_media m (s\<lparr>st_queue := st_queue s @ [named a it]\<rparr>)))
             (seqc (\<lambda>s. if nxt \<and> ordered_by_rule (prefs s) = '''' \<and> c_current (st_clock s) \<noteq> None
                          \<and> 1 < length (st_queue s)
                       then place_next s else (Inr (), s))
               (seqc fair_reorder
                 (doc (\<lambda>s. broadcast (start_if_idle (named a it)
                    (log_if_user a (actor_name a @ '' added '' @ media_label (st_deps s) (Some m)) s))))))))"

definition queue_add ::
    "(string \<Rightarrow> admit_err + admission) \<Rightarrow> actor \<Rightarrow> string \<Rightarrow> bool \<Rightarrow> bool \<Rightarrow> unit cmd" where
  "queue_add admit a url nxt force =
     seqc (queue_add_check a)
       (case admit url of
          Inl e \<Rightarrow> failc (admit_error e)
        | Inr adm \<Rightarrow> queue_add_commit a adm nxt force)"

section \<open>Adding many\<close>

definition max_add_many :: nat where
  "max_add_many = 50"

definition queue_add_many_check :: "actor \<Rightarrow> unit cmd" where
  "queue_add_many_check a = seqc (can_add a 0) (add_budget a)"

text \<open>The admission loop: refused links are skipped, an internal failure ends it.\<close>

fun admit_all ::
    "(string \<Rightarrow> admit_err + admission) \<Rightarrow> string list \<Rightarrow> cerr + (admission list \<times> nat)" where
  "admit_all admit [] = Inr ([], 0)"
| "admit_all admit (u # us) =
     (case admit u of
        Inl AdmInternal \<Rightarrow> Inl InternalErr
      | Inl _ \<Rightarrow> (case admit_all admit us of Inl e \<Rightarrow> Inl e | Inr (as, n) \<Rightarrow> Inr (as, Suc n))
      | Inr a \<Rightarrow> (case admit_all admit us of Inl e \<Rightarrow> Inl e | Inr (as, n) \<Rightarrow> Inr (a # as, n)))"

fun add_each :: "actor \<Rightarrow> admission list \<Rightarrow> uuid list \<Rightarrow> (queue_item \<times> media) list \<Rightarrow> nat
    \<Rightarrow> ((queue_item \<times> media) list \<times> nat) cmd" where
  "add_each a [] seen added skipped = okc (added, skipped)"
| "add_each a (adm # adms) seen added skipped =
     (\<lambda>s. if queue_limit \<le> length (st_queue s) + length added
          then add_each a adms seen added (Suc skipped) s
          else bindc (ingest_create adm) (\<lambda>m.
            if m_id m \<in> set seen then add_each a adms seen added (Suc skipped)
            else bindc (\<lambda>t. store (add_queue_item (st_now t) (room_id t) (m_id m) (actor_ref a)) t)
              (\<lambda>it. add_each a adms (m_id m # seen) (added @ [(named a it, m)]) skipped)) s)"

definition plural :: "nat \<Rightarrow> string \<Rightarrow> string \<Rightarrow> string" where
  "plural n one many = (if n = 1 then one else many)"

definition queue_add_many_commit :: "actor \<Rightarrow> admission list \<Rightarrow> nat \<Rightarrow> bool \<Rightarrow> unit cmd" where
  "queue_add_many_commit a adms skipped0 nxt =
     seqc (can_add a 0)
       (bindc (in_tx (\<lambda>s.
            bindc (add_each a adms (map qi_media (st_queue s) @ map qi_media (st_played s)) [] skipped0)
              (\<lambda>r. if fst r = [] then failc (Rejected ''duplicate''
                     ''nothing to add: these videos are already here or cannot be played'')
                   else okc r) s))
         (\<lambda>(added, skipped).
           seqc (doc (\<lambda>s. foldl (\<lambda>t im. put_media (snd im) t) s added))
             (seqc (\<lambda>s. if nxt \<and> ordered_by_rule (prefs s) = '''' \<and> c_current (st_clock s) \<noteq> None
                       then apply_order (batch_after_current (st_queue s) (map fst added)
                              (c_current (st_clock s))) s
                       else (Inr (), s\<lparr>st_queue := st_queue s @ map fst added\<rparr>))
               (seqc fair_reorder
                 (doc (\<lambda>s. broadcast (start_if_idle (fst (hd added))
                    (log_if_user a (actor_name a @ '' added '' @ dec (length added) @ '' ''
                        @ plural (length added) ''video'' ''videos'' @ '' from a playlist''
                        @ (if 0 < skipped then '' ('' @ dec skipped @ '' skipped)'' else '''')) s))))))))"

definition queue_add_many ::
    "(string \<Rightarrow> admit_err + admission) \<Rightarrow> actor \<Rightarrow> string list \<Rightarrow> bool \<Rightarrow> unit cmd" where
  "queue_add_many admit a urls nxt =
     (if urls = [] \<or> max_add_many < length urls
      then failc (invalid (''send between 1 and '' @ dec max_add_many @ '' links''))
      else seqc (queue_add_many_check a)
        (case admit_all admit urls of
           Inl e \<Rightarrow> failc e
         | Inr (adms, skipped) \<Rightarrow> queue_add_many_commit a adms skipped nxt))"

section \<open>The other commands\<close>

definition queue_clear :: "actor \<Rightarrow> unit cmd" where
  "queue_clear a =
     seqc (require a ManageQueue)
       (seqc (\<lambda>s. store (clear_queue (room_id s) (c_current (st_clock s))) s)
         (doc (\<lambda>s. let kept = filter (is_cur (c_current (st_clock s))) (st_queue s);
                       dropped = length (st_queue s) - length kept;
                       s1 = s\<lparr>st_queue := kept\<rparr>
            in broadcast (if a_user a \<noteq> None \<and> 0 < dropped
                 then log_line (actor_name a @ '' cleared the queue ('' @ dec dropped @ '' ''
                        @ plural dropped ''video'' ''videos'' @ '')'') s1
                 else s1))))"

definition queue_shuffle :: "(nat \<Rightarrow> (nat \<times> nat) list) \<Rightarrow> actor \<Rightarrow> unit cmd" where
  "queue_shuffle shuffle a =
     seqc (require a ManageQueue)
       (\<lambda>s. if ordered_by_rule (prefs s) \<noteq> '''' then (Inl (invalid (ordered_by_rule (prefs s))), s)
         else let cur = c_current (st_clock s);
                  waiting = (if cur \<noteq> None \<and> st_queue s \<noteq> [] \<and> is_cur cur (hd (st_queue s))
                             then length (st_queue s) - 1 else length (st_queue s))
           in if waiting < 2 then (Inr (), s)
              else seqc (apply_order (shuffled (st_queue s) cur shuffle))
                (doc (\<lambda>t. broadcast (log_if_user a (actor_name a @ '' shuffled the queue'') t))) s)"

definition queue_replay :: "actor \<Rightarrow> uuid \<Rightarrow> unit cmd" where
  "queue_replay a i =
     seqc (require a AddToQueue)
       (\<lambda>s. case item_by_id (st_played s) i of
          None \<Rightarrow> (Inl (not_found ''played item''), s)
        | Some src \<Rightarrow>
            if queue_limit \<le> length (st_queue s) then (Inl (invalid ''queue is full''), s)
            else bindc (in_tx (store (add_queue_item (st_now s) (room_id s) (qi_media src) (actor_ref a))))
              (\<lambda>it. seqc (doc (\<lambda>t. let t' = log_if_user a (actor_name a @ '' re-added ''
                            @ media_label (st_deps t) (media_of t (qi_media src))) t
                        in t'\<lparr>st_queue := st_queue t' @ [named a it]\<rparr>))
                (seqc fair_reorder (doc (\<lambda>t. broadcast (start_if_idle (named a it) t))))) s)"

definition queue_clear_played :: "actor \<Rightarrow> unit cmd" where
  "queue_clear_played a =
     seqc (require a ManageQueue)
       (seqc (\<lambda>s. store (clear_played (room_id s)) s)
         (doc (\<lambda>s. broadcast (s\<lparr>st_played := []\<rparr>))))"

definition queue_remove :: "actor \<Rightarrow> uuid \<Rightarrow> unit cmd" where
  "queue_remove a i s =
     (case item_by_id (st_queue s) i of
        None \<Rightarrow> (Inl (not_found ''queue item''), s)
      | Some it \<Rightarrow>
          let own = a_user a \<noteq> None \<and> qi_added_by it = actor_ref a in
          seqc (if \<not> own \<or> is_current (st_clock s) (qi_id it) then require a ManageQueue else okc ())
            (if is_current (st_clock s) i then seqc next_item (doc broadcast)
             else seqc (store (delete_queue_item (room_id s) i))
               (doc (\<lambda>t. broadcast (case index_of (st_queue t) i of None \<Rightarrow> t
                   | Some k \<Rightarrow> t\<lparr>st_queue := remove_nth k (st_queue t)\<rparr>)))) s)"

definition queue_move :: "actor \<Rightarrow> uuid \<Rightarrow> uuid option \<Rightarrow> unit cmd" where
  "queue_move a i anchor =
     seqc (require a ManageQueue)
       (\<lambda>s. if ordered_by_rule (prefs s) \<noteq> '''' then (Inl (invalid (ordered_by_rule (prefs s))), s)
         else case index_of (st_queue s) i of
           None \<Rightarrow> (Inl (not_found ''queue item''), s)
         | Some k \<Rightarrow>
             if is_current (st_clock s) i then (Inl (invalid ''the current item cannot be moved''), s)
             else (case place_after (st_queue s) k anchor (c_current (st_clock s)) of
                 Inl e \<Rightarrow> (Inl e, s)
               | Inr ordered \<Rightarrow> seqc (apply_order ordered) (doc broadcast) s))"

definition queue_retry :: "actor \<Rightarrow> uuid \<Rightarrow> unit cmd" where
  "queue_retry a i =
     seqc (require a ManageQueue)
       (\<lambda>s. case item_by_id (st_queue s) i of
          None \<Rightarrow> (Inl (not_found ''queue item''), s)
        | Some it \<Rightarrow> (case media_of s (qi_media it) of
            None \<Rightarrow> (Inl (invalid ''media is not in a failed state''), s)
          | Some m \<Rightarrow>
              if m_status m \<noteq> MediaFailed then (Inl (invalid ''media is not in a failed state''), s)
              else seqc (ingest_retry m)
                (doc (\<lambda>t. broadcast (t\<lparr>st_media := AList.update (qi_media it)
                   (m\<lparr>m_status := MediaQueued, m_error := '''', m_progress := 0\<rparr>) (st_media t)\<rparr>))) s))"

section \<open>Media updates\<close>

text \<open>\<open>mediaUpdatedLocked\<close>: whether the room holds the media, and the room after it.\<close>

definition media_updated_step :: "media \<Rightarrow> st \<Rightarrow> bool \<times> st" where
  "media_updated_step m s =
     (case media_of s (m_id m) of
        None \<Rightarrow> (False, s)
      | Some old \<Rightarrow>
          let s1 = put_media m s in
          (True, case current_media s1 of
             None \<Rightarrow> s1
           | Some cur \<Rightarrow>
               if m_id cur = m_id m \<and> m_status m = MediaReady \<and> m_status old \<noteq> MediaReady
                  \<and> \<not> c_playing (st_clock s1) \<and> c_position_ms (st_clock s1) = 0
               then save_playback (set_playback True 0 s1) else s1))"

definition media_updated :: "media \<Rightarrow> st \<Rightarrow> st" where
  "media_updated m s = (case media_updated_step m s of (hit, s') \<Rightarrow> if hit then broadcast s' else s')"

definition unsettled_media :: "st \<Rightarrow> uuid list" where
  "unsettled_media s = map fst (filter (\<lambda>im. m_status (snd im) \<noteq> MediaReady) (st_media s))"

text \<open>
  The loop of \<open>ReconcileMedia\<close> over the rooms' media, of which only those with a fresh row
  matter; \<open>fresh\<close> lists each media once, so \<open>old\<close> is the row the room held.
\<close>

fun reconcile_each :: "media list \<Rightarrow> bool \<Rightarrow> st \<Rightarrow> bool \<times> st" where
  "reconcile_each [] changed s = (changed, s)"
| "reconcile_each (m # ms) changed s =
     (case media_of s (m_id m) of
        None \<Rightarrow> reconcile_each ms changed s
      | Some old \<Rightarrow>
          if m_status old = MediaReady \<or> (m_status m = m_status old \<and> m_progress m = m_progress old)
          then reconcile_each ms changed s
          else (case media_updated_step m s of (hit, s') \<Rightarrow> reconcile_each ms (hit \<or> changed) s'))"

definition reconcile_media :: "media list \<Rightarrow> st \<Rightarrow> st" where
  "reconcile_media fresh s =
     (if st_closed s then s
      else case reconcile_each fresh False s of (changed, s') \<Rightarrow> if changed then broadcast s' else s')"

definition reload_queue_cmd :: "unit cmd" where
  "reload_queue_cmd =
     seqc reload_queue
       (doc (\<lambda>s. broadcast
          (case c_current (st_clock s) of
             None \<Rightarrow> s
           | Some i \<Rightarrow> if has_item s i then s
               else save_playback (set_current
                 (case st_queue s of [] \<Rightarrow> None | it # _ \<Rightarrow> Some it) s))))"

end
