(* ===== verification/Room_Presence.thy ===== *)
theory Room_Presence
  imports Room_Queue
begin

text \<open>
  \<open>room/presence.go\<close> and the commands of \<open>room/votes.go\<close>: viewers joining and leaving, what
  clients report, waiting for viewers who buffer, settings and votes.
\<close>

section \<open>Waiting for buffering viewers\<close>

definition buffer_patience :: duration where
  "buffer_patience = 4 * second"

definition max_wait :: duration where
  "max_wait = 30 * second"

text \<open>The names the room would wait for: each once, sorted.\<close>

definition stuck :: "st \<Rightarrow> string list" where
  "stuck s = sort (remdups (List.map_filter
     (\<lambda>v. case v_user v of None \<Rightarrow> None
        | Some u \<Rightarrow> if v_buffering v \<and> \<not> v_ignored v then Some (u_name u) else None)
     (viewers_of s)))"

definition check_buffering :: "st \<Rightarrow> st" where
  "check_buffering s =
     (if st_waiting s \<noteq> None
      then (if stuck s = [] then end_wait True s else s\<lparr>st_waiting := Some (stuck s)\<rparr>)
      else if \<not> wait_for_buffering (prefs s) \<or> \<not> c_playing (st_clock s) \<or> stuck s = []
        then set_timers (\<lambda>t. t\<lparr>t_buffer := None\<rparr>) s
      else if t_buffer (st_timers s) = None
        then set_timers (\<lambda>t. t\<lparr>t_buffer := Some (st_now s + patience s buffer_patience)\<rparr>)
               (after (patience s buffer_patience) CbBuffer s)
      else s)"

fun join_names :: "string list \<Rightarrow> string" where
  "join_names [] = ''''"
| "join_names [n] = n"
| "join_names (n # ns) = n @ '', '' @ join_names ns"

definition start_waiting :: "st \<Rightarrow> st" where
  "start_waiting s0 =
     (let s = set_timers (\<lambda>t. t\<lparr>t_buffer := None\<rparr>) s0; names = stuck s in
      if \<not> wait_for_buffering (prefs s) \<or> \<not> c_playing (st_clock s) \<or> names = [] \<or> st_waiting s \<noteq> None
      then s
      else let s1 = set_playback False (position_now s) (s\<lparr>st_waiting := Some names\<rparr>);
               s2 = set_timers (\<lambda>t. t\<lparr>t_wait := Some (st_now s1 + patience s1 max_wait)\<rparr>)
                      (after (patience s1 max_wait) CbWait s1)
           in broadcast (log_line (''waiting for '' @ join_names names) (save_playback s2)))"

definition stop_waiting :: "st \<Rightarrow> st" where
  "stop_waiting s0 =
     (let s = set_timers (\<lambda>t. t\<lparr>t_wait := None\<rparr>) s0 in
      case st_waiting s of
        None \<Rightarrow> s
      | Some names \<Rightarrow>
          let s1 = s\<lparr>st_viewers := map (\<lambda>(c, v). (c, if v_buffering v then v\<lparr>v_ignored := True\<rparr> else v))
                                    (st_viewers s)\<rparr>
          in end_wait True (log_line (''continuing without '' @ join_names names) s1))"

section \<open>Joining and leaving\<close>

definition recent_kept :: nat where
  "recent_kept = 100"

text \<open>
  \<open>Join\<close> reads the backlog before it takes the mutex; the rest is one step.
\<close>

definition recent_messages :: "st \<Rightarrow> chat_message list \<times> st" where
  "recent_messages s =
     (if \<not> dp_chat (st_deps s) then ([], s)
      else case query (\<lambda>d. Inr (list_recent_messages d (room_id s) recent_kept)) s of
          (Inl _, s') \<Rightarrow> ([], s')
        | (Inr ms, s') \<Rightarrow> (map to_chat_message ms, s'))"

definition join_room :: "conn \<Rightarrow> actor \<Rightarrow> chat_message list \<Rightarrow> st \<Rightarrow> st" where
  "join_room c a backlog s0 =
     (let s = disarm_empty_pause s0;
          first = (case a_user a of None \<Rightarrow> False
            | Some u \<Rightarrow> \<not> user_online s (u_id u)
                \<and> rejoin_grace s < time_sub (st_now s) (st_left_at s (u_id u)));
          s1 = (case a_user a of None \<Rightarrow> s
            | Some u \<Rightarrow> set_timers (\<lambda>t. t\<lparr>t_left := (t_left t)(u_id u := None)\<rparr>) s);
          v = \<lparr>v_user = a_user a, v_role = actor_role a, v_buffering = False, v_ignored = False,
               v_lag_ms = 0\<rparr>;
          s2 = s1\<lparr>st_viewers := AList.update c v (st_viewers s1), st_last_active := st_now s1\<rparr>;
          base = snapshot_of s2;
          s3 = send [(c, SWelcome \<lparr>we_me = map_option u_name (a_user a), we_role = v_role v,
                  we_snapshot = personalized s2 base v, we_messages = backlog\<rparr>)] s2;
          s4 = (if 0 < dp_presence_every (st_deps s3) then presence_changed s3
                else send (snapshots s3 base (Some c)) s3)
      in if first then log_line (actor_name a @ '' joined'') s4 else s4)"

definition join :: "conn \<Rightarrow> actor \<Rightarrow> st \<Rightarrow> st" where
  "join c a s = (case recent_messages s of (ms, s') \<Rightarrow> join_room c a ms s')"

definition on_left :: "uuid \<Rightarrow> string \<Rightarrow> st \<Rightarrow> st" where
  "on_left u name s0 =
     (let s = set_timers (\<lambda>t. t\<lparr>t_left := (t_left t)(u := None)\<rparr>) s0 in
      if user_online s u then s else log_line (name @ '' left'') s)"

definition leave :: "conn \<Rightarrow> st \<Rightarrow> st" where
  "leave c s =
     (case map_of (st_viewers s) c of
        None \<Rightarrow> s
      | Some v \<Rightarrow>
          let s1 = check_buffering (arm_empty_pause
                     (s\<lparr>st_viewers := AList.delete c (st_viewers s), st_last_active := st_now s\<rparr>));
              s2 = (case v_user v of None \<Rightarrow> s1
                | Some u \<Rightarrow>
                    if user_online s1 (u_id u) then s1
                    else set_timers (\<lambda>t. t\<lparr>t_left := (t_left t)(u_id u := Some (st_now s1 + rejoin_grace s1))\<rparr>)
                      (after (rejoin_grace s1) (CbLeft (u_id u) (u_name u))
                        (s1\<lparr>st_left_at := (st_left_at s1)(u_id u := st_now s1)\<rparr>)))
          in presence_changed s2)"

definition update_role :: "conn \<Rightarrow> room_role \<Rightarrow> st \<Rightarrow> st" where
  "update_role c r s =
     (case map_of (st_viewers s) c of
        None \<Rightarrow> s
      | Some v \<Rightarrow> if v_role v = r then s
          else broadcast (s\<lparr>st_viewers := AList.update c (v\<lparr>v_role := r\<rparr>) (st_viewers s)\<rparr>))"

definition is_viewer_of :: "uuid \<Rightarrow> viewer \<Rightarrow> bool" where
  "is_viewer_of u v = (case v_user v of None \<Rightarrow> False | Some w \<Rightarrow> u_id w = u)"

definition kick :: "uuid \<Rightarrow> string \<Rightarrow> st \<Rightarrow> st" where
  "kick u reason s =
     (let gone = map fst (filter (\<lambda>cv. is_viewer_of u (snd cv)) (st_viewers s)) in
      broadcast (arm_empty_pause
        (s\<lparr>st_viewers := filter (\<lambda>cv. \<not> is_viewer_of u (snd cv)) (st_viewers s),
           st_sent := st_sent s @ map (\<lambda>c. (c, SKicked reason)) gone,
           st_hung_up := st_hung_up s @ map (\<lambda>c. (c, reason)) gone\<rparr>)))"

section \<open>Reports\<close>

definition sign :: "int \<Rightarrow> int" where
  "sign n = (if n < 0 then - 1 else 1)"

definition lag_of :: "int \<Rightarrow> int" where
  "lag_of ms = (if - 1000 < ms \<and> ms < 1000 then 0
     else go_div (wrap64 (ms + sign ms * 250)) 500 * 500)"

definition report :: "conn \<Rightarrow> string \<Rightarrow> int \<Rightarrow> st \<Rightarrow> st" where
  "report c state pos s =
     (case map_of (st_viewers s) c of
        None \<Rightarrow> s
      | Some v \<Rightarrow>
          let lag = (if c_current (st_clock s) \<noteq> None \<and> state \<noteq> ''ended''
                     then lag_of (wrap64 (position_now s - pos)) else v_lag_ms v);
              changed = (lag \<noteq> v_lag_ms v);
              buffering = (state = ''buffering'');
              v1 = v\<lparr>v_lag_ms := lag\<rparr>;
              s1 = s\<lparr>st_viewers := AList.update c v1 (st_viewers s)\<rparr>;
              s2 = (if changed \<and> v_buffering v1 = buffering then presence_changed s1 else s1)
          in if v_buffering v1 \<noteq> buffering
             then presence_changed (check_buffering
               (s2\<lparr>st_viewers := AList.update c
                  (v1\<lparr>v_buffering := buffering, v_ignored := v_ignored v1 \<and> buffering\<rparr>) (st_viewers s2)\<rparr>))
             else s2)"

section \<open>Settings\<close>

definition opt :: "'a option \<Rightarrow> 'a \<Rightarrow> 'a" where
  "opt x d = (case x of None \<Rightarrow> d | Some y \<Rightarrow> y)"

text \<open>The merge of the fields that are set, with the two refusals.\<close>

definition merge_settings :: "settings_set \<Rightarrow> settings \<Rightarrow> cerr + settings" where
  "merge_settings i p =
     (if (case ss_skip_threshold i of None \<Rightarrow> False | Some t \<Rightarrow> t \<le> 0 \<or> 1 < t)
      then Inl (invalid ''skipThreshold must be within (0, 1]'')
      else if (case ss_slow_mode_sec i of None \<Rightarrow> False | Some n \<Rightarrow> n \<notin> {0, 5, 15, 30, 60})
      then Inl (invalid ''slowModeSec must be 0, 5, 15, 30 or 60'')
      else Inr \<lparr>vote_mode = opt (ss_vote_mode i) (vote_mode p),
             skip_threshold = opt (ss_skip_threshold i) (skip_threshold p),
             viewers_can_add = opt (ss_viewers_can_add i) (viewers_can_add p),
             loop_queue = opt (ss_loop i) (loop_queue p),
             slow_mode_sec = opt (ss_slow_mode_sec i) (slow_mode_sec p),
             pause_when_empty = opt (ss_pause_when_empty i) (pause_when_empty p),
             wait_for_buffering = opt (ss_wait_for_buffering i) (wait_for_buffering p),
             fair_queue = opt (ss_fair_queue i) (fair_queue p)\<rparr>)"

text \<open>
  The empty-room pause is disarmed while the fields are read, after the threshold is checked
  and before the slow mode is.
\<close>

definition apply_settings :: "actor \<Rightarrow> settings_set \<Rightarrow> unit cmd" where
  "apply_settings a i =
     seqc (require a ManageSettings)
       (\<lambda>s0. let bad = (case ss_skip_threshold i of None \<Rightarrow> False | Some t \<Rightarrow> t \<le> 0 \<or> 1 < t);
                 s = (if \<not> bad \<and> ss_pause_when_empty i = Some False then disarm_empty_pause s0 else s0)
         in case merge_settings i (prefs s) of
              Inl e \<Rightarrow> (Inl e, s)
            | Inr p \<Rightarrow>
                seqc (store (update_room_settings (st_now s) (room_id s) p))
                  (seqc (doc (\<lambda>t. t\<lparr>st_info := (st_info t)\<lparr>ri_settings := p\<rparr>\<rparr>))
                    (seqc (if vote_mode p then reorder_by_votes
                           else seqc (doc (\<lambda>t. t\<lparr>st_skip_votes := []\<rparr>)) fair_reorder)
                      (doc broadcast))) s)"

section \<open>Votes\<close>

definition set_votes :: "uuid \<Rightarrow> (int \<Rightarrow> int) \<Rightarrow> queue_item list \<Rightarrow> queue_item list" where
  "set_votes i f q = map (\<lambda>it. if qi_id it = i then it\<lparr>qi_votes := f (qi_votes it)\<rparr> else it) q"

definition queue_vote :: "actor \<Rightarrow> uuid \<Rightarrow> unit cmd" where
  "queue_vote a i =
     seqc (require a Vote)
       (seqc (guardc (\<lambda>s. vote_mode (prefs s)) (invalid ''vote mode is off''))
         (seqc (guardc (\<lambda>s. has_item s i) (not_found ''queue item''))
           (seqc (guardc (\<lambda>s. \<not> is_current (st_clock s) i) (invalid ''the current item cannot be voted on''))
             (bindc (store (toggle_queue_vote i (actor_id a)))
               (\<lambda>on. seqc (doc (\<lambda>s.
                   let mine = st_votes s (actor_id a) in
                   if on then s\<lparr>st_queue := set_votes i (\<lambda>v. v + 1) (st_queue s),
                     st_votes := (st_votes s)(actor_id a := (if i \<in> set mine then mine else mine @ [i]))\<rparr>
                   else s\<lparr>st_queue := set_votes i (\<lambda>v. if 0 < v then v - 1 else v) (st_queue s),
                     st_votes := (st_votes s)(actor_id a := removeAll i mine)\<rparr>))
                 (seqc reorder_by_votes (doc broadcast)))))))"

definition toggle :: "'a \<Rightarrow> 'a list \<Rightarrow> 'a list" where
  "toggle x xs = (if x \<in> set xs then removeAll x xs else xs @ [x])"

definition skip_needed_now :: "st \<Rightarrow> int" where
  "skip_needed_now s = skip_needed (prefs s) (online_users (viewers_of s))"

definition skip_vote :: "actor \<Rightarrow> unit cmd" where
  "skip_vote a =
     seqc (require a Vote)
       (seqc (guardc (\<lambda>s. vote_mode (prefs s)) (invalid ''vote mode is off''))
         (seqc (guardc (\<lambda>s. c_current (st_clock s) \<noteq> None) err_no_current)
           (seqc (doc (\<lambda>s. s\<lparr>st_skip_votes := toggle (actor_id a) (st_skip_votes s)\<rparr>))
             (seqc (\<lambda>s. if skip_needed_now s \<le> int (length (st_skip_votes s))
                     then next_item (log_line (''skipped '' @ media_label (st_deps s) (current_media s)
                                        @ '' by vote'') s)
                     else (Inr (), s))
               (doc broadcast)))))"

end
