(* ===== verification/Go_Text.thy ===== *)
theory Go_Text
  imports Rank
begin

text \<open>
  Strings of Go as lists of bytes: what the code uses of \<open>strings\<close> and \<open>strconv\<close>, with the
  lemmas that read back what was printed.
\<close>

section \<open>White space\<close>

definition bytes :: "nat list \<Rightarrow> string" where
  "bytes ns = map char_of ns"

text \<open>The UTF-8 encodings of the code points with the Unicode property White\_Space.\<close>

definition spaces :: "string list" where
  "spaces = map bytes
     [[9], [10], [11], [12], [13], [32], [194, 133], [194, 160], [225, 154, 128],
      [226, 128, 128], [226, 128, 129], [226, 128, 130], [226, 128, 131], [226, 128, 132],
      [226, 128, 133], [226, 128, 134], [226, 128, 135], [226, 128, 136], [226, 128, 137],
      [226, 128, 138], [226, 128, 168], [226, 128, 169], [226, 128, 175], [226, 129, 159],
      [227, 128, 128]]"

definition has_prefix :: "string \<Rightarrow> string \<Rightarrow> bool" where
  "has_prefix p s \<longleftrightarrow> take (length p) s = p"

function trim_left :: "string list \<Rightarrow> string \<Rightarrow> string" where
  "trim_left ws s = (case find (\<lambda>w. w \<noteq> [] \<and> has_prefix w s) ws of
      None \<Rightarrow> s
    | Some w \<Rightarrow> if s = [] then s else trim_left ws (drop (length w) s))"
  by pat_completeness auto
termination
  by (relation "measure (\<lambda>(ws, s). length s)") (auto simp: find_Some_iff has_prefix_def)

declare trim_left.simps [simp del]

definition trim_space :: "string \<Rightarrow> string" where
  "trim_space s = rev (trim_left (map rev spaces) (rev (trim_left spaces s)))"

text \<open>Nothing is trimmed off a string that starts and ends with a printable ASCII character.\<close>

definition printable :: "char \<Rightarrow> bool" where
  "printable c \<longleftrightarrow> 33 \<le> (of_char c :: nat) \<and> (of_char c :: nat) \<le> 126"

lemma trim_left_stays:
  assumes "\<And>w. w \<in> set ws \<Longrightarrow> w \<noteq> [] \<Longrightarrow> s \<noteq> [] \<Longrightarrow> hd w \<noteq> hd s"
  shows "trim_left ws s = s"
proof -
  have "find (\<lambda>w. w \<noteq> [] \<and> has_prefix w s) ws = None" if s: "s \<noteq> []"
    unfolding find_None_iff
  proof
    assume "\<exists>x. x \<in> set ws \<and> x \<noteq> [] \<and> has_prefix x s"
    then obtain x where x: "x \<in> set ws" "x \<noteq> []" "take (length x) s = x" by (auto simp: has_prefix_def)
    then have "hd x = hd s" by (metis hd_take length_greater_0_conv)
    with x(1,2) assms [OF x(1,2) s] show False by simp
  qed
  moreover have "trim_left ws [] = []"
    by (subst trim_left.simps) (auto split: option.split)
  moreover have "trim_left ws s = s" if "find (\<lambda>w. w \<noteq> [] \<and> has_prefix w s) ws = None"
    by (simp only: trim_left.simps [of ws s] that option.case)
  ultimately show ?thesis by (cases "s = []") simp_all
qed

lemma trim_left_Nil [simp]: "trim_left ws [] = []"
  by (rule trim_left_stays) simp

lemma spaces_not_printable: "w \<in> set spaces \<Longrightarrow> w \<noteq> [] \<Longrightarrow> \<not> printable (hd w) \<and> \<not> printable (last w)"
proof -
  have "list_all (\<lambda>w. w \<noteq> [] \<longrightarrow> \<not> printable (hd w) \<and> \<not> printable (last w)) spaces" by code_simp
  then show "w \<in> set spaces \<Longrightarrow> w \<noteq> [] \<Longrightarrow> \<not> printable (hd w) \<and> \<not> printable (last w)"
    by (auto simp: list_all_iff)
qed

lemma trim_space_stays:
  assumes "s \<noteq> [] \<Longrightarrow> printable (hd s) \<and> printable (last s)"
  shows "trim_space s = s"
proof -
  have "trim_left spaces s = s"
    by (rule trim_left_stays) (metis assms spaces_not_printable)
  moreover have "trim_left (map rev spaces) (rev s) = rev s"
    proof (rule trim_left_stays)
    fix w assume w: "w \<in> set (map rev spaces)" "w \<noteq> []" "rev s \<noteq> []"
    then have "rev w \<in> set spaces" "rev w \<noteq> []" by auto
    from spaces_not_printable [OF this] w(2,3) assms show "hd w \<noteq> hd (rev s)"
      by (metis hd_rev last_rev rev_is_Nil_conv)
  qed
  ultimately show ?thesis by (simp add: trim_space_def)
qed

section \<open>Splitting and joining\<close>

text \<open>\<open>strings.Split\<close> at a single character, \<open>strings.Join\<close>.\<close>

fun split_on :: "char \<Rightarrow> string \<Rightarrow> string list" where
  "split_on c [] = [[]]"
| "split_on c (x # xs) = (if x = c then [] # split_on c xs
     else (case split_on c xs of [] \<Rightarrow> [[x]] | p # ps \<Rightarrow> (x # p) # ps))"

fun join_with :: "string \<Rightarrow> string list \<Rightarrow> string" where
  "join_with sep [] = []"
| "join_with sep [p] = p"
| "join_with sep (p # q # ps) = p @ sep @ join_with sep (q # ps)"

lemma split_on_not_Nil [simp]: "split_on c s \<noteq> []"
  by (induction s) (auto split: list.split)

lemma split_on_plain [simp]: "c \<notin> set s \<Longrightarrow> split_on c s = [s]"
  by (induction s) auto

lemma split_on_append [simp]: "c \<notin> set p \<Longrightarrow> split_on c (p @ c # s) = p # split_on c s"
  by (induction p) auto

lemma split_join:
  "ps \<noteq> [] \<Longrightarrow> \<forall>p \<in> set ps. c \<notin> set p \<Longrightarrow> split_on c (join_with [c] ps) = ps"
  by (induction "[c]" ps rule: join_with.induct) auto

lemma join_split: "join_with [c] (split_on c s) = s"
proof (induction s)
  case (Cons x xs)
  then show ?case by (cases "split_on c xs" rule: list.exhaust; cases "tl (split_on c xs)") auto
qed simp

lemma join_chars: "c \<in> set (join_with sep ps) \<Longrightarrow> c \<in> set sep \<or> (\<exists>p \<in> set ps. c \<in> set p)"
  by (induction sep ps rule: join_with.induct) auto

text \<open>\<open>strings.Cut\<close>: before and after the first occurrence.\<close>

fun cut :: "string \<Rightarrow> string \<Rightarrow> (string \<times> string) option" where
  "cut sep [] = (if sep = [] then Some ([], []) else None)"
| "cut sep (x # xs) = (if has_prefix sep (x # xs) then Some ([], drop (length sep) (x # xs))
     else map_option (\<lambda>(a, b). (x # a, b)) (cut sep xs))"

lemma cut_char_plain: "c \<notin> set s \<Longrightarrow> cut [c] s = None"
  by (induction s) (auto simp: has_prefix_def)

lemma cut_char: "c \<notin> set p \<Longrightarrow> cut [c] (p @ c # s) = Some (p, s)"
  by (induction p) (auto simp: has_prefix_def)

section \<open>Numbers\<close>

text \<open>
  \<open>strconv.ParseUint\<close> and \<open>ParseInt\<close> with an explicit base: no underscores, no prefix; None is an
  error, for the syntax or the range.
\<close>

definition digit_val :: "char \<Rightarrow> nat option" where
  "digit_val c = (let n = of_char c :: nat in
     if 48 \<le> n \<and> n \<le> 57 then Some (n - 48)
     else if 97 \<le> n \<and> n \<le> 122 then Some (n - 87)
     else if 65 \<le> n \<and> n \<le> 90 then Some (n - 55) else None)"

fun read_digits :: "nat \<Rightarrow> nat \<Rightarrow> string \<Rightarrow> nat option" where
  "read_digits base acc [] = Some acc"
| "read_digits base acc (c # cs) = (case digit_val c of
      None \<Rightarrow> None
    | Some d \<Rightarrow> if d < base then read_digits base (acc * base + d) cs else None)"

definition parse_uint :: "nat \<Rightarrow> nat \<Rightarrow> string \<Rightarrow> nat option" where
  "parse_uint base bits s = (if s = [] then None
     else case read_digits base 0 s of None \<Rightarrow> None | Some n \<Rightarrow> if n < 2 ^ bits then Some n else None)"

definition parse_int64 :: "string \<Rightarrow> int option" where
  "parse_int64 s = (case s of
      [] \<Rightarrow> None
    | c # cs \<Rightarrow>
        (let neg = (c = CHR ''-''); body = (if c = CHR ''-'' \<or> c = CHR ''+'' then cs else s) in
         case parse_uint 10 64 body of
           None \<Rightarrow> None
         | Some n \<Rightarrow> if neg then (if n \<le> 2 ^ 63 then Some (- int n) else None)
                     else if n < 2 ^ 63 then Some (int n) else None))"

lemma digit_val_digit [simp]: "d < 10 \<Longrightarrow> digit_val (digit d) = Some d"
  by (simp add: digit_val_def)

lemma read_digits_append:
  "read_digits base acc (s @ t) = (case read_digits base acc s of None \<Rightarrow> None | Some n \<Rightarrow> read_digits base n t)"
  by (induction s arbitrary: acc) (auto split: option.split)

lemma dec_not_Nil [simp]: "dec n \<noteq> []"
  by (subst dec.simps) simp

lemma read_dec [simp]: "read_digits 10 0 (dec n) = Some n"
proof (induction n rule: dec.induct)
  case (1 n)
  show ?case
  proof (cases "n < 10")
    case True
    then show ?thesis by (subst dec.simps) simp
  next
    case False
    with 1 show ?thesis by (subst dec.simps) (simp add: read_digits_append)
  qed
qed

lemma parse_dec [simp]: "n < 2 ^ bits \<Longrightarrow> parse_uint 10 bits (dec n) = Some n"
  by (simp add: parse_uint_def)

text \<open>A run of zeros in front changes nothing.\<close>

lemma read_zeros: "0 < base \<Longrightarrow> read_digits base 0 (replicate k (CHR ''0'') @ s) = read_digits base 0 s"
  by (induction k) (simp_all add: digit_val_def)

text \<open>The characters of a printed number.\<close>

lemma dec_chars: "c \<in> set (dec n) \<Longrightarrow> \<exists>d < 10. c = digit d"
proof (induction n rule: dec.induct)
  case (1 n)
  show ?case
  proof (cases "n < 10")
    case True
    with 1 show ?thesis by (subst (asm) (2) dec.simps) auto
  next
    case False
    from 1(2) have "c \<in> set (dec (n div 10)) \<or> c = digit (n mod 10)"
      by (subst (asm) dec.simps) (use False in auto)
    with 1(1) False show ?thesis by (auto intro: exI [of _ "n mod 10"])
  qed
qed

lemma digit_code: "d < 10 \<Longrightarrow> of_char (digit d) = (48 + d :: nat)"
  by simp

lemma not_digit: "d < 10 \<Longrightarrow> (of_char c :: nat) < 48 \<or> 57 < (of_char c :: nat) \<Longrightarrow> c \<noteq> digit d"
  by auto

lemma not_in_dec: "(of_char c :: nat) < 48 \<or> 57 < (of_char c :: nat) \<Longrightarrow> c \<notin> set (dec n)"
  using dec_chars not_digit by blast

text \<open>\<open>%02d\<close> and the like.\<close>

definition pad_dec :: "nat \<Rightarrow> nat \<Rightarrow> string" where
  "pad_dec w n = replicate (w - length (dec n)) (CHR ''0'') @ dec n"

lemma pad_dec_not_Nil [simp]: "pad_dec w n \<noteq> []"
  by (simp add: pad_dec_def)

lemma parse_pad_dec [simp]: "n < 2 ^ bits \<Longrightarrow> parse_uint 10 bits (pad_dec w n) = Some n"
  by (simp add: parse_uint_def pad_dec_def read_zeros)

lemma not_in_pad_dec: "(of_char c :: nat) < 48 \<or> 57 < (of_char c :: nat) \<Longrightarrow> c \<notin> set (pad_dec w n)"
  using not_in_dec by (auto simp: pad_dec_def)

lemma length_dec: "0 < w \<Longrightarrow> n < 10 ^ w \<Longrightarrow> length (dec n) \<le> w"
proof (induction w arbitrary: n)
  case (Suc w)
  show ?case
  proof (cases "n < 10")
    case True
    then show ?thesis by (subst dec.simps) simp
  next
    case False
    with Suc.prems have "0 < w" by (cases w) auto
    moreover have "n div 10 < 10 ^ w" using Suc.prems by auto
    ultimately have "length (dec (n div 10)) \<le> w" by (rule Suc.IH)
    with False show ?thesis by (subst dec.simps) simp
  qed
qed simp

lemma length_pad_dec: "0 < w \<Longrightarrow> n < 10 ^ w \<Longrightarrow> length (pad_dec w n) = w"
  using length_dec [of w n] by (simp add: pad_dec_def)

end
