(* ===== verification/Room_Chat.thy ===== *)
theory Room_Chat
  imports Room_Presence Go_Text
begin

text \<open>
  \<open>room/chat.go\<close>: sending, editing, deleting, pinning, mentions, typing and reactions.
  Message bodies come from JSON, so they are valid UTF-8; white space, runes and mentions are
  read off the bytes.
\<close>

section \<open>Text\<close>

text \<open>\<open>utf8.RuneCountInString\<close> and the first runes of a valid string.\<close>

definition is_continuation :: "char \<Rightarrow> bool" where
  "is_continuation c \<longleftrightarrow> (of_char c :: nat) div 64 = 2"

definition rune_count :: "string \<Rightarrow> nat" where
  "rune_count s = length (filter (\<lambda>c. \<not> is_continuation c) s)"

fun take_runes :: "nat \<Rightarrow> string \<Rightarrow> string" where
  "take_runes n [] = []"
| "take_runes n (c # cs) =
     (if is_continuation c then c # take_runes n cs
      else case n of 0 \<Rightarrow> [] | Suc k \<Rightarrow> c # take_runes k cs)"

definition is_word :: "char \<Rightarrow> bool" where
  "is_word c = (let n = of_char c :: nat in
     (48 \<le> n \<and> n \<le> 57) \<or> (65 \<le> n \<and> n \<le> 90) \<or> n = 95 \<or> (97 \<le> n \<and> n \<le> 122))"

text \<open>
  \<open>mentionRe\<close>, all matches: an \<open>@\<close> at the start of the text or behind a character that is
  neither a word character nor \<open>@\<close> (and not part of the match before), and 3 to 32 word
  characters, as many as there are.
\<close>

function mentions :: "bool \<Rightarrow> string \<Rightarrow> string list" where
  "mentions b [] = []"
| "mentions b (c # cs) =
     (let name = take 32 (takeWhile is_word cs) in
      if b \<and> c = CHR ''@'' \<and> 3 \<le> length name then name # mentions False (drop (length name) cs)
      else mentions (\<not> is_word c \<and> c \<noteq> CHR ''@'') cs)"
  by pat_completeness auto
termination
  by (relation "measure (\<lambda>(b, s). length s)") auto

section \<open>Limits\<close>

definition max_message_len :: nat where
  "max_message_len = 2000"

definition edit_window :: duration where
  "edit_window = 5 * minute"

definition chat_budget :: "actor \<Rightarrow> unit cmd" where
  "chat_budget a s =
     (let u = actor_id a; h = st_chat_asked s u in
      (if dp_bucket (st_deps s) 5 h (st_now s) then Inr ()
       else Inl (Rejected ''rate_limited'' ''you are sending messages too quickly''),
       s\<lparr>st_chat_asked := (st_chat_asked s)(u := h @ [st_now s])\<rparr>))"

definition react_budget :: "actor \<Rightarrow> unit cmd" where
  "react_budget a s =
     (let u = actor_id a; h = st_react_asked s u in
      (if dp_bucket (st_deps s) 3 h (st_now s) then Inr ()
       else Inl (Rejected ''rate_limited'' ''slow down''),
       s\<lparr>st_react_asked := (st_react_asked s)(u := h @ [st_now s])\<rparr>))"

definition not_muted :: "actor \<Rightarrow> unit cmd" where
  "not_muted a s =
     (if muted (st_now s) a
      then (Inl (Rejected ''forbidden'' (''you are muted until ''
              @ dp_clock_text (st_deps s) (the (a_muted_until a)))), s)
      else (Inr (), s))"

definition body_ok :: "string \<Rightarrow> bool" where
  "body_ok body \<longleftrightarrow> body \<noteq> '''' \<and> rune_count body \<le> max_message_len"

definition chat_enabled :: "unit cmd" where
  "chat_enabled = guardc (\<lambda>s. dp_chat (st_deps s)) (invalid ''chat is disabled'')"

text \<open>Slow mode: moderators are exempt; a message that passes stamps its author's time.\<close>

definition slow_wait :: "st \<Rightarrow> uuid \<Rightarrow> duration" where
  "slow_wait s u = slow_mode_sec (prefs s) * second - time_sub (st_now s) (st_last_chat s u)"

definition slow_mode :: "actor \<Rightarrow> unit cmd" where
  "slow_mode a s =
     (if 0 < slow_mode_sec (prefs s) \<and> \<not> can (st_now s) a ModerateChat (Some (st_info s))
      then let wait = slow_wait s (actor_id a) in
        if 0 < wait
        then (Inl (Rejected ''rate_limited'' (''slow mode: wait ''
                @ dec (nat (go_div wait second + 1)) @ '' s'')), s)
        else (Inr (), s\<lparr>st_last_chat := (st_last_chat s)(actor_id a := st_now s)\<rparr>)
      else (Inr (), s))"

section \<open>Mentions\<close>

definition max_mention_pushes :: nat where
  "max_mention_pushes = 5"

definition mention_push_every :: duration where
  "mention_push_every = minute"

fun pick_mentions :: "string list \<Rightarrow> string list \<Rightarrow> string list \<Rightarrow> string list" where
  "pick_mentions [] seen names = names"
| "pick_mentions (m # ms) seen names =
     (let n = to_lower m in
      if n \<notin> set seen \<and> length names < max_mention_pushes
      then pick_mentions ms (n # seen) (names @ [n])
      else pick_mentions ms seen names)"

fun push_mentions :: "actor \<Rightarrow> message \<Rightarrow> uuid list \<Rightarrow> st \<Rightarrow> st" where
  "push_mentions a m [] s = s"
| "push_mentions a m (u # us) s =
     (if user_online s u \<or> time_sub (st_now s) (st_last_mention s u) < mention_push_every
      then push_mentions a m us s
      else
        case (if ri_visibility (st_info s) = VisPublic then (Inr (), s)
              else (case query (\<lambda>d. get_member d (room_id s) u) s of
                      (Inl e, t) \<Rightarrow> (Inl e, t) | (Inr _, t) \<Rightarrow> (Inr (), t))) of
          (Inl _, s1) \<Rightarrow> push_mentions a m us s1
        | (Inr _, s1) \<Rightarrow>
            push_mentions a m us
              (notify_user u
                \<lparr>no_title = actor_name a @ '' mentioned you in '' @ ri_name (st_info s1),
                  no_body = (if 140 < rune_count (ms_body m) then take_runes 140 (ms_body m) @ ellipsis
                             else ms_body m),
                  no_url = ''/r/'' @ ri_slug (st_info s1),
                  no_tag = ''mention-'' @ dec (nat (ms_id m))\<rparr>
                (s1\<lparr>st_last_mention := (st_last_mention s1)(u := st_now s1)\<rparr>)))"

definition notify_mentions :: "actor \<Rightarrow> message \<Rightarrow> st \<Rightarrow> st" where
  "notify_mentions a m s =
     (if \<not> dp_notifier (st_deps s) then s
      else let names = pick_mentions (mentions True (ms_body m)) [to_lower (actor_name a)] [] in
        if names = [] then s
        else (case query (\<lambda>d. Inr (user_ids_by_username d names)) s of
            (Inl _, s') \<Rightarrow> s'
          | (Inr ids, s') \<Rightarrow> push_mentions a m (map snd ids) s'))"

section \<open>Commands\<close>

definition set_pinned :: "chat_message option \<Rightarrow> st \<Rightarrow> st" where
  "set_pinned m s = send_all (SChatPinned m) (s\<lparr>st_pinned := m\<rparr>)"

definition chat_send :: "actor \<Rightarrow> string \<Rightarrow> int option \<Rightarrow> unit cmd" where
  "chat_send a body0 reply =
     (let body = trim_space body0 in
      seqc chat_enabled (seqc (not_muted a) (seqc (require a Chat)
        (seqc (guardc (\<lambda>s. body_ok body) (invalid ''message must be between 1 and 2000 characters''))
          (seqc (chat_budget a) (seqc (slow_mode a)
            (\<lambda>s. case store (create_message (st_now s) (room_id s) (actor_id a) body reply) s of
                (Inl e, s') \<Rightarrow> (Inl (if e = NotFoundErr then not_found ''the message you are replying to''
                                    else e), s')
              | (Inr m, s') \<Rightarrow> (Inr (), notify_mentions a m
                    (send_all (SChatMessage (to_chat_message m)) s')))))))))"

definition chat_typing :: "actor \<Rightarrow> unit cmd" where
  "chat_typing a =
     seqc (require a Chat)
       (doc (\<lambda>s. send (map (\<lambda>cv. (fst cv, STyping (actor_name a)))
          (filter (\<lambda>cv. \<not> is_viewer_of (actor_id a) (snd cv)) (st_viewers s))) s))"

definition reactions :: "string list" where
  "reactions = map bytes
     [[240, 159, 145, 141], [226, 157, 164, 239, 184, 143], [240, 159, 152, 130],
      [240, 159, 152, 174], [240, 159, 152, 162], [240, 159, 148, 165], [240, 159, 145, 143],
      [240, 159, 142, 137]]"

definition react :: "actor \<Rightarrow> string \<Rightarrow> unit cmd" where
  "react a emoji =
     seqc (require a Chat)
       (seqc (guardc (\<lambda>s. emoji \<in> set reactions) (invalid ''unknown reaction''))
         (seqc (react_budget a) (doc (send_all (SReaction (actor_name a) emoji)))))"

definition chat_clear :: "actor \<Rightarrow> unit cmd" where
  "chat_clear a =
     seqc chat_enabled (seqc (require a ModerateChat)
       (bindc (\<lambda>s. store (clear_messages (st_now s) (room_id s) (actor_id a)) s)
         (\<lambda>_. doc (\<lambda>s. let s1 = send_all SChatCleared s;
                         s2 = (if st_pinned s1 \<noteq> None then set_pinned None s1 else s1)
              in log_line (actor_name a @ '' cleared the chat'') s2))))"

definition untyped :: "chat_message \<Rightarrow> chat_message" where
  "untyped m = m\<lparr>cm_type := ''''\<rparr>"

definition pinned_is :: "int \<Rightarrow> st \<Rightarrow> bool" where
  "pinned_is i s = (case st_pinned s of None \<Rightarrow> False | Some p \<Rightarrow> cm_id p = i)"

definition chat_edit :: "actor \<Rightarrow> int \<Rightarrow> string \<Rightarrow> unit cmd" where
  "chat_edit a i body0 =
     (let body = trim_space body0 in
      seqc chat_enabled (seqc (not_muted a) (seqc (require a Chat)
        (seqc (guardc (\<lambda>s. body_ok body) (invalid ''message must be between 1 and 2000 characters''))
          (seqc (chat_budget a)
            (\<lambda>s. case store (edit_message (st_now s) (room_id s) i (actor_id a) body edit_window) s of
                (Inl e, s') \<Rightarrow> (Inl (if e = NotFoundErr then Rejected ''forbidden''
                      ''you can only edit your own messages from the last 5 minutes'' else e), s')
              | (Inr m, s') \<Rightarrow>
                  let line = untyped (to_chat_message m); s1 = send_all (SChatEdited line) s'
                  in (Inr (), if pinned_is i s1 then set_pinned (Some line) s1 else s1)))))))"

definition chat_delete :: "actor \<Rightarrow> int \<Rightarrow> unit cmd" where
  "chat_delete a i =
     seqc chat_enabled
       (\<lambda>s. let only_own = \<not> can (st_now s) a ModerateChat (Some (st_info s)) in
          seqc (if only_own then require a Chat else okc ())
            (\<lambda>s. case store (delete_message (st_now s) (room_id s) i (actor_id a) only_own) s of
                (Inl e, s') \<Rightarrow> (Inl (if e = NotFoundErr then
                      (if only_own then Rejected ''forbidden'' ''you can only delete your own messages''
                       else not_found ''message'') else e), s')
              | (Inr _, s') \<Rightarrow>
                  let s1 = send_all (SChatDeleted i) s'
                  in (Inr (), if pinned_is i s1 then set_pinned None s1 else s1)) s)"

definition chat_pin :: "actor \<Rightarrow> int \<Rightarrow> unit cmd" where
  "chat_pin a i =
     seqc chat_enabled (seqc (require a ModerateChat)
       (\<lambda>s. case query (\<lambda>d. get_message d (room_id s) i) s of
          (Inl e, s') \<Rightarrow> (Inl (if e = NotFoundErr then not_found ''message'' else e), s')
        | (Inr m, s') \<Rightarrow>
            if ms_system m then (Inl (invalid ''system lines cannot be pinned''), s')
            else seqc (store (set_pinned_message (room_id s') (Some i)))
              (doc (\<lambda>t. log_line (actor_name a @ '' pinned a message'')
                  (set_pinned (Some (untyped (to_chat_message m))) t))) s'))"

definition chat_unpin :: "actor \<Rightarrow> unit cmd" where
  "chat_unpin a =
     seqc chat_enabled (seqc (require a ModerateChat)
       (\<lambda>s. if st_pinned s = None then (Inr (), s)
          else seqc (store (set_pinned_message (room_id s) None)) (doc (set_pinned None)) s))"

definition load_pinned :: "st \<Rightarrow> st" where
  "load_pinned s0 =
     (let s = s0\<lparr>st_pinned := None\<rparr> in
      case ri_pinned (st_info s) of
        None \<Rightarrow> s
      | Some i \<Rightarrow>
          if \<not> dp_chat (st_deps s) then s
          else (case query (\<lambda>d. get_message d (room_id s) i) s of
              (Inl _, s') \<Rightarrow> s'
            | (Inr m, s') \<Rightarrow> s'\<lparr>st_pinned := Some (untyped (to_chat_message m))\<rparr>))"

end
