(* ===== verification/Room_Life.thy ===== *)
theory Room_Life
  imports Room_Chat
begin

text \<open>
  \<open>room/room.go\<close>: loading a room, refreshing it, ending its session, the periodic tick,
  unloading and the debug view; and the one place where timer callbacks enter (\<open>fire\<close>).
\<close>

section \<open>Loading\<close>

text \<open>
  \<open>load\<close> starts from any state of the environment: the room's own fields are set afresh.
\<close>

definition fresh_room :: "room_info \<Rightarrow> string \<Rightarrow> st \<Rightarrow> st" where
  "fresh_room info owner s = s\<lparr>st_info := info, st_owner := owner, st_queue := [], st_played := [],
     st_media := [], st_clock := clock_from info, st_viewers := [], st_skip_votes := [],
     st_votes := (\<lambda>_. []), st_chat_asked := (\<lambda>_. []), st_react_asked := (\<lambda>_. []),
     st_last_chat := (\<lambda>_. zero_time), st_last_mention := (\<lambda>_. zero_time),
     st_left_at := (\<lambda>_. zero_time), st_timers := no_timers, st_last_persist := zero_time,
     st_last_active := st_now s, st_pinned := None, st_waiting := None, st_countdown := None,
     st_closed := False, st_unsaved := False\<rparr>"

definition drop_lost_current :: "st \<Rightarrow> st" where
  "drop_lost_current s = (case c_current (st_clock s) of
      None \<Rightarrow> s
    | Some i \<Rightarrow> if has_item s i then s
        else s\<lparr>st_clock := (st_clock s)\<lparr>c_current := None, c_playing := False, c_position_ms := 0\<rparr>\<rparr>)"

definition load :: "uuid \<Rightarrow> unit cmd" where
  "load rid =
     bindc (query (\<lambda>d. get_room d rid)) (\<lambda>info.
     bindc (query (\<lambda>d. get_user d (ri_owner info))) (\<lambda>owner.
     seqc (doc (fresh_room info (u_name owner)))
       (seqc reload_queue
         (doc (\<lambda>s. let s1 = drop_lost_current (load_pinned s);
                       s2 = (if c_playing (st_clock s1) then schedule_advance s1 else s1)
              in arm_empty_pause s2)))))"

section \<open>Refreshing\<close>

text \<open>
  \<open>Refresh\<close> reads the room and its owner before it takes the mutex; applying what it read is a
  step of its own.
\<close>

definition refresh_read :: "(room_info \<times> string) cmd" where
  "refresh_read s =
     bindc (query (\<lambda>d. get_room d (room_id s))) (\<lambda>info.
     bindc (query (\<lambda>d. get_user d (ri_owner info))) (\<lambda>owner. okc (info, u_name owner))) s"

fun refresh_roles :: "(conn \<times> viewer) list \<Rightarrow> st \<Rightarrow> st" where
  "refresh_roles [] s = s"
| "refresh_roles ((c, v) # cvs) s =
     (case v_user v of
        None \<Rightarrow> refresh_roles cvs s
      | Some u \<Rightarrow>
          (case query (\<lambda>d. get_member d (room_id s) (u_id u)) s of
             (Inr m, s') \<Rightarrow> refresh_roles cvs
                (s'\<lparr>st_viewers := AList.update c (v\<lparr>v_role := rm_role m\<rparr>) (st_viewers s')\<rparr>)
           | (Inl e, s') \<Rightarrow> refresh_roles cvs
                (if e = NotFoundErr
                 then s'\<lparr>st_viewers := AList.update c (v\<lparr>v_role := RoleNone\<rparr>) (st_viewers s')\<rparr>
                 else s')))"

definition refresh_apply :: "room_info \<times> string \<Rightarrow> st \<Rightarrow> st" where
  "refresh_apply io s =
     (let c = st_clock s;
          info = (fst io)\<lparr>ri_current := c_current c, ri_playing := c_playing c,
                         ri_position_ms := c_position_ms c, ri_position_at := c_position_at c\<rparr>;
          s1 = s\<lparr>st_info := info, st_owner := snd io\<rparr>
      in broadcast (refresh_roles (st_viewers s1) s1))"

definition refresh :: "unit cmd" where
  "refresh = bindc refresh_read (\<lambda>io. doc (refresh_apply io))"

section \<open>Ending, ticking, unloading\<close>

fun mark_all_played :: "uuid list \<Rightarrow> unit cmd" where
  "mark_all_played [] = okc ()"
| "mark_all_played (i # ids) = seqc (mark_played i) (mark_all_played ids)"

definition hang_up_all :: "string \<Rightarrow> st \<Rightarrow> st" where
  "hang_up_all reason s =
     s\<lparr>st_viewers := [], st_hung_up := st_hung_up s @ map (\<lambda>cv. (fst cv, reason)) (st_viewers s)\<rparr>"

definition end_session :: "actor \<Rightarrow> unit cmd" where
  "end_session a =
     seqc (require a ManageSettings)
       (\<lambda>s. seqc (mark_all_played (map qi_id (st_queue s)))
         (doc (\<lambda>s. let s1 = log_line (actor_name a @ '' ended the session'')
                              (save_playback (set_current None s))
            in hang_up_all ''session ended''
                 (s1\<lparr>st_sent := st_sent s1
                       @ map (\<lambda>cv. (fst cv, SKicked ''session ended'')) (st_viewers s1)\<rparr>))) s)"

definition tick :: "duration \<Rightarrow> st \<Rightarrow> bool \<times> st" where
  "tick idle_after s =
     (let s1 = (if st_unsaved s \<or> (c_playing (st_clock s)
                     \<and> dp_persist_every (st_deps s) \<le> time_sub (st_now s) (st_last_persist s))
                then save_playback s else s)
      in (\<not> st_unsaved s1 \<and> \<not> c_playing (st_clock s1) \<and> st_viewers s1 = []
            \<and> idle_after < time_sub (st_now s1) (st_last_active s1), s1))"

definition shutdown :: "st \<Rightarrow> st" where
  "shutdown s = snd (persist (close_room s))"

definition close_viewers :: "string \<Rightarrow> st \<Rightarrow> st" where
  "close_viewers reason s = hang_up_all reason s"

definition room_log :: "string \<Rightarrow> st \<Rightarrow> st" where
  "room_log line s = log_line line s"

section \<open>The debug view\<close>

record debug_item =
  di_id :: uuid
  di_media :: uuid
  di_title :: string
  di_status :: "media_status option"
  di_current :: bool

record debug_state =
  ds_playback :: playback
  ds_server_ms :: int
  ds_viewers :: nat
  ds_buffering :: "string list"
  ds_settings :: settings
  ds_queue :: "debug_item list"
  ds_played :: nat
  ds_unsaved :: bool

definition debug_item_of :: "st \<Rightarrow> queue_item \<Rightarrow> debug_item" where
  "debug_item_of s it = \<lparr>di_id = qi_id it, di_media = qi_media it,
     di_title = (case media_of s (qi_media it) of None \<Rightarrow> '''' | Some m \<Rightarrow> m_title m),
     di_status = map_option m_status (media_of s (qi_media it)),
     di_current = is_current (st_clock s) (qi_id it)\<rparr>"

definition debug :: "st \<Rightarrow> debug_state" where
  "debug s = \<lparr>ds_playback = room_playback s, ds_server_ms = unix_milli (st_now s),
     ds_viewers = length (st_viewers s),
     ds_buffering = List.map_filter (\<lambda>v. case v_user v of None \<Rightarrow> None
        | Some u \<Rightarrow> if v_buffering v then Some (u_name u) else None) (viewers_of s),
     ds_settings = prefs s, ds_queue = map (debug_item_of s) (take 5 (st_queue s)),
     ds_played = length (st_played s), ds_unsaved = st_unsaved s\<rparr>"

section \<open>Timers\<close>

text \<open>The body of each callback.\<close>

definition run_callback :: "callback \<Rightarrow> st \<Rightarrow> st" where
  "run_callback cb s = (case cb of
      CbAdvance i n \<Rightarrow> on_ended i n s
    | CbEmpty \<Rightarrow> pause_if_empty s
    | CbBuffer \<Rightarrow> start_waiting s
    | CbWait \<Rightarrow> stop_waiting s
    | CbCountdown \<Rightarrow> end_countdown s
    | CbPresence \<Rightarrow> flush_presence s
    | CbLeft u name \<Rightarrow> on_left u name s)"

text \<open>\<open>afterLocked\<close>: a callback of a closed room does nothing.\<close>

definition fire :: "time \<times> callback \<Rightarrow> st \<Rightarrow> st" where
  "fire tcb s =
     (let s' = s\<lparr>st_armed := remove1 tcb (st_armed s)\<rparr> in
      if st_closed s' then s' else run_callback (snd tcb) s')"

end
