(* ===== verification/Queue_Rows.thy ===== *)
theory Queue_Rows
  imports Repository
begin

text \<open>
  What the queue statements of \<open>repository/queue.go\<close> do to the rows \<open>ListQueue\<close> returns.  The
  contract a room relies on: while ranks are distinct eight-digit numerals the text order is
  the numeric one, an added row comes last, a played or deleted row leaves the others in
  order, and \<open>SetQueueRanks\<close> makes the given order the stored one.
\<close>

section \<open>The stored queue\<close>

definition room_rows :: "db \<Rightarrow> uuid \<Rightarrow> item_row list" where
  "room_rows d rid = filter (queued_in rid) (d_items d)"

definition queue_rows :: "db \<Rightarrow> uuid \<Rightarrow> item_row list" where
  "queue_rows d rid = sort_key rank_key (room_rows d rid)"

text \<open>The row a queue item of memory stands for.\<close>

definition row_of :: "uuid \<Rightarrow> queue_item \<Rightarrow> item_row" where
  "row_of rid it = \<lparr>ir_id = qi_id it, ir_room = rid, ir_media = qi_media it,
     ir_added_by = qi_added_by it, ir_rank = qi_rank it, ir_created = qi_created it, ir_played = None\<rparr>"

definition ids_ok :: "db \<Rightarrow> bool" where
  "ids_ok d \<longleftrightarrow> distinct (map ir_id (d_items d)) \<and> (\<forall>r \<in> set (d_items d). ir_id r < d_next d)"

definition good_rank :: "string \<Rightarrow> bool" where
  "good_rank s \<longleftrightarrow> (\<exists>k. 0 < k \<and> k < 10 ^ 8 \<and> s = fmt_08d k)"

definition ranks_ok :: "db \<Rightarrow> uuid \<Rightarrow> bool" where
  "ranks_ok d rid \<longleftrightarrow> (\<forall>r \<in> set (room_rows d rid). good_rank (ir_rank r))
     \<and> distinct (map ir_rank (room_rows d rid))"

lemma list_queue_rows: "list_queue d rid = map (to_item d) (queue_rows d rid)"
  by (simp add: list_queue_def queue_rows_def room_rows_def)

lemma queue_rows_mset [simp]: "mset (queue_rows d rid) = mset (room_rows d rid)"
  by (simp add: queue_rows_def)

lemma queue_rows_set [simp]: "set (queue_rows d rid) = set (room_rows d rid)"
  by (simp add: queue_rows_def)

lemma room_rows_queued: "r \<in> set (room_rows d rid) \<Longrightarrow> r \<in> set (d_items d) \<and> queued_in rid r"
  by (simp add: room_rows_def)

lemma row_of_to_item: "queued_in rid r \<Longrightarrow> row_of rid (to_item d r) = r"
  by (simp add: row_of_def to_item_def queued_in_def)

lemma list_queue_row_of: "map (row_of rid) (list_queue d rid) = queue_rows d rid"
proof -
  have "map (row_of rid \<circ> to_item d) (queue_rows d rid) = map id (queue_rows d rid)"
    by (intro map_cong refl) (simp add: room_rows_def row_of_to_item)
  then show ?thesis by (simp add: list_queue_rows)
qed

lemma distinct_room_rows: "ids_ok d \<Longrightarrow> distinct (map ir_id (room_rows d rid))"
  unfolding ids_ok_def room_rows_def by (blast intro: distinct_map_filter)

lemma ids_of_queue_rows: "ids_ok d \<Longrightarrow> distinct (map ir_id (queue_rows d rid))"
  using distinct_room_rows [of d rid]
  by (metis mset_eq_imp_distinct_iff mset_map queue_rows_mset)

lemma queue_rows_eqI:
  assumes "mset xs = mset (room_rows d rid)"
    and "sorted_wrt (\<lambda>a b. ir_rank a < ir_rank b) xs"
  shows "queue_rows d rid = xs"
proof -
  have lt: "sorted_wrt (<) (map rank_key xs)"
    unfolding sorted_wrt_map
    by (rule sorted_wrt_mono_rel [OF _ assms(2)]) (simp add: rank_key_def)
  then have "distinct (map rank_key xs)" "sorted (map rank_key xs)"
    using strict_sorted_iff by blast+
  moreover from this have "inj_on rank_key (set (room_rows d rid))"
    using assms(1) by (metis distinct_map set_mset_mset)
  ultimately show ?thesis
    unfolding queue_rows_def using assms(1) by (intro sort_key_inj_key_eq) simp_all
qed

lemma queue_rows_sorted:
  assumes "ranks_ok d rid"
  shows "sorted_wrt (\<lambda>a b. ir_rank a < ir_rank b) (queue_rows d rid)"
proof -
  have "sorted (map rank_key (queue_rows d rid))" unfolding queue_rows_def by (rule sorted_sort_key)
  then have "sorted (map ir_rank (queue_rows d rid))"
    unfolding sorted_map by (rule sorted_wrt_mono_rel [rotated]) (auto simp: rank_key_def less_eq_prod_def)
  moreover have "distinct (map ir_rank (queue_rows d rid))"
    using assms unfolding ranks_ok_def by (metis mset_eq_imp_distinct_iff mset_map queue_rows_mset)
  ultimately have "sorted_wrt (<) (map ir_rank (queue_rows d rid))"
    by (simp add: strict_sorted_iff)
  then show ?thesis by (simp add: sorted_wrt_map)
qed

section \<open>The greatest rank\<close>

lemma fold_max_ge: "a \<le> fold max xs (a :: 'a :: linorder)" "x \<in> set xs \<Longrightarrow> x \<le> fold max xs a"
  by (induction xs arbitrary: a) (auto simp: max_def intro: order_trans, meson dual_order.trans linear)

lemma fold_max_mem: "fold max xs (a :: 'a :: linorder) \<in> insert a (set xs)"
  by (induction xs arbitrary: a) (auto simp: max_def)

lemma max_rank_room: "max_rank d rid = (case map ir_rank (room_rows d rid) of
    [] \<Rightarrow> 0 | r # rs \<Rightarrow> rank_num (fold max rs r))"
  by (simp add: max_rank_def room_rows_def)

lemma max_rank_props:
  assumes "ranks_ok d rid"
  shows "max_rank d rid < 10 ^ 8"
    and "r \<in> set (room_rows d rid) \<Longrightarrow> ir_rank r \<le> fmt_08d (max_rank d rid) \<and> 0 < max_rank d rid"
proof -
  consider "room_rows d rid = []"
    | k where "0 < k" "k < 10 ^ 8" "max_rank d rid = k" "\<forall>r \<in> set (room_rows d rid). ir_rank r \<le> fmt_08d k"
  proof (cases "map ir_rank (room_rows d rid)")
    case Nil
    then show thesis using that(1) by simp
  next
    case (Cons x xs)
    let ?m = "fold max xs x"
    have "?m \<in> set (map ir_rank (room_rows d rid))" using fold_max_mem [of xs x] Cons by auto
    then obtain k where k: "0 < k" "k < 10 ^ 8" "?m = fmt_08d k"
      using assms unfolding ranks_ok_def good_rank_def by auto
    moreover have "max_rank d rid = k" using Cons k by (simp add: max_rank_room rank_num_fmt_08d)
    moreover have "\<forall>r \<in> set (room_rows d rid). ir_rank r \<le> fmt_08d k"
    proof
      fix r assume "r \<in> set (room_rows d rid)"
      then have "ir_rank r \<in> set (x # xs)" unfolding Cons [symmetric] by simp
      then show "ir_rank r \<le> fmt_08d k" unfolding k(3) [symmetric] using fold_max_ge by auto
    qed
    ultimately show thesis using that(2) by blast
  qed
  note c = this
  show "max_rank d rid < 10 ^ 8" using c by cases (simp_all add: max_rank_room)
  show "r \<in> set (room_rows d rid) \<Longrightarrow> ir_rank r \<le> fmt_08d (max_rank d rid) \<and> 0 < max_rank d rid"
    using c by cases simp_all
qed

lemma max_rank_attained [consumes 1, case_names empty row]:
  assumes "\<forall>r \<in> set (room_rows d rid). good_rank (ir_rank r)"
  obtains "room_rows d rid = []" "max_rank d rid = 0"
  | r where "r \<in> set (room_rows d rid)" "ir_rank r = fmt_08d (max_rank d rid)" "max_rank d rid < 10 ^ 8"
proof (cases "map ir_rank (room_rows d rid)")
  case Nil
  then show thesis using that(1) by (simp add: max_rank_room)
next
  case (Cons x xs)
  have "fold max xs x \<in> set (map ir_rank (room_rows d rid))" using fold_max_mem [of xs x] Cons by auto
  then obtain r where r: "r \<in> set (room_rows d rid)" "ir_rank r = fold max xs x" by auto
  then obtain k where k: "k < 10 ^ 8" "fold max xs x = fmt_08d k"
    using assms unfolding good_rank_def by metis
  then have "max_rank d rid = k" using Cons by (simp add: max_rank_room rank_num_fmt_08d)
  with r k show thesis by (intro that(2) [of r]) simp_all
qed

lemma max_rank_le:
  assumes "\<And>r. r \<in> set (room_rows d rid) \<Longrightarrow> \<exists>k. 0 < k \<and> k \<le> n \<and> k < 10 ^ 8 \<and> ir_rank r = fmt_08d k"
  shows "max_rank d rid \<le> n"
proof -
  have "\<forall>r \<in> set (room_rows d rid). good_rank (ir_rank r)"
    using assms unfolding good_rank_def by blast
  then show ?thesis
  proof (cases rule: max_rank_attained)
    case (row r)
    obtain k where "k \<le> n" "k < 10 ^ 8" "ir_rank r = fmt_08d k" using assms [OF row(1)] by blast
    with row show ?thesis by (metis fmt_08d_inj)
  qed simp
qed

section \<open>Adding, playing, deleting\<close>

lemma add_queue_item_rows:
  assumes "ranks_ok d rid" and "max_rank d rid + 1 < 10 ^ 8"
    and "add_queue_item now rid mid by d = (Inr it, d')"
  shows "queue_rows d' rid = queue_rows d rid @ [row_of rid it]" and "ranks_ok d' rid"
    and "max_rank d' rid \<le> max_rank d rid + 1"
    and "d_items d' = d_items d @ [row_of rid it]" and "qi_id it = d_next d" and "d_next d' = Suc (d_next d)"
proof -
  have it: "row_of rid it = \<lparr>ir_id = d_next d, ir_room = rid, ir_media = mid, ir_added_by = by,
       ir_rank = fmt_08d (max_rank d rid + 1), ir_created = now, ir_played = None\<rparr>"
    "qi_id it = d_next d" "d' = d\<lparr>d_items := d_items d @ [row_of rid it], d_next := Suc (d_next d)\<rparr>"
    using assms(2,3) lpad8_dec [of "max_rank d rid + 1"]
    by (auto simp: add_queue_item_def Let_def row_of_def)
  then show items: "d_items d' = d_items d @ [row_of rid it]" "qi_id it = d_next d" "d_next d' = Suc (d_next d)"
    by simp_all
  have rows: "room_rows d' rid = room_rows d rid @ [row_of rid it]"
    using items it(1) by (simp add: room_rows_def queued_in_def)
  have less: "ir_rank r < ir_rank (row_of rid it)" if "r \<in> set (room_rows d rid)" for r
  proof -
    have "ir_rank r \<le> fmt_08d (max_rank d rid)" using max_rank_props(2) [OF assms(1) that] by simp
    also have "\<dots> < fmt_08d (max_rank d rid + 1)" using assms(2) by (subst fmt_08d_less) simp_all
    finally show ?thesis using it(1) by simp
  qed
  show "queue_rows d' rid = queue_rows d rid @ [row_of rid it]"
    using queue_rows_sorted [OF assms(1)] less
    by (intro queue_rows_eqI) (simp_all add: rows sorted_wrt_append)
  show ok: "ranks_ok d' rid"
  proof -
    have "good_rank (ir_rank (row_of rid it))"
      unfolding good_rank_def using it(1) assms(2) by (intro exI [of _ "max_rank d rid + 1"]) simp
    moreover have "ir_rank (row_of rid it) \<notin> ir_rank ` set (room_rows d rid)"
      using less by (metis imageE less_irrefl)
    ultimately show ?thesis using assms(1) unfolding ranks_ok_def rows by auto
  qed
  show "max_rank d' rid \<le> max_rank d rid + 1"
  proof (rule max_rank_le)
    fix r assume r: "r \<in> set (room_rows d' rid)"
    then obtain k where k: "0 < k" "k < 10 ^ 8" "ir_rank r = fmt_08d k"
      using ok unfolding ranks_ok_def good_rank_def by blast
    have "ir_rank r \<le> fmt_08d (max_rank d rid + 1)"
      using r less it(1) unfolding rows by (auto simp: less_imp_le)
    then have "\<not> fmt_08d (max_rank d rid + 1) < fmt_08d k" using k(3) by simp
    then have "k \<le> max_rank d rid + 1"
      using k(2) assms(2) by (subst (asm) fmt_08d_less) simp_all
    with k show "\<exists>k. 0 < k \<and> k \<le> max_rank d rid + 1 \<and> k < 10 ^ 8 \<and> ir_rank r = fmt_08d k" by blast
  qed
qed

text \<open>Everything that only takes rows out of the room's queue.\<close>

lemma rows_filtered:
  assumes "room_rows d' rid = filter p (room_rows d rid)"
  shows "queue_rows d' rid = filter p (queue_rows d rid)" and "ranks_ok d rid \<Longrightarrow> ranks_ok d' rid"
    and "ranks_ok d rid \<Longrightarrow> max_rank d' rid \<le> max_rank d rid"
proof -
  show "queue_rows d' rid = filter p (queue_rows d rid)"
    by (simp add: queue_rows_def assms filter_sort)
  show "ranks_ok d rid \<Longrightarrow> ranks_ok d' rid"
    unfolding ranks_ok_def assms by (auto intro: distinct_map_filter)
  show "max_rank d' rid \<le> max_rank d rid" if ok: "ranks_ok d rid"
  proof (rule max_rank_le)
    fix r assume "r \<in> set (room_rows d' rid)"
    then have r: "r \<in> set (room_rows d rid)" using assms by simp
    then obtain k where k: "0 < k" "k < 10 ^ 8" "ir_rank r = fmt_08d k"
      using ok unfolding ranks_ok_def good_rank_def by blast
    have "\<not> fmt_08d (max_rank d rid) < fmt_08d k"
      using max_rank_props(2) [OF ok r] k(3) by (auto simp: not_less)
    then have "k \<le> max_rank d rid"
      using k(2) max_rank_props(1) [OF ok] by (simp add: fmt_08d_less)
    with k show "\<exists>k. 0 < k \<and> k \<le> max_rank d rid \<and> k < 10 ^ 8 \<and> ir_rank r = fmt_08d k" by blast
  qed
qed

lemma mark_played_rows:
  assumes "mark_queue_item_played rid i t d = (r, d')"
  shows "room_rows d' rid = filter (\<lambda>x. ir_id x \<noteq> i) (room_rows d rid)"
proof -
  let ?hit = "\<lambda>x. queued_in rid x \<and> ir_id x = i"
  have f: "filter (queued_in rid) (map (\<lambda>x. if ?hit x then x\<lparr>ir_played := Some t\<rparr> else x) xs)
      = filter (\<lambda>x. ir_id x \<noteq> i) (filter (queued_in rid) xs)" for xs
    by (induction xs) (auto simp: queued_in_def)
  consider "filter ?hit (d_items d) = []" "d' = d"
    | "d' = d\<lparr>d_items := map (\<lambda>x. if ?hit x then x\<lparr>ir_played := Some t\<rparr> else x) (d_items d)\<rparr>"
    using assms by (auto simp: mark_queue_item_played_def Let_def split: if_splits)
  then show ?thesis
  proof cases
    case 1
    then have "\<forall>x \<in> set (room_rows d rid). ir_id x \<noteq> i"
      by (auto simp: filter_empty_conv room_rows_def)
    with 1 show ?thesis by simp
  next
    case 2
    then show ?thesis by (simp add: room_rows_def f)
  qed
qed

lemma drop_items_rows: "room_rows (drop_items p d) rid = filter (\<lambda>r. \<not> p r) (room_rows d rid)"
  by (simp add: room_rows_def drop_items_def Let_def conj_commute)

section \<open>Ranks\<close>

lemma set_ranks_from_map:
  "distinct ids \<Longrightarrow> set_ranks_from n rid ids rows =
     map (\<lambda>r. if ir_room r = rid
              then (case find_index (\<lambda>i. i = ir_id r) ids of None \<Rightarrow> r
                    | Some k \<Rightarrow> r\<lparr>ir_rank := fmt_08d (n + k)\<rparr>) else r) rows"
proof (induction n rid ids rows rule: set_ranks_from.induct)
  case (2 n rid i ids rows)
  let ?f = "\<lambda>r. if ir_room r = rid \<and> ir_id r = i then r\<lparr>ir_rank := fmt_08d n\<rparr> else r"
  have none: "find_index (\<lambda>j. j = i) ids = None" using 2(2) by (auto simp: find_index_None)
  show ?case
    unfolding set_ranks_from.simps 2(1) [OF distinct_tl [OF 2(2), simplified]] map_map
    by (intro map_cong refl) (auto simp: none split: option.splits)
next
  case (1 n rid rows)
  show ?case by (simp add: map_idI)
qed

lemma find_index_nth_distinct:
  "distinct xs \<Longrightarrow> k < length xs \<Longrightarrow> find_index (\<lambda>x. x = xs ! k) xs = Some k"
proof (induction xs arbitrary: k)
  case (Cons x xs)
  then show ?case by (cases k) auto
qed simp

text \<open>\<open>SetQueueRanks\<close> with the ids of a permutation of the queue stores that permutation.\<close>

lemma set_queue_ranks_rows:
  assumes rows: "queue_rows d rid = map (row_of rid) q" and ids: "ids_ok d"
    and perm: "mset ordered = mset q" and small: "length q < 10 ^ 8"
    and d': "d' = snd (set_queue_ranks rid (map qi_id ordered) d)"
  shows "queue_rows d' rid = map (row_of rid) (renumber ordered)" and "ranks_ok d' rid"
    and "max_rank d' rid \<le> length q"
proof -
  let ?pos = "\<lambda>i. find_index (\<lambda>j. j = i) (map qi_id ordered)"
  let ?f = "\<lambda>r. case ?pos (ir_id r) of None \<Rightarrow> r | Some k \<Rightarrow> r\<lparr>ir_rank := fmt_08d (1 + k)\<rparr>"
  have len: "length ordered = length q" using perm by (rule mset_eq_length)
  have "map ir_id (queue_rows d rid) = map qi_id q" by (simp add: rows row_of_def)
  then have dq: "distinct (map qi_id q)" using ids_of_queue_rows [OF ids, of rid] by simp
  then have dist: "distinct (map qi_id ordered)"
    using perm by (metis mset_eq_imp_distinct_iff mset_map)
  have items: "d_items d' = map (\<lambda>r. if ir_room r = rid then ?f r else r) (d_items d)"
    unfolding d' set_queue_ranks_def using set_ranks_from_map [OF dist, of 1 rid] by simp
  have rr: "room_rows d' rid = map ?f (room_rows d rid)"
  proof -
    have "filter (queued_in rid) (map (\<lambda>r. if ir_room r = rid then ?f r else r) xs)
        = map ?f (filter (queued_in rid) xs)" for xs
      by (induction xs) (auto simp: queued_in_def split: option.splits)
    then show ?thesis by (simp add: room_rows_def items)
  qed
  have each: "map (?f \<circ> row_of rid) ordered = map (row_of rid) (renumber ordered)"
  proof (rule nth_equalityI)
    fix i assume "i < length (map (?f \<circ> row_of rid) ordered)"
    then have i: "i < length ordered" by simp
    have "?pos (qi_id (ordered ! i)) = Some i"
      using find_index_nth_distinct [OF dist, of i] i by simp
    then show "map (?f \<circ> row_of rid) ordered ! i = map (row_of rid) (renumber ordered) ! i"
      using i by (simp add: renumber_def renumber_from_nth row_of_def)
  qed simp
  have ms: "mset (map (row_of rid) (renumber ordered)) = mset (room_rows d' rid)"
  proof -
    have "mset (room_rows d' rid) = image_mset ?f (mset (queue_rows d rid))" by (simp add: rr)
    also have "\<dots> = image_mset ?f (image_mset (row_of rid) (mset ordered))" by (simp add: rows perm)
    also have "\<dots> = mset (map (?f \<circ> row_of rid) ordered)" by (simp add: multiset.map_comp)
    finally show ?thesis unfolding each by simp
  qed
  have rank: "ir_rank (map (row_of rid) (renumber ordered) ! i) = fmt_08d (1 + i)" if "i < length ordered" for i
    using that by (simp add: renumber_def renumber_from_nth row_of_def)
  have sorted: "sorted_wrt (\<lambda>a b. ir_rank a < ir_rank b) (map (row_of rid) (renumber ordered))"
    unfolding sorted_wrt_iff_nth_less
  proof (intro allI impI)
    fix i j assume ij: "i < j" "j < length (map (row_of rid) (renumber ordered))"
    then have b: "1 + i < 10 ^ 8" "1 + j < 10 ^ 8 \<or> 1 + j = 10 ^ 8" using small len by auto
    show "ir_rank (map (row_of rid) (renumber ordered) ! i) < ir_rank (map (row_of rid) (renumber ordered) ! j)"
      using ij small len rank [of i] rank [of j] by (simp add: fmt_08d_less)
  qed
  show "queue_rows d' rid = map (row_of rid) (renumber ordered)"
    using ms sorted by (rule queue_rows_eqI)
  have good: "\<exists>k. 0 < k \<and> k \<le> length q \<and> k < 10 ^ 8 \<and> ir_rank r = fmt_08d k"
    if "r \<in> set (room_rows d' rid)" for r
  proof -
    have "r \<in> set (map (row_of rid) (renumber ordered))" using that ms by (metis set_mset_mset)
    then obtain i where i: "i < length ordered" "r = map (row_of rid) (renumber ordered) ! i"
      by (auto simp: in_set_conv_nth)
    then have "ir_rank r = fmt_08d (1 + i)" using rank by simp
    then show ?thesis using i(1) len small by (intro exI [of _ "1 + i"]) simp
  qed
  have "sorted_wrt (<) (map ir_rank (map (row_of rid) (renumber ordered)))"
    using sorted by (simp add: sorted_wrt_map)
  then have "distinct (map ir_rank (map (row_of rid) (renumber ordered)))" using strict_sorted_iff by blast
  then have "distinct (map ir_rank (room_rows d' rid))" using ms by (metis mset_eq_imp_distinct_iff mset_map)
  then show "ranks_ok d' rid"
    using good unfolding ranks_ok_def good_rank_def by blast
  show "max_rank d' rid \<le> length q" using good by (rule max_rank_le)
qed

section \<open>Requeueing the history\<close>

definition played_rows :: "db \<Rightarrow> uuid \<Rightarrow> item_row list" where
  "played_rows d rid = filter (played_in rid) (d_items d)"

text \<open>Ranks stay good when the history comes back behind what is still queued.\<close>

lemma requeue_played_rows:
  assumes ok: "ranks_ok d rid" and ids: "ids_ok d"
    and room: "max_rank d rid + length (played_rows d rid) < 10 ^ 8"
    and d': "d' = snd (requeue_played rid d)"
  shows "ranks_ok d' rid" and "map ir_id (d_items d') = map ir_id (d_items d)" and "d_next d' = d_next d"
proof -
  let ?ord = "map ir_id (sort_key (\<lambda>r. (the (ir_played r), ir_created r)) (played_rows d rid))"
  let ?b = "max_rank d rid"
  define f :: "item_row \<Rightarrow> item_row" where "f = (\<lambda>r. case find_index (\<lambda>i. i = ir_id r) ?ord of None \<Rightarrow> r
     | Some k \<Rightarrow> r\<lparr>ir_played := None, ir_rank := lpad8 (dec (?b + k + 1))\<rparr>)"
  have items: "d_items d' = map f (d_items d)"
    by (simp add: d' requeue_played_def Let_def played_rows_def f_def)
  show "d_next d' = d_next d" by (simp add: d' requeue_played_def Let_def)
  show "map ir_id (d_items d') = map ir_id (d_items d)"
    by (simp add: items f_def split: option.split)
  have set_ord: "set ?ord = ir_id ` set (played_rows d rid)" by simp
  have inj: "x = y" if "x \<in> set (d_items d)" "y \<in> set (d_items d)" "ir_id x = ir_id y" for x y
    using ids that unfolding ids_ok_def by (metis distinct_map inj_on_def)
  have none: "find_index (\<lambda>i. i = ir_id r) ?ord = None" if "r \<in> set (d_items d)" "\<not> played_in rid r" for r
  proof -
    have "ir_id r \<notin> ir_id ` set (played_rows d rid)"
      using that inj by (auto simp: played_rows_def)
    then show ?thesis unfolding set_ord [symmetric] find_index_None by metis
  qed
  have some: "\<exists>k. find_index (\<lambda>i. i = ir_id r) ?ord = Some k \<and> k < length (played_rows d rid) \<and> ?ord ! k = ir_id r"
    if "r \<in> set (played_rows d rid)" for r
  proof -
    have "ir_id r \<in> set ?ord" unfolding set_ord using that by (rule imageI)
    then have "find_index (\<lambda>i. i = ir_id r) ?ord \<noteq> None" unfolding find_index_None by blast
    then obtain k where k: "find_index (\<lambda>i. i = ir_id r) ?ord = Some k" by blast
    from find_index_Some [OF k] k show ?thesis by simp
  qed
  have rank: "lpad8 (dec (?b + k + 1)) = fmt_08d (?b + k + 1)" "?b + k + 1 < 10 ^ 8"
    if "k < length (played_rows d rid)" for k
    using that room lpad8_dec [of "?b + k + 1"] by simp_all
  have rows: "room_rows d' rid = map f (filter (\<lambda>r. queued_in rid r \<or> played_in rid r) (d_items d))"
  proof -
    have "queued_in rid (f r) \<longleftrightarrow> queued_in rid r \<or> played_in rid r" if "r \<in> set (d_items d)" for r
    proof (cases "played_in rid r")
      case True
      then have "r \<in> set (played_rows d rid)" using that by (simp add: played_rows_def)
      from some [OF this] True show ?thesis by (auto simp: queued_in_def played_in_def f_def)
    next
      case False
      with none [OF that False] show ?thesis by (simp add: f_def)
    qed
    then show ?thesis unfolding room_rows_def items filter_map by (simp cong: filter_cong)
  qed
  have key: "(queued_in rid r \<and> f r = r) \<or> (\<exists>k. k < length (played_rows d rid)
      \<and> ir_rank (f r) = fmt_08d (?b + k + 1) \<and> ?ord ! k = ir_id r)"
    if r: "r \<in> set (d_items d)" "queued_in rid r \<or> played_in rid r" for r
  proof (cases "played_in rid r")
    case True
    then have "r \<in> set (played_rows d rid)" using r by (simp add: played_rows_def)
    from some [OF this] obtain k where "find_index (\<lambda>i. i = ir_id r) ?ord = Some k"
      "k < length (played_rows d rid)" "?ord ! k = ir_id r" by blast
    then show ?thesis using rank(1) [of k] by (auto simp: f_def)
  next
    case False
    with none [OF r(1) False] r(2) show ?thesis by (simp add: f_def)
  qed
  have below: "ir_rank r < fmt_08d (?b + k + 1)"
    if "r \<in> set (d_items d)" "queued_in rid r" "k < length (played_rows d rid)" for r k
  proof -
    have "ir_rank r \<le> fmt_08d ?b" using max_rank_props(2) [OF ok, of r] that by (simp add: room_rows_def)
    also have "\<dots> < fmt_08d (?b + k + 1)" using rank(2) [OF that(3)] by (subst fmt_08d_less) simp_all
    finally show ?thesis .
  qed
  have "good_rank (ir_rank r)" if mem: "r \<in> set (room_rows d' rid)" for r
  proof -
    obtain x where x: "x \<in> set (d_items d)" "queued_in rid x \<or> played_in rid x" "r = f x"
      using mem unfolding rows by auto
    from key [OF x(1,2)] show ?thesis
    proof
      assume "queued_in rid x \<and> f x = x"
      then show ?thesis using x ok by (simp add: ranks_ok_def room_rows_def)
    next
      assume "\<exists>k. k < length (played_rows d rid) \<and> ir_rank (f x) = fmt_08d (?b + k + 1) \<and> ?ord ! k = ir_id x"
      then show ?thesis unfolding good_rank_def x(3) using rank(2) by (metis add_gr_0 zero_less_one)
    qed
  qed
  moreover have "inj_on (ir_rank \<circ> f) {r \<in> set (d_items d). queued_in rid r \<or> played_in rid r}"
  proof (rule inj_onI)
    fix x y assume x: "x \<in> {r \<in> set (d_items d). queued_in rid r \<or> played_in rid r}"
      and y: "y \<in> {r \<in> set (d_items d). queued_in rid r \<or> played_in rid r}"
      and eq: "(ir_rank \<circ> f) x = (ir_rank \<circ> f) y"
    show "x = y"
    proof -
      have kx: "(queued_in rid x \<and> f x = x) \<or> (\<exists>k. k < length (played_rows d rid)
          \<and> ir_rank (f x) = fmt_08d (?b + k + 1) \<and> ?ord ! k = ir_id x)" using x by (intro key) simp_all
      have ky: "(queued_in rid y \<and> f y = y) \<or> (\<exists>k. k < length (played_rows d rid)
          \<and> ir_rank (f y) = fmt_08d (?b + k + 1) \<and> ?ord ! k = ir_id y)" using y by (intro key) simp_all
      from kx ky show ?thesis
      proof (elim disjE conjE exE)
        assume "queued_in rid x" "f x = x" "queued_in rid y" "f y = y"
        then show ?thesis
          using x y eq ok unfolding ranks_ok_def room_rows_def
          by (auto simp: distinct_map inj_on_def)
      next
        fix k assume "queued_in rid x" "f x = x" "k < length (played_rows d rid)"
          "ir_rank (f y) = fmt_08d (?b + k + 1)"
        then show ?thesis using below [of x k] x eq by simp
      next
        fix k assume "queued_in rid y" "f y = y" "k < length (played_rows d rid)"
          "ir_rank (f x) = fmt_08d (?b + k + 1)"
        then show ?thesis using below [of y k] y eq by simp
      next
        fix k l assume kl: "k < length (played_rows d rid)" "ir_rank (f x) = fmt_08d (?b + k + 1)"
          "?ord ! k = ir_id x" "l < length (played_rows d rid)"
          "ir_rank (f y) = fmt_08d (?b + l + 1)" "?ord ! l = ir_id y"
        then have "fmt_08d (?b + k + 1) = fmt_08d (?b + l + 1)" using eq by simp
        then have "k = l" using rank(2) [OF kl(1)] rank(2) [OF kl(4)] by (simp add: fmt_08d_inj)
        then show ?thesis using kl x y by (intro inj) simp_all
      qed
    qed
  qed
  moreover have "distinct (filter (\<lambda>r. queued_in rid r \<or> played_in rid r) (d_items d))"
    using ids unfolding ids_ok_def by (simp add: distinct_map)
  ultimately show "ranks_ok d' rid"
    unfolding ranks_ok_def by (simp add: rows distinct_map)
qed

end
