(* ===== verification/Room_Quiet.thy ===== *)
theory Room_Quiet
  imports Room_Life Queue_Rows
begin

text \<open>
  Which steps of a room leave its queue alone.  \<open>quiet s t\<close>: from \<open>s\<close> to \<open>t\<close> neither the rows of
  queue items nor the room's queue and history changed, and nothing of other rooms did.  Every
  step that is not a queue command is quiet; the rules in \<open>quiet\<close> carry that through the
  definitions.
\<close>

named_theorems quiet \<open>steps that leave the queue and other rooms alone\<close>

text \<open>
  What the tables hold of other rooms, but for the pointer to the current item, which the
  foreign key clears in whatever row points to a deleted item.
\<close>

definition others :: "uuid \<Rightarrow> db \<Rightarrow> item_row list \<times> msg_row list \<times> room_info list" where
  "others rid d = (filter (\<lambda>r. ir_room r \<noteq> rid) (d_items d),
     filter (\<lambda>r. mr_room r \<noteq> rid) (d_messages d),
     map (\<lambda>i. i\<lparr>ri_current := None\<rparr>) (filter (\<lambda>i. ri_id i \<noteq> rid) (d_rooms d)))"

definition quiet_db :: "uuid \<Rightarrow> db \<Rightarrow> db \<Rightarrow> bool" where
  "quiet_db rid d d' \<longleftrightarrow>
     d_items d' = d_items d \<and> d_next d \<le> d_next d' \<and> others rid d' = others rid d"

definition quiet :: "st \<Rightarrow> st \<Rightarrow> bool" where
  "quiet s t \<longleftrightarrow> room_id t = room_id s
     \<and> map (row_of (room_id s)) (st_queue t) = map (row_of (room_id s)) (st_queue s)
     \<and> st_played t = st_played s \<and> quiet_db (room_id s) (st_db s) (st_db t)"

lemma quiet_refl [quiet]: "quiet s s"
  by (simp add: quiet_def quiet_db_def)

lemma quiet_trans: "quiet s t \<Longrightarrow> quiet t u \<Longrightarrow> quiet s u"
  by (auto simp: quiet_def quiet_db_def)

text \<open>A step that is quiet on its own is quiet after others.\<close>

lemma quiet_step: "(\<And>s. quiet s (f s)) \<Longrightarrow> quiet s t \<Longrightarrow> quiet s (f t)"
  using quiet_trans by blast

lemma quiet_fields [quiet]:
  "quiet s t \<Longrightarrow> quiet s (t\<lparr>st_now := a\<rparr>)"
  "quiet s t \<Longrightarrow> quiet s (t\<lparr>st_faults := b\<rparr>)"
  "quiet s t \<Longrightarrow> quiet s (t\<lparr>st_sent := c\<rparr>)"
  "quiet s t \<Longrightarrow> quiet s (t\<lparr>st_hung_up := d\<rparr>)"
  "quiet s t \<Longrightarrow> quiet s (t\<lparr>st_notified := e\<rparr>)"
  "quiet s t \<Longrightarrow> quiet s (t\<lparr>st_armed := f\<rparr>)"
  "quiet s t \<Longrightarrow> quiet s (t\<lparr>st_add_asked := g\<rparr>)"
  "quiet s t \<Longrightarrow> quiet s (t\<lparr>st_owner := h\<rparr>)"
  "quiet s t \<Longrightarrow> quiet s (t\<lparr>st_media := i\<rparr>)"
  "quiet s t \<Longrightarrow> quiet s (t\<lparr>st_clock := j\<rparr>)"
  "quiet s t \<Longrightarrow> quiet s (t\<lparr>st_viewers := k\<rparr>)"
  "quiet s t \<Longrightarrow> quiet s (t\<lparr>st_skip_votes := l\<rparr>)"
  "quiet s t \<Longrightarrow> quiet s (t\<lparr>st_votes := m\<rparr>)"
  "quiet s t \<Longrightarrow> quiet s (t\<lparr>st_chat_asked := n\<rparr>)"
  "quiet s t \<Longrightarrow> quiet s (t\<lparr>st_react_asked := n\<rparr>)"
  "quiet s t \<Longrightarrow> quiet s (t\<lparr>st_last_chat := p\<rparr>)"
  "quiet s t \<Longrightarrow> quiet s (t\<lparr>st_last_mention := p\<rparr>)"
  "quiet s t \<Longrightarrow> quiet s (t\<lparr>st_left_at := p\<rparr>)"
  "quiet s t \<Longrightarrow> quiet s (t\<lparr>st_timers := q\<rparr>)"
  "quiet s t \<Longrightarrow> quiet s (t\<lparr>st_last_persist := r\<rparr>)"
  "quiet s t \<Longrightarrow> quiet s (t\<lparr>st_last_active := r\<rparr>)"
  "quiet s t \<Longrightarrow> quiet s (t\<lparr>st_pinned := u\<rparr>)"
  "quiet s t \<Longrightarrow> quiet s (t\<lparr>st_waiting := v\<rparr>)"
  "quiet s t \<Longrightarrow> quiet s (t\<lparr>st_countdown := w\<rparr>)"
  "quiet s t \<Longrightarrow> quiet s (t\<lparr>st_closed := x\<rparr>)"
  "quiet s t \<Longrightarrow> quiet s (t\<lparr>st_unsaved := x\<rparr>)"
  by (simp_all add: quiet_def room_id_def)

lemma quiet_info [quiet]:
  "ri_id i = room_id t \<Longrightarrow> quiet s t \<Longrightarrow> quiet s (t\<lparr>st_info := i\<rparr>)"
  by (simp add: quiet_def room_id_def)

lemma quiet_if [quiet]: "quiet s t \<Longrightarrow> quiet s u \<Longrightarrow> quiet s (if b then t else u)"
  by simp

section \<open>Store calls that do not touch items\<close>

definition calm :: "uuid \<Rightarrow> (db \<Rightarrow> 'a outcome) \<Rightarrow> bool" where
  "calm rid f \<longleftrightarrow> (\<forall>d. quiet_db rid d (snd (f d)))"

lemma quiet_store_snd: "calm (room_id s) f \<Longrightarrow> quiet s (snd (store f s))"
  by (auto simp: store_def quiet_def calm_def room_id_def quiet_db_def split: list.split bool.split prod.split)
    (metis snd_conv)+

lemma quiet_store: "store f t = (r, u) \<Longrightarrow> calm (room_id t) f \<Longrightarrow> quiet s t \<Longrightarrow> quiet s u"
  using quiet_store_snd [of t f] quiet_trans [of s t u] by simp

lemma calm_query [simp]: "calm rid (\<lambda>d. (f d, d))"
  by (simp add: calm_def quiet_db_def)

lemma calm_map_room: "calm rid (\<lambda>d. (r, map_room rid f d))" if "\<And>i. ri_id (f i) = ri_id i"
proof -
  have "filter (\<lambda>i. ri_id i \<noteq> rid) (map (\<lambda>i. if ri_id i = rid then f i else i) xs)
      = filter (\<lambda>i. ri_id i \<noteq> rid) xs" for xs
    by (induction xs) (simp_all add: that)
  then show ?thesis by (simp add: calm_def quiet_db_def others_def map_room_def)
qed

lemma others_map_room:
  assumes "\<And>i. ri_id (f i) = ri_id i"
  shows "others rid (map_room rid f d) = others rid d"
proof -
  have "filter (\<lambda>i. ri_id i \<noteq> rid) (map (\<lambda>i. if ri_id i = rid then f i else i) xs)
      = filter (\<lambda>i. ri_id i \<noteq> rid) xs" for xs
    by (induction xs) (simp_all add: assms)
  then show ?thesis by (simp add: others_def map_room_def)
qed

lemma map_room_simps [simp]:
  "d_items (map_room rid f d) = d_items d" "d_next (map_room rid f d) = d_next d"
  by (simp_all add: map_room_def)

lemma calm_exec_room: "(\<And>i. ri_id (f i) = ri_id i) \<Longrightarrow> calm rid (exec_room rid f)"
  by (simp add: calm_def quiet_db_def exec_room_def others_map_room)

lemma calm_rooms [quiet]:
  "calm rid (update_room_playback now rid p)"
  "calm rid (set_room_schedule now rid x)"
  "calm rid (update_room_settings now rid y)"
  "calm rid (set_pinned_message rid z)"
proof -
  show "calm rid (update_room_playback now rid p)"
    by (simp add: calm_def quiet_db_def update_room_playback_def others_map_room)
  show "calm rid (set_room_schedule now rid x)" "calm rid (update_room_settings now rid y)"
    "calm rid (set_pinned_message rid z)"
    unfolding set_room_schedule_def update_room_settings_def set_pinned_message_def
    by (intro calm_exec_room; simp)+
qed

lemma others_messages:
  "filter (\<lambda>r. mr_room r \<noteq> rid) ms = filter (\<lambda>r. mr_room r \<noteq> rid) (d_messages d) \<Longrightarrow>
   others rid (d\<lparr>d_messages := ms\<rparr>) = others rid d"
  by (simp add: others_def)

lemma others_append_msg: "mr_room r = rid \<Longrightarrow> others rid (append_msg r d) = others rid d"
  by (simp add: others_def append_msg_def)

lemma append_msg_simps [simp]:
  "d_items (append_msg r d) = d_items d" "d_next (append_msg r d) = d_next d"
  by (simp_all add: append_msg_def)

lemma filter_other_messages:
  "(\<And>r. mr_room r \<noteq> rid \<Longrightarrow> f r = r) \<Longrightarrow> (\<And>r. mr_room (f r) = mr_room r) \<Longrightarrow>
   filter (\<lambda>r. mr_room r \<noteq> rid) (map f ms) = filter (\<lambda>r. mr_room r \<noteq> rid) ms"
  by (induction ms) simp_all

lemma calm_messages [quiet]:
  "calm rid (create_system_message now rid body)"
  "calm rid (create_message now rid u body reply)"
  "calm rid (edit_message now rid i u body w)"
  "calm rid (delete_message now rid i u own)"
  "calm rid (clear_messages now rid u)"
proof -
  show "calm rid (create_system_message now rid body)"
    by (simp add: calm_def quiet_db_def create_system_message_def Let_def others_append_msg)
  show "calm rid (create_message now rid u body reply)"
    by (simp add: calm_def quiet_db_def create_message_def Let_def others_append_msg)
  show "calm rid (edit_message now rid i u body w)"
    unfolding calm_def quiet_db_def edit_message_def Let_def
    by (auto intro!: others_messages filter_other_messages)
  show "calm rid (delete_message now rid i u own)"
    unfolding calm_def quiet_db_def delete_message_def Let_def
    by (auto simp: others_map_room intro!: others_messages filter_other_messages)
  show "calm rid (clear_messages now rid u)"
    unfolding calm_def quiet_db_def clear_messages_def Let_def
    by (auto simp: others_map_room intro!: others_messages filter_other_messages)
qed

lemma calm_rest [quiet]:
  "calm rid (\<lambda>d. (x, d))"
  "calm rid (toggle_queue_vote i u)"
  "calm rid (create_media now key url)"
  "calm rid (enqueue_ingest m)"
  "calm rid (set_media_status now m ms)"
  by (simp_all add: calm_def quiet_db_def others_def toggle_queue_vote_def create_media_def
      enqueue_ingest_def set_media_status_def Let_def split: option.split)

lemma quiet_room_id: "quiet s t \<Longrightarrow> room_id t = room_id s"
  by (simp add: quiet_def)

section \<open>Steps without a result\<close>

lemma quiet_log_line_snd: "quiet s (log_line b s)"
  unfolding log_line_def send_all_def
  using quiet_store [OF _ _ quiet_refl] calm_messages(1)
  by (fastforce intro!: quiet split: prod.split sum.split)

lemmas quiet_log_line [quiet] = quiet_step [OF quiet_log_line_snd]

lemma quiet_small [quiet]:
  "quiet s t \<Longrightarrow> quiet s (set_timers f t)"
  "quiet s t \<Longrightarrow> quiet s (after d cb t)"
  "quiet s t \<Longrightarrow> quiet s (close_room t)"
  "quiet s t \<Longrightarrow> quiet s (send_all m t)"
  "quiet s t \<Longrightarrow> quiet s (notify_user u n t)"
  "quiet s t \<Longrightarrow> quiet s (send out t)"
  "quiet s t \<Longrightarrow> quiet s (put_media md t)"
  "quiet s t \<Longrightarrow> quiet s (hang_up_all reason t)"
  unfolding set_timers_def after_def close_room_def send_all_def notify_user_def send_def
    put_media_def hang_up_all_def
  by (intro quiet; assumption)+

lemma quiet_broadcasts [quiet]:
  "quiet s t \<Longrightarrow> quiet s (broadcast t)"
  "quiet s t \<Longrightarrow> quiet s (presence_changed t)"
  "quiet s t \<Longrightarrow> quiet s (flush_presence t)"
  "quiet s t \<Longrightarrow> quiet s (broadcast_playback t)"
proof -
  show b: "quiet s t \<Longrightarrow> quiet s (broadcast t)" unfolding broadcast_def Let_def by (intro quiet)
  show "quiet s t \<Longrightarrow> quiet s (presence_changed t)"
    unfolding presence_changed_def Let_def by (intro quiet b; assumption)
  show "quiet s t \<Longrightarrow> quiet s (flush_presence t)"
    unfolding flush_presence_def by (intro quiet b; assumption)
  show "quiet s t \<Longrightarrow> quiet s (broadcast_playback t)"
    unfolding broadcast_playback_def by (intro quiet)
qed

lemma quiet_playback_small [quiet]:
  "quiet s t \<Longrightarrow> quiet s (arm_empty_pause t)"
  "quiet s t \<Longrightarrow> quiet s (disarm_empty_pause t)"
  "quiet s t \<Longrightarrow> quiet s (schedule_advance t)"
  unfolding arm_empty_pause_def disarm_empty_pause_def schedule_advance_def Let_def
  by (auto intro!: quiet split: option.split)

lemma quiet_set_playback [quiet]: "quiet s t \<Longrightarrow> quiet s (set_playback pl pos t)"
  unfolding set_playback_def by (intro quiet)

lemma quiet_persist_snd: "quiet s (snd (persist s))"
proof -
  let ?s1 = "s\<lparr>st_last_persist := st_now s\<rparr>"
  let ?i = "?s1\<lparr>st_info := (st_info ?s1)\<lparr>ri_scheduled := None\<rparr>\<rparr>"
  let ?s2 = "if c_playing (st_clock ?s1) \<and> ri_scheduled (st_info ?s1) \<noteq> None
     then snd (store (set_room_schedule (st_now s) (room_id s) None) ?i) else ?s1"
  have s1: "quiet s ?s1" by (intro quiet)
  have si: "quiet s ?i" using s1 by (intro quiet) (simp_all add: room_id_def)
  have "quiet s (snd (store (set_room_schedule (st_now s) (room_id s) None) ?i))"
    using quiet_store_snd [of ?i "set_room_schedule (st_now s) (room_id s) None"]
      calm_rooms(2) quiet_room_id [OF si] quiet_trans [OF si] by metis
  with s1 have s2: "quiet s ?s2" by (intro quiet_if)
  have "quiet s (snd (store (update_room_playback (st_now s) (room_id s) (clock_state (st_clock s))) ?s2))"
    using quiet_store_snd [of ?s2 "update_room_playback (st_now s) (room_id s) (clock_state (st_clock s))"]
      calm_rooms(1) quiet_room_id [OF s2] quiet_trans [OF s2] by metis
  then show ?thesis unfolding persist_def Let_def .
qed

lemma quiet_save_playback_snd: "quiet s (save_playback s)"
  using quiet_persist_snd [of s] unfolding save_playback_def
  by (auto intro!: quiet split: prod.split sum.split)

lemmas quiet_save_playback [quiet] = quiet_step [OF quiet_save_playback_snd]

lemma quiet_end_wait [quiet]: "quiet s t \<Longrightarrow> quiet s (end_wait resume t)"
  unfolding end_wait_def Let_def by (intro quiet; assumption)

lemma quiet_cancel_countdown [quiet]: "quiet s t \<Longrightarrow> quiet s (cancel_countdown t)"
  unfolding cancel_countdown_def Let_def by (intro quiet; assumption)

lemma quiet_set_current [quiet]: "quiet s t \<Longrightarrow> quiet s (set_current it t)"
  unfolding set_current_def Let_def by (auto intro!: quiet split: option.split)

lemma quiet_start_if_idle [quiet]: "quiet s t \<Longrightarrow> quiet s (start_if_idle it t)"
  unfolding start_if_idle_def by (intro quiet; assumption)

lemma quiet_log_if_user [quiet]: "quiet s t \<Longrightarrow> quiet s (log_if_user a l t)"
  unfolding log_if_user_def by (intro quiet; assumption)

lemma quiet_media_updated_step: "quiet s (snd (media_updated_step m s))"
  unfolding media_updated_step_def Let_def by (auto intro!: quiet split: option.split)

lemma quiet_media_updated: "quiet s (media_updated m s)"
  using quiet_media_updated_step [of s m] unfolding media_updated_def
  by (auto intro!: quiet split: prod.split)

lemma quiet_reconcile_each: "quiet s (snd (reconcile_each ms b s))"
proof (induction ms b s rule: reconcile_each.induct)
  case (2 m ms b s)
  have "quiet s (snd (reconcile_each ms (hit \<or> b) s'))"
    if "media_of s (m_id m) = Some old" "\<not> (m_status old = MediaReady \<or> m_status m = m_status old \<and> m_progress m = m_progress old)"
      "media_updated_step m s = (hit, s')" for old hit s'
    using 2(3) [OF that(1,2)] that(3) quiet_media_updated_step [of s m] quiet_trans by fastforce
  with 2 show ?case by (auto split: option.split prod.split)
qed (simp add: quiet)

lemma quiet_reconcile_media: "quiet s (reconcile_media fresh s)"
  using quiet_reconcile_each [of s fresh False] unfolding reconcile_media_def
  by (auto intro!: quiet split: prod.split)

lemma quiet_check_buffering [quiet]: "quiet s t \<Longrightarrow> quiet s (check_buffering t)"
  unfolding check_buffering_def by (intro quiet; assumption)

lemma quiet_timers_fire [quiet]:
  "quiet s t \<Longrightarrow> quiet s (pause_if_empty t)"
  "quiet s t \<Longrightarrow> quiet s (start_waiting t)"
  "quiet s t \<Longrightarrow> quiet s (stop_waiting t)"
  "quiet s t \<Longrightarrow> quiet s (on_left u n t)"
  "quiet s t \<Longrightarrow> quiet s (end_countdown t)"
  unfolding pause_if_empty_def start_waiting_def stop_waiting_def on_left_def end_countdown_def Let_def
  by (auto intro!: quiet split: option.split)

lemma quiet_recent_messages: "quiet s (snd (recent_messages s))"
  using quiet_store_snd [of s "\<lambda>d. (Inr (list_recent_messages d (room_id s) recent_kept), d)"]
  unfolding recent_messages_def query_def
  by (auto simp: quiet split: prod.split sum.split)

lemma quiet_join_room: "quiet s (join_room c a ms s)"
  unfolding join_room_def Let_def by (auto intro!: quiet split: option.split)

lemma quiet_join: "quiet s (join c a s)"
  unfolding join_def using quiet_recent_messages [of s] quiet_join_room quiet_trans
  by (fastforce split: prod.split)

lemma quiet_leave: "quiet s (leave c s)"
  unfolding leave_def Let_def by (auto intro!: quiet split: option.split)

lemma quiet_update_role: "quiet s (update_role c r s)"
  unfolding update_role_def by (auto intro!: quiet split: option.split)

lemma quiet_kick: "quiet s (kick u reason s)"
  unfolding kick_def Let_def by (intro quiet)

lemma quiet_report: "quiet s (report c state pos s)"
proof (cases "map_of (st_viewers s) c")
  case (Some v)
  have viewers: "quiet s (s\<lparr>st_viewers := vs\<rparr>)" for vs by (intro quiet)
  then have presence: "quiet s (presence_changed (s\<lparr>st_viewers := vs\<rparr>))" for vs
    by (rule quiet_broadcasts(2))
  have both: "quiet s (if p then presence_changed (s\<lparr>st_viewers := vs\<rparr>) else s\<lparr>st_viewers := vs\<rparr>)"
    for p vs using viewers presence by simp
  have "quiet s (if q then presence_changed (check_buffering (t\<lparr>st_viewers := ws\<rparr>)) else t)"
    if "quiet s t" for q t ws
    using that quiet_broadcasts(2) quiet_check_buffering quiet_fields(11) by simp
  then show ?thesis unfolding report_def Some option.case Let_def using both by blast
qed (simp add: report_def quiet)

section \<open>Commands\<close>

definition quietc :: "'a cmd \<Rightarrow> bool" where
  "quietc m \<longleftrightarrow> (\<forall>s. quiet s (snd (m s)))"

lemma quietcI: "(\<And>s. quiet s (snd (m s))) \<Longrightarrow> quietc m"
  by (simp add: quietc_def)

lemma quietcD: "quietc m \<Longrightarrow> quiet s (snd (m s))"
  by (simp add: quietc_def)

lemma quiet_bindc:
  assumes m: "quietc m" and f: "\<And>x. quietc (f x)"
  shows "quietc (bindc m f)"
proof (rule quietcI)
  fix s
  show "quiet s (snd (bindc m f s))"
  proof (cases "m s")
    case (Pair r t)
    then have t: "quiet s t" using quietcD [OF m, of s] by simp
    show ?thesis
      using t quiet_trans [OF t quietcD [OF f]] by (cases r) (simp_all add: bindc_def Pair)
  qed
qed

lemma quiet_seqc: "quietc m \<Longrightarrow> quietc k \<Longrightarrow> quietc (seqc m k)"
  unfolding seqc_def by (rule quiet_bindc)

lemma quiet_doc: "(\<And>s. quiet s (f s)) \<Longrightarrow> quietc (doc f)"
  by (simp add: quietc_def doc_def)

lemma quiet_guards: "quietc (okc x)" "quietc (failc e)" "quietc (guardc p e)" "quietc (require a act)"
  by (simp_all add: quietc_def okc_def failc_def guardc_def require_def quiet)

lemma quiet_storec: "(\<And>s. calm (room_id s) (f s)) \<Longrightarrow> quietc (\<lambda>s. store (f s) s)"
  unfolding quietc_def using quiet_store_snd by blast

lemma quiet_at: "(\<And>s. quietc (f s)) \<Longrightarrow> quietc (\<lambda>s. f s s)"
  by (simp add: quietc_def)

lemma quiet_budgets:
  "quietc (add_budget a)" "quietc (chat_budget a)" "quietc (react_budget a)" "quietc (not_muted a)"
  "quietc (slow_mode a)" "quietc chat_enabled" "quietc (can_add a n)"
proof -
  show "quietc chat_enabled" "quietc (can_add a n)"
    unfolding can_add_def chat_enabled_def by (intro quiet_seqc quiet_guards)+
qed (auto intro!: quietcI quiet simp: add_budget_def chat_budget_def
      react_budget_def not_muted_def slow_mode_def Let_def split: option.split)

lemmas quiet_cmd = quiet_seqc quiet_bindc quiet_guards quiet_budgets

lemma quiet_playback_commands:
  "quietc (set_rate a r)" "quietc (play b a)" "quietc (pause a)" "quietc (seek a pos)"
  unfolding set_rate_def play_def pause_def seek_def
  by (intro quiet_cmd quietcI; auto simp: Let_def intro!: quiet split: option.split)+

lemma quiet_push_mentions [quiet]: "quiet s t \<Longrightarrow> quiet s (push_mentions a m us t)"
proof (induction us arbitrary: t)
  case (Cons u us)
  have q: "query (\<lambda>d. get_member d (room_id t) u) t = (r, t') \<Longrightarrow> quiet s t'" for r t'
    unfolding query_def by (erule quiet_store) (auto intro: Cons.prems)
  show ?case
    using Cons q by (auto intro!: Cons.IH quiet split: sum.split prod.split)
qed simp

lemma quiet_notify_mentions [quiet]: "quiet s t \<Longrightarrow> quiet s (notify_mentions a m t)"
proof -
  assume t: "quiet s t"
  have q: "query (\<lambda>d. Inr (user_ids_by_username d ns)) t = (r, t') \<Longrightarrow> quiet s t'" for ns r t'
    unfolding query_def by (erule quiet_store) (auto intro: t)
  show ?thesis
    using t q unfolding notify_mentions_def Let_def by (auto intro!: quiet split: sum.split prod.split)
qed

lemma quiet_set_pinned [quiet]: "quiet s t \<Longrightarrow> quiet s (set_pinned m t)"
  unfolding set_pinned_def by (intro quiet)

lemma quiet_storeD: "store f s = (r, t) \<Longrightarrow> calm (room_id s) f \<Longrightarrow> quiet s t"
  by (rule quiet_store [OF _ _ quiet_refl])

text \<open>A store call whose result decides how a command ends.\<close>

lemma quietc_store_then:
  assumes "\<And>s. calm (room_id s) (f s)"
    and "\<And>s r t. quiet s t \<Longrightarrow> quiet s (snd (g r t))"
  shows "quietc (\<lambda>s. case store (f s) s of (r, t) \<Rightarrow> g r t)"
proof (rule quietcI)
  fix s
  obtain r t where st: "store (f s) s = (r, t)" by fastforce
  with quiet_storeD [OF st assms(1)] assms(2)
  show "quiet s (snd (case store (f s) s of (r, t) \<Rightarrow> g r t))" by simp
qed

lemma quietc_chat_send: "quietc (chat_send a body reply)"
proof -
  have "quietc (\<lambda>s. case store (create_message (st_now s) (room_id s) (actor_id a) b reply) s of
      (r, s') \<Rightarrow> (case r of Inl e \<Rightarrow> (Inl (if e = NotFoundErr then not_found ''the message you are replying to''
                                    else e), s')
              | Inr m \<Rightarrow> (Inr (), notify_mentions a m (send_all (SChatMessage (to_chat_message m)) s'))))"
    for b
    by (rule quietc_store_then) (auto intro: quiet split: sum.split)
  then show ?thesis
    unfolding chat_send_def Let_def by (intro quiet_cmd) (simp add: case_prod_unfold)
qed

lemma quietc_chat_edit: "quietc (chat_edit a i body)"
proof -
  have "quietc (\<lambda>s. case store (edit_message (st_now s) (room_id s) i (actor_id a) b edit_window) s of
      (r, s') \<Rightarrow> (case r of Inl e \<Rightarrow> (Inl (if e = NotFoundErr then Rejected ''forbidden''
                      ''you can only edit your own messages from the last 5 minutes'' else e), s')
              | Inr m \<Rightarrow>
                  let line = untyped (to_chat_message m); s1 = send_all (SChatEdited line) s'
                  in (Inr (), if pinned_is i s1 then set_pinned (Some line) s1 else s1)))"
    for b
    by (rule quietc_store_then) (auto intro: quiet split: sum.split simp: Let_def)
  then show ?thesis
    unfolding chat_edit_def Let_def by (intro quiet_cmd) (simp add: case_prod_unfold Let_def)
qed

lemma quietc_chat_delete: "quietc (chat_delete a i)"
proof -
  define g where "g own r s' = (case r of Inl e \<Rightarrow> (Inl (if e = NotFoundErr then
                      (if own then Rejected ''forbidden'' ''you can only delete your own messages''
                       else not_found ''message'') else e), s')
              | Inr x \<Rightarrow>
                  let s1 = send_all (SChatDeleted i) s'
                  in (Inr (), if pinned_is i s1 then set_pinned None s1 else s1))"
    for own s' and r :: "cerr + unit"
  have q: "quietc (\<lambda>s. case store (delete_message (st_now s) (room_id s) i (actor_id a) own) s of
      (r, s') \<Rightarrow> g own r s')" for own
    by (rule quietc_store_then) (auto intro: quiet split: sum.split simp: Let_def g_def)
  have "chat_delete a i = seqc chat_enabled
       (\<lambda>s. let only_own = \<not> can (st_now s) a ModerateChat (Some (st_info s)) in
          seqc (if only_own then require a Chat else okc ())
            (\<lambda>s. case store (delete_message (st_now s) (room_id s) i (actor_id a) only_own) s of
                (r, s') \<Rightarrow> g only_own r s') s)"
    unfolding chat_delete_def g_def by (simp add: case_prod_unfold)
  moreover have o: "quietc (if own then require a Chat else okc ())" for own
    by (cases own) (simp_all add: quiet_guards)
  moreover have "quietc (\<lambda>s. let only_own = \<not> can (st_now s) a ModerateChat (Some (st_info s)) in
          seqc (if only_own then require a Chat else okc ())
            (\<lambda>s. case store (delete_message (st_now s) (room_id s) i (actor_id a) only_own) s of
                (r, s') \<Rightarrow> g only_own r s') s)"
    unfolding Let_def by (rule quietcI, rule quietcD, rule quiet_seqc [OF o q])
  ultimately show ?thesis
    by (simp only:) (rule quiet_seqc [OF quiet_budgets(6)])
qed

lemma quietc_chat_simple:
  "quietc (chat_typing a)" "quietc (react a emoji)" "quietc (chat_clear a)"
proof -
  show "quietc (chat_typing a)"
    unfolding chat_typing_def by (intro quiet_cmd quiet_doc quiet)
  show "quietc (react a emoji)"
    unfolding react_def by (intro quiet_cmd quiet_doc quiet)
  show "quietc (chat_clear a)"
    unfolding chat_clear_def Let_def by (intro quiet_cmd quiet_storec quiet_doc quiet)
qed

lemma quietc_set_pinned_message: "quietc (\<lambda>s. store (set_pinned_message (room_id s) x) s)"
  by (intro quiet_storec quiet)

lemma seqc_at: "seqc (f s) k s = seqc (\<lambda>s. f s s) k s"
  by (simp add: cmd_defs)

lemma quietc_chat_unpin: "quietc (chat_unpin a)"
proof -
  have "quietc (\<lambda>s. if st_pinned s = None then (Inr (), s)
          else seqc (\<lambda>s. store (set_pinned_message (room_id s) None) s) (doc (set_pinned None)) s)"
    using quietcD [OF quiet_seqc [OF quietc_set_pinned_message quiet_doc [OF quiet_set_pinned [OF quiet_refl]]]]
    by (simp add: quietc_def quiet)
  then show ?thesis
    unfolding chat_unpin_def seqc_at [of "\<lambda>s. store (set_pinned_message (room_id s) None)"]
    by (intro quiet_seqc quiet_budgets quiet_guards)
qed

lemma quietc_chat_pin: "quietc (chat_pin a i)"
proof -
  define pin where "pin m s' = (if ms_system m then (Inl (invalid ''system lines cannot be pinned''), s')
      else seqc (\<lambda>s. store (set_pinned_message (room_id s) (Some i)) s)
              (doc (\<lambda>t. log_line (actor_name a @ '' pinned a message'')
                  (set_pinned (Some (untyped (to_chat_message m))) t))) s')" for m s'
  have step: "quietc (seqc (\<lambda>s. store (set_pinned_message (room_id s) (Some i)) s)
              (doc (\<lambda>t. log_line (actor_name a @ '' pinned a message'')
                  (set_pinned (Some (untyped (to_chat_message m))) t))))" for m
    by (intro quiet_seqc quiet_doc quietc_set_pinned_message quiet)
  have "quiet s' (snd (pin m s'))" for m s'
    unfolding pin_def using quietcD [OF step] by (simp add: quiet)
  then have p: "quiet s t \<Longrightarrow> quiet s (snd (pin m t))" for s t m
    using quiet_trans by blast
  have "quietc (\<lambda>s. case store (\<lambda>d. (get_message d (room_id s) i, d)) s of
          (r, s') \<Rightarrow> (case r of Inl e \<Rightarrow> (Inl (if e = NotFoundErr then not_found ''message'' else e), s')
        | Inr m \<Rightarrow> pin m s'))"
    by (rule quietc_store_then) (auto intro: p split: sum.split)
  then show ?thesis
    unfolding chat_pin_def pin_def query_def case_prod_unfold
      seqc_at [of "\<lambda>s. store (set_pinned_message (room_id s) (Some i))"]
    by (intro quiet_seqc quiet_budgets quiet_guards) (simp add: sum.case_distrib)
qed

lemmas quietc_chat = quietc_chat_send quietc_chat_edit quietc_chat_delete quietc_chat_simple
  quietc_chat_unpin quietc_chat_pin

end
