(* ===== verification/Room_Contract.thy ===== *)
theory Room_Contract
  imports Room_Quiet
begin

text \<open>
  What the room's commands ask of the queue's store and what they then promise, as an
  interface.  \<open>queue_contract\<close> fixes a property \<open>P\<close> of rooms, a weaker one \<open>Q\<close> that survives a
  command that fails half way, and a headroom \<open>H\<close>, and assumes that each primitive of the
  queue (a row played, added, dropped, reordered, requeued, reloaded) keeps them.  Its lemmas
  carry that through every command of \<open>Room_Playback\<close>, \<open>Room_Queue\<close> and \<open>Room_Presence\<close>.
\<close>

section \<open>Triples\<close>

definition keeps :: "(st \<Rightarrow> bool) \<Rightarrow> 'a cmd \<Rightarrow> (st \<Rightarrow> bool) \<Rightarrow> (st \<Rightarrow> bool) \<Rightarrow> bool" where
  "keeps A m B E \<longleftrightarrow> (\<forall>s. A s \<longrightarrow> (case m s of (r, t) \<Rightarrow> (case r of Inl _ \<Rightarrow> E t | Inr _ \<Rightarrow> B t)))"

lemma keepsI:
  "(\<And>s e t. A s \<Longrightarrow> m s = (Inl e, t) \<Longrightarrow> E t) \<Longrightarrow> (\<And>s x t. A s \<Longrightarrow> m s = (Inr x, t) \<Longrightarrow> B t)
   \<Longrightarrow> keeps A m B E"
  by (auto simp: keeps_def split: prod.split sum.split)

lemma keepsD:
  assumes "keeps A m B E" and "A s"
  shows "m s = (Inr x, t) \<Longrightarrow> B t" and "m s = (Inl e, t) \<Longrightarrow> E t"
  using assms unfolding keeps_def by force+

lemma keeps_weaken:
  assumes m: "keeps A m B E" and "\<And>s. A' s \<Longrightarrow> A s" "\<And>s. B s \<Longrightarrow> B' s" "\<And>s. E s \<Longrightarrow> E' s"
  shows "keeps A' m B' E'"
proof (rule keepsI)
  show "E' t" if "A' s" "m s = (Inl e, t)" for s e t
    using keepsD(2) [OF m assms(2) [OF that(1)] that(2)] by (rule assms(4))
  show "B' t" if "A' s" "m s = (Inr x, t)" for s x t
    using keepsD(1) [OF m assms(2) [OF that(1)] that(2)] by (rule assms(3))
qed

lemma keeps_bindc:
  assumes m: "keeps A m B E" and f: "\<And>x. keeps B (f x) C E"
  shows "keeps A (bindc m f) C E"
proof -
  have "case bindc m f s of (r, t) \<Rightarrow> (case r of Inl _ \<Rightarrow> E t | Inr _ \<Rightarrow> C t)" if a: "A s" for s
  proof (cases "m s")
    case (Pair r t)
    then show ?thesis
    proof (cases r)
      case (Inl e)
      with Pair keepsD(2) [OF m a] show ?thesis by (simp add: bindc_def)
    next
      case (Inr x)
      with Pair keepsD(1) [OF m a] f [of x] show ?thesis by (simp add: bindc_def keeps_def)
    qed
  qed
  then show ?thesis by (simp add: keeps_def)
qed

lemma keeps_seqc: "keeps A m B E \<Longrightarrow> keeps B k C E \<Longrightarrow> keeps A (seqc m k) C E"
  unfolding seqc_def by (rule keeps_bindc)

lemma keeps_doc: "(\<And>s. A s \<Longrightarrow> B (f s)) \<Longrightarrow> keeps A (doc f) B E"
  by (simp add: keeps_def doc_def)

lemma keeps_okc: "(\<And>s. A s \<Longrightarrow> B s) \<Longrightarrow> keeps A (okc x) B E"
  by (simp add: keeps_def okc_def)

lemma keeps_failc: "(\<And>s. A s \<Longrightarrow> E s) \<Longrightarrow> keeps A (failc e) B E"
  by (simp add: keeps_def failc_def)

lemma keeps_guardc: "(\<And>s. A s \<Longrightarrow> p s \<Longrightarrow> B s) \<Longrightarrow> (\<And>s. A s \<Longrightarrow> E s) \<Longrightarrow> keeps A (guardc p e) B E"
  by (simp add: keeps_def guardc_def)

text \<open>A command that reads the state it starts in.\<close>

lemma keeps_at: "(\<And>s. A s \<Longrightarrow> keeps (\<lambda>t. t = s) (f s) B E) \<Longrightarrow> keeps A (\<lambda>s. f s s) B E"
  by (simp add: keeps_def)

lemma keeps_ok: "(\<And>s. A s \<Longrightarrow> B s) \<Longrightarrow> keeps A (\<lambda>s. (Inr x, s)) B E"
  by (simp add: keeps_def)

lemma keeps_err: "(\<And>s. A s \<Longrightarrow> E s) \<Longrightarrow> keeps A (\<lambda>s. (Inl e, s)) B E"
  by (simp add: keeps_def)

lemma keeps_all: "(\<And>s r t. A s \<Longrightarrow> m s = (r, t) \<Longrightarrow> B t) \<Longrightarrow> keeps A m B B"
  by (rule keepsI)

lemma keeps_if: "keeps A m B E \<Longrightarrow> keeps A k B E \<Longrightarrow> keeps A (\<lambda>s. if c s then m s else k s) B E"
  by (simp add: keeps_def)

lemma keeps_Inr: "(\<And>s. A s \<Longrightarrow> B (f s)) \<Longrightarrow> keeps A (\<lambda>s. (Inr (g s), f s)) B E"
  by (simp add: keeps_def)

lemma keeps_errors: "keeps A m B E \<Longrightarrow> (\<And>s. E s \<Longrightarrow> E' s) \<Longrightarrow> keeps A m B E'"
  by (rule keeps_weaken)

lemma keeps_pre: "keeps A m B E \<Longrightarrow> (\<And>s. A' s \<Longrightarrow> A s) \<Longrightarrow> keeps A' m B E"
  by (rule keeps_weaken)

text \<open>A store call that fails changes nothing but the faults.\<close>

lemma store_failed:
  assumes "store f s = (Inl e, t)" and "\<And>d e d'. f d = (Inl e, d') \<Longrightarrow> d' = d"
  shows "quiet s t"
  using assms(1)
proof (cases rule: store_cases)
  case fault
  then show ?thesis using quiet_fields(2) [OF quiet_refl] by simp
next
  case (run d)
  with assms(2) have "t = s\<lparr>st_faults := tl (st_faults s)\<rparr>" by fastforce
  then show ?thesis using quiet_fields(2) [OF quiet_refl] by simp
qed

lemma failed_calls [simp]:
  "set_queue_ranks rid ids d = (Inl e, d') \<Longrightarrow> d' = d"
  "requeue_played rid d = (Inl e, d') \<Longrightarrow> d' = d"
  "clear_queue rid keep d = (Inl e, d') \<Longrightarrow> d' = d"
  "clear_played rid d = (Inl e, d') \<Longrightarrow> d' = d"
  "delete_queue_item rid i d = (Inl e, d') \<Longrightarrow> d' = d"
  "add_queue_item now rid mid by d = (Inl e, d') \<Longrightarrow> d' = d"
  "mark_queue_item_played rid i now d = (Inl e, d') \<Longrightarrow> d' = d"
  by (auto simp: set_queue_ranks_def requeue_played_def clear_queue_def clear_played_def
      delete_queue_item_def add_queue_item_def mark_queue_item_played_def Let_def split: if_splits)

section \<open>Inside a transaction\<close>

text \<open>Commands that touch nothing but the tables and the faults.\<close>

definition dbonly :: "'a cmd \<Rightarrow> bool" where
  "dbonly m \<longleftrightarrow> (\<forall>s. \<exists>d fs. snd (m s) = s\<lparr>st_db := d, st_faults := fs\<rparr>)"

lemma dbonlyI: "(\<And>s. \<exists>d fs. snd (m s) = s\<lparr>st_db := d, st_faults := fs\<rparr>) \<Longrightarrow> dbonly m"
  by (simp add: dbonly_def)

lemma dbonlyE:
  assumes "dbonly m" and "m s = (r, t)"
  obtains d fs where "t = s\<lparr>st_db := d, st_faults := fs\<rparr>"
  using assms unfolding dbonly_def by (metis snd_conv)

lemma dbonly_pure: "dbonly (okc x)" "dbonly (failc e)" "dbonly (guardc p e)"
proof -
  have same: "\<exists>d fs. s = s\<lparr>st_db := d, st_faults := fs\<rparr>" for s :: st
    by (rule exI [of _ "st_db s"], rule exI [of _ "st_faults s"]) simp
  show "dbonly (okc x)" "dbonly (failc e)" "dbonly (guardc p e)"
    unfolding okc_def failc_def guardc_def using same by (auto intro!: dbonlyI)
qed

lemma dbonly_bindc:
  assumes m: "dbonly m" and f: "\<And>x. dbonly (f x)"
  shows "dbonly (bindc m f)"
proof (rule dbonlyI)
  fix s
  obtain r t where mt: "m s = (r, t)" by fastforce
  obtain d fs where t: "t = s\<lparr>st_db := d, st_faults := fs\<rparr>" using dbonlyE [OF m mt] .
  show "\<exists>d fs. snd (bindc m f s) = s\<lparr>st_db := d, st_faults := fs\<rparr>"
  proof (cases r)
    case (Inl e)
    with mt t show ?thesis by (auto simp: bindc_def)
  next
    case (Inr x)
    obtain q u where fu: "f x t = (q, u)" by fastforce
    obtain d' fs' where "u = t\<lparr>st_db := d', st_faults := fs'\<rparr>" using dbonlyE [OF f fu] .
    then have "snd (bindc m f s) = s\<lparr>st_db := d', st_faults := fs'\<rparr>"
      using mt Inr fu t by (simp add: bindc_def)
    then show ?thesis by blast
  qed
qed

lemma dbonly_seqc: "dbonly m \<Longrightarrow> dbonly k \<Longrightarrow> dbonly (seqc m k)"
  unfolding seqc_def by (rule dbonly_bindc)

lemma dbonly_store: "dbonly (\<lambda>s. store (f s) s)"
proof (rule dbonlyI)
  fix s
  show "\<exists>d fs. snd (store (f s) s) = s\<lparr>st_db := d, st_faults := fs\<rparr>"
  proof (cases "store (f s) s")
    case (Pair r t)
    then show ?thesis
    proof (cases rule: store_cases)
      case fault
      then have "t = s\<lparr>st_db := st_db s, st_faults := tl (st_faults s)\<rparr>" by simp
      with Pair show ?thesis by (metis snd_conv)
    next
      case (run d)
      with Pair show ?thesis by (metis snd_conv)
    qed
  qed
qed


lemma dbonly_at: "(\<And>s. dbonly (f s)) \<Longrightarrow> dbonly (\<lambda>s. f s s)"
  by (simp add: dbonly_def)

lemma dbonly_store_fixed: "dbonly (store f)"
  using dbonly_store [of "\<lambda>_. f"] by simp

lemma dbonly_ingest_create: "dbonly (ingest_create adm)"
proof -
  have step: "dbonly (bindc (store (create_media now (ad_key adm) (ad_url adm)))
       (\<lambda>mc. if snd mc then seqc (store (enqueue_ingest (m_id (fst mc)))) (okc (fst mc))
             else okc (fst mc)))" for now
    by (rule dbonly_bindc [OF dbonly_store_fixed])
      (simp add: dbonly_seqc [OF dbonly_store_fixed dbonly_pure(1)] dbonly_pure(1))
  show ?thesis unfolding ingest_create_def using step by (intro dbonlyI) (simp add: dbonly_def)
qed

lemma dbonly_duplicate: "dbonly (duplicate m)"
  unfolding duplicate_def by (intro dbonly_seqc dbonly_pure)

lemma dbonly_add_each: "dbonly (add_each a adms seen added n)"
proof (induction adms arbitrary: seen added n)
  case Nil
  show ?case by (simp add: dbonly_pure)
next
  case (Cons adm adms)
  have add: "dbonly (bindc (\<lambda>t. store (add_queue_item (st_now t) (room_id t) m (actor_ref a)) t)
      (\<lambda>it. add_each a adms (s it) (ad it) k))" for m s ad k
    by (intro dbonly_bindc dbonly_store Cons)
  have "dbonly (bindc (ingest_create adm) (\<lambda>m.
            if m_id m \<in> set seen then add_each a adms seen added (Suc n)
            else bindc (\<lambda>t. store (add_queue_item (st_now t) (room_id t) (m_id m) (actor_ref a)) t)
              (\<lambda>it. add_each a adms (m_id m # seen) (added @ [(named a it, m)]) n)))"
    by (intro dbonly_bindc dbonly_ingest_create) (simp add: Cons add)
  with Cons [of seen added "Suc n"] show ?case by (simp add: dbonly_def)
qed

text \<open>A transaction that fails leaves the room and the tables as they were.\<close>

lemma in_tx_cases [consumes 2, case_names failed committed]:
  assumes "in_tx m s = (r, t)" and m: "dbonly m"
  obtains e where "r = Inl e" "quiet s t"
  | x s1 s2 where "r = Inr x" "quiet s s1" "st_db s1 = st_db s" "st_queue s1 = st_queue s"
      "st_played s1 = st_played s" "m s1 = (Inr x, s2)" "t = s2\<lparr>st_faults := st_faults t\<rparr>"
proof -
  define b where "b = (\<lambda>d :: db. (Inr () :: cerr + unit, d))"
  have call: "\<exists>fs. v = u\<lparr>st_faults := fs\<rparr>" if "store b u = (q, v)" for u q v
    using that by (cases rule: store_cases) (auto simp: b_def)
  obtain q s1 where b1: "store b s = (q, s1)" by fastforce
  obtain fs where s1: "s1 = s\<lparr>st_faults := fs\<rparr>" using call [OF b1] by blast
  have q1: "quiet s s1" unfolding s1 by (intro quiet)
  have restored: "quiet s (u\<lparr>st_db := st_db s1\<rparr>)" if "u = s1\<lparr>st_db := d, st_faults := gs\<rparr>" for u d gs
    unfolding that s1 using quiet_fields(2) [OF quiet_refl, of s gs] by simp
  show thesis
  proof (cases q)
    case (Inl e)
    with assms(1) b1 have "r = Inl e" "t = s1" by (simp_all add: in_tx_def b_def)
    with q1 that(1) show thesis by simp
  next
    case (Inr y)
    obtain p s2 where m2: "m s1 = (p, s2)" by fastforce
    obtain d gs where s2: "s2 = s1\<lparr>st_db := d, st_faults := gs\<rparr>" using dbonlyE [OF m m2] .
    show thesis
    proof (cases p)
      case (Inl e)
      with assms(1) b1 Inr m2 have "r = Inl e" "t = s2\<lparr>st_db := st_db s1\<rparr>"
        by (simp_all add: in_tx_def b_def)
      with restored [OF s2] that(1) show thesis by simp
    next
      case p: (Inr x)
      obtain z s3 where b3: "store b s2 = (z, s3)" by fastforce
      obtain hs where s3: "s3 = s2\<lparr>st_faults := hs\<rparr>" using call [OF b3] by blast
      have s3': "s3 = s1\<lparr>st_db := d, st_faults := hs\<rparr>" unfolding s3 s2 by simp
      show thesis
      proof (cases z)
        case (Inl e)
        with assms(1) b1 Inr m2 p b3 have "r = Inl e" "t = s3\<lparr>st_db := st_db s1\<rparr>"
          by (simp_all add: in_tx_def b_def)
        with restored [OF s3'] that(1) show thesis by simp
      next
        case (Inr w)
        with assms(1) b1 \<open>q = Inr y\<close> m2 p b3 have "r = Inr x" "t = s3"
          by (simp_all add: in_tx_def b_def)
        with q1 m2 p s1 s3 that(2) [of x s1 s2] show thesis by simp
      qed
    qed
  qed
qed

section \<open>Results and the states they come with\<close>

definition gives :: "(st \<Rightarrow> bool) \<Rightarrow> 'a cmd \<Rightarrow> ('a \<Rightarrow> st \<Rightarrow> bool) \<Rightarrow> bool" where
  "gives A m B \<longleftrightarrow> (\<forall>s x t. A s \<longrightarrow> m s = (Inr x, t) \<longrightarrow> B x t)"

lemma givesI: "(\<And>s x t. A s \<Longrightarrow> m s = (Inr x, t) \<Longrightarrow> B x t) \<Longrightarrow> gives A m B"
  by (simp add: gives_def)

lemma givesD: "gives A m B \<Longrightarrow> A s \<Longrightarrow> m s = (Inr x, t) \<Longrightarrow> B x t"
  by (simp add: gives_def)

lemma gives_bindc:
  assumes m: "gives A m B" and f: "\<And>x. gives (B x) (f x) C"
  shows "gives A (bindc m f) C"
proof (rule givesI)
  fix s y u
  assume a: "A s" and run: "bindc m f s = (Inr y, u)"
  obtain r t where mt: "m s = (r, t)" by fastforce
  with run obtain x where x: "r = Inr x" "f x t = (Inr y, u)" by (cases r) (simp_all add: bindc_def)
  with mt have "B x t" using givesD [OF m a] by simp
  then show "C y u" using givesD [OF f] x(2) by blast
qed

lemma gives_seqc: "gives A m (\<lambda>_. B) \<Longrightarrow> gives B k C \<Longrightarrow> gives A (seqc m k) C"
  unfolding seqc_def by (rule gives_bindc)

lemma gives_okc: "(\<And>s. A s \<Longrightarrow> B x s) \<Longrightarrow> gives A (okc x) B"
  by (simp add: gives_def okc_def)

lemma gives_failc: "gives A (failc e) B"
  by (simp add: gives_def failc_def)

lemma gives_guardc: "gives A (guardc p e) (\<lambda>_. A)"
  by (simp add: gives_def guardc_def)

lemma gives_if: "gives A m B \<Longrightarrow> gives A k B \<Longrightarrow> gives A (if c then m else k) B"
  by simp

lemma gives_ifs: "gives A m B \<Longrightarrow> gives A k B \<Longrightarrow> gives A (\<lambda>s. if c s then m s else k s) B"
  by (simp add: gives_def)

lemma gives_at: "(\<And>s. A s \<Longrightarrow> gives (\<lambda>t. t = s) (f s) B) \<Longrightarrow> gives A (\<lambda>s. f s s) B"
  by (simp add: gives_def)

lemma keeps_bindc_gives:
  assumes m: "gives A m B" and e: "\<And>s e t. A s \<Longrightarrow> m s = (Inl e, t) \<Longrightarrow> E t"
    and f: "\<And>x. keeps (B x) (f x) C E"
  shows "keeps A (bindc m f) C E"
proof -
  have "case bindc m f s of (r, t) \<Rightarrow> (case r of Inl _ \<Rightarrow> E t | Inr _ \<Rightarrow> C t)" if a: "A s" for s
  proof (cases "m s")
    case (Pair r t)
    then show ?thesis
    proof (cases r)
      case (Inl y)
      with Pair e [OF a] show ?thesis by (simp add: bindc_def)
    next
      case (Inr x)
      with Pair givesD [OF m a] f [of x] show ?thesis by (simp add: bindc_def keeps_def)
    qed
  qed
  then show ?thesis by (simp add: keeps_def)
qed

lemma in_tx_gives:
  assumes m: "gives A m B" and db: "dbonly m" and A: "\<And>s t. A s \<Longrightarrow> quiet s t \<Longrightarrow> A t"
    and B: "\<And>x s fs. B x s \<Longrightarrow> B x (s\<lparr>st_faults := fs\<rparr>)"
  shows "gives A (in_tx m) B"
proof (rule givesI)
  fix s x t
  assume a: "A s" and run: "in_tx m s = (Inr x, t)"
  from run db show "B x t"
  proof (cases rule: in_tx_cases)
    case (committed y s1 s2)
    then have "B y s2" using givesD [OF m A [OF a]] by blast
    with committed B show ?thesis by (metis sum.inject(2))
  qed simp
qed

lemma in_tx_failed: "in_tx m s = (Inl e, t) \<Longrightarrow> dbonly m \<Longrightarrow> quiet s t"
  by (erule in_tx_cases) simp_all

text \<open>What a transaction reads at its start it may as well read inside.\<close>

lemma in_tx_at:
  assumes "\<And>s fs. f (s\<lparr>st_faults := fs\<rparr>) = f s"
  shows "in_tx (store (f s)) s = in_tx (\<lambda>t. store (f t) t) s"
proof -
  obtain q s1 where b: "store (\<lambda>d. (Inr (), d)) s = (q, s1)" by fastforce
  then have "f s1 = f s" by (cases rule: store_cases) (auto simp: assms)
  then show ?thesis using b by (simp add: in_tx_def split: sum.split)
qed

text \<open>The queue the room would have with the items added so far in a transaction.\<close>

definition with_added :: "(queue_item \<times> media) list \<Rightarrow> st \<Rightarrow> st" where
  "with_added as s = s\<lparr>st_queue := st_queue s @ map fst as\<rparr>"

lemma with_added_Nil [simp]: "with_added [] s = s"
  by (simp add: with_added_def)

lemma quiet_extend: "quiet s t \<Longrightarrow> quiet (with_added as s) (with_added as t)"
  by (simp add: quiet_def with_added_def room_id_def)

section \<open>The interface\<close>

lemma store_queue:
  "store f s = (r, t) \<Longrightarrow> store f (s\<lparr>st_queue := q\<rparr>) = (r, t\<lparr>st_queue := q\<rparr>)"
  by (auto simp: store_def split: list.splits bool.splits prod.splits)

locale queue_contract =
  fixes P Q :: "st \<Rightarrow> bool" and H :: "st \<Rightarrow> nat \<Rightarrow> bool"
  assumes quiet_P: "P s \<Longrightarrow> quiet s t \<Longrightarrow> P t"
    and quiet_Q: "Q s \<Longrightarrow> quiet s t \<Longrightarrow> Q t"
    and quiet_H: "H s k \<Longrightarrow> quiet s t \<Longrightarrow> H t k"
    and weak: "P s \<Longrightarrow> Q s"
    and H_less: "H s k \<Longrightarrow> j \<le> k \<Longrightarrow> H s j"
    and Q_queue: "P (s\<lparr>st_queue := q\<rparr>) \<Longrightarrow> Q s"
    and P_queue: "P s \<Longrightarrow> \<not> distinct (map qi_id (st_queue s)) \<Longrightarrow> P (s\<lparr>st_queue := q\<rparr>)"
    and mark: "P s \<Longrightarrow> store (mark_queue_item_played (room_id s) i (st_now s)) s = (r, t) \<Longrightarrow>
      r = Inr () \<or> r = Inl NotFoundErr \<Longrightarrow> P (retire i t) \<and> (H s k \<longrightarrow> H (retire i t) k)"
    and add: "P s \<Longrightarrow> H s (k + 2) \<Longrightarrow>
      store (add_queue_item (st_now s) (room_id s) mid by') s = (Inr it, t) \<Longrightarrow>
      P (t\<lparr>st_queue := st_queue t @ [named a it]\<rparr>) \<and> H (t\<lparr>st_queue := st_queue t @ [named a it]\<rparr>) k"
    and drop: "P s \<Longrightarrow> store (delete_queue_item (room_id s) i) s = (Inr u, t) \<Longrightarrow>
      P (case index_of (st_queue t) i of None \<Rightarrow> t | Some k \<Rightarrow> t\<lparr>st_queue := remove_nth k (st_queue t)\<rparr>)"
    and clear: "P s \<Longrightarrow> store (clear_queue (room_id s) cur) s = (Inr u, t) \<Longrightarrow>
      P (t\<lparr>st_queue := filter (is_cur cur) (st_queue t)\<rparr>)"
    and forget: "P s \<Longrightarrow> store (clear_played (room_id s)) s = (Inr u, t) \<Longrightarrow> P (t\<lparr>st_played := []\<rparr>)"
    and order: "P s \<Longrightarrow> (distinct (map qi_id (st_queue s)) \<Longrightarrow> mset ordered = mset (st_queue s)) \<Longrightarrow>
      store (set_queue_ranks (room_id s) (map qi_id ordered)) s = (Inr u, t) \<Longrightarrow>
      P (t\<lparr>st_queue := renumber ordered\<rparr>)"
    and requeue: "P s \<Longrightarrow> H s 0 \<Longrightarrow> store (requeue_played (room_id s)) s = (Inr u, t) \<Longrightarrow> Q t"
    and reload: "Q s \<Longrightarrow> reload_queue s = (Inr u, t) \<Longrightarrow> P t"
begin

lemma keeps_quiet: "quietc m \<Longrightarrow> keeps P m P P"
  unfolding keeps_def using quietcD quiet_P by (fastforce split: prod.split sum.split)

lemma keeps_quiet_H: "quietc m \<Longrightarrow> keeps (\<lambda>s. P s \<and> H s k) m (\<lambda>s. P s \<and> H s k) P"
  unfolding keeps_def using quietcD quiet_P quiet_H by (fastforce split: prod.split sum.split)

lemma P_quietly: "P s \<Longrightarrow> (\<And>s. quiet s (f s)) \<Longrightarrow> P (f s)"
  using quiet_P by blast

lemma mark_played_keeps: "keeps (\<lambda>s. P s \<and> H s k) (mark_played i) (\<lambda>s. P s \<and> H s k) P"
  "keeps P (mark_played i) P P"
proof -
  have inl: "P t" if p: "P s" and run: "mark_played i s = (Inl e, t)" for s e t
  proof -
    obtain f where "store (mark_queue_item_played (room_id s) i (st_now s)) s = (Inl f, t)"
      using run by (auto simp: mark_played_def split: prod.splits sum.splits if_splits)
    then have "quiet s t" by (rule store_failed) (rule failed_calls)
    with p show "P t" by (rule quiet_P)
  qed
  have inr: "P t \<and> (H s k \<longrightarrow> H t k)" if p: "P s" and run: "mark_played i s = (Inr u, t)" for s u t
  proof -
    obtain r t' where st: "store (mark_queue_item_played (room_id s) i (st_now s)) s = (r, t')"
      and "r = Inr () \<or> r = Inl NotFoundErr" and t: "t = retire i t'"
      using run by (auto simp: mark_played_def split: prod.splits sum.splits if_splits)
    from mark [OF p st this(2)] show ?thesis unfolding t .
  qed
  show "keeps (\<lambda>s. P s \<and> H s k) (mark_played i) (\<lambda>s. P s \<and> H s k) P" "keeps P (mark_played i) P P"
    using inl inr by (intro keepsI; blast)+
qed

lemma apply_order_P:
  assumes p: "P s" and perm: "distinct (map qi_id (st_queue s)) \<Longrightarrow> mset ordered = mset (st_queue s)"
    and run: "apply_order ordered s = (r, t)"
  shows "P t"
proof (cases "ordered = st_queue s")
  case True
  with p run show ?thesis by (simp add: apply_order_def)
next
  case False
  obtain q v where st: "store (set_queue_ranks (room_id s) (map qi_id ordered)) s = (q, v)" by fastforce
  show ?thesis
  proof (cases q)
    case (Inl e)
    have "quiet s v" using store_failed [OF st [unfolded Inl] failed_calls(1)] .
    with p have "P v" by (rule quiet_P)
    with False run st Inl show ?thesis by (simp add: apply_order_def cmd_defs)
  next
    case (Inr u)
    from order [OF p perm st [unfolded Inr]] have "P (v\<lparr>st_queue := renumber ordered\<rparr>)" .
    with False run st Inr show ?thesis by (simp add: apply_order_def cmd_defs)
  qed
qed

lemma fair_reorder_keeps: "keeps P fair_reorder P P"
  unfolding fair_reorder_def
  using apply_order_P fair_order_mset by (intro keepsI) (force split: if_splits)+

lemma reorder_by_votes_keeps: "keeps P reorder_by_votes P P"
  unfolding reorder_by_votes_def
  using apply_order_P vote_order_mset by (intro keepsI) force+

lemma skip_failed_PH:
  "P s \<Longrightarrow> H s k \<Longrightarrow> skip_failed idx s = (r, t) \<Longrightarrow>
   P t \<and> (case r of Inl _ \<Rightarrow> True | Inr _ \<Rightarrow> H t k)"
proof (induction idx s arbitrary: r t rule: skip_failed.induct)
  case (1 idx s)
  show ?case
  proof (cases "following (st_queue s) idx")
    case None
    with 1(2-4) show ?thesis by (auto simp: skip_failed.simps [of idx s])
  next
    case nxt: (Some nxt)
    show ?thesis
    proof (cases "\<exists>m. media_of s (qi_media nxt) = Some m \<and> m_status m = MediaFailed")
      case False
      with nxt 1(2-4) show ?thesis
        by (auto simp: skip_failed.simps [of idx s] split: option.splits)
    next
      case True
      then obtain m where m: "media_of s (qi_media nxt) = Some m" "m_status m = MediaFailed" by blast
      let ?s = "log_line (''skipped '' @ media_label (st_deps s) (Some m) @ '' (not playable)'') s"
      have q: "quiet s ?s" by (rule quiet_log_line_snd)
      have p: "P ?s" "H ?s k" using quiet_P [OF 1(2) q] quiet_H [OF 1(3) q] .
      obtain x v where mp: "mark_played (qi_id nxt) ?s = (x, v)" by fastforce
      show ?thesis
      proof (cases x)
        case (Inl e)
        with keepsD(2) [OF mark_played_keeps(2) p(1)] mp nxt m 1(4) show ?thesis
          by (auto simp: skip_failed.simps [of idx s])
      next
        case (Inr u)
        with keepsD(1) [OF mark_played_keeps(1) [of k], of ?s] p mp have "P v" "H v k" by blast+
        moreover have "skip_failed idx v = (r, t)"
          using 1(4) nxt m mp Inr by (simp add: skip_failed.simps [of idx s])
        ultimately show ?thesis using 1(1) [OF nxt m(1) _ mp [symmetric] Inr] m(2) by blast
      qed
    qed
  qed
qed

lemma skip_failed_keeps: "keeps (\<lambda>s. P s \<and> H s k) (skip_failed idx) (\<lambda>s. P s \<and> H s k) P"
  using skip_failed_PH [of _ k idx] by (intro keepsI) force+

lemma requeue_keeps: "keeps (\<lambda>s. P s \<and> H s 0) (\<lambda>s. store (requeue_played (room_id s)) s) Q Q"
proof (rule keepsI)
  show "Q t" if "P s \<and> H s 0" "store (requeue_played (room_id s)) s = (Inl e, t)" for s e t
  proof -
    have "quiet s t" by (rule store_failed [OF that(2)]) (rule failed_calls)
    with that(1) quiet_P weak show ?thesis by blast
  qed
  show "Q t" if "P s \<and> H s 0" "store (requeue_played (room_id s)) s = (Inr u, t)" for s u t
    using requeue that by blast
qed

lemma query_quiet: "keeps (quiet s) (query f) (quiet s) (quiet s)"
  unfolding query_def using quiet_storeD [OF _ calm_query] quiet_trans
  by (intro keepsI) blast+

lemma reload_failed: "reload_queue s = (Inl e, t) \<Longrightarrow> quiet s t"
proof -
  have "keeps (quiet s) (bindc (query (\<lambda>d. Inr (list_queue d (room_id s)))) (\<lambda>items.
     bindc (query (\<lambda>d. Inr (list_played d (room_id s) played_kept))) (\<lambda>played.
     bindc (query (\<lambda>d. Inr (get_media_batch d (map qi_media items @ map qi_media played)))) (\<lambda>media.
     bindc (query (\<lambda>d. Inr (list_queue_votes d (room_id s)))) (\<lambda>votes.
     doc (\<lambda>t. t\<lparr>st_votes := votes_map votes, st_queue := items, st_played := played,
               st_media := media\<rparr>)))))) (\<lambda>_. True) (quiet s)"
    by (intro keeps_bindc [OF query_quiet] keeps_doc TrueI)
  from keepsD(2) [OF this quiet_refl] show "reload_queue s = (Inl e, t) \<Longrightarrow> quiet s t"
    unfolding reload_queue_def .
qed

lemma reload_keeps: "keeps Q reload_queue P Q"
  using reload reload_failed quiet_Q by (intro keepsI) blast+

lemma next_item_keeps: "keeps (\<lambda>s. P s \<and> H s 0) next_item P Q"
proof -
  define votes where "votes s2 = (if vote_mode (prefs s2) then reorder_by_votes s2 else (Inr (), s2))" for s2
  define restart where "restart s2 = (let nxt = (case st_queue s2 of [] \<Rightarrow> None | it # _ \<Rightarrow> Some it) in
       if st_viewers s2 = [] \<and> nxt \<noteq> None
       then (Inr (), save_playback
               (log_line ''queue restarted from the top, paused until someone is back''
                 (set_playback False 0
                   (s2\<lparr>st_skip_votes := [],
                      st_clock := (st_clock s2)\<lparr>c_current := map_option qi_id nxt,
                                                c_rate := 1\<rparr>\<rparr>))))
       else (Inr () :: cerr + unit, save_playback (set_current nxt
               (log_line ''queue restarted from the top'' s2))))" for s2
  have v: "keeps P votes P P"
    unfolding votes_def using reorder_by_votes_keeps keeps_ok by (rule keeps_if)
  from v weak have vq: "keeps P votes P Q" by (rule keeps_errors)
  have r: "keeps P restart P Q"
    unfolding restart_def Let_def
    by (intro keeps_if keeps_Inr) (erule P_quietly; intro quiet)+
  have m: "keeps (\<lambda>s. P s \<and> H s 0) (mark_played cur) (\<lambda>s. P s \<and> H s 0) Q" for cur
    using mark_played_keeps(1) weak by (rule keeps_errors)
  have f: "keeps (\<lambda>s. P s \<and> H s 0) (skip_failed idx) (\<lambda>s. P s \<and> H s 0) Q" for idx
    using skip_failed_keeps weak by (rule keeps_errors)
  have loop: "keeps (\<lambda>s. P s \<and> H s 0)
      (seqc (\<lambda>s. store (requeue_played (room_id s)) s) (seqc reload_queue (seqc votes restart))) P Q"
    by (rule keeps_seqc [OF requeue_keeps keeps_seqc [OF reload_keeps keeps_seqc [OF vq r]]])
  have on: "keeps (\<lambda>s. P s \<and> H s 0) (\<lambda>s1. (Inr (), save_playback (set_current nxt s1))) P Q" for nxt
    by (intro keeps_Inr) (elim conjE, erule P_quietly, intro quiet)
  have "keeps (\<lambda>s. P s \<and> H s 0)
      (seqc (mark_played cur)
            (bindc (skip_failed idx) (\<lambda>nxt s1.
               if nxt = None \<and> loop_queue (prefs s1) \<and> st_played s1 \<noteq> []
               then seqc (store (requeue_played (room_id s1))) (seqc reload_queue (seqc votes restart)) s1
               else (Inr (), save_playback (set_current nxt s1))))) P Q" for cur idx
    unfolding seqc_at [of "\<lambda>s. store (requeue_played (room_id s))"]
    by (rule keeps_seqc [OF m keeps_bindc [OF f keeps_if [OF loop on]]])
  then show ?thesis
    unfolding next_item_def votes_def restart_def Let_def keeps_def
    by (auto split: option.split intro: weak)
qed

lemmas guards_H = keeps_quiet_H [OF quiet_guards(4)] keeps_quiet_H [OF quiet_guards(3)]
  keeps_quiet_H [OF quiet_guards(1)]

lemma keeps_drop_H: "keeps (\<lambda>s. P s \<and> H s k) m B P \<Longrightarrow> keeps (\<lambda>s. P s \<and> H s k) m B Q"
  by (erule keeps_errors) (rule weak)

lemma keeps_seqc_H:
  "keeps (\<lambda>s. P s \<and> H s k) m (\<lambda>s. P s \<and> H s k) P \<Longrightarrow> keeps (\<lambda>s. P s \<and> H s k) n B Q \<Longrightarrow>
   keeps (\<lambda>s. P s \<and> H s k) (seqc m n) B Q"
  by (rule keeps_seqc [OF keeps_drop_H])

lemma then_broadcast: "keeps A m P Q \<Longrightarrow> keeps A (seqc m (doc broadcast)) P Q"
  by (erule keeps_seqc, rule keeps_doc, erule P_quietly, intro quiet)

lemma quietc_log: "quietc (doc (\<lambda>s. log_line (f s) s))"
  by (intro quiet_doc quiet_log_line_snd)

lemma next_cmd_keeps: "keeps (\<lambda>s. P s \<and> H s 0) (next_cmd a) P Q"
  unfolding next_cmd_def
  by (rule keeps_seqc_H [OF guards_H(1) keeps_seqc_H [OF guards_H(2)
        keeps_seqc_H [OF keeps_quiet_H [OF quietc_log] then_broadcast [OF next_item_keeps]]]])

lemma keeps_P: "keeps P m P P \<Longrightarrow> keeps (\<lambda>s. P s \<and> H s k) m P Q"
  by (erule keeps_weaken) (simp_all add: weak)

lemma jump_keeps: "keeps P (jump a i) P P"
proof -
  have "keeps P (\<lambda>s. case c_current (st_clock s) of
                    None \<Rightarrow> (Inr (), s)
                  | Some cur \<Rightarrow> if cur \<noteq> i then mark_played cur s else (Inr (), s)) P P"
    using mark_played_keeps(2) by (auto simp: keeps_def split: option.split)
  moreover have "keeps P (doc (\<lambda>s. broadcast (log_line (l s) (save_playback (set_current x s))))) P P" for l x
    by (rule keeps_doc, erule P_quietly, intro quiet)
  ultimately have "keeps P (seqc (\<lambda>s. case c_current (st_clock s) of
                    None \<Rightarrow> (Inr (), s)
                  | Some cur \<Rightarrow> if cur \<noteq> i then mark_played cur s else (Inr (), s))
       (doc (\<lambda>s. broadcast (log_line (l s) (save_playback (set_current x s)))))) P P" for l x
    by (rule keeps_seqc)
  then have "keeps P (\<lambda>s. case item_by_id (st_queue s) i of
          None \<Rightarrow> (Inl (not_found ''queue item''), s)
        | Some target \<Rightarrow>
            seqc (\<lambda>s. case c_current (st_clock s) of
                    None \<Rightarrow> (Inr (), s)
                  | Some cur \<Rightarrow> if cur \<noteq> i then mark_played cur s else (Inr (), s))
              (doc (\<lambda>s. broadcast (log_line (actor_name a @ '' jumped to ''
                        @ media_label (st_deps s) (media_of s (qi_media target)))
                      (save_playback (set_current (Some target) s))))) s) P P"
    by (simp add: keeps_def split: option.split)
  then show ?thesis
    unfolding jump_def by (rule keeps_seqc [OF keeps_quiet [OF quiet_guards(4)]])
qed

section \<open>Adding\<close>

lemma add_one:
  "gives (\<lambda>t. P (with_added as t) \<and> H (with_added as t) (k + 2))
     (\<lambda>t. store (add_queue_item (st_now t) (room_id t) mid by') t)
     (\<lambda>it t. P (with_added (as @ [(named a it, m)]) t) \<and> H (with_added (as @ [(named a it, m)]) t) k)"
proof (rule givesI)
  fix s it t
  assume a: "P (with_added as s) \<and> H (with_added as s) (k + 2)"
    and run: "store (add_queue_item (st_now s) (room_id s) mid by') s = (Inr it, t)"
  have q: "st_queue t = st_queue s" using store_same [OF run] by simp
  have "store (add_queue_item (st_now (with_added as s)) (room_id (with_added as s)) mid by') (with_added as s)
      = (Inr it, t\<lparr>st_queue := st_queue s @ map fst as\<rparr>)"
    using store_queue [OF run] by (simp add: with_added_def room_id_def)
  from add [OF conjunct1 [OF a] conjunct2 [OF a] this, of a] q
  show "P (with_added (as @ [(named a it, m)]) t) \<and> H (with_added (as @ [(named a it, m)]) t) k"
    by (simp add: with_added_def)
qed

lemma quiet_gives: "quietc m \<Longrightarrow> gives (\<lambda>t. P (with_added as t) \<and> H (with_added as t) k) m
    (\<lambda>_ t. P (with_added as t) \<and> H (with_added as t) k)"
proof (rule givesI)
  fix s x t
  assume m: "quietc m" and a: "P (with_added as s) \<and> H (with_added as s) k" and run: "m s = (Inr x, t)"
  have "quiet (with_added as s) (with_added as t)" using quietcD [OF m, of s] run by (intro quiet_extend) simp
  with a quiet_P quiet_H show "P (with_added as t) \<and> H (with_added as t) k" by blast
qed

lemma quietc_ingest_create: "quietc (ingest_create adm)"
proof -
  have c: "quietc (store f)" if "\<And>rid. calm rid f" for f :: "db \<Rightarrow> 'b outcome"
    using that by (intro quietcI quiet_store_snd)
  have "quietc (bindc (store (create_media now (ad_key adm) (ad_url adm)))
       (\<lambda>mc. if snd mc then seqc (store (enqueue_ingest (m_id (fst mc)))) (okc (fst mc))
             else okc (fst mc)))" for now
  proof (rule quiet_bindc)
    show "quietc (store (create_media now (ad_key adm) (ad_url adm)))" by (rule c) (rule calm_rest)
    show "quietc (if snd mc then seqc (store (enqueue_ingest (m_id (fst mc)))) (okc (fst mc))
        else okc (fst mc))" for mc :: "media \<times> bool"
      by (cases "snd mc") (simp_all add: quiet_seqc [OF c [OF calm_rest(4)] quiet_guards(1)] quiet_guards(1))
  qed
  then show ?thesis unfolding ingest_create_def using quietcD by (intro quietcI) blast
qed

lemma add_each_gives:
  "gives (\<lambda>t. P (with_added as t) \<and> H (with_added as t) (2 * length adms)) (add_each a adms seen as n)
     (\<lambda>r t. P (with_added (fst r) t))"
proof (induction adms arbitrary: seen as n)
  case Nil
  show ?case by (simp add: gives_def okc_def)
next
  case (Cons adm adms)
  let ?A = "\<lambda>as k t. P (with_added as t) \<and> H (with_added as t) k"
  have less: "gives (?A bs (2 * length (adm # adms))) m C" if "gives (?A bs (2 * length adms)) m C"
    for bs C and m :: "((queue_item \<times> media) list \<times> nat) cmd"
    using that H_less [of _ "2 * length (adm # adms)" "2 * length adms"] unfolding gives_def by auto
  have one: "gives (?A as (2 * length (adm # adms)))
      (bindc (\<lambda>t. store (add_queue_item (st_now t) (room_id t) (m_id m) (actor_ref a)) t)
        (\<lambda>it. add_each a adms (m_id m # seen) (as @ [(named a it, m)]) n)) (\<lambda>r t. P (with_added (fst r) t))" for m
    using gives_bindc [OF add_one Cons] by simp
  have skip: "gives (?A as (2 * length (adm # adms))) (add_each a adms seen as (Suc n))
      (\<lambda>r t. P (with_added (fst r) t))"
    by (rule less [OF Cons])
  have "gives (?A as (2 * length (adm # adms)))
      (bindc (ingest_create adm) (\<lambda>m.
            if m_id m \<in> set seen then add_each a adms seen as (Suc n)
            else bindc (\<lambda>t. store (add_queue_item (st_now t) (room_id t) (m_id m) (actor_ref a)) t)
              (\<lambda>it. add_each a adms (m_id m # seen) (as @ [(named a it, m)]) n)))
      (\<lambda>r t. P (with_added (fst r) t))"
  proof (rule gives_bindc [OF quiet_gives [OF quietc_ingest_create]])
    show "gives (?A as (2 * length (adm # adms))) (if m_id m \<in> set seen then add_each a adms seen as (Suc n)
            else bindc (\<lambda>t. store (add_queue_item (st_now t) (room_id t) (m_id m) (actor_ref a)) t)
              (\<lambda>it. add_each a adms (m_id m # seen) (as @ [(named a it, m)]) n))
      (\<lambda>r t. P (with_added (fst r) t))" for m
      using skip one by (rule gives_if)
  qed
  with skip show ?case unfolding add_each.simps by (rule gives_ifs)
qed

lemma place_next_keeps: "keeps (\<lambda>s. P s \<and> st_queue s \<noteq> []) place_next P P"
proof -
  have "P t" if p: "P s" and ne: "st_queue s \<noteq> []" and run: "place_next s = (r, t)" for s r t
  proof (cases "place_after (st_queue s) (length (st_queue s) - 1) (c_current (st_clock s)) (c_current (st_clock s))")
    case (Inl e)
    with p run show ?thesis by (simp add: place_next_def)
  next
    case (Inr ordered)
    then have "mset ordered = mset (st_queue s)" using place_after_mset [OF Inr] ne by simp
    moreover have "apply_order ordered s = (r, t)" using run Inr by (simp add: place_next_def)
    ultimately show ?thesis using apply_order_P p by blast
  qed
  then show ?thesis by (intro keepsI) blast+
qed

lemma finish_add_keeps:
  "keeps P (doc (\<lambda>s. broadcast (start_if_idle it (log_if_user a (l s) s)))) P Q"
  by (rule keeps_doc, erule P_quietly, intro quiet)

lemma fair_reorder_Q: "keeps P fair_reorder P Q"
  using fair_reorder_keeps by (rule keeps_errors) (rule weak)

lemma gives_quiet: "quietc m \<Longrightarrow> gives (\<lambda>s. P s \<and> H s k) m (\<lambda>_ s. P s \<and> H s k)"
  using quiet_gives [of m "[]"] by simp

lemma quietc_duplicate: "quietc (duplicate m)"
  unfolding duplicate_def by (intro quiet_seqc quiet_guards)

lemma P_faults: "P s \<Longrightarrow> P (s\<lparr>st_faults := fs\<rparr>)"
  by (erule quiet_P) (intro quiet)

lemma PH_quiet: "P s \<and> H s k \<Longrightarrow> quiet s t \<Longrightarrow> P t \<and> H t k"
  using quiet_P quiet_H by blast

text \<open>The transaction of an add: on success the queue with the item at its end is kept.\<close>

lemma add_tx_gives:
  fixes m :: "media cmd" and d :: "media \<Rightarrow> unit cmd" and a :: actor
  assumes "quietc m" "\<And>x. quietc (d x)" "dbonly m" "\<And>x. dbonly (d x)"
  defines "inner \<equiv> bindc m (\<lambda>x. seqc (d x)
     (\<lambda>s. bindc (store (add_queue_item (st_now s) (room_id s) (m_id x) (actor_ref a)))
                      (\<lambda>it. okc (x, it)) s))"
  shows "gives (\<lambda>s. P s \<and> H s 2) (in_tx inner)
      (\<lambda>r t. P (t\<lparr>st_queue := st_queue t @ [named a (snd r)]\<rparr>))" and "dbonly inner"
proof -
  have eq: "(\<lambda>s. bindc (store (add_queue_item (st_now s) (room_id s) (m_id x) (actor_ref a))) g s)
    = bindc (\<lambda>s. store (add_queue_item (st_now s) (room_id s) (m_id x) (actor_ref a)) s) g"
    for x :: media and g :: "queue_item \<Rightarrow> (media \<times> queue_item) cmd"
    by (simp add: fun_eq_iff bindc_def)
  show db: "dbonly inner"
    unfolding inner_def eq
    by (intro dbonly_bindc dbonly_seqc assms dbonly_store dbonly_pure)
  have one: "gives (\<lambda>t. P t \<and> H t 2) (\<lambda>t. store (add_queue_item (st_now t) (room_id t) (m_id x) (actor_ref a)) t)
      (\<lambda>it t. P (t\<lparr>st_queue := st_queue t @ [named a it]\<rparr>))" for x :: media
    using add_one [of "[]" 0 "m_id x" "actor_ref a" a x]
    by (simp add: with_added_def gives_def numeral_2_eq_2)
  have "gives (\<lambda>s. P s \<and> H s 2) inner (\<lambda>r t. P (t\<lparr>st_queue := st_queue t @ [named a (snd r)]\<rparr>))"
    unfolding inner_def eq
    by (rule gives_bindc [OF gives_quiet [OF assms(1)] gives_seqc [OF gives_quiet [OF assms(2)]
          gives_bindc [OF one gives_okc]]]) simp
  then show "gives (\<lambda>s. P s \<and> H s 2) (in_tx inner)
      (\<lambda>r t. P (t\<lparr>st_queue := st_queue t @ [named a (snd r)]\<rparr>))"
  proof (rule in_tx_gives [OF _ db])
    show "P t \<and> H t 2" if "P s \<and> H s 2" "quiet s t" for s t using that by (rule PH_quiet)
    show "P (s\<lparr>st_faults := fs\<rparr>\<lparr>st_queue := st_queue (s\<lparr>st_faults := fs\<rparr>) @ [named a (snd x)]\<rparr>)"
      if "P (s\<lparr>st_queue := st_queue s @ [named a (snd x)]\<rparr>)" for x :: "media \<times> queue_item" and s fs
    proof -
      have "s\<lparr>st_faults := fs\<rparr>\<lparr>st_queue := st_queue (s\<lparr>st_faults := fs\<rparr>) @ [named a (snd x)]\<rparr>
          = s\<lparr>st_queue := st_queue s @ [named a (snd x)]\<rparr>\<lparr>st_faults := fs\<rparr>" by simp
      with P_faults [OF that, of fs] show ?thesis by (simp only:)
    qed
  qed
qed

lemma queue_add_commit_keeps: "keeps (\<lambda>s. P s \<and> H s 2) (queue_add_commit a adm nxt force) P Q"
proof -
  define inner where "inner = bindc (ingest_create adm) (\<lambda>m.
             seqc (if force then okc () else duplicate (m_id m))
               (\<lambda>s. bindc (store (add_queue_item (st_now s) (room_id s) (m_id m) (actor_ref a)))
                      (\<lambda>it. okc (m, it)) s))"
  have d: "quietc (if force then okc () else duplicate (m_id m))"
    "dbonly (if force then okc () else duplicate (m_id m))" for m
    by (cases force; simp add: quiet_guards quietc_duplicate dbonly_pure dbonly_duplicate)+
  have tx: "gives (\<lambda>s. P s \<and> H s 2) (in_tx inner) (\<lambda>r t. P (t\<lparr>st_queue := st_queue t @ [named a (snd r)]\<rparr>))"
    and db: "dbonly inner"
    unfolding inner_def
    using add_tx_gives [of "ingest_create adm" "\<lambda>m. if force then okc () else duplicate (m_id m)"]
      quietc_ingest_create dbonly_ingest_create d by blast+
  have failed: "Q t" if "P s \<and> H s 2" "in_tx inner s = (Inl e, t)" for s e t
    using in_tx_failed [OF that(2) db] that(1) quiet_P weak by blast
  have appended: "keeps (\<lambda>t. P (t\<lparr>st_queue := st_queue t @ [named a it]\<rparr>))
      (doc (\<lambda>s. put_media m (s\<lparr>st_queue := st_queue s @ [named a it]\<rparr>))) (\<lambda>s. P s \<and> st_queue s \<noteq> []) Q" for m it
    by (rule keeps_doc) (auto simp: put_media_def intro: quiet_P quiet_fields(9) [OF quiet_refl])
  have place: "keeps (\<lambda>s. P s \<and> st_queue s \<noteq> []) (\<lambda>s. if c s then place_next s else (Inr (), s)) P Q" for c
  proof (rule keeps_if)
    show "keeps (\<lambda>s. P s \<and> st_queue s \<noteq> []) place_next P Q"
      using place_next_keeps by (rule keeps_errors) (rule weak)
  qed (simp add: keeps_def)
  show ?thesis
    unfolding queue_add_commit_def inner_def [symmetric]
    by (rule keeps_seqc_H [OF keeps_quiet_H [OF quiet_budgets(7)]], rule keeps_bindc_gives [OF tx failed], assumption+)
     (auto intro!: keeps_seqc [OF appended] keeps_seqc [OF place] keeps_seqc [OF fair_reorder_Q] finish_add_keeps)
qed

lemma queue_add_keeps: "keeps (\<lambda>s. P s \<and> H s 2) (queue_add admit a url nxt force) P Q"
proof -
  have "keeps (\<lambda>s. P s \<and> H s 2) (failc e :: unit cmd) P Q" for e
    by (rule keeps_failc) (simp add: weak)
  then have "keeps (\<lambda>s. P s \<and> H s 2) (case admit url of Inl e \<Rightarrow> failc (admit_error e)
        | Inr adm \<Rightarrow> queue_add_commit a adm nxt force) P Q"
    using queue_add_commit_keeps by (simp split: sum.split)
  then show ?thesis
    unfolding queue_add_def queue_add_check_def
    by (rule keeps_seqc_H [OF keeps_quiet_H [OF quiet_seqc [OF quiet_budgets(7) quiet_budgets(1)]]])
qed

lemma place_batch_keeps:
  "keeps (\<lambda>s. P (with_added as s))
     (\<lambda>s. apply_order (batch_after_current (st_queue s) (map fst as) (c_current (st_clock s))) s) P Q"
proof (rule keepsI)
  fix s t :: st and x :: unit
  let ?o = "batch_after_current (st_queue s) (map fst as) (c_current (st_clock s))"
  assume p: "P (with_added as s)"
  have perm: "mset ?o = mset (st_queue (with_added as s))"
    if "distinct (map qi_id (st_queue (with_added as s)))"
    using that batch_mset [of "st_queue s" "map fst as"] by (simp add: with_added_def)
  {
    assume run: "apply_order ?o s = (Inr x, t)"
    show "P t"
    proof (cases "?o = st_queue s")
      case True
      then have t: "t = s" using run by (simp add: apply_order_def)
      show ?thesis
      proof (cases "distinct (map qi_id (st_queue (with_added as s)))")
        case d: True
        from perm [OF d] True have "as = []" by (simp add: with_added_def)
        with p t show ?thesis by simp
      next
        case False
        from P_queue [OF p this, of "st_queue s"] t show ?thesis by (simp add: with_added_def)
      qed
    next
      case False
      then obtain u v where st: "store (set_queue_ranks (room_id s) (map qi_id ?o)) s = (Inr u, v)"
        and t: "t = v\<lparr>st_queue := renumber ?o\<rparr>"
        using run by (auto simp: apply_order_def cmd_defs split: prod.splits sum.splits)
      have "store (set_queue_ranks (room_id (with_added as s)) (map qi_id ?o)) (with_added as s)
          = (Inr u, v\<lparr>st_queue := st_queue s @ map fst as\<rparr>)"
        using store_queue [OF st] by (simp add: with_added_def room_id_def)
      from order [OF p perm this] t show ?thesis by simp
    qed
  }
next
  fix s t :: st and e
  let ?o = "batch_after_current (st_queue s) (map fst as) (c_current (st_clock s))"
  assume p: "P (with_added as s)" and run: "apply_order ?o s = (Inl e, t)"
  then obtain f where st: "store (set_queue_ranks (room_id s) (map qi_id ?o)) s = (Inl f, t)"
    by (auto simp: apply_order_def cmd_defs split: prod.splits sum.splits if_splits)
  have "quiet s t" by (rule store_failed [OF st]) (rule failed_calls)
  moreover have "Q s" using p Q_queue unfolding with_added_def by blast
  ultimately show "Q t" using quiet_Q by blast
qed

lemma put_all_quiet: "quiet s (foldl (\<lambda>t im. put_media (snd im) t) s as)"
proof (induction as rule: rev_induct)
  case (snoc x xs)
  then show ?case by (simp, intro quiet)
qed (simp add: quiet)

lemma queue_add_many_commit_keeps:
  "keeps (\<lambda>s. P s \<and> H s (2 * length adms)) (queue_add_many_commit a adms n nxt) P Q"
proof -
  define inner where "inner = (\<lambda>s. bindc (add_each a adms (map qi_media (st_queue s) @ map qi_media (st_played s)) [] n)
              (\<lambda>r. if fst r = [] then failc (Rejected ''duplicate''
                     ''nothing to add: these videos are already here or cannot be played'')
                   else okc r) s)"
  have each: "gives (\<lambda>s. P s \<and> H s (2 * length adms)) (add_each a adms seen [] n)
      (\<lambda>r t. P (with_added (fst r) t))" for seen
    using add_each_gives [of "[]"] by simp
  have last: "gives (\<lambda>t. P (with_added (fst r) t)) (if fst r = [] then failc e else okc r)
      (\<lambda>r t. P (with_added (fst r) t))" for r e
    by (simp add: gives_failc gives_okc)
  have inner: "gives (\<lambda>s. P s \<and> H s (2 * length adms)) inner (\<lambda>r t. P (with_added (fst r) t))"
  proof (rule givesI)
    fix s r t
    assume "P s \<and> H s (2 * length adms)" and "inner s = (Inr r, t)"
    then show "P (with_added (fst r) t)"
      unfolding inner_def by (rule givesD [OF gives_bindc [OF each last]])
  qed
  have "dbonly (bindc (add_each a adms seen [] n) (\<lambda>r. if fst r = [] then failc e else okc r))" for seen e
    by (rule dbonly_bindc [OF dbonly_add_each]) (simp add: dbonly_pure)
  then have db: "dbonly inner" unfolding inner_def dbonly_def by blast
  have tx: "gives (\<lambda>s. P s \<and> H s (2 * length adms)) (in_tx inner) (\<lambda>r t. P (with_added (fst r) t))"
  proof (rule in_tx_gives [OF inner db])
    show "P t \<and> H t (2 * length adms)" if "P s \<and> H s (2 * length adms)" "quiet s t" for s t
      using that by (rule PH_quiet)
    show "P (with_added (fst x) (s\<lparr>st_faults := fs\<rparr>))" if "P (with_added (fst x) s)"
      for x :: "(queue_item \<times> media) list \<times> nat" and s fs
      using that by (rule quiet_P) (intro quiet_extend quiet)
  qed
  have failed: "Q t" if "P s \<and> H s (2 * length adms)" "in_tx inner s = (Inl e, t)" for s e t
    using in_tx_failed [OF that(2) db] that(1) quiet_P weak by blast
  have put: "keeps (\<lambda>s. P (with_added as s)) (doc (\<lambda>s. foldl (\<lambda>t im. put_media (snd im) t) s as))
      (\<lambda>s. P (with_added as s)) Q" for as
    by (rule keeps_doc, erule quiet_P, intro quiet_extend put_all_quiet)
  have place: "keeps (\<lambda>s. P (with_added as s)) (\<lambda>s. if c s
        then apply_order (batch_after_current (st_queue s) (map fst as) (c_current (st_clock s))) s
        else (Inr (), s\<lparr>st_queue := st_queue s @ map fst as\<rparr>)) P Q" for as c
    using place_batch_keeps by (rule keeps_if) (simp add: keeps_def with_added_def)
  show ?thesis
    unfolding queue_add_many_commit_def inner_def [symmetric]
    by (rule keeps_seqc_H [OF keeps_quiet_H [OF quiet_budgets(7)]], rule keeps_bindc_gives [OF tx failed], assumption+)
      (auto intro!: keeps_seqc [OF put] keeps_seqc [OF place] keeps_seqc [OF fair_reorder_Q] finish_add_keeps)
qed

lemma queue_add_many_keeps:
  "keeps (\<lambda>s. P s \<and> H s (2 * length urls)) (queue_add_many admit a urls nxt) P Q"
proof -
  let ?A = "\<lambda>s. P s \<and> H s (2 * length urls)"
  have bad: "keeps ?A (failc e :: unit cmd) P Q" for e
    by (rule keeps_failc) (simp add: weak)
  have len: "length as \<le> length us" if "admit_all admit us = Inr (as, n)" for us as n
    using that
  proof (induction us arbitrary: as n)
    case (Cons u us)
    obtain bs k where r: "admit_all admit us = Inr (bs, k)" "length as \<le> Suc (length bs)"
      using Cons(2) by (auto split: sum.splits admit_err.splits)
    with Cons(1) [OF r(1)] show ?case by simp
  qed simp
  have "keeps ?A (queue_add_many_commit a as n nxt) P Q" if "admit_all admit urls = Inr (as, n)" for as n
    by (rule keeps_pre [OF queue_add_many_commit_keeps]) (use len [OF that] H_less in auto)
  with bad have "keeps ?A (case admit_all admit urls of
           Inl e \<Rightarrow> failc e
         | Inr (adms, skipped) \<Rightarrow> queue_add_many_commit a adms skipped nxt) P Q"
    by (auto split: sum.split)
  then have "keeps ?A (seqc (queue_add_many_check a) (case admit_all admit urls of
           Inl e \<Rightarrow> failc e
         | Inr (adms, skipped) \<Rightarrow> queue_add_many_commit a adms skipped nxt)) P Q"
    unfolding queue_add_many_check_def
    by (rule keeps_seqc_H [OF keeps_quiet_H [OF quiet_seqc [OF quiet_budgets(7) quiet_budgets(1)]]])
  with bad show ?thesis unfolding queue_add_many_def by (cases "urls = [] \<or> max_add_many < length urls") simp_all
qed

section \<open>The other queue commands\<close>

lemma store_keeps:
  assumes "\<And>s u t. P s \<Longrightarrow> store (f s) s = (Inr u, t) \<Longrightarrow> B t"
    and "\<And>s d e d'. f s d = (Inl e, d') \<Longrightarrow> d' = d"
  shows "keeps P (\<lambda>s. store (f s) s) B P"
proof (rule keepsI)
  show "P t" if "P s" "store (f s) s = (Inl e, t)" for s e t
    using quiet_P [OF that(1) store_failed [OF that(2) assms(2)]] by simp
qed (rule assms(1))

lemma queue_clear_keeps: "keeps P (queue_clear a) P P"
proof -
  let ?B = "\<lambda>t. P (t\<lparr>st_queue := filter (is_cur (c_current (st_clock t))) (st_queue t)\<rparr>)"
  have st: "keeps P (\<lambda>s. store (clear_queue (room_id s) (c_current (st_clock s))) s) ?B P"
  proof (rule store_keeps)
    show "?B t" if "P s" "store (clear_queue (room_id s) (c_current (st_clock s))) s = (Inr u, t)" for s u t
      using clear [OF that] store_same [OF that(2)] by (simp add: same_room_def)
  qed (rule failed_calls)
  have fin: "P (let kept = filter (is_cur (c_current (st_clock s))) (st_queue s);
                       dropped = length (st_queue s) - length kept;
                       s1 = s\<lparr>st_queue := kept\<rparr>
            in broadcast (if a_user a \<noteq> None \<and> 0 < dropped
                 then log_line (actor_name a @ '' cleared the queue ('' @ dec dropped @ '' ''
                        @ plural dropped ''video'' ''videos'' @ '')'') s1
                 else s1))" if "?B s" for s
    unfolding Let_def using that by (rule quiet_P) (intro quiet)
  show ?thesis
    unfolding queue_clear_def
    by (rule keeps_seqc [OF keeps_quiet [OF quiet_guards(4)] keeps_seqc [OF st keeps_doc]], erule fin)
qed

lemma queue_clear_played_keeps: "keeps P (queue_clear_played a) P P"
proof -
  have st: "keeps P (\<lambda>s. store (clear_played (room_id s)) s) (\<lambda>t. P (t\<lparr>st_played := []\<rparr>)) P"
    by (rule store_keeps) (rule forget, assumption+, rule failed_calls)
  have fin: "P (broadcast (s\<lparr>st_played := []\<rparr>))" if "P (s\<lparr>st_played := []\<rparr>)" for s
    using that by (rule quiet_P) (intro quiet)
  show ?thesis
    unfolding queue_clear_played_def
    by (rule keeps_seqc [OF keeps_quiet [OF quiet_guards(4)] keeps_seqc [OF st keeps_doc]], erule fin)
qed

lemma queue_shuffle_keeps:
  assumes "\<forall>n. \<forall>p \<in> set (shuffle n). fst p < n \<and> snd p < n"
  shows "keeps P (queue_shuffle shuffle a) P P"
proof -
  have ord: "keeps P (\<lambda>s. apply_order (shuffled (st_queue s) (c_current (st_clock s)) shuffle) s) P P"
    using apply_order_P shuffled_mset [OF assms] by (intro keepsI) blast+
  have fin: "keeps P (doc (\<lambda>t. broadcast (log_if_user a l t))) P P" for l
    by (rule keeps_doc, erule P_quietly, intro quiet)
  have "keeps P (\<lambda>s. seqc (apply_order (shuffled (st_queue s) (c_current (st_clock s)) shuffle))
                (doc (\<lambda>t. broadcast (log_if_user a (actor_name a @ '' shuffled the queue'') t))) s) P P"
    unfolding seqc_at [of "\<lambda>s. apply_order (shuffled (st_queue s) (c_current (st_clock s)) shuffle)"]
    by (rule keeps_seqc [OF ord fin])
  then show ?thesis
    unfolding queue_shuffle_def Let_def
    by (intro keeps_seqc [OF keeps_quiet [OF quiet_guards(4)]] keeps_if) (simp_all add: keeps_def)
qed

lemma queue_move_keeps: "keeps P (queue_move a i anchor) P P"
proof -
  have "P t" if p: "P s" and k: "index_of (st_queue s) i = Some k"
    and o': "place_after (st_queue s) k anchor (c_current (st_clock s)) = Inr ordered"
    and run: "seqc (apply_order ordered) (doc broadcast) s = (r, t)" for s k ordered r t
  proof -
    obtain q u where ap: "apply_order ordered s = (q, u)" by fastforce
    have "mset ordered = mset (st_queue s)" using place_after_mset [OF o'] index_of_Some [OF k] by simp
    with apply_order_P [OF p _ ap] have "P u" by blast
    moreover from this have "P (broadcast u)" by (rule quiet_P) (intro quiet)
    ultimately show ?thesis using run ap by (cases q) (simp_all add: cmd_defs)
  qed
  note moved = this
  have "keeps P (\<lambda>s. case index_of (st_queue s) i of
           None \<Rightarrow> (Inl (not_found ''queue item''), s)
         | Some k \<Rightarrow>
             if is_current (st_clock s) i then (Inl (invalid ''the current item cannot be moved''), s)
             else (case place_after (st_queue s) k anchor (c_current (st_clock s)) of
                 Inl e \<Rightarrow> (Inl e, s)
               | Inr ordered \<Rightarrow> seqc (apply_order ordered) (doc broadcast) s)) P P" (is "keeps P ?m P P")
  proof (rule keeps_all)
    fix s r t
    assume "P s" and "?m s = (r, t)"
    then show "P t" using moved [of s _ _ r t] by (auto split: option.splits sum.splits if_splits)
  qed
  then show ?thesis
    unfolding queue_move_def
    by (intro keeps_seqc [OF keeps_quiet [OF quiet_guards(4)]] keeps_if) (simp_all add: keeps_def)
qed

lemma add_alone_gives:
  "gives (\<lambda>s. P s \<and> H s 2) (in_tx (\<lambda>t. store (add_queue_item (st_now t) (room_id t) mid (actor_ref a)) t))
     (\<lambda>it t. P (t\<lparr>st_queue := st_queue t @ [named a it]\<rparr>))"
proof (rule in_tx_gives [OF _ dbonly_store])
  show "gives (\<lambda>s. P s \<and> H s 2) (\<lambda>t. store (add_queue_item (st_now t) (room_id t) mid (actor_ref a)) t)
     (\<lambda>it t. P (t\<lparr>st_queue := st_queue t @ [named a it]\<rparr>))"
    using add_one [of "[]" 0 mid "actor_ref a" a]
    by (simp add: with_added_def gives_def numeral_2_eq_2)
  show "P t \<and> H t 2" if "P s \<and> H s 2" "quiet s t" for s t using that by (rule PH_quiet)
  show "P (s\<lparr>st_faults := fs\<rparr>\<lparr>st_queue := st_queue (s\<lparr>st_faults := fs\<rparr>) @ [named a it]\<rparr>)"
    if "P (s\<lparr>st_queue := st_queue s @ [named a it]\<rparr>)" for it s fs
  proof -
    have "s\<lparr>st_faults := fs\<rparr>\<lparr>st_queue := st_queue (s\<lparr>st_faults := fs\<rparr>) @ [named a it]\<rparr>
        = s\<lparr>st_queue := st_queue s @ [named a it]\<rparr>\<lparr>st_faults := fs\<rparr>" by simp
    with P_faults [OF that, of fs] show ?thesis by (simp only:)
  qed
qed

lemma queue_replay_keeps: "keeps (\<lambda>s. P s \<and> H s 2) (queue_replay a i) P Q"
proof -
  define tx where "tx = (\<lambda>mid. in_tx (\<lambda>t. store (add_queue_item (st_now t) (room_id t) mid (actor_ref a)) t))"
  define fin :: "queue_item \<Rightarrow> queue_item \<Rightarrow> unit cmd" where "fin = (\<lambda>src it. seqc (doc (\<lambda>t. let t' = log_if_user a (actor_name a @ '' re-added ''
                            @ media_label (st_deps t) (media_of t (qi_media src))) t
                        in t'\<lparr>st_queue := st_queue t' @ [named a it]\<rparr>))
                (seqc fair_reorder (doc (\<lambda>t. broadcast (start_if_idle (named a it) t)))))"
  have log: "quiet (t\<lparr>st_queue := st_queue t @ as\<rparr>) (t'\<lparr>st_queue := st_queue t' @ as\<rparr>)" if "quiet t t'" for t t' as
    using that by (simp add: quiet_def room_id_def)
  have app: "keeps (\<lambda>t. P (t\<lparr>st_queue := st_queue t @ [it]\<rparr>))
      (doc (\<lambda>t. let t' = log_if_user a (l t) t in t'\<lparr>st_queue := st_queue t' @ [it]\<rparr>)) P Q" for it l
    unfolding Let_def by (rule keeps_doc, erule quiet_P, rule log, intro quiet)
  have start: "keeps P (doc (\<lambda>t. broadcast (start_if_idle it t))) P Q" for it
    by (rule keeps_doc, erule P_quietly, intro quiet)
  have fin: "keeps (\<lambda>t. P (t\<lparr>st_queue := st_queue t @ [named a it]\<rparr>)) (fin src it) P Q" for src it
    unfolding fin_def by (rule keeps_seqc [OF app keeps_seqc [OF fair_reorder_Q start]])
  have all: "keeps (\<lambda>s. P s \<and> H s 2) (bindc (tx mid) (fin src)) P Q" for mid src
  proof (rule keeps_bindc_gives [OF _ _ fin])
    show "gives (\<lambda>s. P s \<and> H s 2) (tx mid) (\<lambda>it t. P (t\<lparr>st_queue := st_queue t @ [named a it]\<rparr>))"
      unfolding tx_def by (rule add_alone_gives)
    show "Q t" if "P s \<and> H s 2" "tx mid s = (Inl e, t)" for s e t
      using in_tx_failed [OF that(2) [unfolded tx_def] dbonly_store] that(1) quiet_P weak by blast
  qed
  have eq: "bindc (in_tx (store (add_queue_item (st_now s) (room_id s) mid (actor_ref a)))) (fin src) s
      = bindc (tx mid) (fin src) s" for s mid src
    unfolding bindc_def tx_def
    using in_tx_at [of "\<lambda>s. add_queue_item (st_now s) (room_id s) mid (actor_ref a)" s]
    by (simp add: room_id_def)
  have "keeps (\<lambda>s. P s \<and> H s 2) (\<lambda>s. case item_by_id (st_played s) i of
          None \<Rightarrow> (Inl (not_found ''played item''), s)
        | Some src \<Rightarrow>
            if queue_limit \<le> length (st_queue s) then (Inl (invalid ''queue is full''), s)
            else bindc (in_tx (store (add_queue_item (st_now s) (room_id s) (qi_media src) (actor_ref a))))
              (fin src) s) P Q"
    unfolding eq using all weak by (simp add: keeps_def split: option.split)
  then show ?thesis
    unfolding queue_replay_def fin_def by (rule keeps_seqc_H [OF guards_H(1)])
qed

lemma queue_remove_keeps: "keeps (\<lambda>s. P s \<and> H s 0) (queue_remove a i) P Q"
proof -
  define gone :: "st \<Rightarrow> st" where "gone = (\<lambda>t. case index_of (st_queue t) i of None \<Rightarrow> t
                   | Some k \<Rightarrow> t\<lparr>st_queue := remove_nth k (st_queue t)\<rparr>)"
  have del: "keeps P (\<lambda>s. store (delete_queue_item (room_id s) i) s) (\<lambda>t. P (gone t)) P"
    unfolding gone_def by (rule store_keeps) (rule drop, assumption+, rule failed_calls)
  have fin: "P (broadcast (gone t))" if "P (gone t)" for t
    using that by (rule P_quietly) (intro quiet)
  have plain: "keeps P (seqc (\<lambda>s. store (delete_queue_item (room_id s) i) s) (doc (\<lambda>t. broadcast (gone t)))) P P"
    by (rule keeps_seqc [OF del keeps_doc]) (erule fin)
  have auth: "quietc (if b then require a ManageQueue else okc ())" for b
    by (cases b) (simp_all add: quiet_guards)
  have body: "keeps (\<lambda>s. P s \<and> H s 0) (if c then seqc next_item (doc broadcast)
       else seqc (\<lambda>s. store (delete_queue_item (room_id s) i) s) (doc (\<lambda>t. broadcast (gone t)))) P Q" for c
    using then_broadcast [OF next_item_keeps] keeps_P [OF plain] by simp
  have all: "keeps (\<lambda>s. P s \<and> H s 0) (seqc (if b then require a ManageQueue else okc ())
      (if c then seqc next_item (doc broadcast)
       else seqc (\<lambda>s. store (delete_queue_item (room_id s) i) s) (doc (\<lambda>t. broadcast (gone t))))) P Q" for b c
    by (rule keeps_seqc_H [OF keeps_quiet_H [OF auth] body])
  have eq: "seqc m (if c then n else seqc (store (delete_queue_item (room_id s) i)) k) s
      = seqc m (if c then n else seqc (\<lambda>s. store (delete_queue_item (room_id s) i) s) k) s"
    if "\<And>r t. m s = (r, t) \<Longrightarrow> t = s" for m c n k and s
    using that by (cases "m s") (auto simp: cmd_defs split: sum.split)
  have same: "t = s" if "(if b then require a ManageQueue else okc ()) s = (r, t)" for b r s t
    using that by (auto simp: require_def cmd_defs split: if_splits)
  show ?thesis
    unfolding keeps_def
  proof (intro allI impI)
    fix s
    assume A: "P s \<and> H s 0"
    show "case queue_remove a i s of (r, t) \<Rightarrow> (case r of Inl _ \<Rightarrow> Q t | Inr _ \<Rightarrow> P t)"
    proof (cases "item_by_id (st_queue s) i")
      case None
      with A weak show ?thesis by (simp add: queue_remove_def)
    next
      case (Some it)
      define b where "b = (\<not> (a_user a \<noteq> None \<and> qi_added_by it = actor_ref a) \<or> is_current (st_clock s) (qi_id it))"
      have "queue_remove a i s = seqc (if b then require a ManageQueue else okc ())
         (if is_current (st_clock s) i then seqc next_item (doc broadcast)
          else seqc (\<lambda>s. store (delete_queue_item (room_id s) i) s) (doc (\<lambda>t. broadcast (gone t)))) s"
        unfolding queue_remove_def Some option.case Let_def gone_def b_def by (rule eq) (rule same)
      with all [of b "is_current (st_clock s) i"] A show ?thesis unfolding keeps_def by simp
    qed
  qed
qed

section \<open>Votes, settings, the end of a session\<close>

lemma apply_settings_keeps: "keeps P (apply_settings a i) P P"
proof -
  have votes: "keeps P (if v then reorder_by_votes else seqc (doc (\<lambda>t. t\<lparr>st_skip_votes := []\<rparr>)) fair_reorder) P P" for v
    using reorder_by_votes_keeps keeps_seqc [OF keeps_quiet fair_reorder_keeps]
      quiet_doc [OF quiet_fields(12) [OF quiet_refl]] by simp
  have rest: "keeps P (seqc (doc (\<lambda>t. t\<lparr>st_info := (st_info t)\<lparr>ri_settings := p\<rparr>\<rparr>))
      (seqc (if vote_mode p then reorder_by_votes else seqc (doc (\<lambda>t. t\<lparr>st_skip_votes := []\<rparr>)) fair_reorder)
        (doc broadcast))) P P" for p
  proof (rule keeps_seqc [OF keeps_doc keeps_seqc [OF votes keeps_doc]])
    show "P (s\<lparr>st_info := (st_info s)\<lparr>ri_settings := p\<rparr>\<rparr>)" if "P s" for s
      using that by (rule quiet_P) (rule quiet_info [OF _ quiet_refl], simp add: room_id_def)
    show "P (broadcast s)" if "P s" for s using that by (rule P_quietly) (intro quiet)
  qed
  have st: "keeps P (\<lambda>s. store (update_room_settings (st_now s) (room_id s) p) s) P P" for p
    by (rule keeps_quiet, rule quiet_storec, rule calm_rooms)
  have all: "keeps P (\<lambda>s. seqc (store (update_room_settings (st_now s) (room_id s) p))
      (seqc (doc (\<lambda>t. t\<lparr>st_info := (st_info t)\<lparr>ri_settings := p\<rparr>\<rparr>))
      (seqc (if vote_mode p then reorder_by_votes else seqc (doc (\<lambda>t. t\<lparr>st_skip_votes := []\<rparr>)) fair_reorder)
        (doc broadcast))) s) P P" for p
    unfolding seqc_at [of "\<lambda>s. store (update_room_settings (st_now s) (room_id s) p)"]
    by (rule keeps_seqc [OF st rest])
  have dis: "P (if c then disarm_empty_pause s else s)" if "P s" for c s
    using that by (rule quiet_P) (intro quiet)
  have "keeps P (\<lambda>s0. let bad = (case ss_skip_threshold i of None \<Rightarrow> False | Some t \<Rightarrow> t \<le> 0 \<or> 1 < t);
                 s = (if \<not> bad \<and> ss_pause_when_empty i = Some False then disarm_empty_pause s0 else s0)
         in case merge_settings i (prefs s) of
              Inl e \<Rightarrow> (Inl e, s)
            | Inr p \<Rightarrow>
                seqc (store (update_room_settings (st_now s) (room_id s) p))
                  (seqc (doc (\<lambda>t. t\<lparr>st_info := (st_info t)\<lparr>ri_settings := p\<rparr>\<rparr>))
                    (seqc (if vote_mode p then reorder_by_votes
                           else seqc (doc (\<lambda>t. t\<lparr>st_skip_votes := []\<rparr>)) fair_reorder)
                      (doc broadcast))) s) P P" (is "keeps P ?m P P")
    unfolding keeps_def
  proof (intro allI impI)
    fix s0
    assume "P s0"
    define s where "s = (if \<not> (case ss_skip_threshold i of None \<Rightarrow> False | Some t \<Rightarrow> t \<le> 0 \<or> 1 < t)
        \<and> ss_pause_when_empty i = Some False then disarm_empty_pause s0 else s0)"
    have p: "P s" unfolding s_def using \<open>P s0\<close> by (rule dis)
    show "case ?m s0 of (r, t) \<Rightarrow> (case r of Inl _ \<Rightarrow> P t | Inr _ \<Rightarrow> P t)"
      unfolding Let_def s_def [symmetric]
      using p all [unfolded keeps_def, rule_format, OF p] by (cases "merge_settings i (prefs s)") simp_all
  qed
  then show ?thesis
    unfolding apply_settings_def by (rule keeps_seqc [OF keeps_quiet [OF quiet_guards(4)]])
qed

lemma row_of_set_votes: "map (row_of rid) (set_votes i f q) = map (row_of rid) q"
  by (simp add: set_votes_def row_of_def)

lemma quietc_toggle: "quietc (store (toggle_queue_vote i u))"
  by (intro quietcI quiet_store_snd calm_rest)

lemma queue_vote_keeps: "keeps P (queue_vote a i) P P"
proof -
  have upd: "quiet s (t\<lparr>st_queue := set_votes i f (st_queue t)\<rparr>)" if "quiet s t" for s t f
    using that by (simp add: quiet_def room_id_def row_of_set_votes)
  have put: "quietc (doc (\<lambda>s.
                   let mine = st_votes s (actor_id a) in
                   if on then s\<lparr>st_queue := set_votes i (\<lambda>v. v + 1) (st_queue s),
                     st_votes := (st_votes s)(actor_id a := (if i \<in> set mine then mine else mine @ [i]))\<rparr>
                   else s\<lparr>st_queue := set_votes i (\<lambda>v. if 0 < v then v - 1 else v) (st_queue s),
                     st_votes := (st_votes s)(actor_id a := removeAll i mine)\<rparr>))" for on
    unfolding Let_def by (intro quiet_doc quiet upd)
  have fin: "keeps P (doc broadcast) P P"
    by (rule keeps_doc, erule P_quietly, intro quiet)
  show ?thesis
    unfolding queue_vote_def
    by (intro keeps_seqc [OF keeps_quiet [OF quiet_guards(4)]] keeps_seqc [OF keeps_quiet [OF quiet_guards(3)]]
        keeps_bindc [OF keeps_quiet [OF quietc_toggle]] keeps_seqc [OF keeps_quiet [OF put]]
        keeps_seqc [OF reorder_by_votes_keeps] fin)
qed

lemma skip_vote_keeps: "keeps (\<lambda>s. P s \<and> H s 0) (skip_vote a) P Q"
proof -
  have logged: "keeps (\<lambda>s. P s \<and> H s 0) (\<lambda>s. next_item (log_line (l s) s)) P Q" for l
  proof -
    have "keeps (\<lambda>s. P s \<and> H s 0) (seqc (doc (\<lambda>s. log_line (l s) s)) next_item) P Q"
      by (rule keeps_seqc_H [OF keeps_quiet_H [OF quietc_log] next_item_keeps])
    then show ?thesis by (simp add: keeps_def cmd_defs)
  qed
  have skip: "keeps (\<lambda>s. P s \<and> H s 0) (\<lambda>s. if c s then next_item (log_line (l s) s) else (Inr (), s)) P Q" for c l
    using logged by (rule keeps_if) (simp add: keeps_def)
  have tog: "quietc (doc (\<lambda>s. s\<lparr>st_skip_votes := f s\<rparr>))" for f
    by (intro quiet_doc quiet)
  show ?thesis
    unfolding skip_vote_def
    by (intro keeps_seqc_H [OF guards_H(1)] keeps_seqc_H [OF guards_H(2)]
        keeps_seqc_H [OF keeps_quiet_H [OF tog]] then_broadcast skip)
qed

lemma mark_all_played_keeps: "keeps P (mark_all_played ids) P P"
proof (induction ids)
  case Nil
  show ?case by (simp add: keeps_def okc_def)
next
  case (Cons i ids)
  show ?case using keeps_seqc [OF mark_played_keeps(2) Cons] by simp
qed

lemma end_session_keeps: "keeps P (end_session a) P P"
proof -
  have fin: "keeps P (doc (\<lambda>s. let s1 = log_line (actor_name a @ '' ended the session'')
                              (save_playback (set_current None s))
            in hang_up_all ''session ended''
                 (s1\<lparr>st_sent := st_sent s1
                       @ map (\<lambda>cv. (fst cv, SKicked ''session ended'')) (st_viewers s1)\<rparr>))) P P" (is "keeps P ?f P P")
    unfolding Let_def by (rule keeps_doc, erule P_quietly, intro quiet)
  have "keeps P (\<lambda>s. seqc (mark_all_played (map qi_id (st_queue s))) ?f s) P P"
    using keeps_seqc [OF mark_all_played_keeps fin] by (simp add: keeps_def)
  then show ?thesis
    unfolding end_session_def by (rule keeps_seqc [OF keeps_quiet [OF quiet_guards(4)]])
qed

lemma on_ended_keeps: "P s \<Longrightarrow> H s 0 \<Longrightarrow> Q (on_ended i n s)"
proof -
  assume p: "P s" "H s 0"
  have "Q (snd (next_item s))"
    using next_item_keeps p weak unfolding keeps_def by (fastforce split: prod.splits sum.splits)
  then have "Q (broadcast (snd (next_item s)))" by (rule quiet_Q) (intro quiet)
  with p weak show ?thesis by (simp add: on_ended_def)
qed

lemma on_ended_P: "P s \<Longrightarrow> H s 0 \<Longrightarrow> next_item s = (Inr u, t) \<Longrightarrow> P (on_ended i n s)"
proof -
  assume p: "P s" "H s 0" and run: "next_item s = (Inr u, t)"
  have "P t" using next_item_keeps p run unfolding keeps_def by fastforce
  then have "P (broadcast t)" by (rule P_quietly) (intro quiet)
  with p run show ?thesis by (simp add: on_ended_def)
qed

text \<open>Reloading brings back what a command that failed half way lost.\<close>

lemma reload_queue_cmd_keeps: "keeps Q reload_queue_cmd P Q"
proof -
  have cur: "quiet s (case c_current (st_clock s) of
             None \<Rightarrow> s
           | Some i \<Rightarrow> if has_item s i then s
               else save_playback (set_current
                 (case st_queue s of [] \<Rightarrow> None | it # _ \<Rightarrow> Some it) s))" for s
    by (cases "c_current (st_clock s)") (simp_all add: quiet)
  show ?thesis
    unfolding reload_queue_cmd_def
    by (rule keeps_seqc [OF reload_keeps keeps_doc]) (erule P_quietly, rule quiet_broadcasts(1), rule cur)
qed

end

end
