(* ===== verification/Room_Coherent.thy ===== *)
theory Room_Coherent
  imports Room_Contract
begin

text \<open>
  The queue contract on the model: a room's queue in memory is what its tables hold
  (\<open>coherent\<close>), other rooms' rows are untouched, and the history stays short.  Each is an
  interpretation of \<open>queue_contract\<close>, so every room command inherits it.
\<close>

section \<open>The room's queue and the stored one\<close>

definition tables_ok :: "st \<Rightarrow> bool" where
  "tables_ok s \<longleftrightarrow> ids_ok (st_db s) \<and> ranks_ok (st_db s) (room_id s)"

text \<open>The rows of the room that are not played yet, in \<open>ListQueue\<close> order, are the queue.\<close>

definition coherent :: "st \<Rightarrow> bool" where
  "coherent s \<longleftrightarrow> tables_ok s
     \<and> queue_rows (st_db s) (room_id s) = map (row_of (room_id s)) (st_queue s)"

text \<open>Ranks have eight digits: how many more rows the room can take before they run out.\<close>

definition item_count :: "db \<Rightarrow> uuid \<Rightarrow> nat" where
  "item_count d rid = length (filter (\<lambda>r. ir_room r = rid) (d_items d))"

definition headroom :: "st \<Rightarrow> nat \<Rightarrow> bool" where
  "headroom s k \<longleftrightarrow> max_rank (st_db s) (room_id s) + item_count (st_db s) (room_id s) + k < 10 ^ 8"

lemma coherent_distinct: "coherent s \<Longrightarrow> distinct (map qi_id (st_queue s))"
proof -
  assume c: "coherent s"
  have "map ir_id (map (row_of (room_id s)) (st_queue s)) = map qi_id (st_queue s)"
    by (simp add: row_of_def)
  with c ids_of_queue_rows show ?thesis unfolding coherent_def tables_ok_def by metis
qed

lemma removed_filter:
  assumes "distinct (map qi_id q)"
  shows "(case index_of q i of None \<Rightarrow> q | Some k \<Rightarrow> remove_nth k q) = filter (\<lambda>it. qi_id it \<noteq> i) q"
proof (cases "index_of q i")
  case None
  then have "\<forall>it \<in> set q. qi_id it \<noteq> i" unfolding index_of_None by auto
  with None show ?thesis by simp
next
  case (Some k)
  from index_of_Some [OF Some] show ?thesis
    using remove_nth_filter [of qi_id q k i] assms Some by simp
qed

lemma filter_rows: "filter (\<lambda>r. p (ir_id r)) (map (row_of rid) q) = map (row_of rid) (filter (\<lambda>it. p (qi_id it)) q)"
  by (simp add: filter_map comp_def row_of_def)

lemma quiet_rows:
  assumes "quiet s t"
  shows "room_id t = room_id s" "room_rows (st_db t) rid = room_rows (st_db s) rid"
    "queue_rows (st_db t) rid = queue_rows (st_db s) rid" "tables_ok s \<Longrightarrow> tables_ok t"
    "max_rank (st_db t) rid = max_rank (st_db s) rid" "item_count (st_db t) rid = item_count (st_db s) rid"
proof -
  have i: "d_items (st_db t) = d_items (st_db s)" "d_next (st_db s) \<le> d_next (st_db t)"
    and r: "room_id t = room_id s"
    using assms by (auto simp: quiet_def quiet_db_def)
  show "room_id t = room_id s" "room_rows (st_db t) rid = room_rows (st_db s) rid"
    "queue_rows (st_db t) rid = queue_rows (st_db s) rid"
    "max_rank (st_db t) rid = max_rank (st_db s) rid" "item_count (st_db t) rid = item_count (st_db s) rid"
    using i r by (simp_all add: room_rows_def queue_rows_def max_rank_def item_count_def)
  show "tables_ok s \<Longrightarrow> tables_ok t"
    using i r by (auto simp: tables_ok_def ids_ok_def ranks_ok_def room_rows_def)
qed

lemma coherent_quiet: "coherent s \<Longrightarrow> quiet s t \<Longrightarrow> coherent t"
  using quiet_rows [of s t] by (simp add: coherent_def) (simp add: quiet_def)

lemma headroom_quiet: "headroom s k \<Longrightarrow> quiet s t \<Longrightarrow> headroom t k"
  by (simp add: headroom_def quiet_rows)

text \<open>A store call leaves the room alone but for the tables.\<close>

lemma store_Inr:
  assumes "store f s = (r, t)" and "r \<noteq> Inl InternalErr"
  shows "f (st_db s) = (r, st_db t)" and "st_queue t = st_queue s" and "room_id t = room_id s"
proof -
  show "f (st_db s) = (r, st_db t)" using assms by (cases rule: store_cases) auto
  show "st_queue t = st_queue s" "room_id t = room_id s"
    using store_same [OF assms(1)] by (simp_all add: same_room_def room_id_def)
qed

text \<open>Everything that takes rows out of the queue.\<close>

lemma coherent_filter:
  assumes c: "coherent s" and rows: "room_rows d' (room_id s) = filter (\<lambda>r. p (ir_id r)) (room_rows (st_db s) (room_id s))"
    and ids: "ids_ok d'" and t: "st_db t = d'" "room_id t = room_id s"
    and q: "st_queue t = filter (\<lambda>it. p (qi_id it)) (st_queue s)"
  shows "coherent t"
  using c rows_filtered [OF rows] ids filter_rows [of p]
  by (simp add: coherent_def tables_ok_def t q)

section \<open>The laws\<close>

lemma ids_ok_alt: "ids_ok d \<longleftrightarrow> distinct (map ir_id (d_items d)) \<and> (\<forall>i \<in> set (map ir_id (d_items d)). i < d_next d)"
  by (simp add: ids_ok_def)

lemma ids_ok_map:
  "d_next d' = d_next d \<Longrightarrow> map ir_id (d_items d') = map ir_id (d_items d) \<Longrightarrow> ids_ok d \<Longrightarrow> ids_ok d'"
  unfolding ids_ok_alt by simp

lemma ids_ok_append:
  assumes "ids_ok d" "d_items d' = d_items d @ [r]" "ir_id r = d_next d" "d_next d' = Suc (d_next d)"
  shows "ids_ok d'"
proof -
  have "d_next d \<notin> set (map ir_id (d_items d))" using assms(1) unfolding ids_ok_alt by blast
  then show ?thesis using assms unfolding ids_ok_def by (auto simp: less_Suc_eq)
qed

lemma ids_ok_drop: "ids_ok d \<Longrightarrow> ids_ok (drop_items p d)"
  by (simp add: ids_ok_def drop_items_def Let_def distinct_map_filter)

lemma mark_cases [consumes 1, case_names none some]:
  assumes "mark_queue_item_played rid i now d = (r, d')"
  obtains "d' = d"
    | "d' = d\<lparr>d_items := map (\<lambda>x. if queued_in rid x \<and> ir_id x = i then x\<lparr>ir_played := Some now\<rparr> else x) (d_items d)\<rparr>"
  using assms unfolding mark_queue_item_played_def Let_def
  by (cases "filter (\<lambda>x. queued_in rid x \<and> ir_id x = i) (d_items d) = []")
    (simp_all only: simp_thms if_True if_False prod.inject)

lemma delete_cases [consumes 1, case_names none some]:
  assumes "delete_queue_item rid i d = (r, d')"
  obtains "r = Inl NotFoundErr" "d' = d"
    | "r = Inr ()" "d' = drop_items (\<lambda>r. ir_room r = rid \<and> ir_id r = i) d"
  using assms unfolding delete_queue_item_def Let_def
  by (cases "filter (\<lambda>r. ir_room r = rid \<and> ir_id r = i) (d_items d) = []")
    (simp_all only: simp_thms if_True if_False prod.inject)

lemma mark_ids:
  assumes "mark_queue_item_played rid i now d = (r, d')"
  shows "ids_ok d \<Longrightarrow> ids_ok d'" and "item_count d' rid' = item_count d rid'"
proof -
  let ?hit = "\<lambda>x. queued_in rid x \<and> ir_id x = i"
  have len: "length (filter (\<lambda>r. ir_room r = rid') (map (\<lambda>x. if ?hit x then x\<lparr>ir_played := Some now\<rparr> else x) xs))
     = length (filter (\<lambda>r. ir_room r = rid') xs)" for xs
    by (induction xs) simp_all
  from assms show "ids_ok d'" if "ids_ok d"
    by (cases rule: mark_cases) (use that ids_ok_map [of d' d] in simp_all)
  from assms show "item_count d' rid' = item_count d rid'"
  proof (cases rule: mark_cases)
    case some
    then have "d_items d' = map (\<lambda>x. if ?hit x then x\<lparr>ir_played := Some now\<rparr> else x) (d_items d)" by simp
    then show ?thesis by (simp only: item_count_def len)
  qed simp
qed

lemma coherent_mark:
  assumes c: "coherent s" and st: "store (mark_queue_item_played (room_id s) i (st_now s)) s = (r, t)"
    and r: "r = Inr () \<or> r = Inl NotFoundErr"
  shows "coherent (retire i t)" and "headroom s k \<Longrightarrow> headroom (retire i t) k"
proof -
  have run: "mark_queue_item_played (room_id s) i (st_now s) (st_db s) = (r, st_db t)"
    and q: "st_queue t = st_queue s" and id: "room_id t = room_id s"
    using store_Inr [OF st] r by auto
  have same: "st_db (retire i t) = st_db t" "room_id (retire i t) = room_id s"
    "st_queue (retire i t) = (case index_of (st_queue s) i of None \<Rightarrow> st_queue s | Some k \<Rightarrow> remove_nth k (st_queue s))"
    using q id by (simp_all add: retire_def room_id_def split: option.split)
  have ok: "ids_ok (st_db s)" "ranks_ok (st_db s) (room_id s)" using c by (simp_all add: coherent_def tables_ok_def)
  show "coherent (retire i t)"
    using coherent_filter [OF c mark_played_rows [OF run] mark_ids(1) [OF run ok(1)] same(1,2)]
    unfolding same(3) removed_filter [OF coherent_distinct [OF c]] by simp
  show "headroom (retire i t) k" if "headroom s k"
    using that rows_filtered(3) [OF mark_played_rows [OF run] ok(2)] mark_ids(2) [OF run]
    by (simp add: headroom_def same(1,2))
qed

lemma row_of_named [simp]: "row_of rid (named a it) = row_of rid it"
  by (simp add: named_def row_of_def split: option.split)

lemma coherent_add:
  assumes c: "coherent s" and h: "headroom s (k + 2)"
    and st: "store (add_queue_item (st_now s) (room_id s) mid u) s = (Inr it, t)"
  shows "coherent (t\<lparr>st_queue := st_queue t @ [named a it]\<rparr>)"
    and "headroom (t\<lparr>st_queue := st_queue t @ [named a it]\<rparr>) k"
proof -
  have run: "add_queue_item (st_now s) (room_id s) mid u (st_db s) = (Inr it, st_db t)"
    and q: "st_queue t = st_queue s" and id: "room_id t = room_id s"
    using store_Inr [OF st] by auto
  have ok: "ids_ok (st_db s)" "ranks_ok (st_db s) (room_id s)" using c by (simp_all add: coherent_def tables_ok_def)
  have "max_rank (st_db s) (room_id s) + 1 < 10 ^ 8" using h by (simp add: headroom_def)
  note rows = add_queue_item_rows [OF ok(2) this run]
  have new: "ir_id (row_of (room_id s) it) = d_next (st_db s)" "ir_room (row_of (room_id s) it) = room_id s"
    using rows(5) by (simp_all add: row_of_def)
  have "ids_ok (st_db t)"
    by (rule ids_ok_append [OF ok(1) rows(4) new(1) rows(6)])
  then show "coherent (t\<lparr>st_queue := st_queue t @ [named a it]\<rparr>)"
    using c rows(1,2) id q by (simp add: coherent_def tables_ok_def room_id_def)
  show "headroom (t\<lparr>st_queue := st_queue t @ [named a it]\<rparr>) k"
    using h rows(3,4) new id by (simp add: headroom_def item_count_def room_id_def)
qed

lemma coherent_drop:
  assumes c: "coherent s" and st: "store (delete_queue_item (room_id s) i) s = (Inr u, t)"
  shows "coherent (case index_of (st_queue t) i of None \<Rightarrow> t | Some k \<Rightarrow> t\<lparr>st_queue := remove_nth k (st_queue t)\<rparr>)"
    (is "coherent ?t")
proof -
  have run: "delete_queue_item (room_id s) i (st_db s) = (Inr u, st_db t)"
    and q: "st_queue t = st_queue s" and id: "room_id t = room_id s"
    using store_Inr [OF st] by auto
  from run have d: "st_db t = drop_items (\<lambda>r. ir_room r = room_id s \<and> ir_id r = i) (st_db s)"
    by (cases rule: delete_cases) simp_all
  have rows: "room_rows (st_db t) (room_id s) = filter (\<lambda>r. ir_id r \<noteq> i) (room_rows (st_db s) (room_id s))"
    unfolding d drop_items_rows by (rule filter_cong) (auto simp: room_rows_def queued_in_def)
  have ids: "ids_ok (st_db t)" using c unfolding d by (simp add: ids_ok_drop coherent_def tables_ok_def)
  have "st_queue ?t = (case index_of (st_queue s) i of None \<Rightarrow> st_queue s | Some k \<Rightarrow> remove_nth k (st_queue s))"
    "st_db ?t = st_db t" "room_id ?t = room_id s"
    using q id by (simp_all add: room_id_def split: option.split)
  then show ?thesis
    using coherent_filter [OF c rows ids] unfolding removed_filter [OF coherent_distinct [OF c]] by simp
qed

lemma coherent_clear:
  assumes c: "coherent s" and st: "store (clear_queue (room_id s) cur) s = (Inr u, t)"
  shows "coherent (t\<lparr>st_queue := filter (is_cur cur) (st_queue t)\<rparr>)"
proof -
  have run: "clear_queue (room_id s) cur (st_db s) = (Inr u, st_db t)"
    and q: "st_queue t = st_queue s" and id: "room_id t = room_id s"
    using store_Inr [OF st] by auto
  then have d: "st_db t = drop_items (\<lambda>r. queued_in (room_id s) r \<and> cur \<noteq> Some (ir_id r)) (st_db s)"
    by (simp add: clear_queue_def)
  have rows: "room_rows (st_db t) (room_id s) = filter (\<lambda>r. cur = Some (ir_id r)) (room_rows (st_db s) (room_id s))"
    unfolding d drop_items_rows by (rule filter_cong) (auto simp: room_rows_def)
  have ids: "ids_ok (st_db t)" using c unfolding d by (simp add: ids_ok_drop coherent_def tables_ok_def)
  have f: "filter (is_cur cur) xs = filter (\<lambda>it. cur = Some (qi_id it)) xs" for xs
    by (rule filter_cong) (simp_all add: is_cur_def)
  show ?thesis
    using coherent_filter [OF c rows ids] q id by (simp add: f room_id_def)
qed

lemma coherent_forget:
  assumes c: "coherent s" and st: "store (clear_played (room_id s)) s = (Inr u, t)"
  shows "coherent (t\<lparr>st_played := []\<rparr>)"
proof -
  have run: "clear_played (room_id s) (st_db s) = (Inr u, st_db t)"
    and q: "st_queue t = st_queue s" and id: "room_id t = room_id s"
    using store_Inr [OF st] by auto
  then have d: "st_db t = drop_items (played_in (room_id s)) (st_db s)"
    by (simp add: clear_played_def)
  have rows: "room_rows (st_db t) (room_id s) = filter (\<lambda>r. True) (room_rows (st_db s) (room_id s))"
    unfolding d drop_items_rows by (rule filter_cong) (auto simp: room_rows_def queued_in_def played_in_def)
  have ids: "ids_ok (st_db t)" using c unfolding d by (simp add: ids_ok_drop coherent_def tables_ok_def)
  show ?thesis
    using coherent_filter [OF c rows ids] q id by (simp add: room_id_def)
qed

lemma ranks_ok_count: "ranks_ok d rid \<Longrightarrow> length (room_rows d rid) < 10 ^ 8"
proof -
  assume ok: "ranks_ok d rid"
  have "set (map ir_rank (room_rows d rid)) \<subseteq> fmt_08d ` {1..<10 ^ 8}"
    using ok by (auto simp: ranks_ok_def good_rank_def)
  then have "card (set (map ir_rank (room_rows d rid))) \<le> card (fmt_08d ` {1..<10 ^ 8})"
    by (intro card_mono) simp_all
  also have "\<dots> \<le> card {1..<10 ^ 8 :: nat}" by (rule card_image_le) simp
  finally show ?thesis
    using ok distinct_card [of "map ir_rank (room_rows d rid)"] by (simp add: ranks_ok_def)
qed

lemma coherent_order:
  assumes c: "coherent s" and perm: "distinct (map qi_id (st_queue s)) \<Longrightarrow> mset ordered = mset (st_queue s)"
    and st: "store (set_queue_ranks (room_id s) (map qi_id ordered)) s = (Inr u, t)"
  shows "coherent (t\<lparr>st_queue := renumber ordered\<rparr>)"
proof -
  have run: "set_queue_ranks (room_id s) (map qi_id ordered) (st_db s) = (Inr u, st_db t)"
    and id: "room_id t = room_id s"
    using store_Inr [OF st] by auto
  have ok: "ids_ok (st_db s)" "ranks_ok (st_db s) (room_id s)"
    and rows: "queue_rows (st_db s) (room_id s) = map (row_of (room_id s)) (st_queue s)"
    using c by (simp_all add: coherent_def tables_ok_def)
  have "length (st_queue s) = length (room_rows (st_db s) (room_id s))"
    using rows by (metis length_map mset_eq_length queue_rows_mset)
  then have small: "length (st_queue s) < 10 ^ 8" using ranks_ok_count [OF ok(2)] by simp
  have d: "st_db t = snd (set_queue_ranks (room_id s) (map qi_id ordered) (st_db s))" using run by simp
  note new = set_queue_ranks_rows [OF rows ok(1) perm [OF coherent_distinct [OF c]] small d]
  have "map ir_id (set_ranks_from n rid is rs) = map ir_id rs" for n rid "is" rs
    by (induction n rid "is" rs rule: set_ranks_from.induct) simp_all
  then have "map ir_id (d_items (st_db t)) = map ir_id (d_items (st_db s))" "d_next (st_db t) = d_next (st_db s)"
    unfolding d by (simp_all add: set_queue_ranks_def)
  then have "ids_ok (st_db t)" using ids_ok_map ok(1) by blast
  then show ?thesis using new(1,2) id by (simp add: coherent_def tables_ok_def room_id_def)
qed

lemma tables_requeue:
  assumes c: "coherent s" and h: "headroom s 0" and st: "store (requeue_played (room_id s)) s = (Inr u, t)"
  shows "tables_ok t"
proof -
  have run: "requeue_played (room_id s) (st_db s) = (Inr u, st_db t)" and id: "room_id t = room_id s"
    using store_Inr [OF st] by auto
  have ok: "ids_ok (st_db s)" "ranks_ok (st_db s) (room_id s)" using c by (simp_all add: coherent_def tables_ok_def)
  have "length (filter (\<lambda>r. played_in (room_id s) r) xs) \<le> length (filter (\<lambda>r. ir_room r = room_id s) xs)" for xs
    by (induction xs) (simp_all add: played_in_def)
  then have "length (played_rows (st_db s) (room_id s)) \<le> item_count (st_db s) (room_id s)"
    unfolding played_rows_def item_count_def .
  with h have "max_rank (st_db s) (room_id s) + length (played_rows (st_db s) (room_id s)) < 10 ^ 8"
    unfolding headroom_def by linarith
  moreover have "st_db t = snd (requeue_played (room_id s) (st_db s))" using run by simp
  ultimately show ?thesis
    using requeue_played_rows [OF ok(2,1)] ids_ok_map [of "st_db t" "st_db s"] ok(1) id
    by (simp add: tables_ok_def)
qed

text \<open>What a reload reads: the queue of the tables it finds.\<close>

lemma query_gives:
  "gives (\<lambda>t. c \<and> st_db t = d \<and> st_info t = i) (query f)
     (\<lambda>x t. (c \<and> f d = Inr x) \<and> st_db t = d \<and> st_info t = i)"
proof (rule givesI)
  fix s x t
  assume a: "c \<and> st_db s = d \<and> st_info s = i" and run: "query f s = (Inr x, t)"
  from run [unfolded query_def] show "(c \<and> f d = Inr x) \<and> st_db t = d \<and> st_info t = i"
    by (cases rule: store_cases) (use a in auto)
qed

lemma reload_reads:
  assumes "reload_queue s = (Inr u, t)"
  shows "st_queue t = list_queue (st_db s) (room_id s) \<and> st_db t = st_db s \<and> st_info t = st_info s
    \<and> st_played t = list_played (st_db s) (room_id s) played_kept"
proof -
  let ?q = "\<lambda>d. Inr (list_queue d (room_id s)) :: cerr + queue_item list"
  have put: "gives (\<lambda>t. ((((True \<and> ?q d = Inr items) \<and> Inr (list_played d (room_id s) played_kept) = (Inr pl :: cerr + queue_item list)) \<and> b) \<and> b')
      \<and> st_db t = d \<and> st_info t = i)
     (doc (\<lambda>t. t\<lparr>st_votes := v, st_queue := items, st_played := pl, st_media := m\<rparr>))
     (\<lambda>_ t. st_queue t = list_queue d (room_id s) \<and> st_db t = d \<and> st_info t = i
       \<and> st_played t = list_played d (room_id s) played_kept)" for d i items pl b b' v m
    by (auto simp: gives_def doc_def)
  note chain = gives_bindc [OF query_gives gives_bindc [OF query_gives gives_bindc [OF query_gives
      gives_bindc [OF query_gives put]]]]
  from assms [unfolded reload_queue_def] show ?thesis
    by (rule givesD [OF chain, rotated]) simp
qed

lemma coherent_reload:
  assumes "tables_ok s" and "reload_queue s = (Inr u, t)"
  shows "coherent t"
  using reload_reads [OF assms(2)] assms(1) list_queue_row_of
  by (simp add: coherent_def tables_ok_def room_id_def)

interpretation room: queue_contract coherent tables_ok headroom
proof
  show "coherent t" if "coherent s" "quiet s t" for s t using that by (rule coherent_quiet)
  show "tables_ok t" if "tables_ok s" "quiet s t" for s t using that quiet_rows(4) by blast
  show "headroom t k" if "headroom s k" "quiet s t" for s t k using that by (rule headroom_quiet)
  show "tables_ok s" if "coherent s" for s using that by (simp add: coherent_def)
  show "headroom s j" if "headroom s k" "j \<le> k" for s j k using that by (simp add: headroom_def)
  show "tables_ok s" if "coherent (s\<lparr>st_queue := q\<rparr>)" for s q
    using that by (simp add: coherent_def tables_ok_def room_id_def)
  show "coherent (s\<lparr>st_queue := q\<rparr>)" if "coherent s" "\<not> distinct (map qi_id (st_queue s))" for s q
    using that coherent_distinct by blast
  show "coherent (retire i t) \<and> (headroom s k \<longrightarrow> headroom (retire i t) k)"
    if "coherent s" "store (mark_queue_item_played (room_id s) i (st_now s)) s = (r, t)"
      "r = Inr () \<or> r = Inl NotFoundErr" for s t i r k
    using coherent_mark [OF that] by blast
  show "coherent (t\<lparr>st_queue := st_queue t @ [named a it]\<rparr>) \<and> headroom (t\<lparr>st_queue := st_queue t @ [named a it]\<rparr>) k"
    if "coherent s" "headroom s (k + 2)" "store (add_queue_item (st_now s) (room_id s) mid u) s = (Inr it, t)"
    for s t k mid u it a
    using coherent_add [OF that] by blast
qed (rule coherent_drop coherent_clear coherent_forget coherent_order tables_requeue coherent_reload; assumption)+

section \<open>Other rooms\<close>

text \<open>
  The tables of other rooms are as they were: \<open>X\<close> is what they held.  Ids are primary keys, and
  some statements name rows by id alone.
\<close>

definition others_are :: "uuid \<Rightarrow> item_row list \<times> msg_row list \<times> room_info list \<Rightarrow> st \<Rightarrow> bool" where
  "others_are rid X s \<longleftrightarrow> room_id s = rid \<and> others rid (st_db s) = X \<and> ids_ok (st_db s)"

lemma others_store:
  assumes o': "others_are rid X s" and st: "store f s = (r, t)"
    and db: "\<And>d r d'. f d = (r, d') \<Longrightarrow> ids_ok d \<Longrightarrow> others rid d' = others rid d \<and> ids_ok d'"
  shows "others_are rid X t"
  using st
proof (cases rule: store_cases)
  case fault
  with o' show ?thesis by (simp add: others_are_def room_id_def)
next
  case (run d)
  with o' db [OF run(1)] show ?thesis by (simp add: others_are_def room_id_def)
qed

lemma others_queue [simp]: "others_are rid X (s\<lparr>st_queue := q\<rparr>) = others_are rid X s"
  "others_are rid X (s\<lparr>st_played := pl\<rparr>) = others_are rid X s"
  by (simp_all add: others_are_def room_id_def)

lemma others_retire [simp]: "others_are rid X (retire i s) = others_are rid X s"
  by (simp add: retire_def others_are_def room_id_def split: option.split)

lemma filter_map_other:
  "(\<And>r. ir_room (f r) = ir_room r) \<Longrightarrow> (\<And>r. ir_room r \<noteq> rid \<Longrightarrow> f r = r) \<Longrightarrow>
   filter (\<lambda>r. ir_room r \<noteq> rid) (map f xs) = filter (\<lambda>r. ir_room r \<noteq> rid) xs"
  by (induction xs) simp_all

lemma others_items: "filter (\<lambda>r. ir_room r \<noteq> rid) xs = filter (\<lambda>r. ir_room r \<noteq> rid) (d_items d) \<Longrightarrow>
    others rid (d\<lparr>d_items := xs\<rparr>) = others rid d"
  by (simp add: others_def)

lemma others_append: "ir_room r = rid \<Longrightarrow> others rid (d\<lparr>d_items := d_items d @ [r], d_next := n\<rparr>) = others rid d"
  by (simp add: others_def)

lemma others_drop_items: "(\<And>r. p r \<Longrightarrow> ir_room r = rid) \<Longrightarrow> others rid (drop_items p d) = others rid d"
proof -
  assume p: "\<And>r. p r \<Longrightarrow> ir_room r = rid"
  have "filter (\<lambda>r. ir_room r \<noteq> rid) (filter (\<lambda>r. \<not> p r) xs) = filter (\<lambda>r. ir_room r \<noteq> rid) xs" for xs
    using p by (induction xs) auto
  moreover have "map (\<lambda>i. i\<lparr>ri_current := None\<rparr>) (filter (\<lambda>i. ri_id i \<noteq> rid)
      (map (\<lambda>i. if c i then i\<lparr>ri_current := None\<rparr> else i) xs))
    = map (\<lambda>i. i\<lparr>ri_current := None\<rparr>) (filter (\<lambda>i. ri_id i \<noteq> rid) xs)" for c xs
    by (induction xs) simp_all
  ultimately show ?thesis unfolding others_def drop_items_def Let_def by simp
qed

lemma others_mark:
  assumes "mark_queue_item_played rid i now d = (r, d')" and "ids_ok d"
  shows "others rid d' = others rid d \<and> ids_ok d'"
proof
  show "ids_ok d'" using mark_ids(1) [OF assms] .
  from assms(1) show "others rid d' = others rid d"
  proof (cases rule: mark_cases)
    case some
    show ?thesis unfolding some by (intro others_items filter_map_other) (simp_all add: queued_in_def)
  qed simp
qed

lemma others_add:
  assumes "add_queue_item now rid mid u d = (r, d')" and "ids_ok d"
  shows "others rid d' = others rid d \<and> ids_ok d'"
proof -
  define x where "x = \<lparr>ir_id = d_next d, ir_room = rid, ir_media = mid, ir_added_by = u,
               ir_rank = lpad8 (dec (max_rank d rid + 1)), ir_created = now, ir_played = None\<rparr>"
  have d': "d' = d\<lparr>d_items := d_items d @ [x], d_next := Suc (d_next d)\<rparr>"
    using assms(1) unfolding add_queue_item_def Let_def x_def [symmetric] prod.inject by simp
  have "ir_id x = d_next d" "ir_room x = rid" unfolding x_def by simp_all
  then show ?thesis
    using others_append [where r = x and rid = rid and d = d] ids_ok_append [OF assms(2), of d' x] unfolding d' by simp
qed

lemma others_drops:
  "delete_queue_item rid i d = (r, d') \<Longrightarrow> ids_ok d \<Longrightarrow> others rid d' = others rid d \<and> ids_ok d'"
  "clear_queue rid cur d = (r, d') \<Longrightarrow> ids_ok d \<Longrightarrow> others rid d' = others rid d \<and> ids_ok d'"
  "clear_played rid d = (r, d') \<Longrightarrow> ids_ok d \<Longrightarrow> others rid d' = others rid d \<and> ids_ok d'"
proof -
  show "others rid d' = others rid d \<and> ids_ok d'" if "delete_queue_item rid i d = (r, d')" "ids_ok d"
    using that(1) others_drop_items [of "\<lambda>r. ir_room r = rid \<and> ir_id r = i" rid d]
    by (cases rule: delete_cases) (simp_all add: ids_ok_drop that(2))
  show "others rid d' = others rid d \<and> ids_ok d'" if "clear_queue rid cur d = (r, d')" "ids_ok d"
    using that others_drop_items [of "\<lambda>r. queued_in rid r \<and> cur \<noteq> Some (ir_id r)" rid d]
    by (auto simp: clear_queue_def ids_ok_drop queued_in_def)
  show "others rid d' = others rid d \<and> ids_ok d'" if "clear_played rid d = (r, d')" "ids_ok d"
    using that others_drop_items [of "played_in rid" rid d]
    by (auto simp: clear_played_def ids_ok_drop played_in_def)
qed

lemma set_ranks_ids: "map ir_id (set_ranks_from n rid is rs) = map ir_id rs"
  by (induction n rid "is" rs rule: set_ranks_from.induct) simp_all

lemma others_ranks:
  assumes "set_queue_ranks rid ids d = (r, d')" and "ids_ok d"
  shows "others rid d' = others rid d \<and> ids_ok d'"
proof -
  have "filter (\<lambda>r. ir_room r \<noteq> rid) (set_ranks_from n rid ids rows) = filter (\<lambda>r. ir_room r \<noteq> rid) rows" for n rows
    by (induction n rid ids rows rule: set_ranks_from.induct) (simp_all add: filter_map_other)
  moreover have "d' = d\<lparr>d_items := set_ranks_from 1 rid ids (d_items d)\<rparr>"
    using assms(1) by (simp add: set_queue_ranks_def)
  ultimately show ?thesis
    using ids_ok_map [of d' d] assms(2) by (simp add: others_items set_ranks_ids)
qed

lemma others_requeue:
  assumes "requeue_played rid d = (r, d')" and ok: "ids_ok d"
  shows "others rid d' = others rid d \<and> ids_ok d'"
proof -
  let ?ord = "map ir_id (sort_key (\<lambda>r. (the (ir_played r), ir_created r)) (filter (played_in rid) (d_items d)))"
  define f :: "item_row \<Rightarrow> item_row" where "f = (\<lambda>r. case find_index (\<lambda>i. i = ir_id r) ?ord of None \<Rightarrow> r
     | Some k \<Rightarrow> r\<lparr>ir_played := None, ir_rank := lpad8 (dec (max_rank d rid + k + 1))\<rparr>)"
  have d': "d' = d\<lparr>d_items := map f (d_items d)\<rparr>"
    using assms(1) unfolding requeue_played_def Let_def f_def [symmetric] prod.inject by simp
  have same: "ir_room (f r) = ir_room r" "ir_id (f r) = ir_id r" for r
    by (simp_all add: f_def split: option.split)
  have other: "f r = r" if r: "r \<in> set (d_items d)" "ir_room r \<noteq> rid" for r
  proof -
    have "ir_id r \<notin> ir_id ` {x \<in> set (d_items d). played_in rid x}"
    proof
      assume "ir_id r \<in> ir_id ` {x \<in> set (d_items d). played_in rid x}"
      then obtain x where "x \<in> set (d_items d)" "played_in rid x" "ir_id x = ir_id r" by auto
      moreover from this r(1) ok have "x = r" unfolding ids_ok_def by (metis distinct_map inj_on_def)
      ultimately show False using r(2) by (simp add: played_in_def)
    qed
    then have "ir_id r \<notin> set ?ord" by auto
    then have "find_index (\<lambda>i. i = ir_id r) ?ord = None" unfolding find_index_None by metis
    then show ?thesis by (simp add: f_def)
  qed
  have "filter (\<lambda>r. ir_room r \<noteq> rid) (map f (d_items d)) = map f (filter (\<lambda>r. ir_room r \<noteq> rid) (d_items d))"
    by (simp add: filter_map comp_def same)
  also have "\<dots> = filter (\<lambda>r. ir_room r \<noteq> rid) (d_items d)"
    using other by (intro map_idI) simp
  finally show ?thesis
    using ids_ok_map [of d' d] ok unfolding d' by (simp add: others_items same comp_def)
qed

interpretation others: queue_contract "others_are rid X" "others_are rid X" "\<lambda>_ _. True" for rid X
proof
  show "others_are rid X t" if "others_are rid X s" "quiet s t" for s t
    using that by (auto simp: others_are_def quiet_def quiet_db_def ids_ok_def)
  show "others_are rid X s" if "others_are rid X (s\<lparr>st_queue := q\<rparr>)" for s q
    using that by simp
  show "others_are rid X (s\<lparr>st_queue := q\<rparr>)" if "others_are rid X s" for s q
    using that by simp
  have id: "room_id s = rid" if "others_are rid X s" for s using that by (simp add: others_are_def)
  show "others_are rid X (retire i t) \<and> (True \<longrightarrow> True)"
    if "others_are rid X s" "store (mark_queue_item_played (room_id s) i (st_now s)) s = (r, t)" for s t i r
    using others_store [OF that] others_mark id [OF that(1)] by simp
  show "others_are rid X (t\<lparr>st_queue := st_queue t @ [named a it]\<rparr>) \<and> True"
    if "others_are rid X s" "store (add_queue_item (st_now s) (room_id s) mid u) s = (Inr it, t)" for s t mid u it a
    using others_store [OF that] others_add id [OF that(1)] by simp
  show "others_are rid X (case index_of (st_queue t) i of None \<Rightarrow> t | Some k \<Rightarrow> t\<lparr>st_queue := remove_nth k (st_queue t)\<rparr>)"
    if "others_are rid X s" "store (delete_queue_item (room_id s) i) s = (Inr u, t)" for s t i u
    using others_store [OF that] others_drops(1) id [OF that(1)] by (simp split: option.split)
  show "others_are rid X (t\<lparr>st_queue := filter (is_cur cur) (st_queue t)\<rparr>)"
    if "others_are rid X s" "store (clear_queue (room_id s) cur) s = (Inr u, t)" for s t cur u
    using others_store [OF that] others_drops(2) id [OF that(1)] by simp
  show "others_are rid X (t\<lparr>st_played := []\<rparr>)"
    if "others_are rid X s" "store (clear_played (room_id s)) s = (Inr u, t)" for s t u
    using others_store [OF that] others_drops(3) id [OF that(1)] by simp
  show "others_are rid X (t\<lparr>st_queue := renumber ordered\<rparr>)"
    if "others_are rid X s" "store (set_queue_ranks (room_id s) (map qi_id ordered)) s = (Inr u, t)" for s t ordered u
    using others_store [OF that] others_ranks id [OF that(1)] by simp
  show "others_are rid X t" if "others_are rid X s" "store (requeue_played (room_id s)) s = (Inr u, t)" for s t u
    using others_store [OF that] others_requeue id [OF that(1)] by simp
  show "others_are rid X t" if "others_are rid X s" "reload_queue s = (Inr u, t)" for s t u
    using reload_reads [OF that(2)] that(1) by (simp add: others_are_def room_id_def)
qed simp_all

section \<open>The history in memory\<close>

definition short_history :: "st \<Rightarrow> bool" where
  "short_history s \<longleftrightarrow> length (st_played s) \<le> played_kept"

lemma short_retire: "short_history s \<Longrightarrow> short_history (retire i s)"
  by (simp add: short_history_def retire_def split: option.split)

lemma short_store: "store f s = (r, t) \<Longrightarrow> short_history t = short_history s"
  using store_same [of f s r t] by (simp add: short_history_def)

interpretation history: queue_contract short_history short_history "\<lambda>_ _. True"
proof
  show "short_history t" if "short_history s" "quiet s t" for s t
    using that by (simp add: short_history_def quiet_def)
  show "short_history s" if "short_history (s\<lparr>st_queue := q\<rparr>)" for s q
    using that by (simp add: short_history_def)
  show "short_history (s\<lparr>st_queue := q\<rparr>)" if "short_history s" for s q
    using that by (simp add: short_history_def)
  show "short_history (retire i t) \<and> (True \<longrightarrow> True)"
    if "short_history s" "store (mark_queue_item_played (room_id s) i (st_now s)) s = (r, t)" for s t i r
    using short_store [OF that(2)] that(1) short_retire by simp
  show "short_history (t\<lparr>st_queue := st_queue t @ [named a it]\<rparr>) \<and> True"
    if "short_history s" "store (add_queue_item (st_now s) (room_id s) mid u) s = (Inr it, t)" for s t mid u it a
    using short_store [OF that(2)] that(1) by (simp add: short_history_def)
  show "short_history (case index_of (st_queue t) i of None \<Rightarrow> t | Some k \<Rightarrow> t\<lparr>st_queue := remove_nth k (st_queue t)\<rparr>)"
    if "short_history s" "store (delete_queue_item (room_id s) i) s = (Inr u, t)" for s t i u
    using short_store [OF that(2)] that(1) by (simp add: short_history_def split: option.split)
  show "short_history (t\<lparr>st_queue := filter (is_cur cur) (st_queue t)\<rparr>)"
    if "short_history s" "store (clear_queue (room_id s) cur) s = (Inr u, t)" for s t cur u
    using short_store [OF that(2)] that(1) by (simp add: short_history_def)
  show "short_history (t\<lparr>st_played := []\<rparr>)" for t
    by (simp add: short_history_def)
  show "short_history (t\<lparr>st_queue := renumber ordered\<rparr>)"
    if "short_history s" "store (set_queue_ranks (room_id s) (map qi_id ordered)) s = (Inr u, t)" for s t ordered u
    using short_store [OF that(2)] that(1) by (simp add: short_history_def)
  show "short_history t" if "short_history s" "store (requeue_played (room_id s)) s = (Inr u, t)" for s t u
    using short_store [OF that(2)] that(1) by simp
  show "short_history t" if "short_history s" "reload_queue s = (Inr u, t)" for s t u
    using reload_reads [OF that(2)] by (simp add: short_history_def list_played_def)
qed simp_all

end
