(* ===== verification/Members.thy ===== *)
theory Members
  imports Repository
begin

text \<open>
  The membership tables: \<open>repository/members.go\<close>, \<open>invites.go\<close>, \<open>invite_links.go\<close> and the
  room rows' ownership in \<open>rooms.go\<close>.  A primary key is kept by the statements themselves: an
  insert of a key that is there updates the row, does nothing or answers a conflict, as its
  \<open>ON CONFLICT\<close> clause says.
\<close>

section \<open>Members\<close>

definition find_member :: "db \<Rightarrow> uuid \<Rightarrow> uuid \<Rightarrow> room_member option" where
  "find_member d rid uid = find (\<lambda>m. rm_room m = rid \<and> rm_user m = uid) (d_members d)"

definition add_member :: "time \<Rightarrow> uuid \<Rightarrow> uuid \<Rightarrow> room_role \<Rightarrow> db \<Rightarrow> db" where
  "add_member now rid uid role d =
     d\<lparr>d_members := d_members d @ [\<lparr>rm_room = rid, rm_user = uid, rm_username = '''', rm_role = role,
        rm_joined = now\<rparr>]\<rparr>"

definition map_member :: "uuid \<Rightarrow> uuid \<Rightarrow> (room_member \<Rightarrow> room_member) \<Rightarrow> db \<Rightarrow> db" where
  "map_member rid uid f d =
     d\<lparr>d_members := map (\<lambda>m. if rm_room m = rid \<and> rm_user m = uid then f m else m) (d_members d)\<rparr>"

text \<open>The foreign keys of a new row: the room and the user must be there.\<close>

definition refs_ok :: "db \<Rightarrow> uuid \<Rightarrow> uuid \<Rightarrow> bool" where
  "refs_ok d rid uid \<longleftrightarrow> find_room d rid \<noteq> None \<and> (\<exists>u \<in> set (d_users d). u_id u = uid)"

text \<open>The owner's row is never touched through \<open>UpsertMember\<close> and \<open>DeleteMember\<close>.\<close>

definition upsert_member :: "time \<Rightarrow> uuid \<Rightarrow> uuid \<Rightarrow> room_role \<Rightarrow> db \<Rightarrow> unit outcome" where
  "upsert_member now rid uid role d =
     (case find_member d rid uid of
        None \<Rightarrow> if refs_ok d rid uid then (Inr (), add_member now rid uid role d) else (Inl InternalErr, d)
      | Some _ \<Rightarrow> (Inr (), map_member rid uid
          (\<lambda>m. if rm_role m \<noteq> RoleOwner then m\<lparr>rm_role := role\<rparr> else m) d))"

definition delete_member :: "uuid \<Rightarrow> uuid \<Rightarrow> db \<Rightarrow> unit outcome" where
  "delete_member rid uid d =
     (let hit = (\<lambda>m. rm_room m = rid \<and> rm_user m = uid \<and> rm_role m \<noteq> RoleOwner) in
      if \<exists>m \<in> set (d_members d). hit m
      then (Inr (), d\<lparr>d_members := filter (\<lambda>m. \<not> hit m) (d_members d)\<rparr>) else (Inl NotFoundErr, d))"

definition role_rank :: "room_role \<Rightarrow> nat" where
  "role_rank r = (case r of RoleOwner \<Rightarrow> 0 | RoleModerator \<Rightarrow> 1 | _ \<Rightarrow> 2)"

definition list_members :: "db \<Rightarrow> uuid \<Rightarrow> room_member list" where
  "list_members d rid =
     sort_key (\<lambda>m. (role_rank (rm_role m), rm_username m))
       (List.map_filter (\<lambda>m. if rm_room m = rid
          then (case get_user d (rm_user m) of Inl _ \<Rightarrow> None | Inr u \<Rightarrow> Some (m\<lparr>rm_username := u_name u\<rparr>))
          else None) (d_members d))"

definition count_members :: "db \<Rightarrow> uuid \<Rightarrow> nat" where
  "count_members d rid = length (filter (\<lambda>m. rm_room m = rid) (d_members d))"

section \<open>Bans and mutes\<close>

definition get_ban :: "db \<Rightarrow> uuid \<Rightarrow> uuid \<Rightarrow> cerr + room_ban" where
  "get_ban d rid uid =
     (case find (\<lambda>b. rb_room b = rid \<and> rb_user b = uid) (d_bans d) of
        None \<Rightarrow> Inl NotFoundErr
      | Some b \<Rightarrow> (case get_user d uid of Inl e \<Rightarrow> Inl e | Inr u \<Rightarrow> Inr (b\<lparr>rb_username := u_name u\<rparr>)))"

definition list_bans :: "db \<Rightarrow> uuid \<Rightarrow> room_ban list" where
  "list_bans d rid =
     sort_key (\<lambda>b. - rb_created b)
       (List.map_filter (\<lambda>b. if rb_room b = rid
          then (case get_user d (rb_user b) of Inl _ \<Rightarrow> None | Inr u \<Rightarrow> Some (b\<lparr>rb_username := u_name u\<rparr>))
          else None) (d_bans d))"

definition create_ban :: "time \<Rightarrow> uuid \<Rightarrow> uuid \<Rightarrow> uuid \<Rightarrow> string \<Rightarrow> db \<Rightarrow> unit outcome" where
  "create_ban now rid uid by' reason d =
     (if \<exists>b \<in> set (d_bans d). rb_room b = rid \<and> rb_user b = uid
      then (Inr (), d\<lparr>d_bans := map (\<lambda>b. if rb_room b = rid \<and> rb_user b = uid
             then b\<lparr>rb_banned_by := Some by', rb_reason := reason, rb_created := now\<rparr> else b) (d_bans d)\<rparr>)
      else if \<not> refs_ok d rid uid then (Inl InternalErr, d)
      else (Inr (), d\<lparr>d_bans := d_bans d @ [\<lparr>rb_room = rid, rb_user = uid, rb_username = '''',
             rb_banned_by = Some by', rb_reason = reason, rb_created = now\<rparr>]\<rparr>))"

definition delete_ban :: "uuid \<Rightarrow> uuid \<Rightarrow> db \<Rightarrow> unit outcome" where
  "delete_ban rid uid d =
     (if \<exists>b \<in> set (d_bans d). rb_room b = rid \<and> rb_user b = uid
      then (Inr (), d\<lparr>d_bans := filter (\<lambda>b. \<not> (rb_room b = rid \<and> rb_user b = uid)) (d_bans d)\<rparr>)
      else (Inl NotFoundErr, d))"

definition get_mute :: "db \<Rightarrow> uuid \<Rightarrow> uuid \<Rightarrow> cerr + room_mute" where
  "get_mute d rid uid =
     (case find (\<lambda>m. mu_room m = rid \<and> mu_user m = uid) (d_mutes d) of
        None \<Rightarrow> Inl NotFoundErr
      | Some m \<Rightarrow> (case get_user d uid of Inl e \<Rightarrow> Inl e | Inr u \<Rightarrow> Inr (m\<lparr>mu_username := u_name u\<rparr>)))"

definition list_mutes :: "db \<Rightarrow> uuid \<Rightarrow> time \<Rightarrow> room_mute list" where
  "list_mutes d rid now =
     sort_key (\<lambda>m. - mu_until m)
       (List.map_filter (\<lambda>m. if mu_room m = rid \<and> now < mu_until m
          then (case get_user d (mu_user m) of Inl _ \<Rightarrow> None | Inr u \<Rightarrow> Some (m\<lparr>mu_username := u_name u\<rparr>))
          else None) (d_mutes d))"

definition set_mute :: "time \<Rightarrow> uuid \<Rightarrow> uuid \<Rightarrow> uuid \<Rightarrow> string \<Rightarrow> time \<Rightarrow> db \<Rightarrow> unit outcome" where
  "set_mute now rid uid by' reason until d =
     (if \<exists>m \<in> set (d_mutes d). mu_room m = rid \<and> mu_user m = uid
      then (Inr (), d\<lparr>d_mutes := map (\<lambda>m. if mu_room m = rid \<and> mu_user m = uid
             then m\<lparr>mu_muted_by := Some by', mu_reason := reason, mu_until := until, mu_created := now\<rparr>
             else m) (d_mutes d)\<rparr>)
      else if \<not> refs_ok d rid uid then (Inl InternalErr, d)
      else (Inr (), d\<lparr>d_mutes := d_mutes d @ [\<lparr>mu_room = rid, mu_user = uid, mu_username = '''',
             mu_muted_by = Some by', mu_reason = reason, mu_until = until, mu_created = now\<rparr>]\<rparr>))"

definition delete_mute :: "uuid \<Rightarrow> uuid \<Rightarrow> db \<Rightarrow> unit outcome" where
  "delete_mute rid uid d =
     (if \<exists>m \<in> set (d_mutes d). mu_room m = rid \<and> mu_user m = uid
      then (Inr (), d\<lparr>d_mutes := filter (\<lambda>m. \<not> (mu_room m = rid \<and> mu_user m = uid)) (d_mutes d)\<rparr>)
      else (Inl NotFoundErr, d))"

section \<open>Invites\<close>

definition room_name_slug :: "db \<Rightarrow> uuid \<Rightarrow> (string \<times> string) option" where
  "room_name_slug d rid = map_option (\<lambda>r. (ri_slug r, ri_name r)) (find (\<lambda>r. ri_id r = rid) (d_rooms d))"

text \<open>The columns of an invite that come from the joined rooms and users.\<close>

definition join_invite :: "db \<Rightarrow> invite \<Rightarrow> invite option" where
  "join_invite d i = map_option (\<lambda>sn. i\<lparr>iv_room_slug := fst sn, iv_room_name := snd sn,
      iv_inviter_name := username_of d (iv_inviter i)\<rparr>) (room_name_slug d (iv_room i))"

definition get_invite :: "db \<Rightarrow> uuid \<Rightarrow> cerr + invite" where
  "get_invite d i = (case find (\<lambda>v. iv_id v = i) (d_invites d) of
      None \<Rightarrow> Inl NotFoundErr
    | Some v \<Rightarrow> (case join_invite d v of None \<Rightarrow> Inl NotFoundErr | Some w \<Rightarrow> Inr w))"

definition create_invite :: "time \<Rightarrow> uuid \<Rightarrow> uuid \<Rightarrow> uuid \<Rightarrow> db \<Rightarrow> invite outcome" where
  "create_invite now rid invitee inviter d =
     (case find (\<lambda>v. iv_room v = rid \<and> iv_invitee v = invitee) (d_invites d) of
        None \<Rightarrow> if \<not> refs_ok d rid invitee then (Inl InternalErr, d)
          else let d' = d\<lparr>d_invites := d_invites d @ [\<lparr>iv_id = d_next d, iv_room = rid, iv_room_slug = '''',
                 iv_room_name = '''', iv_invitee = invitee, iv_inviter = Some inviter,
                 iv_inviter_name = '''', iv_status = InvitePending, iv_created = now\<rparr>],
               d_next := Suc (d_next d)\<rparr>
          in (get_invite d' (d_next d), d')
      | Some v \<Rightarrow>
          if iv_status v = InvitePending then (Inl ConflictErr, d)
          else let d' = d\<lparr>d_invites := map (\<lambda>w. if iv_room w = rid \<and> iv_invitee w = invitee
                   then w\<lparr>iv_status := InvitePending, iv_inviter := Some inviter, iv_created := now\<rparr>
                   else w) (d_invites d)\<rparr>
            in (get_invite d' (iv_id v), d'))"

definition list_pending_invites :: "db \<Rightarrow> uuid \<Rightarrow> invite list" where
  "list_pending_invites d uid =
     sort_key (\<lambda>v. - iv_created v) (List.map_filter
       (\<lambda>v. if iv_invitee v = uid \<and> iv_status v = InvitePending then join_invite d v else None)
       (d_invites d))"

definition set_invite :: "uuid \<Rightarrow> invite_status \<Rightarrow> db \<Rightarrow> db" where
  "set_invite i st d = d\<lparr>d_invites := map (\<lambda>v. if iv_id v = i \<and> iv_status v = InvitePending
     then v\<lparr>iv_status := st\<rparr> else v) (d_invites d)\<rparr>"

text \<open>\<open>ON CONFLICT DO NOTHING\<close>: somebody who is a member stays what they are.\<close>

definition join_member :: "time \<Rightarrow> uuid \<Rightarrow> uuid \<Rightarrow> db \<Rightarrow> db" where
  "join_member now rid uid d =
     (case find_member d rid uid of None \<Rightarrow> add_member now rid uid RoleMember d | Some _ \<Rightarrow> d)"

definition accept_invite :: "time \<Rightarrow> uuid \<Rightarrow> db \<Rightarrow> unit outcome" where
  "accept_invite now i d =
     (case find (\<lambda>v. iv_id v = i \<and> iv_status v = InvitePending) (d_invites d) of
        None \<Rightarrow> (Inl NotFoundErr, d)
      | Some v \<Rightarrow> (Inr (), join_member now (iv_room v) (iv_invitee v) (set_invite i InviteAccepted d)))"

definition decline_invite :: "uuid \<Rightarrow> db \<Rightarrow> unit outcome" where
  "decline_invite i d =
     (if \<exists>v \<in> set (d_invites d). iv_id v = i \<and> iv_status v = InvitePending
      then (Inr (), set_invite i InviteDeclined d) else (Inl NotFoundErr, d))"

section \<open>Invite links\<close>

text \<open>\<open>d_links\<close> holds each link with the hash of its token, which is unique.\<close>

definition join_link :: "db \<Rightarrow> invite_link \<Rightarrow> invite_link option" where
  "join_link d l = map_option (\<lambda>sn. l\<lparr>il_room_slug := fst sn, il_room_name := snd sn,
      il_creator := username_of d (il_created_by l)\<rparr>) (room_name_slug d (il_room l))"

definition link_found :: "db \<Rightarrow> (string \<times> invite_link) option \<Rightarrow> cerr + invite_link" where
  "link_found d hl = (case hl of None \<Rightarrow> Inl NotFoundErr
    | Some x \<Rightarrow> (case join_link d (snd x) of None \<Rightarrow> Inl NotFoundErr | Some l \<Rightarrow> Inr l))"

definition get_invite_link :: "db \<Rightarrow> uuid \<Rightarrow> cerr + invite_link" where
  "get_invite_link d i = link_found d (find (\<lambda>hl. il_id (snd hl) = i) (d_links d))"

definition get_invite_link_by_token :: "db \<Rightarrow> string \<Rightarrow> cerr + invite_link" where
  "get_invite_link_by_token d h = link_found d (find (\<lambda>hl. fst hl = h) (d_links d))"

definition create_invite_link :: "time \<Rightarrow> uuid \<Rightarrow> string \<Rightarrow> uuid \<Rightarrow> time option \<Rightarrow> int option \<Rightarrow> db
    \<Rightarrow> invite_link outcome" where
  "create_invite_link now rid h by' expires limit d =
     (if \<exists>hl \<in> set (d_links d). fst hl = h then (Inl ConflictErr, d)
      else if \<not> refs_ok d rid by' then (Inl InternalErr, d)
      else let d' = d\<lparr>d_links := d_links d @ [(h, \<lparr>il_id = d_next d, il_room = rid, il_room_slug = '''',
               il_room_name = '''', il_created_by = Some by', il_creator = '''', il_expires = expires,
               il_max_uses = limit, il_uses = 0, il_revoked = None, il_created = now\<rparr>)],
             d_next := Suc (d_next d)\<rparr>
        in (get_invite_link d' (d_next d), d'))"

definition list_invite_links :: "db \<Rightarrow> uuid \<Rightarrow> invite_link list" where
  "list_invite_links d rid =
     sort_key (\<lambda>l. - il_created l)
       (List.map_filter (\<lambda>hl. if il_room (snd hl) = rid then join_link d (snd hl) else None) (d_links d))"

definition map_link :: "(invite_link \<Rightarrow> bool) \<Rightarrow> (invite_link \<Rightarrow> invite_link) \<Rightarrow> db \<Rightarrow> db" where
  "map_link hit f d = d\<lparr>d_links := map (\<lambda>hl. if hit (snd hl) then (fst hl, f (snd hl)) else hl) (d_links d)\<rparr>"

definition revoke_invite_link :: "time \<Rightarrow> uuid \<Rightarrow> uuid \<Rightarrow> db \<Rightarrow> unit outcome" where
  "revoke_invite_link now rid i d =
     (let hit = (\<lambda>l. il_room l = rid \<and> il_id l = i \<and> il_revoked l = None) in
      if \<exists>hl \<in> set (d_links d). hit (snd hl)
      then (Inr (), map_link hit (\<lambda>l. l\<lparr>il_revoked := Some now\<rparr>) d) else (Inl NotFoundErr, d))"

text \<open>The use is charged and the membership made in one transaction.\<close>

definition link_open :: "time \<Rightarrow> uuid \<Rightarrow> invite_link \<Rightarrow> bool" where
  "link_open now i l \<longleftrightarrow> il_id l = i \<and> il_revoked l = None
     \<and> (case il_expires l of None \<Rightarrow> True | Some e \<Rightarrow> now < e)
     \<and> (case il_max_uses l of None \<Rightarrow> True | Some n \<Rightarrow> il_uses l < n)"

definition use_invite_link :: "time \<Rightarrow> time \<Rightarrow> uuid \<Rightarrow> uuid \<Rightarrow> db \<Rightarrow> unit outcome" where
  "use_invite_link now at_now i uid d =
     (case find (\<lambda>hl. link_open at_now i (snd hl)) (d_links d) of
        None \<Rightarrow> (Inl ConflictErr, d)
      | Some hl \<Rightarrow>
          if find_member d (il_room (snd hl)) uid = None \<and> \<not> refs_ok d (il_room (snd hl)) uid
          then (Inl InternalErr, d)
          else (Inr (), join_member now (il_room (snd hl)) uid
                 (map_link (link_open at_now i) (\<lambda>l. l\<lparr>il_uses := il_uses l + 1\<rparr>) d)))"

section \<open>Rooms: slugs, ownership, deletion\<close>

definition forget_slug :: "string \<Rightarrow> db \<Rightarrow> db" where
  "forget_slug slug d = d\<lparr>d_slugs := filter (\<lambda>h. fst h \<noteq> slug) (d_slugs d)\<rparr>"

definition create_room :: "time \<Rightarrow> string \<Rightarrow> string \<Rightarrow> uuid \<Rightarrow> visibility \<Rightarrow> settings \<Rightarrow> db
    \<Rightarrow> room_info outcome" where
  "create_room now slug name owner vis p d =
     (if \<exists>r \<in> set (d_rooms d). ri_slug r = slug then (Inl ConflictErr, d)
      else if \<not> (\<exists>u \<in> set (d_users d). u_id u = owner) then (Inl InternalErr, d)
      else let r = \<lparr>ri_id = d_next d, ri_slug = slug, ri_name = name, ri_owner = owner,
               ri_visibility = vis, ri_description = '''', ri_settings = p, ri_current = None,
               ri_playing = False, ri_position_ms = 0, ri_position_at = now, ri_rate = 1,
               ri_pinned = None, ri_scheduled = None, ri_created = now, ri_updated = now\<rparr>;
             d1 = forget_slug slug d
        in (Inr r, add_member now (d_next d) owner RoleOwner
             (d1\<lparr>d_rooms := d_rooms d1 @ [r], d_next := Suc (d_next d1)\<rparr>)))"

text \<open>A current slug wins over a former one.\<close>

definition get_room_by_slug :: "db \<Rightarrow> string \<Rightarrow> cerr + room_info" where
  "get_room_by_slug d slug =
     (case find (\<lambda>r. ri_slug r = slug) (d_rooms d) of
        Some r \<Rightarrow> Inr r
      | None \<Rightarrow> (case map_of (d_slugs d) slug of
          None \<Rightarrow> Inl NotFoundErr
        | Some rid \<Rightarrow> get_room d rid))"

definition remember_slug :: "uuid \<Rightarrow> string \<Rightarrow> db \<Rightarrow> db" where
  "remember_slug rid slug d =
     (case find_room d rid of
        None \<Rightarrow> d
      | Some r \<Rightarrow> if ri_slug r = slug then d
          else d\<lparr>d_slugs := (ri_slug r, rid) # filter (\<lambda>h. fst h \<noteq> ri_slug r) (d_slugs d)\<rparr>)"

definition update_room :: "time \<Rightarrow> uuid \<Rightarrow> string \<Rightarrow> string \<Rightarrow> visibility \<Rightarrow> string \<Rightarrow> time option \<Rightarrow> db
    \<Rightarrow> room_info outcome" where
  "update_room now rid slug name vis descr sched d =
     (case find_room d rid of
        None \<Rightarrow> (Inl NotFoundErr, d)
      | Some r \<Rightarrow>
          if \<exists>x \<in> set (d_rooms d). ri_id x \<noteq> rid \<and> ri_slug x = slug then (Inl ConflictErr, d)
          else let r' = r\<lparr>ri_slug := slug, ri_name := name, ri_visibility := vis,
                           ri_description := descr, ri_scheduled := sched, ri_updated := now\<rparr>
            in (Inr r', map_room rid (\<lambda>_. r') (forget_slug slug (remember_slug rid slug d))))"

definition transfer_ownership :: "time \<Rightarrow> uuid \<Rightarrow> uuid \<Rightarrow> uuid \<Rightarrow> db \<Rightarrow> unit outcome" where
  "transfer_ownership now rid from to d =
     (if find_member d rid to = None then (Inl NotFoundErr, d)
      else (Inr (), map_room rid (\<lambda>r. r\<lparr>ri_owner := to, ri_updated := now\<rparr>)
             (map_member rid from (\<lambda>m. m\<lparr>rm_role := RoleModerator\<rparr>)
               (map_member rid to (\<lambda>m. m\<lparr>rm_role := RoleOwner\<rparr>) d))))"

text \<open>What \<open>ON DELETE CASCADE\<close> takes along.\<close>

definition delete_room :: "uuid \<Rightarrow> db \<Rightarrow> unit outcome" where
  "delete_room rid d =
     (if find_room d rid = None then (Inl NotFoundErr, d)
      else let items = ir_id ` set (filter (\<lambda>r. ir_room r = rid) (d_items d)) in
       (Inr (), d\<lparr>d_rooms := filter (\<lambda>r. ri_id r \<noteq> rid) (d_rooms d),
          d_members := filter (\<lambda>m. rm_room m \<noteq> rid) (d_members d),
          d_items := filter (\<lambda>r. ir_room r \<noteq> rid) (d_items d),
          d_votes := filter (\<lambda>v. fst v \<notin> items) (d_votes d),
          d_messages := filter (\<lambda>r. mr_room r \<noteq> rid) (d_messages d),
          d_bans := filter (\<lambda>b. rb_room b \<noteq> rid) (d_bans d),
          d_mutes := filter (\<lambda>m. mu_room m \<noteq> rid) (d_mutes d),
          d_invites := filter (\<lambda>v. iv_room v \<noteq> rid) (d_invites d),
          d_links := filter (\<lambda>hl. il_room (snd hl) \<noteq> rid) (d_links d),
          d_stars := filter (\<lambda>s. snd s \<noteq> rid) (d_stars d),
          d_slugs := filter (\<lambda>h. snd h \<noteq> rid) (d_slugs d)\<rparr>))"

definition set_star :: "uuid \<Rightarrow> uuid \<Rightarrow> bool \<Rightarrow> db \<Rightarrow> unit outcome" where
  "set_star uid rid on d =
     (if on then if (uid, rid) \<in> set (d_stars d) then (Inr (), d)
        else if refs_ok d rid uid then (Inr (), d\<lparr>d_stars := d_stars d @ [(uid, rid)]\<rparr>)
        else (Inl InternalErr, d)
      else (Inr (), d\<lparr>d_stars := filter (\<lambda>s. s \<noteq> (uid, rid)) (d_stars d)\<rparr>))"

definition is_starred :: "db \<Rightarrow> uuid \<Rightarrow> uuid \<Rightarrow> bool" where
  "is_starred d uid rid \<longleftrightarrow> (uid, rid) \<in> set (d_stars d)"

definition list_upcoming_for_user :: "db \<Rightarrow> uuid \<Rightarrow> time \<Rightarrow> time \<Rightarrow> (string \<times> string \<times> time) list" where
  "list_upcoming_for_user d uid now until =
     sort_key (\<lambda>x. snd (snd x)) (List.map_filter (\<lambda>r. case ri_scheduled r of
         None \<Rightarrow> None
       | Some t \<Rightarrow> if now < t \<and> t \<le> until \<and> find_member d (ri_id r) uid \<noteq> None
           then Some (ri_slug r, ri_name r, t) else None) (d_rooms d))"

text \<open>The query leaves the pinned message out.\<close>

definition list_rooms_for_user :: "db \<Rightarrow> uuid \<Rightarrow> (room_info \<times> room_role) list" where
  "list_rooms_for_user d uid =
     List.map_filter (\<lambda>m. map_option (\<lambda>r. (r\<lparr>ri_pinned := None\<rparr>, rm_role m)) (find_room d (rm_room m)))
       (sort_key (\<lambda>m. - rm_joined m) (filter (\<lambda>m. rm_user m = uid) (d_members d)))"

end
