(* ===== verification/Hub.thy ===== *)
theory Hub
  imports Room_Coherent Protocol Members
begin

text \<open>
  \<open>internal/hub\<close> and \<open>apihttp.Server.actorFor\<close>: what a WebSocket connection does with a
  message.  \<open>command\<close> is the switch of \<open>dispatch\<close>: the room command a message stands for;
  \<open>dispatch\<close> puts the resolving of the actor before it and the error message after it.  A
  connection's outgoing queue is \<open>outbox\<close>.
\<close>

section \<open>Outgoing messages\<close>

definition send_buffer :: nat where
  "send_buffer = 256"

definition reason_slow :: string where
  "reason_slow = ''slow client''"

definition reason_write_failed :: string where
  "reason_write_failed = ''write failed''"

definition reason_bye :: string where
  "reason_bye = ''bye''"

definition reason_shutdown :: string where
  "reason_shutdown = ''server restarting''"

record outbox =
  ob_out :: "server_msg list"
  ob_closed :: "string option"

text \<open>Only the first \<open>Close\<close> counts.\<close>

definition conn_close :: "string \<Rightarrow> outbox \<Rightarrow> outbox" where
  "conn_close reason o' = (if ob_closed o' = None then o'\<lparr>ob_closed := Some reason\<rparr> else o')"

text \<open>
  \<open>Send\<close>: when both the buffer and the close signal are ready, Go picks either; \<open>lucky\<close> is
  that choice.
\<close>

definition conn_send :: "bool \<Rightarrow> server_msg \<Rightarrow> outbox \<Rightarrow> outbox" where
  "conn_send lucky m o' =
     (if length (ob_out o') < send_buffer
      then (if ob_closed o' \<noteq> None \<and> \<not> lucky then o' else o'\<lparr>ob_out := ob_out o' @ [m]\<rparr>)
      else if ob_closed o' \<noteq> None then o' else conn_close reason_slow o')"

text \<open>
  \<open>flush\<close> after a close: what is queued is written in order up to the first write that
  fails, then the close frame goes out with \<open>closeStatus\<close> of the reason.
\<close>

definition flush_box :: "(server_msg \<Rightarrow> bool) \<Rightarrow> outbox \<Rightarrow> server_msg list" where
  "flush_box write o' = takeWhile write (ob_out o')"

datatype close_status = GoingAway | TryAgainLater | PolicyViolation

definition close_status_of :: "string \<Rightarrow> close_status" where
  "close_status_of reason =
     (if reason = reason_shutdown then GoingAway
      else if reason \<in> {reason_slow, reason_write_failed, reason_bye} then TryAgainLater
      else PolicyViolation)"

section \<open>Actors\<close>

text \<open>A lookup whose missing row is no error.\<close>

definition optionally :: "'a cmd \<Rightarrow> 'a option cmd" where
  "optionally m s = (case m s of
      (Inr x, t) \<Rightarrow> (Inr (Some x), t)
    | (Inl e, t) \<Rightarrow> if e = NotFoundErr then (Inr None, t) else (Inl e, t))"

definition actor_for :: "uuid \<Rightarrow> user option \<Rightarrow> actor cmd" where
  "actor_for rid u =
     (case u of
        None \<Rightarrow> okc \<lparr>a_user = None, a_member = None, a_banned = False, a_muted_until = None\<rparr>
      | Some x \<Rightarrow>
          bindc (optionally (query (\<lambda>d. get_member d rid (u_id x)))) (\<lambda>m.
          bindc (optionally (query (\<lambda>d. get_ban d rid (u_id x)))) (\<lambda>b.
          bindc (optionally (query (\<lambda>d. get_mute d rid (u_id x)))) (\<lambda>mu s.
          okc \<lparr>a_user = u, a_member = m, a_banned = (b \<noteq> None),
               a_muted_until = (if mute_active mu (st_now s) then map_option mu_until mu else None)\<rparr> s))))"

text \<open>A connection as the read loop sees it: who it is, in which room, and what the room knows of it.\<close>

record hub_conn =
  hc_id :: conn
  hc_room :: uuid
  hc_actor :: actor

definition tell :: "hub_conn \<Rightarrow> server_msg \<Rightarrow> st \<Rightarrow> st" where
  "tell c m = send [(hc_id c, m)]"

definition hang_up :: "hub_conn \<Rightarrow> string \<Rightarrow> st \<Rightarrow> st" where
  "hang_up c reason s = s\<lparr>st_hung_up := st_hung_up s @ [(hc_id c, reason)]\<rparr>"

definition error_text :: "cerr \<Rightarrow> string \<times> string" where
  "error_text e = (case e of Rejected code msg \<Rightarrow> (code, msg) | _ \<Rightarrow> (''internal'', ''internal error''))"

definition send_error :: "hub_conn \<Rightarrow> int \<Rightarrow> cerr \<Rightarrow> st \<Rightarrow> st" where
  "send_error c ref e = tell c (SError (fst (error_text e)) (snd (error_text e)) ref)"

text \<open>\<open>freshActor\<close>: roles and bans changed over REST reach live connections here.\<close>

definition fresh_actor :: "int \<Rightarrow> hub_conn \<Rightarrow> st \<Rightarrow> actor option \<times> hub_conn \<times> st" where
  "fresh_actor ref c s =
     (if a_user (hc_actor c) = None then (Some (hc_actor c), c, s)
      else case actor_for (hc_room c) (a_user (hc_actor c)) s of
          (Inl _, s1) \<Rightarrow> (None, c, send_error c ref InternalErr s1)
        | (Inr a, s1) \<Rightarrow>
            if a_banned a then (None, c, hang_up c ''banned'' (tell c (SKicked ''banned'') s1))
            else if actor_role a \<noteq> actor_role (hc_actor c)
              then (Some a, c\<lparr>hc_actor := a\<rparr>, update_role (hc_id c) (actor_role a) s1)
            else (Some a, c, s1))"

section \<open>Dispatch\<close>

text \<open>What the room commands use from outside: the admission of links and \<open>rand.Shuffle\<close>.\<close>

record hub_env =
  he_admit :: "string \<Rightarrow> admit_err + admission"
  he_shuffle :: "nat \<Rightarrow> (nat \<times> nat) list"

fun command :: "hub_env \<Rightarrow> actor \<Rightarrow> client_msg \<Rightarrow> unit cmd" where
  "command env a (CPlay counted) = play counted a"
| "command env a CPause = pause a"
| "command env a (CSeek pos) = seek a pos"
| "command env a CNext = next_cmd a"
| "command env a (CJump i) = jump a i"
| "command env a (CQueueAdd url nxt force) = queue_add (he_admit env) a url nxt force"
| "command env a (CQueueAddMany urls nxt) = queue_add_many (he_admit env) a urls nxt"
| "command env a (CQueueReplay i) = queue_replay a i"
| "command env a CQueueClearPlayed = queue_clear_played a"
| "command env a CQueueClear = queue_clear a"
| "command env a CQueueShuffle = queue_shuffle (he_shuffle env) a"
| "command env a (CQueueRemove i) = queue_remove a i"
| "command env a (CQueueMove i anchor) = queue_move a i anchor"
| "command env a (CQueueRetry i) = queue_retry a i"
| "command env a (CQueueVote i) = queue_vote a i"
| "command env a CSkipVote = skip_vote a"
| "command env a (CRateSet r) = set_rate a r"
| "command env a CSessionEnd = end_session a"
| "command env a (CSettingsSet i) = apply_settings a i"
| "command env a (CChatSend body reply) = chat_send a body reply"
| "command env a CChatTyping = chat_typing a"
| "command env a (CReact emoji) = react a emoji"
| "command env a CChatClear = chat_clear a"
| "command env a (CChatEdit i body) = chat_edit a i body"
| "command env a (CChatDelete i) = chat_delete a i"
| "command env a (CChatPin i) = chat_pin a i"
| "command env a CChatUnpin = chat_unpin a"
| "command env a (CPing t0) = okc ()"
| "command env a (CReport state pos) = okc ()"

definition dispatch :: "hub_env \<Rightarrow> int \<Rightarrow> client_msg \<Rightarrow> hub_conn \<Rightarrow> st \<Rightarrow> hub_conn \<times> st" where
  "dispatch env ref m c s =
     (case m of
        CPing t0 \<Rightarrow> (c, tell c (SPong t0 (unix_milli (st_now s))) s)
      | CReport state pos \<Rightarrow> (c, report (hc_id c) state pos s)
      | _ \<Rightarrow> (case fresh_actor ref c s of
            (None, c', s1) \<Rightarrow> (c', s1)
          | (Some a, c', s1) \<Rightarrow>
              (case command env a m s1 of
                 (Inr _, s2) \<Rightarrow> (c', s2)
               | (Inl e, s2) \<Rightarrow> (c', send_error c' ref e s2))))"

section \<open>Permissions\<close>

text \<open>
  The permission a message takes.  \<open>queue.remove\<close> and \<open>chat.delete\<close> ask for one only when the
  item or the message is somebody else's, and say so themselves; ping and report take none.
\<close>

fun needs :: "client_msg \<Rightarrow> action option" where
  "needs (CPlay _) = Some ControlPlayback"
| "needs CPause = Some ControlPlayback"
| "needs (CSeek _) = Some ControlPlayback"
| "needs CNext = Some ControlPlayback"
| "needs (CJump _) = Some ControlPlayback"
| "needs (CRateSet _) = Some ControlPlayback"
| "needs (CQueueAdd _ _ _) = Some AddToQueue"
| "needs (CQueueAddMany _ _) = Some AddToQueue"
| "needs (CQueueReplay _) = Some AddToQueue"
| "needs CQueueClearPlayed = Some ManageQueue"
| "needs CQueueClear = Some ManageQueue"
| "needs CQueueShuffle = Some ManageQueue"
| "needs (CQueueMove _ _) = Some ManageQueue"
| "needs (CQueueRetry _) = Some ManageQueue"
| "needs (CQueueVote _) = Some Vote"
| "needs CSkipVote = Some Vote"
| "needs CSessionEnd = Some ManageSettings"
| "needs (CSettingsSet _) = Some ManageSettings"
| "needs (CChatSend _ _) = Some Chat"
| "needs CChatTyping = Some Chat"
| "needs (CReact _) = Some Chat"
| "needs (CChatEdit _ _) = Some Chat"
| "needs CChatClear = Some ModerateChat"
| "needs (CChatPin _) = Some ModerateChat"
| "needs CChatUnpin = Some ModerateChat"
| "needs _ = None"

text \<open>A guard that refuses ends the command in the state it started in.\<close>

definition refuses :: "st \<Rightarrow> 'a cmd \<Rightarrow> bool" where
  "refuses s m \<longleftrightarrow> (\<exists>e. m s = (Inl e, s))"

definition checks :: "st \<Rightarrow> 'a cmd \<Rightarrow> bool" where
  "checks s m \<longleftrightarrow> (\<exists>r. m s = (r, s))"

lemma refuses_seqc: "refuses s m \<Longrightarrow> refuses s (seqc m k)"
  by (auto simp: refuses_def cmd_defs)

lemma checks_seqc: "checks s m \<Longrightarrow> refuses s k \<Longrightarrow> refuses s (seqc m k)"
  by (auto simp: refuses_def checks_def cmd_defs split: sum.split)

lemma refuses_require: "\<not> can (st_now s) a act (Some (st_info s)) \<Longrightarrow> refuses s (require a act)"
  by (simp add: refuses_def require_def cmd_defs)

lemma checks_guards: "checks s (guardc p e)" "checks s chat_enabled" "checks s (not_muted a)"
  by (simp_all add: checks_def guardc_def chat_enabled_def not_muted_def)

lemma refuses_can_add: "\<not> can (st_now s) a AddToQueue (Some (st_info s)) \<Longrightarrow> refuses s (can_add a n)"
  unfolding can_add_def by (intro checks_seqc checks_guards refuses_seqc refuses_require)

lemma refuses_add_many:
  "\<not> can (st_now s) a AddToQueue (Some (st_info s)) \<Longrightarrow> refuses s (queue_add_many admit a urls nxt)"
proof -
  assume c: "\<not> can (st_now s) a AddToQueue (Some (st_info s))"
  have "refuses s (failc e :: unit cmd)" for e by (simp add: refuses_def failc_def)
  with c show ?thesis
    unfolding queue_add_many_def queue_add_many_check_def
    by (auto intro!: refuses_seqc refuses_can_add)
qed

lemma refused_command:
  assumes "needs m = Some act" and "\<not> can (st_now s) a act (Some (st_info s))"
  shows "refuses s (command env a m)"
proof -
  note c = assms(2)
  have r: "refuses s (seqc (require a act) k)" for k :: "unit cmd"
    using c by (intro refuses_seqc refuses_require)
  have g: "refuses s (seqc chat_enabled (seqc (require a act) k))" for k :: "unit cmd"
    by (rule checks_seqc [OF checks_guards(2) r])
  have h: "refuses s (seqc chat_enabled (seqc (not_muted a) (seqc (require a act) k)))" for k :: "unit cmd"
    by (rule checks_seqc [OF checks_guards(2) checks_seqc [OF checks_guards(3) r]])
  have q: "refuses s (queue_add admit a url nxt force)" if "act = AddToQueue" for admit url nxt force
    using c that unfolding queue_add_def queue_add_check_def by (auto intro!: refuses_seqc refuses_can_add)
  have n: "refuses s (queue_add_many admit a urls nxt)" if "act = AddToQueue" for admit urls nxt
    using c that refuses_add_many by blast
  show ?thesis
    using assms(1) r g h q n
    by (cases m) (auto simp: play_def pause_def seek_def next_cmd_def jump_def set_rate_def queue_replay_def
        queue_clear_played_def queue_clear_def queue_shuffle_def queue_move_def queue_retry_def
        queue_vote_def skip_vote_def end_session_def apply_settings_def chat_send_def chat_typing_def
        react_def chat_edit_def chat_clear_def chat_pin_def chat_unpin_def Let_def)
qed

section \<open>What every command keeps\<close>

definition shuffle_ok :: "hub_env \<Rightarrow> bool" where
  "shuffle_ok env \<longleftrightarrow> (\<forall>n. \<forall>p \<in> set (he_shuffle env n). fst p < n \<and> snd p < n)"

text \<open>Room for the longest addition of a playlist.\<close>

definition most_adds :: nat where
  "most_adds = 2 * max_add_many"

lemma quietc_retry: "quietc (queue_retry a i)"
proof -
  have r: "quietc (ingest_retry m)" for m
  proof -
    have c: "quietc (store f)" if "\<And>rid. calm rid f" for f :: "db \<Rightarrow> 'b outcome"
      using that by (intro quietcI quiet_store_snd)
    have "quietc (seqc (store (set_media_status now (m_id m) MediaQueued)) (store (enqueue_ingest (m_id m))))" for now
      by (intro quiet_seqc c calm_rest)
    then show ?thesis
      unfolding ingest_retry_def by (intro quietcI) (simp add: quietcD quiet)
  qed
  have d: "quietc (doc (\<lambda>t. broadcast (t\<lparr>st_media := AList.update k v (st_media t)\<rparr>)))" for k v
    by (intro quiet_doc quiet)
  have b: "quietc (seqc (ingest_retry m) (doc (\<lambda>t. broadcast (t\<lparr>st_media := AList.update k v (st_media t)\<rparr>))))" for m k v
    by (intro quiet_seqc r d)
  have "quietc (\<lambda>s. case item_by_id (st_queue s) i of
          None \<Rightarrow> (Inl (not_found ''queue item''), s)
        | Some it \<Rightarrow> (case media_of s (qi_media it) of
            None \<Rightarrow> (Inl (invalid ''media is not in a failed state''), s)
          | Some m \<Rightarrow>
              if m_status m \<noteq> MediaFailed then (Inl (invalid ''media is not in a failed state''), s)
              else seqc (ingest_retry m)
                (doc (\<lambda>t. broadcast (t\<lparr>st_media := AList.update (qi_media it)
                   (m\<lparr>m_status := MediaQueued, m_error := '''', m_progress := 0\<rparr>) (st_media t)\<rparr>))) s))"
    by (intro quietcI) (auto split: option.split intro: quiet_refl quietcD [OF b])
  then show ?thesis unfolding queue_retry_def by (intro quiet_seqc quiet_guards)
qed

context queue_contract begin

lemma quiet_any: "quietc m \<Longrightarrow> keeps (\<lambda>s. P s \<and> H s k) m P Q"
  by (rule keeps_P) (rule keeps_quiet)

lemma less_H: "keeps (\<lambda>s. P s \<and> H s j) m P Q \<Longrightarrow> j \<le> k \<Longrightarrow> keeps (\<lambda>s. P s \<and> H s k) m P Q"
  by (erule keeps_pre) (blast intro: H_less)

lemma add_many_any: "keeps (\<lambda>s. P s \<and> H s most_adds) (queue_add_many admit a urls nxt) P Q"
proof (cases "length urls \<le> max_add_many")
  case True
  then show ?thesis using less_H [OF queue_add_many_keeps] by (simp add: most_adds_def)
next
  case False
  then have "queue_add_many admit a urls nxt
      = failc (invalid (''send between 1 and '' @ dec max_add_many @ '' links''))"
    by (simp add: queue_add_many_def)
  then show ?thesis by (simp only:) (rule keeps_failc, simp add: weak)
qed

text \<open>One theorem for all messages: each constructor by the lemma of its command.\<close>

lemma command_keeps:
  assumes "shuffle_ok env"
  shows "keeps (\<lambda>s. P s \<and> H s most_adds) (command env a m) P Q"
proof -
  have two: "2 \<le> most_adds" by (simp add: most_adds_def max_add_many_def)
  have shuffle: "keeps (\<lambda>s. P s \<and> H s most_adds) (queue_shuffle (he_shuffle env) a) P Q"
    using assms unfolding shuffle_ok_def by (intro keeps_P queue_shuffle_keeps)
  note plain = keeps_P [OF jump_keeps] keeps_P [OF queue_clear_played_keeps] keeps_P [OF queue_clear_keeps]
    keeps_P [OF queue_move_keeps] keeps_P [OF queue_vote_keeps] keeps_P [OF end_session_keeps]
    keeps_P [OF apply_settings_keeps] shuffle add_many_any
  note zero = less_H [OF next_cmd_keeps] less_H [OF queue_remove_keeps] less_H [OF skip_vote_keeps]
  note adds = less_H [OF queue_add_keeps two] less_H [OF queue_replay_keeps two]
  note still = quiet_any [OF quietc_retry] quiet_any [OF quiet_guards(1)] quiet_playback_commands [THEN quiet_any]
    quietc_chat [THEN quiet_any]
  show ?thesis by (cases m) (simp_all add: plain zero adds still)
qed

lemma update_role_P: "P s \<Longrightarrow> P (update_role c r s)"
  by (erule quiet_P) (rule quiet_update_role)

end

section \<open>Dispatch around a command\<close>

lemma quietc_optionally: "quietc m \<Longrightarrow> quietc (optionally m)"
proof (rule quietcI)
  fix s
  assume m: "quietc m"
  obtain r t where "m s = (r, t)" by fastforce
  with quietcD [OF m, of s] show "quiet s (snd (optionally m s))"
    by (simp add: optionally_def split: sum.split)
qed

lemma quietc_query: "quietc (query f)"
  unfolding query_def by (intro quietcI quiet_store_snd calm_query)

lemma quietc_actor_for: "quietc (actor_for rid u)"
proof (cases u)
  case (Some x)
  show ?thesis
    unfolding actor_for_def Some option.case
    by (intro quiet_bindc quietc_optionally quietc_query quietcI) (simp add: okc_def quiet)
qed (simp add: actor_for_def quiet_guards)

lemma quiet_tell: "quiet s t \<Longrightarrow> quiet s (tell c m t)" "quiet s t \<Longrightarrow> quiet s (send_error c ref e t)"
  "quiet s t \<Longrightarrow> quiet s (hang_up c reason t)"
  unfolding tell_def send_error_def hang_up_def by (intro quiet; assumption)+

lemma quiet_fresh_actor: "fresh_actor ref c s = (x, c', t) \<Longrightarrow> quiet s t"
proof -
  assume run: "fresh_actor ref c s = (x, c', t)"
  obtain r s1 where a: "actor_for (hc_room c) (a_user (hc_actor c)) s = (r, s1)" by fastforce
  have q: "quiet s s1" using quietcD [OF quietc_actor_for, of s "hc_room c" "a_user (hc_actor c)"] a by simp
  have "quiet s (update_role i ro s1)" for i ro using quiet_trans [OF q quiet_update_role] .
  with run a q quiet_tell show ?thesis
    by (auto simp: fresh_actor_def quiet split: if_splits sum.splits)
qed

lemma dispatch_command:
  "\<nexists>t0. m = CPing t0 \<Longrightarrow> \<nexists>st pos. m = CReport st pos \<Longrightarrow>
   dispatch env ref m c s = (case fresh_actor ref c s of
            (None, c', s1) \<Rightarrow> (c', s1)
          | (Some a, c', s1) \<Rightarrow>
              (case command env a m s1 of
                 (Inr _, s2) \<Rightarrow> (c', s2)
               | (Inl e, s2) \<Rightarrow> (c', send_error c' ref e s2)))"
  by (cases m; hypsubst; simp add: dispatch_def)

text \<open>A message is a ping or a report, stops at the actor, or runs its command.\<close>

lemma dispatch_cases [consumes 1, case_names quietly ran failed]:
  assumes "dispatch env ref m c s = (c', t)"
  obtains "quiet s t"
    | a s1 where "quiet s s1" "command env a m s1 = (Inr (), t)"
    | a s1 e s2 where "quiet s s1" "command env a m s1 = (Inl e, s2)" "quiet s2 t"
proof -
  obtain x d s1 where f: "fresh_actor ref c s = (x, d, s1)" by (cases "fresh_actor ref c s")
  have q: "quiet s s1" by (rule quiet_fresh_actor [OF f])
  consider "\<exists>t0. m = CPing t0" | "\<exists>st pos. m = CReport st pos"
    | "\<nexists>t0. m = CPing t0" "\<nexists>st pos. m = CReport st pos" by blast
  then show thesis
  proof cases
    case 1
    with assms have "quiet s t" using quiet_tell(1) [OF quiet_refl] by (auto simp: dispatch_def)
    then show thesis by (rule that(1))
  next
    case 2
    with assms have "quiet s t" by (auto simp: dispatch_def intro: quiet_report)
    then show thesis by (rule that(1))
  next
    case 3
    note run' = dispatch_command [OF 3, of env ref c s]
    show thesis
    proof (cases x)
      case None
      with run' assms f q that(1) show thesis by simp
    next
      case (Some a)
      obtain r s2 where run: "command env a m s1 = (r, s2)" by fastforce
      show thesis
      proof (cases r)
        case (Inr u)
        with run' assms f q Some run that(2) show thesis by simp
      next
        case (Inl e)
        have "quiet s2 (send_error d ref e s2)" by (intro quiet_tell quiet_refl)
        with run' assms f q Some run Inl that(3) show thesis by simp
      qed
    qed
  qed
qed

context queue_contract begin

lemma dispatch_keeps:
  assumes ok: "shuffle_ok env" and p: "P s" "H s most_adds" and run: "dispatch env ref m c s = (c', t)"
  shows "Q t"
  using run
proof (cases rule: dispatch_cases)
  case quietly
  with p weak quiet_P show ?thesis by blast
next
  case (ran a s1)
  then show ?thesis
    using keepsD(1) [OF command_keeps [OF ok], of s1 a m] PH_quiet [of s most_adds s1] p weak by blast
next
  case (failed a s1 e s2)
  then show ?thesis
    using keepsD(2) [OF command_keeps [OF ok], of s1 a m] PH_quiet [of s most_adds s1] p quiet_Q by blast
qed

text \<open>The timers: only the end of an item touches the queue.\<close>

lemma callback_keeps:
  assumes "P s" "H s 0"
  shows "Q (run_callback cb s)"
proof -
  have "P (run_callback cb s)" if "\<And>i n. cb \<noteq> CbAdvance i n"
    using assms(1)
  proof (rule quiet_P)
    show "quiet s (run_callback cb s)"
    proof (cases cb)
      case (CbAdvance i n)
      with that show ?thesis by blast
    qed (simp_all add: run_callback_def quiet_timers_fire quiet_broadcasts(3) quiet_refl)
  qed
  then show ?thesis
    using on_ended_keeps [OF assms] weak by (cases cb) (auto simp: run_callback_def)
qed

lemma fire_keeps:
  assumes "P s" "H s 0"
  shows "Q (fire tcb s)"
proof -
  have q: "quiet s (s\<lparr>st_armed := remove1 tcb (st_armed s)\<rparr>)" by (intro quiet)
  from PH_quiet [OF conjI [OF assms] q] show ?thesis
    unfolding fire_def Let_def using callback_keeps weak by simp
qed

end

section \<open>A concrete room\<close>

definition sample_deps :: deps where
  "sample_deps = \<lparr>dp_chat = True, dp_notifier = False, dp_signer = None, dp_wait_scale = 0,
     dp_persist_every = 10 * second, dp_rejoin_grace = 0, dp_presence_every = 0, dp_add_limiter = None,
     dp_bucket = (\<lambda>_ _ _. True), dp_url_host = (\<lambda>_. None), dp_clock_text = (\<lambda>_. '''')\<rparr>"

definition sample_rows :: "item_row list" where
  "sample_rows = [\<lparr>ir_id = 10, ir_room = 1, ir_media = 5, ir_added_by = Some 3, ir_rank = fmt_08d 1,
     ir_created = 7, ir_played = None\<rparr>]"

definition sample_db :: db where
  "sample_db = \<lparr>d_rooms = [sample_room], d_users = [sample_user 3], d_members = [], d_items = sample_rows,
     d_votes = [], d_media = [], d_jobs = [], d_messages = [], d_bans = [], d_mutes = [], d_invites = [],
     d_links = [], d_stars = [], d_slugs = [], d_next = 20, d_next_msg = 1\<rparr>"

definition sample_base :: st where
  "sample_base = \<lparr>st_deps = sample_deps, st_now = 100, st_db = sample_db, st_faults = [], st_sent = [],
     st_hung_up = [], st_notified = [], st_armed = [], st_add_asked = (\<lambda>_. []), st_info = sample_room,
     st_owner = ''ann'', st_queue = [], st_played = [], st_media = [], st_clock = clock_from sample_room,
     st_viewers = [], st_skip_votes = [], st_votes = (\<lambda>_. []), st_chat_asked = (\<lambda>_. []),
     st_react_asked = (\<lambda>_. []), st_last_chat = (\<lambda>_. 0), st_last_mention = (\<lambda>_. 0), st_left_at = (\<lambda>_. 0),
     st_timers = no_timers, st_last_persist = 0, st_last_active = 0, st_pinned = None, st_waiting = None,
     st_countdown = None, st_closed = False, st_unsaved = False\<rparr>"

definition sample_st :: st where
  "sample_st = sample_base\<lparr>st_queue := map (to_item sample_db) sample_rows\<rparr>"

definition sample_env :: hub_env where
  "sample_env = \<lparr>he_admit = (\<lambda>_. Inl AdmUnsupported), he_shuffle = (\<lambda>_. [])\<rparr>"

lemmas sample_room_defs = sample_deps_def sample_rows_def sample_db_def sample_base_def sample_st_def
  sample_env_def

lemma sample_st_rows: "room_rows sample_db 1 = sample_rows" "room_id sample_st = 1" "st_db sample_st = sample_db"
  by (simp_all add: room_rows_def sample_room_defs room_id_def sample_room_def queued_in_def)

lemmas sample_st_rows' = sample_st_rows [unfolded One_nat_def]

lemma good_rank_1: "good_rank (fmt_08d (Suc 0))"
  unfolding good_rank_def by (intro exI [of _ "Suc 0"]) simp

lemma sample_st_ok: "coherent sample_st" "headroom sample_st most_adds" "shuffle_ok sample_env"
proof -
  have q: "queue_rows sample_db 1 = sample_rows"
    by (simp add: queue_rows_def sample_st_rows') (simp add: sample_rows_def)
  have "map (row_of 1) (st_queue sample_st) = sample_rows"
    by (simp add: sample_room_defs row_of_def to_item_def)
  moreover have "tables_ok sample_st"
    unfolding tables_ok_def sample_st_rows ids_ok_def ranks_ok_def
    by (simp add: sample_st_rows') (simp add: sample_room_defs good_rank_1)
  ultimately show "coherent sample_st"
    by (simp add: coherent_def sample_st_rows' q [unfolded One_nat_def])
  have "max_rank sample_db 1 = 1"
    by (simp add: max_rank_room sample_st_rows') (simp add: sample_rows_def rank_num_fmt_08d)
  moreover have "item_count sample_db 1 = 1" by (simp add: item_count_def sample_room_defs)
  ultimately show "headroom sample_st most_adds"
    by (simp add: headroom_def sample_st_rows most_adds_def max_add_many_def)
  show "shuffle_ok sample_env" by (simp add: shuffle_ok_def sample_env_def)
qed

section \<open>Properties\<close>

text \<open>
  C12: every message that changes a room takes a permission; an actor without it gets an error
  and the room is exactly as it was.
\<close>

theorem commands_need_permission:
  assumes "needs m = Some act" and "\<not> can (st_now s) a act (Some (st_info s))"
  shows "\<exists>e. command env a m s = (Inl e, s)"
  using refused_command [OF assms] by (simp add: refuses_def)

theorem commands_need_permission_witness:
  "\<exists>e. command sample_env (sample_actor 3 RoleMember) CPause sample_st = (Inl e, sample_st)"
  by (rule commands_need_permission [of CPause ControlPlayback])
    (simp_all add: sample_room_defs sample_defs can_def is_mod_def actor_role_def is_moderator_def)

text \<open>
  Without the right to manage the queue a person can take out only an item that they added
  and that is not on.
\<close>

theorem remove_needs_ownership:
  assumes "\<not> can (st_now s) a ManageQueue (Some (st_info s))" and "fst (command env a (CQueueRemove i) s) = Inr ()"
  shows "\<exists>it. item_by_id (st_queue s) i = Some it \<and> a_user a \<noteq> None
    \<and> qi_added_by it = actor_ref a \<and> \<not> is_current (st_clock s) (qi_id it)"
proof (cases "item_by_id (st_queue s) i")
  case None
  with assms(2) show ?thesis by (simp add: queue_remove_def)
next
  case (Some it)
  show ?thesis
  proof (rule ccontr)
    assume "\<not> ?thesis"
    with Some have "\<not> (a_user a \<noteq> None \<and> qi_added_by it = actor_ref a) \<or> is_current (st_clock s) (qi_id it)"
      by simp
    with Some assms show False
      by (auto simp: queue_remove_def Let_def require_def cmd_defs)
  qed
qed

theorem remove_needs_ownership_witness:
  "\<exists>it. item_by_id (st_queue sample_st) 10 = Some it \<and> a_user (sample_actor 3 RoleMember) \<noteq> None
    \<and> qi_added_by it = actor_ref (sample_actor 3 RoleMember) \<and> \<not> is_current (st_clock sample_st) (qi_id it)"
proof (rule remove_needs_ownership [where env = sample_env])
  show "\<not> can (st_now sample_st) (sample_actor 3 RoleMember) ManageQueue (Some (st_info sample_st))"
    by (simp add: sample_room_defs sample_defs)
  show "fst (command sample_env (sample_actor 3 RoleMember) (CQueueRemove 10) sample_st) = Inr ()"
    by (simp add: queue_remove_def sample_room_defs sample_defs cmd_defs item_by_id_def to_item_def
        is_current_def clock_from_def actor_ref_def store_def delete_queue_item_def room_id_def)
qed

text \<open>
  C13: a message that succeeds leaves the room's queue in memory equal to the stored one, row for
  row and in rank order, whatever command it was, while the ranks have digits left.
\<close>

theorem commands_keep_queue_stored:
  assumes "coherent s" and "headroom s most_adds" and "shuffle_ok env"
    and "fst (command env a m s) = Inr ()"
  shows "coherent (snd (command env a m s))"
  using assms room.command_keeps [OF assms(3), of a m] by (cases "command env a m s") (auto simp: keeps_def)

theorem commands_keep_queue_stored_witness:
  "coherent (snd (command sample_env (sample_actor 3 RoleMember) (CQueueRemove 10) sample_st))"
proof (rule commands_keep_queue_stored [OF sample_st_ok])
  show "fst (command sample_env (sample_actor 3 RoleMember) (CQueueRemove 10) sample_st) = Inr ()"
    by (simp add: queue_remove_def sample_room_defs sample_defs cmd_defs item_by_id_def to_item_def
        is_current_def clock_from_def actor_ref_def store_def delete_queue_item_def room_id_def)
qed

text \<open>
  C14: whatever fails where in a message (a lookup, the store, half of a command), the ranks and
  ids of the tables stay good, and one queue reload brings memory and tables together again.
\<close>

theorem reload_repairs:
  assumes "coherent s" and "headroom s most_adds" and "shuffle_ok env"
    and "fst (reload_queue_cmd (snd (dispatch env ref m c s))) = Inr ()"
  shows "coherent (snd (reload_queue_cmd (snd (dispatch env ref m c s))))"
proof -
  have "tables_ok (snd (dispatch env ref m c s))"
    using room.dispatch_keeps [OF assms(3,1,2)] by (metis prod.collapse)
  then show ?thesis
    using room.reload_queue_cmd_keeps assms(4)
    by (cases "reload_queue_cmd (snd (dispatch env ref m c s))") (auto simp: keeps_def)
qed

text \<open>
  No message, however it ends, and no timer changes the queue rows, the messages or the room
  row of any other room.
\<close>

theorem other_rooms_untouched:
  assumes "ids_ok (st_db s)" and "shuffle_ok env"
  shows "others (room_id s) (st_db (snd (dispatch env ref m c s))) = others (room_id s) (st_db s)
    \<and> others (room_id s) (st_db (fire tcb s)) = others (room_id s) (st_db s)"
proof -
  have o': "others_are (room_id s) (others (room_id s) (st_db s)) s"
    using assms(1) by (simp add: others_are_def)
  have "others_are (room_id s) (others (room_id s) (st_db s)) (snd (dispatch env ref m c s))"
    using others.dispatch_keeps [OF assms(2) o' TrueI] by (metis prod.collapse)
  moreover have "others_are (room_id s) (others (room_id s) (st_db s)) (fire tcb s)"
    using others.fire_keeps [OF o' TrueI] .
  ultimately show ?thesis by (simp add: others_are_def)
qed

text \<open>The history a room keeps in memory never grows past twenty items, whatever happens.\<close>

theorem history_stays_short:
  assumes "short_history s" and "shuffle_ok env"
  shows "short_history (snd (dispatch env ref m c s)) \<and> short_history (fire tcb s)"
  using history.dispatch_keeps [OF assms(2,1) TrueI] history.fire_keeps [OF assms(1) TrueI]
  by (metis prod.collapse)

theorem history_stays_short_witness:
  "short_history (snd (dispatch sample_env 1 CQueueClear \<lparr>hc_id = 1, hc_room = 1, hc_actor = sample_actor 3 RoleOwner\<rparr> sample_st))
   \<and> short_history (fire (7, CbEmpty) sample_st)"
  by (rule history_stays_short)
    (simp_all add: sample_st_ok, simp add: short_history_def sample_room_defs)

theorem other_rooms_untouched_witness:
  "others (room_id sample_st) (st_db (snd (dispatch sample_env 1 CQueueClear
      \<lparr>hc_id = 1, hc_room = 1, hc_actor = sample_actor 3 RoleOwner\<rparr> sample_st))) = others (room_id sample_st) (st_db sample_st)
    \<and> others (room_id sample_st) (st_db (fire (7, CbEmpty) sample_st)) = others (room_id sample_st) (st_db sample_st)"
  by (rule other_rooms_untouched)
    (use sample_st_ok in \<open>simp_all add: coherent_def tables_ok_def\<close>)

theorem reload_repairs_witness:
  "coherent (snd (reload_queue_cmd (snd (dispatch sample_env 1 (CPing 3)
      \<lparr>hc_id = 1, hc_room = 1, hc_actor = sample_actor 3 RoleOwner\<rparr> sample_st))))"
proof (rule reload_repairs [OF sample_st_ok])
  show "fst (reload_queue_cmd (snd (dispatch sample_env 1 (CPing 3)
      \<lparr>hc_id = 1, hc_room = 1, hc_actor = sample_actor 3 RoleOwner\<rparr> sample_st))) = Inr ()"
    by (simp add: dispatch_def tell_def send_def reload_queue_cmd_def reload_queue_def cmd_defs store_def
        sample_room_defs)
qed

text \<open>
  The connection's buffer never holds more than 256 messages, sending never waits, and the
  first reason to close is the one the client is told.
\<close>

theorem outbox_bounded:
  assumes "length (ob_out o') \<le> send_buffer"
  shows "length (ob_out (conn_send lucky m o')) \<le> send_buffer
    \<and> (ob_closed o' \<noteq> None \<longrightarrow> ob_closed (conn_send lucky m (conn_close r o')) = ob_closed o')
    \<and> (ob_closed o' = None \<longrightarrow> ob_out (conn_send lucky m o') = ob_out o' @ [m]
         \<or> ob_closed (conn_send lucky m o') = Some reason_slow \<and> close_status_of reason_slow = TryAgainLater)"
  using assms by (auto simp: conn_send_def conn_close_def close_status_of_def reason_slow_def reason_shutdown_def)

theorem outbox_bounded_witness:
  "length (ob_out (conn_send True SChatCleared \<lparr>ob_out = [], ob_closed = None\<rparr>)) \<le> send_buffer"
  using outbox_bounded [of "\<lparr>ob_out = [], ob_closed = None\<rparr>" True SChatCleared "''x''"] by simp

end
