(* ===== verification/Web.thy ===== *)
theory Web
  imports Members Room_Chat
begin

text \<open>
  A request to the HTTP interface (\<open>apihttp/server.go\<close>) on the tables.

  A handler is a \<open>req\<close>: it reads and writes \<open>web\<close> and either goes on with a value or ends with a
  reply.  Every call of the store may fail (\<open>w_faults\<close>, call by call, as in \<open>Room_State\<close>); a
  failed handler leaves what it already wrote.  The request reads the clock once.  The
  hooks into the live rooms and the push notifications are collected in the order they were
  called.  A request is not a transaction: other requests may run between two of its calls, so a
  lemma about one handler is about an undisturbed one, and \<open>Rooms_Safe\<close> says what the tables keep
  call by call.
\<close>

section \<open>State\<close>

datatype meta = MetaText string | MetaInt int | MetaBool bool | MetaNull

record audit_entry =
  au_actor :: "uuid option"
  au_action :: string
  au_target_type :: string
  au_target :: string
  au_room :: "uuid option"
  au_meta :: "(string \<times> meta) list"

datatype hook = OnBan | OnRemove | OnLeave | OnMute | OnRoomChanged | OnRoomDeleted

text \<open>A call of a hook: the room, the user it is about and the line to log, where it has them.\<close>

record hook_call =
  hk_hook :: hook
  hk_room :: uuid
  hk_user :: uuid
  hk_line :: string

datatype budget = RoomCreateBudget | InviteBudget

record web =
  w_db :: db
  w_faults :: "bool list"
  w_now :: time
  w_audit :: "audit_entry list"
  w_hooks :: "hook_call list"
  w_notified :: "(uuid \<times> notice) list"
  w_asked :: "budget \<Rightarrow> uuid \<Rightarrow> time list"

text \<open>
  \<open>Deps\<close>, as far as the room handlers use it, with the signed-in user of the request
  (\<open>auth.UserFrom\<close>).  \<open>we_hash\<close> is SHA-256 of a token, \<open>we_token\<close> the fresh random one;
  \<open>we_random\<close> the bytes of each attempt at a slug; \<open>we_time\<close> is \<open>time.Parse(time.RFC3339, _)\<close>;
  \<open>we_fold\<close> is \<open>strings.EqualFold\<close>; \<open>we_source_key\<close> is the extractor's key of a link and
  \<open>we_blocked\<close> the blocklist; \<open>we_first_add\<close> is \<open>LiveQueue.QueueAdd\<close>, the \<open>queue_add\<close> of
  \<open>Room_Queue\<close> on the room the manager loads, with the text of its error.
\<close>

record web_env =
  we_user :: "user option"
  we_hook :: "hook \<Rightarrow> bool"
  we_mutes :: bool
  we_stars :: bool
  we_notifier :: bool
  we_limit :: "budget \<Rightarrow> (time list \<Rightarrow> time \<Rightarrow> bool) option"
  we_live_queue :: bool
  we_hash :: "string \<Rightarrow> string"
  we_token :: string
  we_random :: "nat \<Rightarrow> nat list"
  we_time :: "string \<Rightarrow> time option"
  we_fold :: "string \<Rightarrow> string \<Rightarrow> bool"
  we_origin :: string
  we_source_key :: "string \<Rightarrow> string option"
  we_blocked :: "string \<Rightarrow> cerr + bool"
  we_first_add :: "uuid \<Rightarrow> actor \<Rightarrow> string \<Rightarrow> db \<Rightarrow> string option \<times> db"

section \<open>Replies\<close>

record room_response =
  rr_id :: uuid
  rr_slug :: string
  rr_name :: string
  rr_visibility :: visibility
  rr_settings :: settings
  rr_owner :: string
  rr_description :: string
  rr_members :: nat
  rr_my_role :: room_role
  rr_starred :: bool
  rr_scheduled :: "time option"
  rr_created :: time

record member_response =
  mr_username :: string
  mr_role :: room_role
  mr_joined :: time

record ban_response =
  br_username :: string
  br_reason :: string
  br_created :: time

record invite_response =
  vr_id :: uuid
  vr_room_slug :: string
  vr_room_name :: string
  vr_inviter :: string
  vr_status :: invite_status
  vr_created :: time

record mute_response =
  xr_username :: string
  xr_reason :: string
  xr_until :: time
  xr_created :: time

record link_response =
  lr_id :: uuid
  lr_url :: string
  lr_created_by :: string
  lr_expires :: "time option"
  lr_max_uses :: "int option"
  lr_uses :: int
  lr_revoked :: "time option"
  lr_created :: time

record preview_response =
  jr_room_slug :: string
  jr_room_name :: string
  jr_valid :: bool
  jr_reason :: string
  jr_member :: bool

datatype payload =
  NoContent
| ErrorText string
| RoomReply room_response
| RoomCreated room_response "string list"
| RoomList "room_response list"
| MemberList "member_response list"
| BanList "ban_response list"
| InviteReply invite_response
| InviteList "invite_response list"
| UpcomingList "(string \<times> string \<times> time) list"
| RoomSlug string
| MuteReply mute_response
| MuteList "mute_response list"
| LinkReply link_response
| LinkList "link_response list"
| PreviewReply preview_response
| Upgrade room_info actor

datatype reply = Reply nat payload

definition write_error :: "nat \<Rightarrow> string \<Rightarrow> reply" where
  "write_error status msg = Reply status (ErrorText msg)"

section \<open>Running a handler\<close>

type_synonym 'a req = "web \<Rightarrow> (reply + 'a) \<times> web"

definition okr :: "'a \<Rightarrow> 'a req" where
  "okr x w = (Inr x, w)"

definition answer :: "reply \<Rightarrow> 'a req" where
  "answer r w = (Inl r, w)"

definition bindr :: "'a req \<Rightarrow> ('a \<Rightarrow> 'b req) \<Rightarrow> 'b req" where
  "bindr m k w = (case m w of (Inl r, v) \<Rightarrow> (Inl r, v) | (Inr x, v) \<Rightarrow> k x v)"

definition thenr :: "unit req \<Rightarrow> 'b req \<Rightarrow> 'b req" where
  "thenr m k = bindr m (\<lambda>_. k)"

definition fail_unless :: "bool \<Rightarrow> nat \<Rightarrow> string \<Rightarrow> unit req" where
  "fail_unless b status msg = (if b then okr () else answer (write_error status msg))"

definition internal_error :: "'a req" where
  "internal_error = answer (write_error 500 ''internal error'')"

text \<open>\<open>time.Now()\<close>.\<close>

definition with_now :: "(time \<Rightarrow> 'a req) \<Rightarrow> 'a req" where
  "with_now k w = k (w_now w) w"

text \<open>The reply a handler ends with.\<close>

definition run :: "reply req \<Rightarrow> web \<Rightarrow> reply \<times> web" where
  "run m w = (case m w of (Inl r, v) \<Rightarrow> (r, v) | (Inr r, v) \<Rightarrow> (r, v))"

text \<open>One call of the store, with its error as a value.\<close>

definition ask :: "(db \<Rightarrow> 'a outcome) \<Rightarrow> (cerr + 'a) req" where
  "ask f w = (case w_faults w of
      True # fs \<Rightarrow> (Inr (Inl InternalErr), w\<lparr>w_faults := fs\<rparr>)
    | fs \<Rightarrow> (case f (w_db w) of (r, d) \<Rightarrow> (Inr r, w\<lparr>w_db := d, w_faults := tl fs\<rparr>)))"

text \<open>
  What handlers do with the error: answer 500 (\<open>must\<close>), answer something of their own when the
  row is missing (\<open>must_find\<close>) or there is a conflict (\<open>must_be_free\<close>), go on without the row
  (\<open>if_there\<close>), or take any error for a missing row (\<open>seen\<close>).
\<close>

definition must :: "(db \<Rightarrow> 'a outcome) \<Rightarrow> 'a req" where
  "must f = bindr (ask f) (\<lambda>r. case r of Inl _ \<Rightarrow> internal_error | Inr x \<Rightarrow> okr x)"

definition must_find :: "(db \<Rightarrow> 'a outcome) \<Rightarrow> nat \<Rightarrow> string \<Rightarrow> 'a req" where
  "must_find f status msg = bindr (ask f) (\<lambda>r. case r of
      Inl e \<Rightarrow> if e = NotFoundErr then answer (write_error status msg) else internal_error
    | Inr x \<Rightarrow> okr x)"

definition must_be_free :: "(db \<Rightarrow> 'a outcome) \<Rightarrow> nat \<Rightarrow> string \<Rightarrow> 'a req" where
  "must_be_free f status msg = bindr (ask f) (\<lambda>r. case r of
      Inl e \<Rightarrow> if e = ConflictErr then answer (write_error status msg) else internal_error
    | Inr x \<Rightarrow> okr x)"

definition if_there :: "(db \<Rightarrow> 'a outcome) \<Rightarrow> 'a option req" where
  "if_there f = bindr (ask f) (\<lambda>r. case r of
      Inl e \<Rightarrow> if e = NotFoundErr then okr None else internal_error
    | Inr x \<Rightarrow> okr (Some x))"

definition seen :: "(db \<Rightarrow> 'a outcome) \<Rightarrow> bool req" where
  "seen f = bindr (ask f) (\<lambda>r. okr (case r of Inl _ \<Rightarrow> False | Inr _ \<Rightarrow> True))"

definition reading :: "(db \<Rightarrow> 'a) \<Rightarrow> db \<Rightarrow> 'a outcome" where
  "reading f d = (Inr (f d), d)"

definition looking :: "(db \<Rightarrow> cerr + 'a) \<Rightarrow> db \<Rightarrow> 'a outcome" where
  "looking f d = (f d, d)"

text \<open>A JSON body: \<open>decodeJSONLimit\<close>.\<close>

datatype 'q body = Body 'q | NoBody | TooLarge | Malformed string

definition decode :: "'q body \<Rightarrow> 'q req" where
  "decode b = (case b of
      Body q \<Rightarrow> okr q
    | NoBody \<Rightarrow> answer (write_error 400 ''request body is required'')
    | TooLarge \<Rightarrow> answer (write_error 413 ''request body too large'')
    | Malformed e \<Rightarrow> answer (write_error 400 (''malformed JSON: '' @ e)))"

text \<open>\<open>allowUser\<close>: asking counts, whatever the answer.\<close>

definition allow_user :: "web_env \<Rightarrow> budget \<Rightarrow> uuid \<Rightarrow> unit req" where
  "allow_user env b u w = (case we_limit env b of
      None \<Rightarrow> (Inr (), w)
    | Some allow \<Rightarrow>
        (if allow (w_asked w b u) (w_now w) then Inr ()
         else Inl (write_error 429 ''you are doing that too often; try again later''),
         w\<lparr>w_asked := (w_asked w)(b := (w_asked w b)(u := w_asked w b u @ [w_now w]))\<rparr>))"

text \<open>An audit line; failing to write it is only logged.\<close>

definition record_audit :: "audit_entry \<Rightarrow> web \<Rightarrow> web" where
  "record_audit e w = (case w_faults w of
      True # fs \<Rightarrow> w\<lparr>w_faults := fs\<rparr>
    | fs \<Rightarrow> w\<lparr>w_audit := w_audit w @ [e], w_faults := tl fs\<rparr>)"

definition audit :: "web_env \<Rightarrow> string \<Rightarrow> string \<Rightarrow> string \<Rightarrow> uuid option \<Rightarrow> (string \<times> meta) list \<Rightarrow> unit req" where
  "audit env action tt target rid meta w =
     (Inr (), record_audit \<lparr>au_actor = map_option u_id (we_user env), au_action = action,
        au_target_type = tt, au_target = target, au_room = rid, au_meta = meta\<rparr> w)"

definition call_hook :: "web_env \<Rightarrow> hook \<Rightarrow> uuid \<Rightarrow> uuid \<Rightarrow> string \<Rightarrow> unit req" where
  "call_hook env h rid uid line w =
     (Inr (), if we_hook env h then w\<lparr>w_hooks := w_hooks w @
        [\<lparr>hk_hook = h, hk_room = rid, hk_user = uid, hk_line = line\<rparr>]\<rparr> else w)"

definition notify_invite :: "web_env \<Rightarrow> uuid \<Rightarrow> uuid \<Rightarrow> string \<Rightarrow> room_info \<Rightarrow> unit req" where
  "notify_invite env iid invitee inviter room w =
     (Inr (), if we_notifier env then w\<lparr>w_notified := w_notified w @ [(invitee,
        \<lparr>no_title = ''Room invite'', no_body = inviter @ '' invited you to '' @ ri_name room,
         no_url = ''/'', no_tag = ''invite-'' @ uuid_text iid\<rparr>)]\<rparr> else w)"

text \<open>\<open>auth.RequireUser\<close> in front of a handler.\<close>

definition require_user :: "web_env \<Rightarrow> (user \<Rightarrow> 'a req) \<Rightarrow> 'a req" where
  "require_user env h = (case we_user env of
      None \<Rightarrow> answer (write_error 401 ''authentication required'')
    | Some u \<Rightarrow> h u)"

section \<open>The room and the actor of a request (\<open>rooms.go\<close>)\<close>

definition actor_of :: "web_env \<Rightarrow> room_info \<Rightarrow> actor req" where
  "actor_of env room = (case we_user env of
      None \<Rightarrow> okr \<lparr>a_user = None, a_member = None, a_banned = False, a_muted_until = None\<rparr>
    | Some u \<Rightarrow>
        bindr (if_there (looking (\<lambda>d. get_member d (ri_id room) (u_id u)))) (\<lambda>m.
        bindr (if_there (looking (\<lambda>d. get_ban d (ri_id room) (u_id u)))) (\<lambda>b.
        bindr (if we_mutes env then if_there (looking (\<lambda>d. get_mute d (ri_id room) (u_id u))) else okr None)
          (\<lambda>mu. with_now (\<lambda>now. okr \<lparr>a_user = Some u, a_member = m, a_banned = (b \<noteq> None),
             a_muted_until = (if mute_active mu now then map_option mu_until mu else None)\<rparr>)))))"

definition load_room :: "web_env \<Rightarrow> string \<Rightarrow> (room_info \<times> actor) req" where
  "load_room env slug =
     bindr (must_find (looking (\<lambda>d. get_room_by_slug d slug)) 404 ''room not found'') (\<lambda>room.
     bindr (actor_of env room) (\<lambda>a. okr (room, a)))"

definition denied :: "room_info \<Rightarrow> actor \<Rightarrow> reply" where
  "denied room a =
     (if a_user a = None then write_error 401 ''authentication required''
      else if a_banned a then write_error 403 ''you are banned from this room''
      else if ri_visibility room \<noteq> VisPublic \<and> a_member a = None \<and> \<not> user_is_admin (a_user a)
        then write_error 403 ''this room is private''
      else write_error 403 ''insufficient permissions'')"

definition permit :: "room_info \<Rightarrow> actor \<Rightarrow> action \<Rightarrow> unit req" where
  "permit room a act w = (if can (w_now w) a act (Some room) then (Inr (), w) else (Inl (denied room a), w))"

definition permit_target :: "room_info \<Rightarrow> actor \<Rightarrow> action \<Rightarrow> room_role \<Rightarrow> unit req" where
  "permit_target room a act role w =
     (if can_target (w_now w) a act (Some room) role then (Inr (), w) else (Inl (denied room a), w))"

definition get_user_by_name :: "db \<Rightarrow> string \<Rightarrow> cerr + user" where
  "get_user_by_name d name = (case find (\<lambda>u. to_lower (u_name u) = to_lower name) (d_users d) of
      None \<Rightarrow> Inl NotFoundErr
    | Some u \<Rightarrow> Inr u)"

definition target_user :: "string \<Rightarrow> user req" where
  "target_user name = must_find (looking (\<lambda>d. get_user_by_name d name)) 404 ''user not found''"

definition target_role :: "room_info \<Rightarrow> uuid \<Rightarrow> room_role req" where
  "target_role room uid =
     bindr (if_there (looking (\<lambda>d. get_member d (ri_id room) uid)))
       (\<lambda>m. okr (case m of None \<Rightarrow> RoleNone | Some x \<Rightarrow> rm_role x))"

definition room_response_of :: "web_env \<Rightarrow> room_info \<Rightarrow> actor \<Rightarrow> room_response req" where
  "room_response_of env room a =
     bindr (must (looking (\<lambda>d. get_user d (ri_owner room)))) (\<lambda>owner.
     bindr (must (reading (\<lambda>d. count_members d (ri_id room)))) (\<lambda>n.
     bindr (case a_user a of
         Some u \<Rightarrow> if we_stars env then must (reading (\<lambda>d. is_starred d (u_id u) (ri_id room))) else okr False
       | None \<Rightarrow> okr False) (\<lambda>starred.
     okr \<lparr>rr_id = ri_id room, rr_slug = ri_slug room, rr_name = ri_name room,
       rr_visibility = ri_visibility room, rr_settings = ri_settings room, rr_owner = u_name owner,
       rr_description = ri_description room, rr_members = n, rr_my_role = actor_role a,
       rr_starred = starred, rr_scheduled = ri_scheduled room, rr_created = ri_created room\<rparr>)))"

lemmas req_defs = okr_def answer_def bindr_def thenr_def

end
