(* ===== verification/Rooms_Api.thy ===== *)
theory Rooms_Api
  imports Web
begin

text \<open>
  The room handlers: \<open>apihttp/rooms.go\<close> (validation, creating, changing and deleting rooms,
  members, ownership, bans, invites), \<open>mutes.go\<close>, \<open>stars.go\<close> and \<open>invite_links.go\<close>.  Each is
  written as the router runs it: the ones behind \<open>auth.RequireUser\<close> start with it.
\<close>

section \<open>Validation\<close>

definition slug_char :: "char \<Rightarrow> bool" where
  "slug_char c = (let n = of_char c :: nat in
     (97 \<le> n \<and> n \<le> 122) \<or> (48 \<le> n \<and> n \<le> 57) \<or> n = 45)"

definition slug_shape :: "string \<Rightarrow> bool" where
  "slug_shape s \<longleftrightarrow> 3 \<le> length s \<and> length s \<le> 32 \<and> list_all slug_char s"

definition reserved_slugs :: "string list" where
  "reserved_slugs =
     [''api'', ''media'', ''admin'', ''login'', ''register'', ''logout'', ''settings'', ''invites'',
      ''join'', ''metrics'', ''healthz'', ''assets'', ''r'', ''rooms'', ''me'', ''new'', ''about'',
      ''help'', ''static'', ''public'']"

definition slug_alphabet :: string where
  "slug_alphabet = ''abcdefghijklmnopqrstuvwxyz234567''"

definition slug_length :: nat where
  "slug_length = 8"

definition generate_slug :: "nat list \<Rightarrow> string" where
  "generate_slug bs = map (\<lambda>b. slug_alphabet ! (b mod length slug_alphabet)) (take slug_length bs)"

text \<open>
  \<open>strings.ToLower\<close>, for the pattern that follows: the two characters outside ASCII whose lower
  case is a letter of ASCII (the Kelvin sign and the dotted capital I) are written out; all others
  stay outside ASCII, where the pattern refuses them.
\<close>

fun slug_lower :: "nat list \<Rightarrow> nat list" where
  "slug_lower [] = []"
| "slug_lower (c # cs) =
     (if c = 226 \<and> take 2 cs = [132, 170] then 107 # slug_lower (drop 2 cs)
      else if c = 196 \<and> take 1 cs = [176] then 105 # slug_lower (drop 1 cs)
      else (if 65 \<le> c \<and> c \<le> 90 then c + 32 else c) # slug_lower cs)"

definition lower :: "string \<Rightarrow> string" where
  "lower s = map char_of (slug_lower (map of_char s))"

definition validate_slug :: "string \<Rightarrow> string + string" where
  "validate_slug slug = (let s = lower (trim_space slug) in
     if \<not> slug_shape s then Inl ''slug must be 3-32 characters: lowercase letters, digits and hyphens''
     else if s \<in> set reserved_slugs then Inl ''this slug is reserved''
     else Inr s)"

definition max_room_name :: nat where
  "max_room_name = 80"

definition max_description :: nat where
  "max_description = 300"

definition validate_description :: "string \<Rightarrow> string + string" where
  "validate_description d = (let s = trim_space d in
     if max_description < length s then Inl ''description must be at most 300 characters'' else Inr s)"

definition validate_room_name :: "string \<Rightarrow> string + string" where
  "validate_room_name n = (let s = trim_space n in
     if s = [] \<or> max_room_name < length s then Inl ''name must be between 1 and 80 characters'' else Inr s)"

definition parse_visibility :: "string \<Rightarrow> visibility option" where
  "parse_visibility v = (if v = ''public'' \<or> v = '''' then Some VisPublic
     else if v = ''private'' then Some VisPrivate else None)"

text \<open>\<open>parseSchedule\<close>: in the future, or refused.\<close>

definition parse_schedule :: "web_env \<Rightarrow> string \<Rightarrow> time \<Rightarrow> string + time" where
  "parse_schedule env raw now = (case we_time env raw of
      None \<Rightarrow> Inl ''scheduledAt must be an RFC 3339 time''
    | Some t \<Rightarrow> if t < now then Inl ''the scheduled start must be in the future'' else Inr t)"

definition valid_or_400 :: "string + 'a \<Rightarrow> 'a req" where
  "valid_or_400 r = (case r of Inl msg \<Rightarrow> answer (write_error 400 msg) | Inr x \<Rightarrow> okr x)"

section \<open>Creating a room\<close>

record create_request =
  cq_name :: string
  cq_slug :: string
  cq_visibility :: string
  cq_description :: string
  cq_scheduled :: "string option"
  cq_first_url :: string
  cq_invites :: "string list"
  cq_settings :: "(bool option \<times> bool option) option"

definition asked_settings :: "(bool option \<times> bool option) option \<Rightarrow> settings" where
  "asked_settings q = (case q of
      None \<Rightarrow> default_settings
    | Some (vm, vca) \<Rightarrow> default_settings
        \<lparr>vote_mode := (case vm of None \<Rightarrow> vote_mode default_settings | Some b \<Rightarrow> b),
         viewers_can_add := (case vca of None \<Rightarrow> viewers_can_add default_settings | Some b \<Rightarrow> b)\<rparr>)"

text \<open>A taken slug is an error when it was asked for; a random one is drawn again, three times.\<close>

fun create_try :: "web_env \<Rightarrow> user \<Rightarrow> string \<Rightarrow> visibility \<Rightarrow> settings \<Rightarrow> bool \<Rightarrow> string \<Rightarrow> nat \<Rightarrow> room_info req" where
  "create_try env u name vis p custom slug left =
     bindr (with_now (\<lambda>now. ask (create_room now slug name (u_id u) vis p))) (\<lambda>r. case r of
        Inr room \<Rightarrow> okr room
      | Inl e \<Rightarrow>
          if e \<noteq> ConflictErr then internal_error
          else if custom then answer (write_error 409 ''slug is taken'')
          else (case left of
              0 \<Rightarrow> answer (write_error 409 ''slug is taken'')
            | Suc n \<Rightarrow> create_try env u name vis p custom (generate_slug (we_random env (3 - n))) n))"

declare create_try.simps [simp del]

definition check_first :: "web_env \<Rightarrow> string \<Rightarrow> unit req" where
  "check_first env url =
     (if url = [] then okr ()
      else thenr (fail_unless (we_live_queue env) 400 ''starting with a video is not available'')
        (case we_source_key env url of
           None \<Rightarrow> answer (write_error 400 ''the first video link is not supported'')
         | Some key \<Rightarrow> (case we_blocked env key of
               Inl _ \<Rightarrow> internal_error
             | Inr b \<Rightarrow> fail_unless (\<not> b) 400 ''the first video has been blocked by an administrator'')))"

definition first_video :: "web_env \<Rightarrow> room_info \<Rightarrow> actor \<Rightarrow> string \<Rightarrow> string list req" where
  "first_video env room a url w =
     (if url = [] then (Inr [], w)
      else case we_first_add env (ri_id room) a url (w_db w) of
          (None, d) \<Rightarrow> (Inr [], w\<lparr>w_db := d\<rparr>)
        | (Some e, d) \<Rightarrow> (Inr [''the first video could not be queued: '' @ e], w\<lparr>w_db := d\<rparr>))"

fun invite_each :: "web_env \<Rightarrow> user \<Rightarrow> room_info \<Rightarrow> string list \<Rightarrow> string list \<Rightarrow> string list req" where
  "invite_each env u room [] warnings = okr warnings"
| "invite_each env u room (raw # names) warnings =
     (let name = trim_space raw in
      if name = [] \<or> we_fold env name (u_name u) then invite_each env u room names warnings
      else bindr (if_there (looking (\<lambda>d. get_user_by_name d name))) (\<lambda>t. case t of
          None \<Rightarrow> invite_each env u room names (warnings @ [''no such user: '' @ name])
        | Some target \<Rightarrow>
            bindr (with_now (\<lambda>now. ask (create_invite now (ri_id room) (u_id target) (u_id u)))) (\<lambda>r.
            thenr (case r of
                Inr i \<Rightarrow> notify_invite env (iv_id i) (u_id target) (u_name u) room
              | Inl e \<Rightarrow> if e = ConflictErr then okr () else internal_error)
            (thenr (audit env ''invite.create'' ''user'' (uuid_text (u_id target)) (Some (ri_id room))
                [(''username'', MetaText (u_name target))])
              (invite_each env u room names warnings)))))"

definition handle_create_room :: "web_env \<Rightarrow> create_request body \<Rightarrow> reply req" where
  "handle_create_room env b = require_user env (\<lambda>u.
     bindr (decode b) (\<lambda>q.
     bindr (valid_or_400 (validate_room_name (cq_name q))) (\<lambda>name.
     bindr (valid_or_400 (validate_description (cq_description q))) (\<lambda>descr.
     bindr (valid_or_400 (case parse_visibility (cq_visibility q) of
         None \<Rightarrow> Inl ''visibility must be public or private'' | Some v \<Rightarrow> Inr v)) (\<lambda>vis.
     bindr (case cq_scheduled q of
         None \<Rightarrow> okr None
       | Some raw \<Rightarrow> if raw = [] then okr None
           else with_now (\<lambda>now. bindr (valid_or_400 (parse_schedule env raw now)) (\<lambda>t. okr (Some t)))) (\<lambda>sched.
     thenr (allow_user env RoomCreateBudget (u_id u))
    (let custom = trim_space (cq_slug q) \<noteq> [] in
     bindr (if custom then valid_or_400 (validate_slug (cq_slug q)) else okr (generate_slug (we_random env 0))) (\<lambda>slug.
     let url = trim_space (cq_first_url q) in
     thenr (check_first env url)
    (thenr (fail_unless (length (cq_invites q) \<le> 50) 400 ''at most 50 invites at creation'')
    (bindr (create_try env u name vis (asked_settings (cq_settings q)) custom slug 3) (\<lambda>room0.
     bindr (if descr \<noteq> [] \<or> sched \<noteq> None
        then (with_now (\<lambda>now. must (update_room now (ri_id room0) (ri_slug room0) (ri_name room0)
                 (ri_visibility room0) descr sched)))
        else okr room0) (\<lambda>room.
     let a = \<lparr>a_user = Some u, a_member = Some \<lparr>rm_room = 0, rm_user = 0, rm_username = [],
                rm_role = RoleOwner, rm_joined = zero_time\<rparr>, a_banned = False, a_muted_until = None\<rparr> in
     bindr (first_video env room a url) (\<lambda>warned.
     bindr (invite_each env u room (cq_invites q) warned) (\<lambda>warnings.
     bindr (room_response_of env room a) (\<lambda>resp.
     okr (Reply 201 (RoomCreated resp warnings)))))))))))))))))"

section \<open>Reading, changing and deleting a room\<close>

definition handle_get_room :: "web_env \<Rightarrow> string \<Rightarrow> reply req" where
  "handle_get_room env slug =
     bindr (load_room env slug) (\<lambda>(room, a). thenr (permit room a ViewRoom)
       (bindr (room_response_of env room a) (\<lambda>resp. okr (Reply 200 (RoomReply resp)))))"

definition handle_ws :: "web_env \<Rightarrow> string \<Rightarrow> reply req" where
  "handle_ws env slug =
     bindr (load_room env slug) (\<lambda>(room, a). thenr (permit room a ViewRoom)
       (okr (Reply 101 (Upgrade room a))))"

text \<open>The raw \<open>scheduledAt\<close>: not sent, null, a string, something else.\<close>

datatype schedule_field = SchedAbsent | SchedNull | SchedText string | SchedOther

record update_request =
  uq_name :: "string option"
  uq_slug :: "string option"
  uq_visibility :: "string option"
  uq_description :: "string option"
  uq_scheduled :: schedule_field

definition changed_by :: "('a \<Rightarrow> string + 'b) \<Rightarrow> 'a option \<Rightarrow> 'b \<Rightarrow> 'b req" where
  "changed_by check field old = (case field of None \<Rightarrow> okr old | Some x \<Rightarrow> valid_or_400 (check x))"

definition handle_update_room :: "web_env \<Rightarrow> string \<Rightarrow> update_request body \<Rightarrow> reply req" where
  "handle_update_room env slug b = require_user env (\<lambda>u.
     bindr (load_room env slug) (\<lambda>(room, a). thenr (permit room a ManageRoom)
    (bindr (decode b) (\<lambda>q.
     bindr (case uq_scheduled q of
         SchedAbsent \<Rightarrow> okr (ri_scheduled room)
       | SchedNull \<Rightarrow> okr None
       | SchedOther \<Rightarrow> answer (write_error 400 ''scheduledAt must be a string or null'')
       | SchedText raw \<Rightarrow> with_now (\<lambda>now. bindr (valid_or_400 (parse_schedule env raw now)) (\<lambda>t. okr (Some t)))) (\<lambda>sched.
     bindr (changed_by validate_description (uq_description q) (ri_description room)) (\<lambda>descr.
     bindr (changed_by validate_room_name (uq_name q) (ri_name room)) (\<lambda>name.
     bindr (changed_by validate_slug (uq_slug q) (ri_slug room)) (\<lambda>new_slug.
     bindr (changed_by (\<lambda>v. case parse_visibility v of
         None \<Rightarrow> Inl ''visibility must be public or private'' | Some x \<Rightarrow> Inr x)
         (uq_visibility q) (ri_visibility room)) (\<lambda>vis.
     bindr (with_now (\<lambda>now. must_be_free (update_room now (ri_id room) new_slug name vis descr sched)
         409 ''slug is taken'')) (\<lambda>room'.
     thenr (audit env ''room.update'' ''room'' (uuid_text (ri_id room')) (Some (ri_id room'))
         [(''name'', MetaText name), (''slug'', MetaText new_slug),
          (''visibility'', MetaText (if vis = VisPublic then ''public'' else ''private''))])
    (thenr (call_hook env OnRoomChanged (ri_id room') uuid_nil [])
    (bindr (room_response_of env room' a) (\<lambda>resp. okr (Reply 200 (RoomReply resp)))))))))))))))"

definition handle_delete_room :: "web_env \<Rightarrow> string \<Rightarrow> reply req" where
  "handle_delete_room env slug = require_user env (\<lambda>u.
     bindr (load_room env slug) (\<lambda>(room, a). thenr (permit room a DeleteRoom)
    (thenr (must (delete_room (ri_id room)))
    (thenr (audit env ''room.delete'' ''room'' (uuid_text (ri_id room)) None
         [(''slug'', MetaText (ri_slug room)), (''name'', MetaText (ri_name room))])
    (thenr (call_hook env OnRoomDeleted (ri_id room) uuid_nil [])
    (okr (Reply 204 NoContent)))))))"

text \<open>The list leaves most fields of the response at their zero.\<close>

definition handle_my_rooms :: "web_env \<Rightarrow> reply req" where
  "handle_my_rooms env = require_user env (\<lambda>u.
     bindr (must (reading (\<lambda>d. list_rooms_for_user d (u_id u)))) (\<lambda>rooms.
     okr (Reply 200 (RoomList (map (\<lambda>(r, role).
        \<lparr>rr_id = ri_id r, rr_slug = ri_slug r, rr_name = ri_name r, rr_visibility = ri_visibility r,
         rr_settings = ri_settings r, rr_owner = [], rr_description = [], rr_members = 0,
         rr_my_role = role, rr_starred = False, rr_scheduled = None, rr_created = ri_created r\<rparr>) rooms)))))"

end
