(* ===== verification/Members_Api.thy ===== *)
theory Members_Api
  imports Rooms_Api
begin

text \<open>
  The handlers about people: members, moderators and ownership, bans, invites and what is coming
  up (\<open>apihttp/rooms.go\<close>), mutes (\<open>mutes.go\<close>), stars (\<open>stars.go\<close>) and invite links
  (\<open>invite_links.go\<close>).
\<close>

section \<open>Members\<close>

definition handle_list_members :: "web_env \<Rightarrow> string \<Rightarrow> reply req" where
  "handle_list_members env slug =
     bindr (load_room env slug) (\<lambda>(room, a). thenr (permit room a ViewRoom)
    (bindr (must (reading (\<lambda>d. list_members d (ri_id room)))) (\<lambda>ms.
     okr (Reply 200 (MemberList (map (\<lambda>m.
        \<lparr>mr_username = rm_username m, mr_role = rm_role m, mr_joined = rm_joined m\<rparr>) ms))))))"

definition username_meta :: "user \<Rightarrow> string \<times> meta" where
  "username_meta u = (''username'', MetaText (u_name u))"

definition role_text :: "room_role \<Rightarrow> string" where
  "role_text r = (case r of RoleNone \<Rightarrow> '''' | RoleOwner \<Rightarrow> ''owner'' | RoleModerator \<Rightarrow> ''moderator''
     | RoleMember \<Rightarrow> ''member'')"

definition no_content :: "reply req" where
  "no_content = okr (Reply 204 NoContent)"

definition handle_add_moderator :: "web_env \<Rightarrow> string \<Rightarrow> string \<Rightarrow> reply req" where
  "handle_add_moderator env slug name = require_user env (\<lambda>u.
     bindr (load_room env slug) (\<lambda>(room, a). thenr (permit room a ManageModerators)
    (bindr (target_user name) (\<lambda>target.
     thenr (fail_unless (u_id target \<noteq> ri_owner room) 400 ''the owner is already above moderator'')
    (bindr (seen (looking (\<lambda>d. get_ban d (ri_id room) (u_id target)))) (\<lambda>banned.
     thenr (fail_unless (\<not> banned) 409 ''user is banned in this room; unban first'')
    (thenr (with_now (\<lambda>now. must (upsert_member now (ri_id room) (u_id target) RoleModerator)))
    (thenr (audit env ''member.promote'' ''user'' (uuid_text (u_id target)) (Some (ri_id room))
        [username_meta target]) no_content))))))))"

definition handle_remove_moderator :: "web_env \<Rightarrow> string \<Rightarrow> string \<Rightarrow> reply req" where
  "handle_remove_moderator env slug name = require_user env (\<lambda>u.
     bindr (load_room env slug) (\<lambda>(room, a). thenr (permit room a ManageModerators)
    (bindr (target_user name) (\<lambda>target.
     bindr (target_role room (u_id target)) (\<lambda>role.
     thenr (fail_unless (role = RoleModerator) 404 ''user is not a moderator'')
    (thenr (with_now (\<lambda>now. must (upsert_member now (ri_id room) (u_id target) RoleMember)))
    (thenr (audit env ''member.demote'' ''user'' (uuid_text (u_id target)) (Some (ri_id room))
        [username_meta target]) no_content)))))))"

definition handle_remove_member :: "web_env \<Rightarrow> string \<Rightarrow> string \<Rightarrow> reply req" where
  "handle_remove_member env slug name = require_user env (\<lambda>u.
     bindr (load_room env slug) (\<lambda>(room, a).
     bindr (target_user name) (\<lambda>target.
     bindr (target_role room (u_id target)) (\<lambda>role.
     let self = a_user a \<noteq> None \<and> actor_id a = u_id target in
     thenr (fail_unless (role \<noteq> RoleNone) 404 ''user is not a member'')
    (thenr (fail_unless (\<not> (self \<and> role = RoleOwner)) 409 ''transfer ownership before leaving'')
    (thenr (if self then okr () else permit_target room a RemoveMember role)
    (thenr (must (delete_member (ri_id room) (u_id target)))
    (thenr (if self
       then thenr (audit env ''member.leave'' ''room'' (uuid_text (ri_id room)) (Some (ri_id room))
              [(''role'', MetaText (role_text role))])
              (call_hook env OnLeave (ri_id room) (u_id target) [])
       else thenr (audit env ''member.remove'' ''user'' (uuid_text (u_id target)) (Some (ri_id room))
              [username_meta target, (''role'', MetaText (role_text role))])
              (if ri_visibility room \<noteq> VisPublic then call_hook env OnRemove (ri_id room) (u_id target) []
               else okr ()))
      no_content))))))))"

definition handle_transfer_ownership :: "web_env \<Rightarrow> string \<Rightarrow> string body \<Rightarrow> reply req" where
  "handle_transfer_ownership env slug b = require_user env (\<lambda>u.
     bindr (load_room env slug) (\<lambda>(room, a). thenr (permit room a ManageRoom)
    (bindr (decode b) (\<lambda>name.
     bindr (target_user (trim_space name)) (\<lambda>target.
     thenr (fail_unless (u_id target \<noteq> actor_id a) 400 ''you already own this room'')
    (thenr (with_now (\<lambda>now. must_find (transfer_ownership now (ri_id room) (actor_id a) (u_id target))
        404 ''user is not a member''))
    (thenr (audit env ''room.transfer'' ''user'' (uuid_text (u_id target)) (Some (ri_id room))
        [username_meta target])
    (thenr (call_hook env OnRoomChanged (ri_id room) uuid_nil []) no_content))))))))"

section \<open>Bans\<close>

definition handle_list_bans :: "web_env \<Rightarrow> string \<Rightarrow> reply req" where
  "handle_list_bans env slug = require_user env (\<lambda>u.
     bindr (load_room env slug) (\<lambda>(room, a). thenr (permit room a BanMember)
    (bindr (must (reading (\<lambda>d. list_bans d (ri_id room)))) (\<lambda>bs.
     okr (Reply 200 (BanList (map (\<lambda>b.
        \<lparr>br_username = rb_username b, br_reason = rb_reason b, br_created = rb_created b\<rparr>) bs)))))))"

text \<open>The body of a ban is optional: none is the empty reason.\<close>

definition handle_ban :: "web_env \<Rightarrow> string \<Rightarrow> string \<Rightarrow> string body option \<Rightarrow> reply req" where
  "handle_ban env slug name b = require_user env (\<lambda>u.
     bindr (load_room env slug) (\<lambda>(room, a).
     bindr (target_user name) (\<lambda>target.
     thenr (fail_unless (u_id target \<noteq> actor_id a) 400 ''you cannot ban yourself'')
    (bindr (target_role room (u_id target)) (\<lambda>role.
     thenr (permit_target room a BanMember role)
    (bindr (case b of None \<Rightarrow> okr [] | Some q \<Rightarrow> decode q) (\<lambda>reason.
     thenr (fail_unless (length reason \<le> 200) 400 ''reason must be at most 200 characters'')
    (thenr (with_now (\<lambda>now. must (create_ban now (ri_id room) (u_id target) (actor_id a) reason)))
    (thenr (audit env ''member.ban'' ''user'' (uuid_text (u_id target)) (Some (ri_id room))
        [username_meta target, (''reason'', MetaText reason)])
    (thenr (call_hook env OnBan (ri_id room) (u_id target) []) no_content))))))))))"

definition handle_unban :: "web_env \<Rightarrow> string \<Rightarrow> string \<Rightarrow> reply req" where
  "handle_unban env slug name = require_user env (\<lambda>u.
     bindr (load_room env slug) (\<lambda>(room, a). thenr (permit room a BanMember)
    (bindr (target_user name) (\<lambda>target.
     thenr (must_find (delete_ban (ri_id room) (u_id target)) 404 ''user is not banned'')
    (thenr (audit env ''member.unban'' ''user'' (uuid_text (u_id target)) (Some (ri_id room))
        [username_meta target]) no_content)))))"

section \<open>Invites\<close>

definition invite_response_of :: "invite \<Rightarrow> invite_response" where
  "invite_response_of i = \<lparr>vr_id = iv_id i, vr_room_slug = iv_room_slug i, vr_room_name = iv_room_name i,
     vr_inviter = iv_inviter_name i, vr_status = iv_status i, vr_created = iv_created i\<rparr>"

definition handle_create_invite :: "web_env \<Rightarrow> string \<Rightarrow> string body \<Rightarrow> reply req" where
  "handle_create_invite env slug b = require_user env (\<lambda>u.
     bindr (load_room env slug) (\<lambda>(room, a). thenr (permit room a Invite)
    (bindr (decode b) (\<lambda>name.
     thenr (allow_user env InviteBudget (actor_id a))
    (bindr (target_user (trim_space name)) (\<lambda>target.
     bindr (seen (looking (\<lambda>d. get_ban d (ri_id room) (u_id target)))) (\<lambda>banned.
     thenr (fail_unless (\<not> banned) 409 ''user is banned in this room; unban first'')
    (bindr (seen (looking (\<lambda>d. get_member d (ri_id room) (u_id target)))) (\<lambda>joined.
     thenr (fail_unless (\<not> joined) 409 ''user is already a member'')
    (bindr (with_now (\<lambda>now. must_be_free (create_invite now (ri_id room) (u_id target) (actor_id a))
        409 ''an invite is already pending'')) (\<lambda>i.
     thenr (audit env ''invite.create'' ''user'' (uuid_text (u_id target)) (Some (ri_id room))
        [username_meta target])
    (thenr (notify_invite env (iv_id i) (u_id target) (actor_name a) room)
    (okr (Reply 201 (InviteReply (invite_response_of i))))))))))))))))"

definition handle_my_invites :: "web_env \<Rightarrow> reply req" where
  "handle_my_invites env = require_user env (\<lambda>u.
     bindr (must (reading (\<lambda>d. list_pending_invites d (u_id u)))) (\<lambda>is.
     okr (Reply 200 (InviteList (map invite_response_of is)))))"

definition upcoming_horizon :: duration where
  "upcoming_horizon = 30 * minute"

definition handle_my_upcoming :: "web_env \<Rightarrow> reply req" where
  "handle_my_upcoming env = require_user env (\<lambda>u.
     bindr (with_now (\<lambda>now. must (reading (\<lambda>d. list_upcoming_for_user d (u_id u) now (now + upcoming_horizon)))))
       (\<lambda>rs. okr (Reply 200 (UpcomingList rs))))"

text \<open>\<open>iid\<close> is the parsed id of the path, if it is one.\<close>

definition load_own_invite :: "user \<Rightarrow> uuid option \<Rightarrow> invite req" where
  "load_own_invite u iid = (case iid of
      None \<Rightarrow> answer (write_error 404 ''invite not found'')
    | Some i \<Rightarrow> bindr (must_find (looking (\<lambda>d. get_invite d i)) 404 ''invite not found'') (\<lambda>v.
        thenr (fail_unless (iv_invitee v = u_id u) 404 ''invite not found'') (okr v)))"

definition handle_accept_invite :: "web_env \<Rightarrow> uuid option \<Rightarrow> reply req" where
  "handle_accept_invite env iid = require_user env (\<lambda>u.
     bindr (load_own_invite u iid) (\<lambda>v.
     bindr (seen (looking (\<lambda>d. get_ban d (iv_room v) (iv_invitee v)))) (\<lambda>banned.
     thenr (fail_unless (\<not> banned) 403 ''you are banned from this room'')
    (thenr (with_now (\<lambda>now. must_find (accept_invite now (iv_id v)) 409 ''invite is no longer pending''))
    (okr (Reply 200 (RoomSlug (iv_room_slug v))))))))"

definition handle_decline_invite :: "web_env \<Rightarrow> uuid option \<Rightarrow> reply req" where
  "handle_decline_invite env iid = require_user env (\<lambda>u.
     bindr (load_own_invite u iid) (\<lambda>v.
     thenr (must_find (decline_invite (iv_id v)) 409 ''invite is no longer pending'') no_content))"

section \<open>Mutes (\<open>mutes.go\<close>)\<close>

definition mute_choices :: "int list" where
  "mute_choices = [5, 30, 60, 1440]"

definition mute_label :: "int \<Rightarrow> string" where
  "mute_label m = (if 1440 \<le> m then ''a day'' else if 60 \<le> m then ''an hour''
     else dec (nat m) @ '' min'')"

definition mute_response_of :: "room_mute \<Rightarrow> mute_response" where
  "mute_response_of m = \<lparr>xr_username = mu_username m, xr_reason = mu_reason m, xr_until = mu_until m,
     xr_created = mu_created m\<rparr>"

definition handle_list_mutes :: "web_env \<Rightarrow> string \<Rightarrow> reply req" where
  "handle_list_mutes env slug = require_user env (\<lambda>u.
     bindr (load_room env slug) (\<lambda>(room, a). thenr (permit room a ModerateChat)
    (bindr (with_now (\<lambda>now. must (reading (\<lambda>d. list_mutes d (ri_id room) now)))) (\<lambda>ms.
     okr (Reply 200 (MuteList (map mute_response_of ms)))))))"

definition handle_mute :: "web_env \<Rightarrow> string \<Rightarrow> string \<Rightarrow> (int \<times> string) body \<Rightarrow> reply req" where
  "handle_mute env slug name b = require_user env (\<lambda>u.
     bindr (load_room env slug) (\<lambda>(room, a).
     bindr (target_user name) (\<lambda>target.
     thenr (fail_unless (u_id target \<noteq> actor_id a) 400 ''you cannot mute yourself'')
    (bindr (target_role room (u_id target)) (\<lambda>role.
     thenr (permit_target room a ModerateChat role)
    (bindr (decode b) (\<lambda>(minutes, reason).
     thenr (fail_unless (minutes \<in> set mute_choices) 400 ''minutes must be 5, 30, 60 or 1440'')
    (thenr (fail_unless (length reason \<le> 200) 400 ''reason must be at most 200 characters'')
    (thenr (with_now (\<lambda>now. must (set_mute now (ri_id room) (u_id target) (actor_id a) reason
        (now + minutes * minute))))
    (thenr (audit env ''member.mute'' ''user'' (uuid_text (u_id target)) (Some (ri_id room))
        [username_meta target, (''minutes'', MetaInt minutes), (''reason'', MetaText reason)])
    (thenr (call_hook env OnMute (ri_id room) (u_id target)
        (actor_name a @ '' muted '' @ u_name target @ '' for '' @ mute_label minutes))
    (with_now (\<lambda>now. okr (Reply 200 (MuteReply \<lparr>xr_username = u_name target, xr_reason = reason,
        xr_until = now + minutes * minute, xr_created = now\<rparr>)))))))))))))))"

definition handle_unmute :: "web_env \<Rightarrow> string \<Rightarrow> string \<Rightarrow> reply req" where
  "handle_unmute env slug name = require_user env (\<lambda>u.
     bindr (load_room env slug) (\<lambda>(room, a). thenr (permit room a ModerateChat)
    (bindr (target_user name) (\<lambda>target.
     thenr (must_find (delete_mute (ri_id room) (u_id target)) 404 ''user is not muted'')
    (thenr (audit env ''member.unmute'' ''user'' (uuid_text (u_id target)) (Some (ri_id room))
        [username_meta target])
    (thenr (call_hook env OnMute (ri_id room) (u_id target) (actor_name a @ '' unmuted '' @ u_name target))
      no_content))))))"

section \<open>Stars (\<open>stars.go\<close>)\<close>

definition handle_star :: "web_env \<Rightarrow> string \<Rightarrow> bool \<Rightarrow> reply req" where
  "handle_star env slug on = require_user env (\<lambda>u.
     bindr (load_room env slug) (\<lambda>(room, a). thenr (permit room a ViewRoom)
    (thenr (must (set_star (actor_id a) (ri_id room) on)) no_content)))"

section \<open>Invite links (\<open>invite_links.go\<close>)\<close>

definition max_link_uses :: int where
  "max_link_uses = 1000"

definition day :: duration where
  "day = 24 * 60 * minute"

definition expiry_choice :: "string \<Rightarrow> duration option" where
  "expiry_choice s = (if s = '''' then Some 0 else if s = ''1d'' then Some day
     else if s = ''7d'' then Some (7 * day) else if s = ''30d'' then Some (30 * day) else None)"

definition link_response_of :: "invite_link \<Rightarrow> link_response" where
  "link_response_of l = \<lparr>lr_id = il_id l, lr_url = [], lr_created_by = il_creator l, lr_expires = il_expires l,
     lr_max_uses = il_max_uses l, lr_uses = il_uses l, lr_revoked = il_revoked l, lr_created = il_created l\<rparr>"

definition handle_create_invite_link :: "web_env \<Rightarrow> string \<Rightarrow> (string \<times> int option) body \<Rightarrow> reply req" where
  "handle_create_invite_link env slug b = require_user env (\<lambda>u.
     bindr (load_room env slug) (\<lambda>(room, a). thenr (permit room a Invite)
    (bindr (decode b) (\<lambda>(expires, limit).
     bindr (valid_or_400 (case expiry_choice expires of
         None \<Rightarrow> Inl ''expiresIn must be 1d, 7d, 30d or empty'' | Some t \<Rightarrow> Inr t)) (\<lambda>ttl.
     thenr (fail_unless (case limit of None \<Rightarrow> True | Some n \<Rightarrow> 1 \<le> n \<and> n \<le> max_link_uses) 400
         ''maxUses must be between 1 and 1000'')
    (thenr (allow_user env InviteBudget (actor_id a))
    (bindr (with_now (\<lambda>now. must (create_invite_link now (ri_id room) (we_hash env (we_token env)) (actor_id a)
         (if 0 < ttl then Some (now + ttl) else None) limit))) (\<lambda>l.
     thenr (audit env ''invite.link.create'' ''invite_link'' (uuid_text (il_id l)) (Some (ri_id room))
         [(''expiresIn'', MetaText expires), (''maxUses'', case limit of None \<Rightarrow> MetaNull | Some n \<Rightarrow> MetaInt n)])
    (okr (Reply 201 (LinkReply ((link_response_of l)
         \<lparr>lr_url := we_origin env @ ''/join/'' @ we_token env\<rparr>))))))))))))"

definition handle_list_invite_links :: "web_env \<Rightarrow> string \<Rightarrow> reply req" where
  "handle_list_invite_links env slug = require_user env (\<lambda>u.
     bindr (load_room env slug) (\<lambda>(room, a). thenr (permit room a Invite)
    (bindr (must (reading (\<lambda>d. list_invite_links d (ri_id room)))) (\<lambda>ls.
     okr (Reply 200 (LinkList (map link_response_of ls)))))))"

definition handle_revoke_invite_link :: "web_env \<Rightarrow> string \<Rightarrow> uuid option \<Rightarrow> reply req" where
  "handle_revoke_invite_link env slug lid = require_user env (\<lambda>u.
     bindr (load_room env slug) (\<lambda>(room, a). thenr (permit room a Invite)
    (case lid of
       None \<Rightarrow> answer (write_error 404 ''invite link not found'')
     | Some i \<Rightarrow>
         thenr (with_now (\<lambda>now. must_find (revoke_invite_link now (ri_id room) i) 404 ''invite link not found''))
        (thenr (audit env ''invite.link.revoke'' ''invite_link'' (uuid_text i) (Some (ri_id room)) []) no_content))))"

definition load_link :: "web_env \<Rightarrow> string \<Rightarrow> invite_link req" where
  "load_link env token =
     thenr (fail_unless (16 \<le> length token \<and> length token \<le> 128) 404 ''invite link not found'')
       (must_find (looking (\<lambda>d. get_invite_link_by_token d (we_hash env token))) 404 ''invite link not found'')"

definition handle_join_preview :: "web_env \<Rightarrow> string \<Rightarrow> reply req" where
  "handle_join_preview env token =
     bindr (load_link env token) (\<lambda>l.
     bindr (case we_user env of None \<Rightarrow> okr (False, False)
       | Some u \<Rightarrow>
          bindr (seen (looking (\<lambda>d. get_member d (il_room l) (u_id u)))) (\<lambda>joined.
          bindr (seen (looking (\<lambda>d. get_ban d (il_room l) (u_id u)))) (\<lambda>banned.
          okr (joined, banned)))) (\<lambda>(joined, banned). with_now (\<lambda>now.
     okr (Reply 200 (PreviewReply \<lparr>jr_room_slug = il_room_slug l, jr_room_name = il_room_name l,
        jr_valid = (if banned then False else fst (link_usable l now)),
        jr_reason = (if banned then ''banned'' else snd (link_usable l now)),
        jr_member = joined\<rparr>)))))"

definition handle_join :: "web_env \<Rightarrow> string \<Rightarrow> reply req" where
  "handle_join env token = require_user env (\<lambda>u.
     bindr (load_link env token) (\<lambda>l.
     bindr (seen (looking (\<lambda>d. get_ban d (il_room l) (u_id u)))) (\<lambda>banned.
     thenr (fail_unless (\<not> banned) 403 ''you are banned from this room'')
    (bindr (seen (looking (\<lambda>d. get_member d (il_room l) (u_id u)))) (\<lambda>joined.
     if joined then okr (Reply 200 (RoomSlug (il_room_slug l)))
     else thenr (with_now (\<lambda>now. fail_unless (fst (link_usable l now)) 410
            (''this invite link is '' @ snd (link_usable l now))))
         (thenr (with_now (\<lambda>now. must_be_free (use_invite_link now now (il_id l) (u_id u))
             410 ''this invite link is used up''))
         (thenr (audit env ''invite.link.join'' ''invite_link'' (uuid_text (il_id l)) (Some (il_room l)) [])
         (thenr (call_hook env OnRoomChanged (il_room l) uuid_nil [])
         (okr (Reply 200 (RoomSlug (il_room_slug l))))))))))))"

section \<open>The router (\<open>server.go\<close>, the room routes)\<close>

datatype request =
  PostRooms "create_request body"
| GetRoom string
| GetMembers string
| GetWS string
| PatchRoom string "update_request body"
| DeleteRoomReq string
| PutModerator string string
| DeleteModerator string string
| DeleteMemberReq string string
| PostOwner string "string body"
| GetBans string
| PutBan string string "string body option"
| DeleteBanReq string string
| PostInvites string "string body"
| GetMutes string
| PutMute string string "(int \<times> string) body"
| DeleteMuteReq string string
| PutStar string
| DeleteStar string
| PostInviteLinks string "(string \<times> int option) body"
| GetInviteLinks string
| DeleteInviteLink string "uuid option"
| GetJoin string
| PostJoin string
| GetMyRooms
| GetInvites
| GetMyUpcoming
| PostAccept "uuid option"
| PostDecline "uuid option"

fun serve :: "web_env \<Rightarrow> request \<Rightarrow> reply req" where
  "serve env (PostRooms b) = handle_create_room env b"
| "serve env (GetRoom slug) = handle_get_room env slug"
| "serve env (GetMembers slug) = handle_list_members env slug"
| "serve env (GetWS slug) = handle_ws env slug"
| "serve env (PatchRoom slug b) = handle_update_room env slug b"
| "serve env (DeleteRoomReq slug) = handle_delete_room env slug"
| "serve env (PutModerator slug name) = handle_add_moderator env slug name"
| "serve env (DeleteModerator slug name) = handle_remove_moderator env slug name"
| "serve env (DeleteMemberReq slug name) = handle_remove_member env slug name"
| "serve env (PostOwner slug b) = handle_transfer_ownership env slug b"
| "serve env (GetBans slug) = handle_list_bans env slug"
| "serve env (PutBan slug name b) = handle_ban env slug name b"
| "serve env (DeleteBanReq slug name) = handle_unban env slug name"
| "serve env (PostInvites slug b) = handle_create_invite env slug b"
| "serve env (GetMutes slug) = handle_list_mutes env slug"
| "serve env (PutMute slug name b) = handle_mute env slug name b"
| "serve env (DeleteMuteReq slug name) = handle_unmute env slug name"
| "serve env (PutStar slug) = handle_star env slug True"
| "serve env (DeleteStar slug) = handle_star env slug False"
| "serve env (PostInviteLinks slug b) = handle_create_invite_link env slug b"
| "serve env (GetInviteLinks slug) = handle_list_invite_links env slug"
| "serve env (DeleteInviteLink slug i) = handle_revoke_invite_link env slug i"
| "serve env (GetJoin token) = handle_join_preview env token"
| "serve env (PostJoin token) = handle_join env token"
| "serve env GetMyRooms = handle_my_rooms env"
| "serve env GetInvites = handle_my_invites env"
| "serve env GetMyUpcoming = handle_my_upcoming env"
| "serve env (PostAccept i) = handle_accept_invite env i"
| "serve env (PostDecline i) = handle_decline_invite env i"

end
