(* ===== verification/Rooms_Safe.thy ===== *)
theory Rooms_Safe
  imports Members_Api
begin

text \<open>
  What the room handlers keep of the tables.

  \<open>leads\<close> is the triple of a handler over the tables: where it goes on, and where it ends with a
  reply.  A handler reads one time, \<open>t\<close>.  The locale \<open>tables_law\<close> is the interface between the handlers and the tables: a
  property that every update the handlers make keeps (the ownership transfer under the condition
  under which the handler makes it); every handler is proved against it once.  It is interpreted
  for the ownership of rooms, the uses of invite links and the keys of the tables.
\<close>

section \<open>Triples\<close>

definition leads :: "time \<Rightarrow> (db \<Rightarrow> bool) \<Rightarrow> 'a req \<Rightarrow> ('a \<Rightarrow> db \<Rightarrow> bool) \<Rightarrow> (db \<Rightarrow> bool) \<Rightarrow> bool" where
  "leads t Q m R E \<longleftrightarrow> (\<forall>w. w_now w = t \<longrightarrow> Q (w_db w) \<longrightarrow> w_now (snd (m w)) = t \<and>
     (case m w of (Inl _, v) \<Rightarrow> E (w_db v) | (Inr x, v) \<Rightarrow> R x (w_db v)))"

lemma leadsI:
  assumes "\<And>w r v. w_now w = t \<Longrightarrow> Q (w_db w) \<Longrightarrow> m w = (r, v) \<Longrightarrow>
     w_now v = t \<and> (case r of Inl _ \<Rightarrow> E (w_db v) | Inr x \<Rightarrow> R x (w_db v))"
  shows "leads t Q m R E"
  unfolding leads_def
proof (intro allI impI)
  fix w :: web assume "w_now w = t" "Q (w_db w)"
  from assms [OF this, of "fst (m w)" "snd (m w)"]
  show "w_now (snd (m w)) = t \<and> (case m w of (Inl _, v) \<Rightarrow> E (w_db v) | (Inr x, v) \<Rightarrow> R x (w_db v))"
    by (cases "m w") (auto split: sum.splits)
qed

lemma leadsD:
  "leads t Q m R E \<Longrightarrow> w_now w = t \<Longrightarrow> Q (w_db w) \<Longrightarrow> m w = (r, v) \<Longrightarrow>
     w_now v = t \<and> (case r of Inl _ \<Rightarrow> E (w_db v) | Inr x \<Rightarrow> R x (w_db v))"
  by (auto simp: leads_def split: sum.splits dest!: spec [of _ w])

named_theorems reads \<open>steps of a handler that leave the tables alone\<close>

lemma leads_okr [reads]: "leads t Q (okr x) (\<lambda>_. Q) Q"
  by (simp add: leads_def okr_def)

lemma leads_answer: "leads t Q (answer r) R Q"
  by (simp add: leads_def answer_def)

lemma leads_bind:
  assumes "leads t Q m R E" and "\<And>x. leads t (R x) (k x) S E"
  shows "leads t Q (bindr m k) S E"
proof (rule leadsI)
  fix w :: web and r v
  assume w: "w_now w = t" "Q (w_db w)" and run: "bindr m k w = (r, v)"
  show "w_now v = t \<and> (case r of Inl _ \<Rightarrow> E (w_db v) | Inr x \<Rightarrow> S x (w_db v))"
  proof (cases "m w")
    case (Pair r1 v1)
    note m = leadsD [OF assms(1) w Pair]
    show ?thesis
    proof (cases r1)
      case (Inl e)
      with run Pair m show ?thesis by (auto simp: bindr_def)
    next
      case (Inr x)
      with run Pair have "k x v1 = (r, v)" by (simp add: bindr_def)
      from leadsD [OF assms(2) _ _ this] m Inr show ?thesis by simp
    qed
  qed
qed

lemma leads_then: "leads t Q m (\<lambda>_. R) E \<Longrightarrow> leads t R k S E \<Longrightarrow> leads t Q (thenr m k) S E"
  unfolding thenr_def by (rule leads_bind)

lemma leads_mono:
  "leads t Q' m R' E' \<Longrightarrow> (\<And>d. Q d \<Longrightarrow> Q' d) \<Longrightarrow> (\<And>x d. R' x d \<Longrightarrow> R x d) \<Longrightarrow> (\<And>d. E' d \<Longrightarrow> E d)
   \<Longrightarrow> leads t Q m R E"
  by (rule leadsI) (fastforce dest: leadsD split: sum.splits)

lemma leads_ask:
  assumes "\<And>d. Q d \<Longrightarrow> R (Inl InternalErr) d" and "\<And>d r d'. Q d \<Longrightarrow> f d = (r, d') \<Longrightarrow> R r d'"
  shows "leads t Q (ask f) R E"
  using assms by (auto simp: leads_def ask_def split: list.split bool.split prod.split)

lemma leads_must:
  assumes "\<And>d. Q d \<Longrightarrow> E d" and "\<And>d x d'. Q d \<Longrightarrow> f d = (Inr x, d') \<Longrightarrow> R x d'"
    and "\<And>d e d'. Q d \<Longrightarrow> f d = (Inl e, d') \<Longrightarrow> E d'"
  shows "leads t Q (must f) R E" and "leads t Q (must_find f st msg) R E" and "leads t Q (must_be_free f st msg) R E"
proof -
  let ?M = "\<lambda>r d. case r of Inl _ \<Rightarrow> E d | Inr x \<Rightarrow> R x d"
  have a: "leads t Q (ask f) ?M E"
    by (rule leads_ask) (use assms in \<open>auto split: sum.split\<close>)
  show "leads t Q (must f) R E"
    unfolding must_def
    by (rule leads_bind [OF a]) (auto simp: leads_def internal_error_def answer_def okr_def split: sum.splits)
  show "leads t Q (must_find f st msg) R E"
    unfolding must_find_def
    by (rule leads_bind [OF a]) (auto simp: leads_def internal_error_def answer_def okr_def split: sum.splits)
  show "leads t Q (must_be_free f st msg) R E"
    unfolding must_be_free_def
    by (rule leads_bind [OF a]) (auto simp: leads_def internal_error_def answer_def okr_def split: sum.splits)
qed

lemma leads_looking [reads]:
  "leads t Q (must (looking f)) (\<lambda>x d. Q d \<and> f d = Inr x) Q"
  "leads t Q (must_find (looking f) st msg) (\<lambda>x d. Q d \<and> f d = Inr x) Q"
  by (rule leads_must; simp add: looking_def)+

lemma leads_reading [reads]: "leads t Q (must (reading g)) (\<lambda>x d. Q d \<and> x = g d) Q"
  by (rule leads_must) (simp_all add: reading_def)

lemma leads_if_there [reads]:
  "leads t Q (if_there (looking f)) (\<lambda>x d. Q d \<and> f d = (case x of None \<Rightarrow> Inl NotFoundErr | Some y \<Rightarrow> Inr y)) Q"
proof -
  have "leads t Q (ask (looking f)) (\<lambda>r d. Q d \<and> (r = Inl InternalErr \<or> f d = r)) Q"
    by (rule leads_ask) (auto simp: looking_def)
  then show ?thesis
    unfolding if_there_def
    by (rule leads_bind) (auto simp: leads_def internal_error_def answer_def okr_def split: sum.splits)
qed

lemma leads_seen [reads]: "leads t Q (seen (looking f)) (\<lambda>b d. Q d \<and> (b \<longrightarrow> (\<exists>x. f d = Inr x))) Q"
proof -
  have "leads t Q (ask (looking f)) (\<lambda>r d. Q d \<and> (r = Inl InternalErr \<or> f d = r)) Q"
    by (rule leads_ask) (auto simp: looking_def)
  then show ?thesis
    unfolding seen_def
    by (rule leads_bind) (auto simp: leads_def okr_def split: sum.splits)
qed

lemma leads_fail_unless [reads]: "leads t Q (fail_unless b st msg) (\<lambda>_ d. Q d \<and> b) Q"
  by (simp add: leads_def fail_unless_def okr_def answer_def)

lemma leads_steps [reads]:
  "leads t Q (permit room a act) (\<lambda>_ d. Q d \<and> can t a act (Some room)) Q"
  "leads t Q (permit_target room a act role) (\<lambda>_ d. Q d \<and> can_target t a act (Some room) role) Q"
  "leads t Q (decode b) (\<lambda>_. Q) Q"
  "leads t Q (valid_or_400 v) (\<lambda>_. Q) Q"
  "leads t Q (allow_user env bu u) (\<lambda>_. Q) Q"
  "leads t Q (audit env ac tt tg rid me) (\<lambda>_. Q) Q"
  "leads t Q (call_hook env h rd uid line) (\<lambda>_. Q) Q"
  "leads t Q (notify_invite env iid uid nm room) (\<lambda>_. Q) Q"
  by (auto simp: leads_def permit_def permit_target_def decode_def valid_or_400_def allow_user_def okr_def answer_def
      audit_def record_audit_def call_hook_def notify_invite_def split: body.split sum.split option.split list.split bool.split)

lemma leads_require_user: "(\<And>u. we_user env = Some u \<Longrightarrow> leads t Q (h u) R Q) \<Longrightarrow> leads t Q (require_user env h) R Q"
  by (auto simp: require_user_def leads_answer split: option.split)

section \<open>Steps that keep a property of the tables\<close>

definition keepsr :: "time \<Rightarrow> (db \<Rightarrow> bool) \<Rightarrow> 'a req \<Rightarrow> bool" where
  "keepsr t P m \<longleftrightarrow> leads t P m (\<lambda>_. P) P"

named_theorems keep \<open>rules that take a handler apart, step by step\<close>

lemma keep_leads: "leads t P m R P \<Longrightarrow> (\<And>x d. R x d \<Longrightarrow> P d) \<Longrightarrow> keepsr t P m"
  unfolding keepsr_def by (erule leads_mono) auto

lemma keep_steps [keep]:
  "keepsr t P (okr x)" "keepsr t P (answer r)" "keepsr t P (fail_unless b st msg)"
  "keepsr t P (must (looking f))" "keepsr t P (must_find (looking f) st msg)" "keepsr t P (must (reading g))"
  "keepsr t P (if_there (looking h))" "keepsr t P (seen (looking h))"
  "keepsr t P (permit room a act)" "keepsr t P (permit_target room a act role)" "keepsr t P (decode b')"
  "keepsr t P (valid_or_400 v)" "keepsr t P (allow_user env bu u)" "keepsr t P (audit env ac tt tg rid me)"
  "keepsr t P (call_hook env hk rd uid line)" "keepsr t P (notify_invite env iid uid nm room)"
  "keepsr t P internal_error" "keepsr t P no_content"
  unfolding internal_error_def no_content_def
  by (rule reads [THEN keep_leads] leads_answer [THEN keep_leads], (assumption | simp))+

lemma keep_bind [keep]: "keepsr t P m \<Longrightarrow> (\<And>x. keepsr t P (k x)) \<Longrightarrow> keepsr t P (bindr m k)"
  unfolding keepsr_def by (rule leads_bind)

lemma keep_then [keep]: "keepsr t P m \<Longrightarrow> keepsr t P k \<Longrightarrow> keepsr t P (thenr m k)"
  unfolding keepsr_def by (rule leads_then)

lemma keep_cases [keep]:
  "(b \<Longrightarrow> keepsr t P m) \<Longrightarrow> (\<not> b \<Longrightarrow> keepsr t P m') \<Longrightarrow> keepsr t P (if b then m else m')"
  "(o' = None \<Longrightarrow> keepsr t P m) \<Longrightarrow> (\<And>y. o' = Some y \<Longrightarrow> keepsr t P (f y))
    \<Longrightarrow> keepsr t P (case o' of None \<Rightarrow> m | Some y \<Rightarrow> f y)"
  "(\<And>e. keepsr t P (g e)) \<Longrightarrow> (\<And>x. keepsr t P (h x)) \<Longrightarrow> keepsr t P (case r of Inl e \<Rightarrow> g e | Inr x \<Rightarrow> h x)"
  "(\<And>x y. keepsr t P (k x y)) \<Longrightarrow> keepsr t P (case p of (x, y) \<Rightarrow> k x y)"
  "keepsr t P (l z) \<Longrightarrow> keepsr t P (let y = z in l y)"
  by (auto split: option.split sum.split prod.split)

lemma keep_require_user [keep]:
  "(\<And>u. we_user env = Some u \<Longrightarrow> keepsr t P (h u)) \<Longrightarrow> keepsr t P (require_user env h)"
  by (auto simp: require_user_def keep split: option.split)

text \<open>Steps that read the time.\<close>

lemma keep_at_time:
  assumes "\<And>w. w_now w = t \<Longrightarrow> m w = m' w" and "keepsr t P m'"
  shows "keepsr t P m"
  unfolding keepsr_def
proof (rule leadsI)
  fix w :: web and r v assume w: "w_now w = t" "P (w_db w)" and "m w = (r, v)"
  with assms(1) have "m' w = (r, v)" by simp
  from leadsD [OF assms(2) [unfolded keepsr_def] w this]
  show "w_now v = t \<and> (case r of Inl _ \<Rightarrow> P (w_db v) | Inr x \<Rightarrow> P (w_db v))" .
qed

lemma keep_now [keep]: "keepsr t P (k t) \<Longrightarrow> keepsr t P (with_now k)"
  by (erule keep_at_time [rotated]) (simp add: with_now_def)

text \<open>An update of the tables that keeps a property, whether it succeeds or not.\<close>

definition safe_for :: "(db \<Rightarrow> bool) \<Rightarrow> (db \<Rightarrow> 'a outcome) \<Rightarrow> bool" where
  "safe_for P f \<longleftrightarrow> (\<forall>d. P d \<longrightarrow> P (snd (f d)))"

lemma safe_forD: "safe_for P f \<Longrightarrow> P d \<Longrightarrow> f d = (r, d') \<Longrightarrow> P d'"
  by (auto simp: safe_for_def dest!: spec [of _ d])

lemma keep_updates:
  assumes "safe_for P f"
  shows "keepsr t P (must f)" and "keepsr t P (must_find f st msg)" and "keepsr t P (must_be_free f st msg)"
    and "keepsr t P (ask f)"
proof -
  note s = safe_forD [OF assms]
  show "keepsr t P (must f)" "keepsr t P (must_find f st msg)" "keepsr t P (must_be_free f st msg)"
    unfolding keepsr_def by (rule leads_must [OF _ s s], assumption+)+
  show "keepsr t P (ask f)"
    unfolding keepsr_def by (rule leads_ask [OF _ s], assumption+)
qed

lemma keep_run:
  assumes "keepsr (w_now w) P m" and "P (w_db w)"
  shows "P (w_db (snd (run m w)))"
  using leadsD [OF assms(1) [unfolded keepsr_def] refl assms(2)]
  by (cases "m w") (auto simp: run_def split: sum.split sum.splits)

section \<open>The room and the actor\<close>

lemma keep_actor [keep]: "keepsr t P (actor_of env room)"
  unfolding actor_of_def by (intro keep)

lemma keep_load [keep]: "keepsr t P (load_room env slug)"
  unfolding load_room_def by (intro keep)

lemma keep_target [keep]: "keepsr t P (target_user name)" "keepsr t P (target_role room uid)"
  unfolding target_user_def target_role_def by (intro keep)+

lemma keep_response [keep]: "keepsr t P (room_response_of env room a)"
  unfolding room_response_of_def by (intro keep)

lemma keep_links [keep]: "keepsr t P (load_link env token)" "keepsr t P (load_own_invite u iid)"
  unfolding load_link_def load_own_invite_def by (intro keep)+

lemma leads_load:
  "leads t Q (load_room env slug) (\<lambda>ra d. Q d \<and> get_room_by_slug d slug = Inr (fst ra)
     \<and> a_user (snd ra) = we_user env
     \<and> (\<forall>m. a_member (snd ra) = Some m \<longrightarrow> get_member d (ri_id (fst ra)) (actor_id (snd ra)) = Inr m)) Q"
proof -
  let ?F = "\<lambda>room a d. a_user a = we_user env
     \<and> (\<forall>m. a_member a = Some m \<longrightarrow> get_member d (ri_id room) (actor_id a) = Inr m)"
  have actor: "leads t Q' (actor_of env room) (\<lambda>a d. Q' d \<and> ?F room a d) Q'" for Q' room
  proof (cases "we_user env")
    case None
    then show ?thesis by (auto simp: actor_of_def leads_def okr_def)
  next
    case (Some u)
    let ?M = "\<lambda>m d. Q' d \<and> get_member d (ri_id room) (u_id u) = (case m of None \<Rightarrow> Inl NotFoundErr | Some y \<Rightarrow> Inr y)"
    have mute: "leads t (?M m) (if we_mutes env then if_there (looking (\<lambda>d. get_mute d (ri_id room) (u_id u))) else okr None)
        (\<lambda>_. ?M m) Q'" for m
    proof (cases "we_mutes env")
      case True
      then show ?thesis by simp (rule leads_mono [OF leads_if_there [where Q = "?M m"]], auto)
    next
      case False
      then show ?thesis by (simp add: leads_def okr_def)
    qed
    have ban: "leads t (?M m) (if_there (looking (\<lambda>d. get_ban d (ri_id room) (u_id u)))) (\<lambda>_. ?M m) Q'" for m
      by (rule leads_mono [OF leads_if_there [where Q = "?M m"]]) auto
    have last: "leads t (?M m) (with_now (\<lambda>now. okr \<lparr>a_user = Some u, a_member = m, a_banned = b, a_muted_until = g now\<rparr>))
        (\<lambda>a d. Q' d \<and> ?F room a d) Q'" for m b g
      by (simp add: leads_def with_now_def okr_def Some actor_id_def split: option.split)
    show ?thesis
      unfolding actor_of_def Some option.case
      by (rule leads_bind [OF leads_if_there leads_bind [OF ban leads_bind [OF mute last [unfolded Some]]]])
  qed
  let ?R = "\<lambda>room d. Q d \<and> get_room_by_slug d slug = Inr room"
  have step: "leads t (?R room) (actor_of env room) (\<lambda>a d. ?R room d \<and> ?F room a d) Q" for room
    by (rule leads_mono [OF actor [of "?R room" room]]) auto
  have last: "leads t (\<lambda>d. ?R room d \<and> ?F room a d) (okr (room, a))
      (\<lambda>ra d. Q d \<and> get_room_by_slug d slug = Inr (fst ra) \<and> ?F (fst ra) (snd ra) d) Q" for room a
    by (simp add: leads_def okr_def)
  show ?thesis
    unfolding load_room_def by (rule leads_bind [OF leads_looking(2) leads_bind [OF step last]])
qed

lemma can_manage_room: "can now a ManageRoom (Some room) \<Longrightarrow> \<exists>m. a_member a = Some m \<and> rm_role m = RoleOwner"
  by (auto simp: can_def is_owner_def actor_role_def Let_def split: if_splits option.splits)

text \<open>A step that leaves the tables alone carries what is known of them.\<close>

lemma leads_over:
  assumes "keepsr t Q m" and "\<And>d. Q d \<Longrightarrow> E d"
  shows "(\<And>x. leads t Q (k x) S E) \<Longrightarrow> leads t Q (bindr m k) S E"
proof -
  have m: "leads t Q m (\<lambda>_. Q) E"
    by (rule leads_mono [OF assms(1) [unfolded keepsr_def]]) (simp_all add: assms(2))
  show "(\<And>x. leads t Q (k x) S E) \<Longrightarrow> leads t Q (bindr m k) S E" by (rule leads_bind [OF m])
qed

lemma leads_of_keeps: "keepsr t P m \<Longrightarrow> (\<And>d. Q d \<Longrightarrow> P d) \<Longrightarrow> leads t Q m (\<lambda>_. P) P"
  unfolding keepsr_def by (erule leads_mono) auto

lemma leads_unless: "(\<And>d. Q d \<Longrightarrow> E d) \<Longrightarrow> leads t Q (fail_unless b st msg) (\<lambda>_ d. Q d \<and> b) E"
  by (simp add: leads_def fail_unless_def okr_def answer_def)

lemma leads_given: "(A \<Longrightarrow> leads t Q m R E) \<Longrightarrow> leads t (\<lambda>d. Q d \<and> A) m R E"
  by (auto simp: leads_def)

text \<open>What a handler knows of the actor until it changes the tables.\<close>

definition known :: "room_info \<Rightarrow> actor \<Rightarrow> db \<Rightarrow> bool" where
  "known room a d \<longleftrightarrow> (\<forall>m. a_member a = Some m \<longrightarrow> get_member d (ri_id room) (actor_id a) = Inr m)"

lemma leads_permitted:
  assumes "\<And>room a. can t a act (Some room) \<Longrightarrow> leads t (\<lambda>d. P d \<and> known room a d) (k room a) (\<lambda>_. P) P"
  shows "keepsr t P (bindr (load_room env slug) (\<lambda>(room, a). thenr (permit room a act) (k room a)))"
  unfolding keepsr_def
proof (rule leads_bind [OF leads_load])
  fix x :: "room_info \<times> actor"
  obtain room a where x: "x = (room, a)" by force
  let ?Q = "\<lambda>d. P d \<and> known room a d"
  have "leads t ?Q (permit room a act) (\<lambda>_ d. ?Q d \<and> can t a act (Some room)) P"
    by (rule leads_mono [OF leads_steps(1) [where Q = ?Q]]) auto
  then have "leads t ?Q (thenr (permit room a act) (k room a)) (\<lambda>_. P) P"
    by (rule leads_then) (rule leads_given [OF assms])
  then show "leads t (\<lambda>d. P d \<and> get_room_by_slug d slug = Inr (fst x) \<and> a_user (snd x) = we_user env
      \<and> (\<forall>m. a_member (snd x) = Some m \<longrightarrow> get_member d (ri_id (fst x)) (actor_id (snd x)) = Inr m))
      (case x of (room, a) \<Rightarrow> thenr (permit room a act) (k room a)) (\<lambda>_. P) P"
    unfolding x by (auto simp: known_def elim!: leads_mono)
qed

section \<open>The interface: what the updates of the handlers keep\<close>

locale tables_law =
  fixes P :: "db \<Rightarrow> bool"
  assumes create_room_law: "safe_for P (create_room now slug name uid vis p)"
    and update_room_law: "safe_for P (update_room now rid slug name vis descr sched)"
    and delete_room_law: "safe_for P (delete_room rid)"
    and upsert_member_law: "role \<noteq> RoleOwner \<Longrightarrow> role \<noteq> RoleNone \<Longrightarrow> safe_for P (upsert_member now rid uid role)"
    and delete_member_law: "safe_for P (delete_member rid uid)"
    and transfer_law: "P d \<Longrightarrow> get_member d rid from = Inr m \<Longrightarrow> rm_role m = RoleOwner \<Longrightarrow> from \<noteq> to
      \<Longrightarrow> P (snd (transfer_ownership now rid from to d))"
    and ban_law: "safe_for P (create_ban now rid uid by' reason)"
    and unban_law: "safe_for P (delete_ban rid uid)"
    and mute_law: "safe_for P (set_mute now rid uid by' reason until)"
    and unmute_law: "safe_for P (delete_mute rid uid)"
    and invite_law: "safe_for P (create_invite now rid invitee inviter)"
    and accept_law: "safe_for P (accept_invite now i)"
    and decline_law: "safe_for P (decline_invite i)"
    and star_law: "safe_for P (set_star uid rid on)"
    and link_law: "(\<And>n. limit = Some n \<Longrightarrow> 1 \<le> n) \<Longrightarrow> safe_for P (create_invite_link now rid h by' expires limit)"
    and revoke_law: "safe_for P (revoke_invite_link now rid i)"
    and use_law: "safe_for P (use_invite_link now now' i uid)"
begin

lemmas update_laws = create_room_law update_room_law delete_room_law delete_member_law ban_law unban_law mute_law
  unmute_law invite_law accept_law decline_law star_law revoke_law use_law

lemmas updates = update_laws [THEN keep_updates(1)] update_laws [THEN keep_updates(2)]
  update_laws [THEN keep_updates(3)] update_laws [THEN keep_updates(4)]

lemma upserts: "keepsr t P (must (upsert_member now rid uid RoleModerator))"
  "keepsr t P (must (upsert_member now rid uid RoleMember))"
  by (simp_all add: keep_updates(1) upsert_member_law)

lemma keep_reading_handlers:
  "keepsr t P (handle_get_room env slug)" "keepsr t P (handle_list_members env slug)" "keepsr t P (handle_ws env slug)"
  "keepsr t P (handle_list_bans env slug)" "keepsr t P (handle_list_mutes env slug)"
  "keepsr t P (handle_list_invite_links env slug)" "keepsr t P (handle_my_rooms env)" "keepsr t P (handle_my_invites env)"
  "keepsr t P (handle_my_upcoming env)"
  unfolding handle_get_room_def handle_list_members_def handle_ws_def handle_list_bans_def handle_list_mutes_def
    handle_list_invite_links_def handle_my_rooms_def handle_my_invites_def handle_my_upcoming_def
  by (intro keep)+

lemma keep_member_handlers:
  "keepsr t P (handle_add_moderator env slug name)" "keepsr t P (handle_remove_moderator env slug name)"
  "keepsr t P (handle_remove_member env slug name)" "keepsr t P (handle_unban env slug name)"
  "keepsr t P (handle_unmute env slug name)" "keepsr t P (handle_star env slug on)"
  "keepsr t P (handle_delete_room env slug)" "keepsr t P (handle_ban env slug name b)"
  unfolding handle_add_moderator_def handle_remove_moderator_def handle_remove_member_def handle_unban_def
    handle_unmute_def handle_star_def handle_delete_room_def handle_ban_def
  by (intro keep upserts updates)+

lemma keep_transfer: "keepsr t P (handle_transfer_ownership env slug b)"
  unfolding handle_transfer_ownership_def
proof (rule keep_require_user, rule leads_permitted)
  fix u room a assume "can t a ManageRoom (Some room)"
  then obtain m where m: "a_member a = Some m" "rm_role m = RoleOwner" using can_manage_room by blast
  let ?Q = "\<lambda>d. P d \<and> known room a d"
  have move: "leads t (\<lambda>d. ?Q d \<and> uid \<noteq> actor_id a)
      (with_now (\<lambda>now. must_find (transfer_ownership now (ri_id room) (actor_id a) uid) st msg)) (\<lambda>_. P) P" for uid st msg
  proof -
    have "P d'" if "P d \<and> known room a d" "uid \<noteq> actor_id a"
      "transfer_ownership t (ri_id room) (actor_id a) uid d = (r, d')" for d r d'
      using transfer_law [of d "ri_id room" "actor_id a" m uid t] that m by (simp add: known_def)
    then have "leads t (\<lambda>d. ?Q d \<and> uid \<noteq> actor_id a)
        (must_find (transfer_ownership t (ri_id room) (actor_id a) uid) st msg) (\<lambda>_. P) P"
      by (intro leads_must) blast+
    then show ?thesis
      by (auto simp: with_now_def intro!: leadsI dest: leadsD)
  qed
  show "leads t ?Q (bindr (decode b) (\<lambda>name. bindr (target_user (trim_space name)) (\<lambda>target.
     thenr (fail_unless (u_id target \<noteq> actor_id a) 400 ''you already own this room'')
    (thenr (with_now (\<lambda>now. must_find (transfer_ownership now (ri_id room) (actor_id a) (u_id target))
        404 ''user is not a member''))
    (thenr (audit env ''room.transfer'' ''user'' (uuid_text (u_id target)) (Some (ri_id room)) [username_meta target])
    (thenr (call_hook env OnRoomChanged (ri_id room) uuid_nil []) no_content)))))) (\<lambda>_. P) P"
    by (rule leads_over [OF keep_steps(11)], simp, rule leads_over [OF keep_target(1)], simp,
        rule leads_then [OF leads_unless], simp, rule leads_then [OF move], rule leads_of_keeps, intro keep, simp)
qed

lemma keep_update_room: "keepsr t P (handle_update_room env slug b)"
proof -
  have f: "keepsr t P (changed_by c fl old)" for c :: "'x \<Rightarrow> string + 'y" and fl old
    unfolding changed_by_def by (intro keep)
  have g: "keepsr t P (case x of SchedAbsent \<Rightarrow> okr y | SchedNull \<Rightarrow> okr z | SchedText raw \<Rightarrow> k raw | SchedOther \<Rightarrow> answer r)"
    if "\<And>raw. keepsr t P (k raw)" for x and y z :: "time option" and k r
    using that by (cases x) (auto intro: keep)
  show ?thesis
    unfolding handle_update_room_def by (intro keep f g updates)
qed

lemma keep_invite_handlers:
  "keepsr t P (handle_create_invite env slug b')" "keepsr t P (handle_accept_invite env iid)"
  "keepsr t P (handle_decline_invite env iid)" "keepsr t P (handle_mute env slug name mb)"
  unfolding handle_create_invite_def handle_accept_invite_def handle_decline_invite_def handle_mute_def
  by (intro keep updates)+

lemma keep_link_handlers:
  "keepsr t P (handle_revoke_invite_link env slug lid)" "keepsr t P (handle_join_preview env token)"
  "keepsr t P (handle_join env token)"
  unfolding handle_revoke_invite_link_def handle_join_preview_def handle_join_def
  by (intro keep updates)+

lemma keep_create_link: "keepsr t P (handle_create_invite_link env slug b)"
  unfolding handle_create_invite_link_def
proof (rule keep_require_user, rule leads_permitted)
  fix u room a
  let ?Q = "\<lambda>d. P d \<and> known room a d"
  have make: "leads t (\<lambda>d. ?Q d \<and> (case limit of None \<Rightarrow> True | Some n \<Rightarrow> 1 \<le> n \<and> n \<le> max_link_uses))
      (thenr (allow_user env InviteBudget (actor_id a))
        (bindr (with_now (\<lambda>now. must (create_invite_link now (ri_id room) h uid (e now) limit))) k)) (\<lambda>_. P) P"
    if "\<And>l. keepsr t P (k l)" for limit h uid e and k :: "invite_link \<Rightarrow> reply req"
  proof (rule leads_given)
    assume "case limit of None \<Rightarrow> True | Some n \<Rightarrow> 1 \<le> n \<and> n \<le> max_link_uses"
    then have "keepsr t P (must (create_invite_link t (ri_id room) h uid (e t) limit))"
      by (intro keep_updates link_law) auto
    then show "leads t ?Q (thenr (allow_user env InviteBudget (actor_id a))
        (bindr (with_now (\<lambda>now. must (create_invite_link now (ri_id room) h uid (e now) limit))) k)) (\<lambda>_. P) P"
      by (intro leads_of_keeps keep that) auto
  qed
  show "leads t ?Q (bindr (decode b) (\<lambda>(expires, limit).
     bindr (valid_or_400 (case expiry_choice expires of
         None \<Rightarrow> Inl ''expiresIn must be 1d, 7d, 30d or empty'' | Some t \<Rightarrow> Inr t)) (\<lambda>ttl.
     thenr (fail_unless (case limit of None \<Rightarrow> True | Some n \<Rightarrow> 1 \<le> n \<and> n \<le> max_link_uses) 400
         ''maxUses must be between 1 and 1000'')
    (thenr (allow_user env InviteBudget (actor_id a))
    (bindr (with_now (\<lambda>now. must (create_invite_link now (ri_id room) (we_hash env (we_token env)) (actor_id a)
         (if 0 < ttl then Some (now + ttl) else None) limit))) (\<lambda>l.
     thenr (audit env ''invite.link.create'' ''invite_link'' (uuid_text (il_id l)) (Some (ri_id room))
         [(''expiresIn'', MetaText expires), (''maxUses'', case limit of None \<Rightarrow> MetaNull | Some n \<Rightarrow> MetaInt n)])
    (okr (Reply 201 (LinkReply ((link_response_of l)
         \<lparr>lr_url := we_origin env @ ''/join/'' @ we_token env\<rparr>)))))))))) (\<lambda>_. P) P"
    apply (rule leads_over [OF keep_steps(11)], simp)
    apply (simp split: prod.split, intro allI impI)
    apply (rule leads_over [OF keep_steps(12)], simp)
    apply (rule leads_then [OF leads_unless], simp)
    apply (rule make, intro keep)
    done
qed

lemma keep_create_try: "keepsr t P (create_try env u name vis p custom slug n)"
proof (induction n arbitrary: slug)
  case 0
  show ?case
    by (subst create_try.simps, simp only: nat.case) (intro keep updates)
next
  case (Suc n)
  show ?case
    by (subst create_try.simps, simp only: nat.case) (intro keep updates Suc.IH)
qed

lemma keep_invite_each: "keepsr t P (invite_each env u room names ws)"
proof (induction names arbitrary: ws)
  case Nil
  show ?case by (simp add: keep)
next
  case (Cons n ns)
  show ?case
    by (simp only: invite_each.simps) (intro keep updates Cons.IH)
qed

text \<open>The first video is added by the live room: its update is a premise.\<close>

lemma keep_create_room:
  assumes "\<And>rid a url d. P d \<Longrightarrow> P (snd (we_first_add env rid a url d))"
  shows "keepsr t P (handle_create_room env b)"
proof -
  have first: "keepsr t P (first_video env room a url)" for room a url
    using assms by (auto simp: keepsr_def first_video_def intro!: leadsI split: if_splits prod.splits option.splits)
      (metis snd_conv)+
  have check: "keepsr t P (check_first env url)" for url
    unfolding check_first_def by (intro keep)
  show ?thesis
    unfolding handle_create_room_def
    by (intro keep first check keep_create_try keep_invite_each updates)
qed

lemma serve_keeps:
  assumes "\<And>rid a url d. P d \<Longrightarrow> P (snd (we_first_add env rid a url d))"
  shows "keepsr t P (serve env q)"
  by (cases q) (simp_all add: keep_create_room [OF assms] keep_reading_handlers keep_member_handlers keep_transfer
      keep_update_room keep_invite_handlers keep_link_handlers keep_create_link)

lemma request_keeps:
  assumes "\<And>rid a url d. P d \<Longrightarrow> P (snd (we_first_add env rid a url d))" and "P (w_db w)"
  shows "P (w_db (snd (run (serve env q) w)))"
  using serve_keeps [OF assms(1)] assms(2) by (rule keep_run)

end

end
