(* ===== verification/Rooms_Laws.thy ===== *)
theory Rooms_Laws
  imports Rooms_Safe Queue_Rows
begin

text \<open>
  Interpretations of \<open>tables_law\<close>, and what they give for every request: each room has one owner,
  invite links are not used more often than they may be, and the queue tables stay the way the
  live rooms need them.
\<close>

section \<open>Keys and ownership\<close>

definition member_key :: "room_member \<Rightarrow> uuid \<times> uuid" where
  "member_key m = (rm_room m, rm_user m)"

definition keyed :: "db \<Rightarrow> bool" where
  "keyed d \<longleftrightarrow> distinct (map ri_id (d_rooms d)) \<and> distinct (map ri_slug (d_rooms d))
     \<and> distinct (map member_key (d_members d))
     \<and> (\<forall>r \<in> set (d_rooms d). ri_id r < d_next d)
     \<and> rm_room ` set (d_members d) \<subseteq> ri_id ` set (d_rooms d)
     \<and> iv_room ` set (d_invites d) \<subseteq> ri_id ` set (d_rooms d)"

definition owner_rows :: "db \<Rightarrow> (uuid \<times> uuid) set" where
  "owner_rows d = member_key ` {m \<in> set (d_members d). rm_role m = RoleOwner}"

definition room_owners :: "db \<Rightarrow> (uuid \<times> uuid) set" where
  "room_owners d = (\<lambda>r. (ri_id r, ri_owner r)) ` set (d_rooms d)"

definition owned :: "db \<Rightarrow> bool" where
  "owned d \<longleftrightarrow> keyed d \<and> owner_rows d = room_owners d"

lemma member_key_simps [simp]:
  "member_key (m\<lparr>rm_role := x\<rparr>) = member_key m"
  "member_key \<lparr>rm_room = a, rm_user = b, rm_username = c, rm_role = e, rm_joined = f\<rparr> = (a, b)"
  by (simp_all add: member_key_def)

lemma find_member_iff: "find_member d rid uid = None \<longleftrightarrow> (rid, uid) \<notin> member_key ` set (d_members d)"
  by (auto simp: find_member_def find_None_iff image_iff member_key_def)

lemma find_room_iff: "find_room d rid = None \<longleftrightarrow> rid \<notin> ri_id ` set (d_rooms d)"
  by (auto simp: find_room_def find_None_iff image_iff)

lemma get_member_row:
  "get_member d rid uid = Inr m \<Longrightarrow> \<exists>m' \<in> set (d_members d). member_key m' = (rid, uid) \<and> rm_role m' = rm_role m"
  by (auto simp: get_member_def member_key_def find_Some_iff split: option.splits sum.splits)

text \<open>Only the tables of rooms, members and invites and the counter matter.\<close>

lemma owned_cong:
  "d_rooms d' = d_rooms d \<Longrightarrow> d_members d' = d_members d \<Longrightarrow> iv_room ` set (d_invites d') \<subseteq> ri_id ` set (d_rooms d)
   \<Longrightarrow> d_next d \<le> d_next d' \<Longrightarrow> owned d \<Longrightarrow> owned d'"
  unfolding owned_def keyed_def owner_rows_def room_owners_def by (auto intro: less_le_trans)

lemma owned_invites: "owned d \<Longrightarrow> iv_room ` set (d_invites d) \<subseteq> ri_id ` set (d_rooms d)"
  by (simp add: owned_def keyed_def)

lemma owned_add_member:
  assumes "owned d" and "find_member d rid uid = None" and "find_room d rid \<noteq> None" and "role \<noteq> RoleOwner"
  shows "owned (add_member now rid uid role d)"
proof -
  have "owner_rows (add_member now rid uid role d) = owner_rows d"
    using assms(4) by (auto simp: owner_rows_def add_member_def)
  moreover have "keyed (add_member now rid uid role d)"
    using assms by (auto simp: keyed_def owned_def add_member_def find_member_iff find_room_iff)
  ultimately show ?thesis
    using assms(1) by (simp add: owned_def room_owners_def add_member_def)
qed

lemma keyed_map_member:
  assumes "keyed d" and "\<And>m. member_key (f m) = member_key m"
  shows "keyed (map_member rid uid f d)"
proof -
  let ?g = "\<lambda>m. if rm_room m = rid \<and> rm_user m = uid then f m else m"
  have k: "member_key \<circ> ?g = member_key" by (simp add: fun_eq_iff assms(2))
  have "rm_room (?g m) = rm_room m" for m
    using assms(2) [of m] by (simp add: member_key_def)
  then have "rm_room ` set (map ?g (d_members d)) = rm_room ` set (d_members d)"
    by (simp only: set_map image_image)
  with assms(1) k show ?thesis
    by (simp add: keyed_def map_member_def)
qed

lemma owned_map_member:
  assumes "owned d" and "\<And>m. member_key (f m) = member_key m"
    and "\<And>m. (rm_role (f m) = RoleOwner) = (rm_role m = RoleOwner)"
  shows "owned (map_member rid uid f d)"
proof -
  let ?g = "\<lambda>m. if rm_room m = rid \<and> rm_user m = uid then f m else m"
  have g: "(rm_role (?g m) = RoleOwner) = (rm_role m = RoleOwner)" "member_key (?g m) = member_key m" for m
    using assms(2,3) by auto
  have "{m \<in> set (map ?g (d_members d)). rm_role m = RoleOwner} = ?g ` {m \<in> set (d_members d). rm_role m = RoleOwner}"
    using g(1) by (auto simp only: set_map image_iff)
  then have "member_key ` {m \<in> set (map ?g (d_members d)). rm_role m = RoleOwner}
      = member_key ` {m \<in> set (d_members d). rm_role m = RoleOwner}"
    by (simp only: image_image g(2))
  then have "owner_rows (map_member rid uid f d) = owner_rows d"
    by (simp add: owner_rows_def map_member_def)
  with assms(1) keyed_map_member [OF _ assms(2)] show ?thesis
    by (simp add: owned_def room_owners_def map_member_def)
qed

section \<open>The updates keep the ownership\<close>

lemma owned_join:
  assumes "owned d" and "find_member d rid uid = None \<Longrightarrow> find_room d rid \<noteq> None"
  shows "owned (join_member now rid uid d)"
  using assms owned_add_member [OF assms(1), of rid uid] by (auto simp: join_member_def split: option.split)

lemma owned_upsert: "role \<noteq> RoleOwner \<Longrightarrow> safe_for owned (upsert_member now rid uid role)"
  by (auto simp: safe_for_def upsert_member_def refs_ok_def intro!: owned_add_member owned_map_member
      split: option.split if_splits)

lemma owned_delete_member: "safe_for owned (delete_member rid uid)"
proof -
  have "owned (d\<lparr>d_members := filter (\<lambda>m. \<not> (hit m \<and> rm_role m \<noteq> RoleOwner)) (d_members d)\<rparr>)"
    if "owned d" for d hit
  proof -
    let ?d = "d\<lparr>d_members := filter (\<lambda>m. \<not> (hit m \<and> rm_role m \<noteq> RoleOwner)) (d_members d)\<rparr>"
    have "owner_rows ?d = owner_rows d" by (auto simp: owner_rows_def)
    moreover have "keyed ?d" using that by (auto simp: owned_def keyed_def distinct_map_filter)
    ultimately show ?thesis using that by (simp add: owned_def room_owners_def)
  qed
  from this [of _ "\<lambda>m. rm_room m = rid \<and> rm_user m = uid"] show ?thesis
    by (auto simp: safe_for_def delete_member_def Let_def)
qed

lemma owned_create_room: "safe_for owned (create_room now slug name uid vis p)"
  unfolding safe_for_def
proof (intro allI impI)
  fix d assume o: "owned d"
  let ?d = "snd (create_room now slug name uid vis p d)"
  show "owned ?d"
  proof (cases "(\<exists>r \<in> set (d_rooms d). ri_slug r = slug) \<or> \<not> (\<exists>u \<in> set (d_users d). u_id u = uid)")
    case True
    with o show ?thesis by (auto simp: create_room_def)
  next
    case False
    have fresh: "d_next d \<notin> ri_id ` set (d_rooms d)" using o by (auto simp: owned_def keyed_def)
    then have "d_next d \<notin> rm_room ` set (d_members d)" using o by (auto simp: owned_def keyed_def)
    then have new: "(d_next d, uid) \<notin> member_key ` set (d_members d)" by (auto simp: member_key_def)
    obtain r where r: "d_rooms ?d = d_rooms d @ [r]" "ri_id r = d_next d" "ri_owner r = uid" "ri_slug r = slug"
      using False by (auto simp: create_room_def Let_def add_member_def forget_slug_def)
    obtain m where m: "d_members ?d = d_members d @ [m]" "member_key m = (d_next d, uid)" "rm_room m = d_next d"
        "rm_role m = RoleOwner"
      using False by (auto simp: create_room_def Let_def add_member_def forget_slug_def)
    have rest: "d_next ?d = Suc (d_next d)" "d_invites ?d = d_invites d"
      using False by (auto simp: create_room_def Let_def add_member_def forget_slug_def)
    have "{x \<in> set (d_members d @ [m]). rm_role x = RoleOwner} = insert m {x \<in> set (d_members d). rm_role x = RoleOwner}"
      using m(4) by auto
    then have "owner_rows ?d = insert (d_next d, uid) (owner_rows d)"
      by (simp add: owner_rows_def m(1,2))
    moreover have "room_owners ?d = insert (d_next d, uid) (room_owners d)"
      by (simp add: room_owners_def r)
    moreover have "keyed ?d"
      using o False fresh new unfolding keyed_def owned_def r(1) m(1) rest
      by (auto simp: r m less_Suc_eq)
    ultimately show ?thesis using o by (simp add: owned_def)
  qed
qed

lemma map_room_tables [simp]:
  "d_rooms (map_room rid f d) = map (\<lambda>r. if ri_id r = rid then f r else r) (d_rooms d)"
  "d_members (map_room rid f d) = d_members d" "d_invites (map_room rid f d) = d_invites d"
  "d_next (map_room rid f d) = d_next d"
  by (simp_all add: map_room_def)

lemma owned_map_room:
  assumes "owned d" and "\<And>r. ri_id (f r) = ri_id r" and "\<And>r. r \<in> set (d_rooms d) \<Longrightarrow> ri_id r = rid \<Longrightarrow> ri_owner (f r) = ri_owner r"
    and "distinct (map ri_slug (d_rooms (map_room rid f d)))"
  shows "owned (map_room rid f d)"
proof -
  let ?g = "\<lambda>r. if ri_id r = rid then f r else r"
  have g: "ri_id (?g r) = ri_id r" for r using assms(2) by simp
  have ids: "ri_id \<circ> ?g = ri_id" by (simp only: fun_eq_iff comp_apply g) simp
  have "(ri_id (?g r), ri_owner (?g r)) = (ri_id r, ri_owner r)" if "r \<in> set (d_rooms d)" for r
    using assms(2,3) that by auto
  then have "room_owners (map_room rid f d) = room_owners d"
    unfolding room_owners_def map_room_tables by (simp only: set_map image_image) (rule image_cong, simp_all)
  moreover have "keyed (map_room rid f d)"
    using assms(1,4) unfolding owned_def keyed_def map_room_tables
    by (simp only: map_map ids set_map image_image ball_simps(9) g simp_thms) blast
  ultimately show ?thesis using assms(1) by (simp add: owned_def owner_rows_def)
qed

text \<open>Giving a room a slug nobody else has.\<close>

lemma distinct_change:
  "distinct (map ri_id rs) \<Longrightarrow> distinct (map g rs) \<Longrightarrow> (\<And>r. r \<in> set rs \<Longrightarrow> ri_id r \<noteq> rid \<Longrightarrow> g r \<noteq> x)
   \<Longrightarrow> distinct (map (\<lambda>r. if ri_id r = rid then x else g r) rs)"
proof (induction rs)
  case (Cons r rs)
  then have d: "distinct (map (\<lambda>r. if ri_id r = rid then x else g r) rs)" by simp
  have "(if ri_id r = rid then x else g r) \<noteq> (if ri_id r' = rid then x else g r')" if "r' \<in> set rs" for r'
  proof -
    have "ri_id r' \<noteq> ri_id r" "g r' \<noteq> g r" using Cons.prems(1,2) that by (auto simp: image_iff)
    with Cons.prems(3) [of r] Cons.prems(3) [of r'] that show ?thesis by auto
  qed
  then have "(if ri_id r = rid then x else g r) \<notin> (\<lambda>r. if ri_id r = rid then x else g r) ` set rs"
    by (simp only: image_iff) blast
  with d show ?case by simp
qed simp

lemma owned_slugs: "owned (d\<lparr>d_slugs := x\<rparr>) \<longleftrightarrow> owned d"
  by (auto simp: owned_def keyed_def owner_rows_def room_owners_def)

lemma owned_update_room: "safe_for owned (update_room now rid slug name vis descr sched)"
  unfolding safe_for_def
proof (intro allI impI)
  fix d assume o: "owned d"
  let ?d = "forget_slug slug (remember_slug rid slug d)"
  have o': "owned ?d" and rooms: "d_rooms ?d = d_rooms d"
    using o by (auto simp: forget_slug_def remember_slug_def owned_slugs split: option.split)
  show "owned (snd (update_room now rid slug name vis descr sched d))"
  proof (cases "find_room d rid")
    case None
    with o show ?thesis by (simp add: update_room_def)
  next
    case (Some r)
    let ?r = "r\<lparr>ri_slug := slug, ri_name := name, ri_visibility := vis, ri_description := descr,
      ri_scheduled := sched, ri_updated := now\<rparr>"
    have r: "r \<in> set (d_rooms d)" "ri_id r = rid" using Some by (auto simp: find_room_def find_Some_iff)
    show ?thesis
    proof (cases "\<exists>x \<in> set (d_rooms d). ri_id x \<noteq> rid \<and> ri_slug x = slug")
      case True
      with Some o show ?thesis by (simp add: update_room_def)
    next
      case False
      have ids: "distinct (map ri_id (d_rooms d))" "distinct (map ri_slug (d_rooms d))"
        using o by (auto simp: owned_def keyed_def)
      have same: "x = r" if "x \<in> set (d_rooms d)" "ri_id x = rid" for x
        using ids(1) r that by (auto simp: distinct_map inj_on_def)
      let ?f = "\<lambda>x. if ri_id x = rid then ?r else x"
      have eq: "map_room rid (\<lambda>_. ?r) ?d = map_room rid ?f ?d" by (simp add: map_room_def cong: if_cong)
      have "ri_slug \<circ> (\<lambda>x. if ri_id x = rid then ?f x else x) = (\<lambda>x. if ri_id x = rid then slug else ri_slug x)"
        by auto
      then have slugs: "distinct (map ri_slug (d_rooms (map_room rid ?f ?d)))"
        using distinct_change [OF ids, of rid slug] False by (auto simp: rooms)
      show ?thesis
        unfolding update_room_def Some option.case if_not_P [OF False] Let_def snd_conv eq
      proof (rule owned_map_room [OF o' _ _ slugs])
        show "ri_id (?f x) = ri_id x" for x using r(2) by simp
        show "ri_owner (?f x) = ri_owner x" if "x \<in> set (d_rooms ?d)" "ri_id x = rid" for x
          using same [of x] that by (simp add: rooms)
      qed
    qed
  qed
qed

lemma image_keys:
  assumes "\<And>x. fst (f x) = g x"
  shows "f ` {x \<in> set (filter (\<lambda>x. g x \<noteq> rid) xs). Q x} = {k \<in> f ` {x \<in> set xs. Q x}. fst k \<noteq> rid}"
proof -
  have "{x \<in> set (filter (\<lambda>x. g x \<noteq> rid) xs). Q x} = {x \<in> {x \<in> set xs. Q x}. fst (f x) \<noteq> rid}"
    by (auto simp: assms)
  then show ?thesis by blast
qed

lemma owned_delete_room: "safe_for owned (delete_room rid)"
  unfolding safe_for_def
proof (intro allI impI)
  fix d assume o: "owned d"
  let ?d = "snd (delete_room rid d)"
  show "owned ?d"
  proof (cases "find_room d rid")
    case (Some r)
    have t: "d_rooms ?d = filter (\<lambda>r. ri_id r \<noteq> rid) (d_rooms d)" "d_next ?d = d_next d"
      "d_members ?d = filter (\<lambda>m. rm_room m \<noteq> rid) (d_members d)" "d_invites ?d = filter (\<lambda>v. iv_room v \<noteq> rid) (d_invites d)"
      unfolding delete_room_def Let_def Some by simp_all
    have "owner_rows ?d = {k \<in> owner_rows d. fst k \<noteq> rid}"
      unfolding owner_rows_def t by (rule image_keys) (simp add: member_key_def)
    moreover have "room_owners ?d = {k \<in> room_owners d. fst k \<noteq> rid}"
      unfolding room_owners_def t using image_keys [where Q = "\<lambda>_. True" and f = "\<lambda>r. (ri_id r, ri_owner r)" and g = ri_id]
      by simp
    moreover have "keyed ?d"
      unfolding keyed_def t using o [unfolded owned_def keyed_def]
      by (intro conjI distinct_map_filter) (auto dest!: subsetD)
    ultimately show ?thesis using o unfolding owned_def by simp
  qed (use o in \<open>simp add: delete_room_def\<close>)
qed

text \<open>
  The transfer is safe because the handler has just seen \<open>from\<close> own the room: the table itself
  does not check it.
\<close>

lemma owner_of_room:
  assumes "owned d" and "(rid, uid) \<in> owner_rows d" and "r \<in> set (d_rooms d)" and "ri_id r = rid"
  shows "ri_owner r = uid"
proof -
  obtain r' where "r' \<in> set (d_rooms d)" "ri_id r' = rid" "ri_owner r' = uid"
    using assms(1,2) by (auto simp: owned_def room_owners_def)
  moreover have "inj_on ri_id (set (d_rooms d))"
    using assms(1) by (simp add: owned_def keyed_def distinct_map)
  ultimately show ?thesis using assms(3,4) by (metis inj_onD)
qed

lemma image_move:
  "a \<in> f ` A \<Longrightarrow> f ` {m \<in> A. f m = a \<or> Q m \<and> f m \<noteq> b} = insert a {k \<in> f ` {m \<in> A. Q m}. k \<noteq> b}"
  by auto

lemma image_swap:
  "(\<And>x. x \<in> A \<Longrightarrow> P x = (f x = b)) \<Longrightarrow> \<exists>x \<in> A. P x
    \<Longrightarrow> (\<lambda>x. if P x then a else f x) ` A = insert a {k \<in> f ` A. k \<noteq> b}"
  by auto

lemma owned_transfer:
  assumes o: "owned d" and "get_member d rid old = Inr m" and "rm_role m = RoleOwner" and ne: "old \<noteq> to"
  shows "owned (snd (transfer_ownership now rid old to d))"
proof (cases "find_member d rid to")
  case None
  with o show ?thesis by (simp add: transfer_ownership_def)
next
  case (Some mt)
  let ?g = "\<lambda>m. if rm_room m = rid \<and> rm_user m = old then m\<lparr>rm_role := RoleModerator\<rparr>
    else if rm_room m = rid \<and> rm_user m = to then m\<lparr>rm_role := RoleOwner\<rparr> else m"
  let ?h = "\<lambda>r. if ri_id r = rid then r\<lparr>ri_owner := to, ri_updated := now\<rparr> else r"
  let ?d = "snd (transfer_ownership now rid old to d)"
  have t: "d_members ?d = map ?g (d_members d)" "d_rooms ?d = map ?h (d_rooms d)" "d_next ?d = d_next d"
    "d_invites ?d = d_invites d"
    using Some ne by (auto simp: transfer_ownership_def map_member_def)
  have old: "(rid, old) \<in> owner_rows d"
    using get_member_row [OF assms(2)] assms(3) by (force simp: owner_rows_def)
  have to: "(rid, to) \<in> member_key ` set (d_members d)"
    using Some find_member_iff [of d rid to] by simp
  have key: "member_key (?g m) = member_key m" "rm_room (?g m) = rm_room m" for m by auto
  have role: "rm_role (?g m) = RoleOwner \<longleftrightarrow>
      member_key m = (rid, to) \<or> rm_role m = RoleOwner \<and> member_key m \<noteq> (rid, old)" for m
    using ne by (auto simp: member_key_def)
  have "owner_rows ?d = member_key ` {m \<in> set (d_members d). rm_role (?g m) = RoleOwner}"
  proof -
    have "{x \<in> set (map g ms). Q x} = g ` {m \<in> set ms. Q (g m)}" for g :: "room_member \<Rightarrow> room_member" and ms Q
      by (simp only: set_map) blast
    then show ?thesis unfolding owner_rows_def t by (simp only: image_image key(1))
  qed
  also have "\<dots> = insert (rid, to) {k \<in> owner_rows d. k \<noteq> (rid, old)}"
    unfolding role owner_rows_def using image_move [OF to, of _ "(rid, old)"] by simp
  finally have "owner_rows ?d = insert (rid, to) {k \<in> owner_rows d. k \<noteq> (rid, old)}" .
  moreover have "room_owners ?d = insert (rid, to) {k \<in> room_owners d. k \<noteq> (rid, old)}"
  proof -
    obtain r where r: "r \<in> set (d_rooms d)" "ri_id r = rid"
      using old o by (auto simp: owned_def room_owners_def)
    have "(ri_id x, ri_owner x) = (rid, old)" if "x \<in> set (d_rooms d)" "ri_id x = rid" for x
      using owner_of_room [OF o old that] that by simp
    then have "(ri_id x = rid) = ((ri_id x, ri_owner x) = (rid, old))" if "x \<in> set (d_rooms d)" for x
      using that by blast
    from image_swap [of "set (d_rooms d)" "\<lambda>x. ri_id x = rid", OF this]
    have "(\<lambda>x. if ri_id x = rid then (rid, to) else (ri_id x, ri_owner x)) ` set (d_rooms d)
        = insert (rid, to) {k \<in> room_owners d. k \<noteq> (rid, old)}"
      using r by (auto simp: room_owners_def)
    moreover have "room_owners ?d = (\<lambda>x. (ri_id (?h x), ri_owner (?h x))) ` set (d_rooms d)"
      unfolding room_owners_def t by (simp only: set_map image_image)
    moreover have "\<dots> = (\<lambda>x. if ri_id x = rid then (rid, to) else (ri_id x, ri_owner x)) ` set (d_rooms d)"
      by (rule image_cong) simp_all
    ultimately show ?thesis by simp
  qed
  moreover have "keyed ?d"
  proof -
    have maps: "member_key \<circ> ?g = member_key" "ri_id \<circ> ?h = ri_id" "ri_slug \<circ> ?h = ri_slug" by (auto simp: fun_eq_iff key)
    have rm: "rm_room ` set (map ?g (d_members d)) = rm_room ` set (d_members d)"
      by (simp only: set_map image_image key)
    have ids: "ri_id ` set (map ?h (d_rooms d)) = ri_id ` set (d_rooms d)"
      unfolding set_map image_image by (rule image_cong) simp_all
    have nx: "\<forall>r \<in> set (map ?h (d_rooms d)). ri_id r < d_next d"
      using o unfolding owned_def keyed_def by auto
    show ?thesis
      unfolding keyed_def t map_map maps rm ids
      using o [unfolded owned_def keyed_def] nx by (elim conjE) (intro conjI; assumption)
  qed
  ultimately show ?thesis using o by (simp add: owned_def)
qed

lemma owned_elsewhere [simp]:
  "owned (d\<lparr>d_bans := b\<rparr>) = owned d" "owned (d\<lparr>d_mutes := u\<rparr>) = owned d"
  "owned (d\<lparr>d_stars := x\<rparr>) = owned d" "owned (d\<lparr>d_links := l\<rparr>) = owned d"
  by (simp_all add: owned_def keyed_def owner_rows_def room_owners_def)

lemma owned_grow: "owned d \<Longrightarrow> owned (d\<lparr>d_next := Suc (d_next d)\<rparr>)"
  by (rule owned_cong [of _ d]) (auto dest: owned_invites)

lemma owned_set_invites:
  "owned d \<Longrightarrow> iv_room ` set vs \<subseteq> ri_id ` set (d_rooms d) \<Longrightarrow> owned (d\<lparr>d_invites := vs\<rparr>)"
  by (rule owned_cong [of _ d]) simp_all

lemma owned_other_tables:
  "safe_for owned (create_ban now rid uid b' reason)" "safe_for owned (delete_ban rid uid)"
  "safe_for owned (set_mute now rid uid b' reason until)" "safe_for owned (delete_mute rid uid)"
  "safe_for owned (set_star uid rid on)" "safe_for owned (revoke_invite_link now rid i)"
  by (simp_all add: safe_for_def create_ban_def delete_ban_def set_mute_def delete_mute_def set_star_def
      revoke_invite_link_def map_link_def Let_def)

lemma owned_create_link: "safe_for owned (create_invite_link now rid h b' expires limit)"
proof -
  have "owned (d\<lparr>d_links := l, d_next := Suc (d_next d)\<rparr>)" if "owned d" for d l
    using owned_grow [of "d\<lparr>d_links := l\<rparr>"] that by simp
  then show ?thesis by (simp add: safe_for_def create_invite_link_def Let_def)
qed

lemma owned_set_invite: "owned d \<Longrightarrow> owned (set_invite i st d)"
  unfolding set_invite_def by (rule owned_set_invites) (auto dest!: owned_invites split: if_splits)

lemma owned_decline: "safe_for owned (decline_invite i)"
  by (simp add: safe_for_def decline_invite_def owned_set_invite)

lemma owned_create_invite: "safe_for owned (create_invite now rid invitee inviter)"
proof -
  have a: "owned (d\<lparr>d_invites := d_invites d @ [v], d_next := Suc (d_next d)\<rparr>)"
    if "owned d" "find_room d (iv_room v) \<noteq> None" for d v
    using owned_grow [OF owned_set_invites [OF that(1), of "d_invites d @ [v]"]] owned_invites [OF that(1)] that(2)
    by (simp add: find_room_iff)
  have b: "owned (d\<lparr>d_invites := map f (d_invites d)\<rparr>)" if "owned d" "\<And>v. iv_room (f v) = iv_room v" for d f
    using that(2) owned_invites [OF that(1)] by (intro owned_set_invites [OF that(1)]) auto
  show ?thesis
    unfolding safe_for_def
    by (auto simp: create_invite_def refs_ok_def Let_def intro!: a b split: option.split)
qed

lemma owned_accept: "safe_for owned (accept_invite now i)"
  unfolding safe_for_def
proof (intro allI impI)
  fix d assume o: "owned d"
  show "owned (snd (accept_invite now i d))"
  proof (cases "find (\<lambda>v. iv_id v = i \<and> iv_status v = InvitePending) (d_invites d)")
    case (Some v)
    then have "iv_room v \<in> ri_id ` set (d_rooms d)"
      using owned_invites [OF o] by (auto simp: find_Some_iff)
    then have "find_room (set_invite i InviteAccepted d) (iv_room v) \<noteq> None"
      by (simp add: find_room_iff set_invite_def)
    with Some owned_join [OF owned_set_invite [OF o]] show ?thesis by (simp add: accept_invite_def)
  qed (use o in \<open>simp add: accept_invite_def\<close>)
qed

lemma owned_use_link: "safe_for owned (use_invite_link now now' i uid)"
proof -
  have "owned (map_link hit f d)" if "owned d" for hit f d using that by (simp add: map_link_def)
  moreover have "find_room (map_link hit f d) = find_room d" "find_member (map_link hit f d) = find_member d" for hit f d
    by (simp_all add: map_link_def find_room_def find_member_def fun_eq_iff)
  ultimately show ?thesis
    by (auto simp: safe_for_def use_invite_link_def refs_ok_def intro!: owned_join split: option.split)
qed

interpretation ownership: tables_law owned
  by unfold_locales (simp_all add: owned_create_room owned_update_room owned_delete_room owned_upsert
      owned_delete_member owned_transfer owned_other_tables owned_create_link owned_create_invite owned_accept
      owned_decline owned_use_link)

section \<open>Uses of invite links\<close>

definition within_limit :: "invite_link \<Rightarrow> bool" where
  "within_limit l \<longleftrightarrow> 0 \<le> il_uses l \<and> (case il_max_uses l of None \<Rightarrow> True | Some n \<Rightarrow> il_uses l \<le> n)"

definition links_ok :: "db \<Rightarrow> bool" where
  "links_ok d \<longleftrightarrow> (\<forall>hl \<in> set (d_links d). within_limit (snd hl))"

lemma links_ok_cong: "set (d_links d') \<subseteq> set (d_links d) \<Longrightarrow> links_ok d \<Longrightarrow> links_ok d'"
  by (auto simp: links_ok_def)

lemma links_ok_use: "safe_for links_ok (use_invite_link now now' i uid)"
proof -
  have m: "links_ok (map_link (link_open now' i) (\<lambda>l. l\<lparr>il_uses := il_uses l + 1\<rparr>) d)" if "links_ok d" for d
    using that by (auto simp: links_ok_def map_link_def within_limit_def link_open_def split: option.splits)
  have j: "links_ok (join_member now rid uid' d) = links_ok d" for rid uid' d
    by (auto simp: join_member_def add_member_def links_ok_def split: option.split)
  show ?thesis
    by (auto simp: safe_for_def use_invite_link_def j m split: option.split)
qed

interpretation links: tables_law links_ok
proof
  show "safe_for links_ok (create_invite_link now rid h by' expires limit)" if "\<And>n. limit = Some n \<Longrightarrow> 1 \<le> n"
    for now rid h by' expires limit
    using that by (auto simp: safe_for_def create_invite_link_def Let_def links_ok_def within_limit_def
        split: option.split)
  show "safe_for links_ok (use_invite_link now now' i uid)" for now now' i uid by (rule links_ok_use)
  show "safe_for links_ok (revoke_invite_link now rid i)" for now rid i
    by (auto simp: safe_for_def revoke_invite_link_def map_link_def links_ok_def within_limit_def Let_def split: option.split)
qed (auto simp: safe_for_def create_room_def update_room_def delete_room_def upsert_member_def delete_member_def
    transfer_ownership_def create_ban_def delete_ban_def set_mute_def delete_mute_def create_invite_def
    accept_invite_def decline_invite_def set_star_def set_invite_def join_member_def add_member_def map_member_def
    map_room_def forget_slug_def remember_slug_def Let_def links_ok_def split: option.split)

section \<open>The queue tables\<close>

text \<open>What \<open>Room_Coherent\<close> asks of the tables, for every room at once.\<close>

definition queues_ok :: "db \<Rightarrow> bool" where
  "queues_ok d \<longleftrightarrow> ids_ok d \<and> (\<forall>rid. ranks_ok d rid)"

lemma queues_ok_cong: "d_items d' = d_items d \<Longrightarrow> d_next d \<le> d_next d' \<Longrightarrow> queues_ok d \<Longrightarrow> queues_ok d'"
  unfolding queues_ok_def ids_ok_def ranks_ok_def room_rows_def by (auto intro: less_le_trans)

lemma queues_ok_delete_room: "safe_for queues_ok (delete_room rid)"
proof -
  have "queues_ok d'" if q: "queues_ok d" and i: "d_items d' = filter p (d_items d)" and n: "d_next d' = d_next d" for d d' p
  proof -
    have "room_rows d' x = filter p (room_rows d x)" for x
      by (simp add: room_rows_def i conj_commute)
    with q show ?thesis
      by (auto simp: queues_ok_def ids_ok_def ranks_ok_def i n distinct_map_filter)
  qed
  note f = this
  show ?thesis
    unfolding safe_for_def
  proof (intro allI impI)
    fix d assume q: "queues_ok d"
    show "queues_ok (snd (delete_room rid d))"
      by (cases "find_room d rid") (use q f [OF q] in \<open>simp_all add: delete_room_def Let_def\<close>)
  qed
qed

lemma queues_ok_links: "safe_for queues_ok (use_invite_link now now' i uid)"
proof -
  have "d_items (join_member now rid u (map_link hit f d)) = d_items d" "d_next (join_member now rid u (map_link hit f d)) = d_next d"
    for rid u hit f d
    by (simp_all add: join_member_def add_member_def map_link_def split: option.split)
  then show ?thesis
    by (auto simp: safe_for_def use_invite_link_def intro: queues_ok_cong [rotated -1] split: option.split)
qed

lemma queues_ok_same:
  "queues_ok d \<Longrightarrow> queues_ok (d\<lparr>d_members := a\<rparr>)" "queues_ok d \<Longrightarrow> queues_ok (d\<lparr>d_rooms := b\<rparr>)"
  "queues_ok d \<Longrightarrow> queues_ok (d\<lparr>d_bans := c\<rparr>)" "queues_ok d \<Longrightarrow> queues_ok (d\<lparr>d_mutes := e\<rparr>)"
  "queues_ok d \<Longrightarrow> queues_ok (d\<lparr>d_invites := f\<rparr>)" "queues_ok d \<Longrightarrow> queues_ok (d\<lparr>d_links := g\<rparr>)"
  "queues_ok d \<Longrightarrow> queues_ok (d\<lparr>d_stars := h\<rparr>)" "queues_ok d \<Longrightarrow> queues_ok (d\<lparr>d_slugs := k\<rparr>)"
  by (erule queues_ok_cong [rotated -1]; simp)+

lemma queues_ok_grow: "queues_ok d \<Longrightarrow> queues_ok (d\<lparr>d_next := Suc (d_next d)\<rparr>)"
  by (erule queues_ok_cong [rotated -1]) simp_all

lemma queues_ok_creates:
  "safe_for queues_ok (create_room now slug name uid vis p)"
  "safe_for queues_ok (create_invite now rid invitee inviter)"
  "safe_for queues_ok (create_invite_link now rid h b' expires limit)"
  by (auto simp: safe_for_def create_room_def create_invite_def create_invite_link_def add_member_def forget_slug_def
      Let_def intro: queues_ok_cong [rotated -1] split: option.split)

interpretation queues: tables_law queues_ok
proof
  show "safe_for queues_ok (delete_room rid)" for rid by (rule queues_ok_delete_room)
  show "safe_for queues_ok (use_invite_link now now' i uid)" for now now' i uid by (rule queues_ok_links)
qed (auto simp: safe_for_def queues_ok_creates [unfolded safe_for_def] update_room_def upsert_member_def delete_member_def
    transfer_ownership_def create_ban_def delete_ban_def set_mute_def delete_mute_def accept_invite_def
    decline_invite_def set_star_def revoke_invite_link_def set_invite_def join_member_def add_member_def
    map_member_def map_room_def map_link_def forget_slug_def remember_slug_def Let_def
    intro!: queues_ok_same split: option.split)

section \<open>Properties of every request\<close>

text \<open>The tables a request starts from, in the witnesses: two users, one room of the first.\<close>

definition sample_server :: web_env where
  "sample_server = \<lparr>we_user = Some (sample_user 1), we_hook = (\<lambda>_. True), we_mutes = True, we_stars = True,
     we_notifier = True, we_limit = (\<lambda>_. None), we_live_queue = True, we_hash = (\<lambda>s. s), we_token = ''0123456789abcdef'',
     we_random = (\<lambda>_. [0, 1, 2, 3, 4, 5, 6, 7]), we_time = (\<lambda>_. None), we_fold = (=), we_origin = ''http://h'',
     we_source_key = Some, we_blocked = (\<lambda>_. Inr False), we_first_add = (\<lambda>_ _ _ d. (None, d))\<rparr>"

definition sample_tables :: db where
  "sample_tables = \<lparr>d_rooms = [sample_room], d_users = [sample_user 1, (sample_user 3)\<lparr>u_name := ''bob''\<rparr>],
     d_members = [\<lparr>rm_room = 1, rm_user = 1, rm_username = [], rm_role = RoleOwner, rm_joined = 0\<rparr>,
                  \<lparr>rm_room = 1, rm_user = 3, rm_username = [], rm_role = RoleMember, rm_joined = 0\<rparr>],
     d_items = [], d_votes = [], d_media = [], d_jobs = [], d_messages = [], d_bans = [], d_mutes = [],
     d_invites = [], d_links = [], d_stars = [], d_slugs = [], d_next = 100, d_next_msg = 1\<rparr>"

definition sample_web :: web where
  "sample_web = \<lparr>w_db = sample_tables, w_faults = [], w_now = 5, w_audit = [], w_hooks = [], w_notified = [],
     w_asked = (\<lambda>_ _. [])\<rparr>"

lemma sample_owned: "owned (w_db sample_web)"
  by code_simp

lemma one_owner:
  assumes "owned d" and "r \<in> set (d_rooms d)"
  shows "\<exists>!m. m \<in> set (d_members d) \<and> rm_room m = ri_id r \<and> rm_role m = RoleOwner"
    and "\<And>m. m \<in> set (d_members d) \<Longrightarrow> rm_room m = ri_id r \<Longrightarrow> rm_role m = RoleOwner \<Longrightarrow> rm_user m = ri_owner r"
proof -
  have "(ri_id r, ri_owner r) \<in> owner_rows d"
    using assms by (auto simp: owned_def room_owners_def)
  then obtain m where m: "m \<in> set (d_members d)" "rm_role m = RoleOwner" "member_key m = (ri_id r, ri_owner r)"
    by (auto simp: owner_rows_def)
  have user: "rm_user m' = ri_owner r" if "m' \<in> set (d_members d)" "rm_room m' = ri_id r" "rm_role m' = RoleOwner" for m'
  proof -
    have "(ri_id r, rm_user m') \<in> owner_rows d"
      using that unfolding owner_rows_def by (intro image_eqI [of _ _ m']) (auto simp: member_key_def)
    from owner_of_room [OF assms(1) this assms(2)] show ?thesis by simp
  qed
  moreover have "inj_on member_key (set (d_members d))"
    using assms(1) by (simp add: owned_def keyed_def distinct_map)
  ultimately have same: "m' = m" if "m' \<in> set (d_members d)" "rm_room m' = ri_id r" "rm_role m' = RoleOwner" for m'
    using m that by (intro inj_onD [of member_key]) (auto simp: member_key_def)
  show "\<exists>!m. m \<in> set (d_members d) \<and> rm_room m = ri_id r \<and> rm_role m = RoleOwner"
  proof (rule ex1I [of _ m])
    show "m \<in> set (d_members d) \<and> rm_room m = ri_id r \<and> rm_role m = RoleOwner"
      using m by (simp add: member_key_def)
  qed (simp add: same)
  show "\<And>m. m \<in> set (d_members d) \<Longrightarrow> rm_room m = ri_id r \<Longrightarrow> rm_role m = RoleOwner \<Longrightarrow> rm_user m = ri_owner r"
    by (rule user)
qed

text \<open>
  C8: whatever request runs on good tables, and whichever of its calls fail, every room keeps
  exactly one member with the owner's role, and it is the room's owner.
\<close>

theorem one_owner_per_room:
  assumes "owned (w_db w)" and "\<And>rid a url d. owned d \<Longrightarrow> owned (snd (we_first_add env rid a url d))"
    and "r \<in> set (d_rooms (w_db (snd (run (serve env q) w))))"
  shows "owned (w_db (snd (run (serve env q) w)))
    \<and> (\<exists>!m. m \<in> set (d_members (w_db (snd (run (serve env q) w)))) \<and> rm_room m = ri_id r \<and> rm_role m = RoleOwner)"
  using ownership.request_keeps [OF assms(2,1)] one_owner(1) [OF _ assms(3)] by blast

theorem one_owner_per_room_witness:
  "\<exists>!m. m \<in> set (d_members (w_db (snd (run (serve sample_server (PutModerator ''r'' ''bob'')) sample_web))))
     \<and> rm_room m = 1 \<and> rm_role m = RoleOwner"
proof -
  let ?w = "snd (run (serve sample_server (PutModerator ''r'' ''bob'')) sample_web)"
  have o: "owned (w_db ?w)"
    by (rule ownership.request_keeps [OF _ sample_owned]) (simp add: sample_server_def)
  have "\<exists>r \<in> set (d_rooms (w_db ?w)). ri_id r = 1"
    by code_simp
  then obtain r where r: "r \<in> set (d_rooms (w_db ?w))" "ri_id r = 1" by blast
  have "owned d \<Longrightarrow> owned (snd (we_first_add sample_server rid a url d))" for rid a url d
    by (simp add: sample_server_def)
  from one_owner_per_room [OF sample_owned this r(1)] r(2) show ?thesis by simp
qed



definition linked_web :: web where
  "linked_web = sample_web\<lparr>w_db := sample_tables\<lparr>d_users := d_users sample_tables @ [(sample_user 4)\<lparr>u_name := ''eve''\<rparr>],
      d_links := [(''0123456789abcdef'', \<lparr>il_id = 7, il_room = 1, il_room_slug = [], il_room_name = [],
         il_created_by = Some 1, il_creator = [], il_expires = None, il_max_uses = Some 2, il_uses = 1,
         il_revoked = None, il_created = 0\<rparr>)]\<rparr>\<rparr>"

definition guest_server :: web_env where
  "guest_server = sample_server\<lparr>we_user := Some ((sample_user 4)\<lparr>u_name := ''eve''\<rparr>)\<rparr>"




section \<open>Two transfers at once\<close>

text \<open>
  \<open>TransferOwnership\<close> demotes the owner its caller read before.  Two requests of the owner that
  interleave both read the same one, and the second demotes nobody: two owners are left.
\<close>

lemma stale_transfer_makes_two_owners:
  "let d = sample_tables\<lparr>d_members := d_members sample_tables @
        [\<lparr>rm_room = 1, rm_user = 4, rm_username = [], rm_role = RoleMember, rm_joined = 0\<rparr>]\<rparr>;
       d' = snd (transfer_ownership 5 1 1 4 (snd (transfer_ownership 5 1 1 3 d)))
   in owned d \<and> \<not> owned d' \<and> (1, 3) \<in> owner_rows d' \<and> (1, 4) \<in> owner_rows d'"
  by code_simp

end
