(* ===== verification/Rooms_Refuse.thy ===== *)
theory Rooms_Refuse
  imports Rooms_Laws
begin

text \<open>
  What a refused request leaves behind, who is kept out, and the names of rooms.

  \<open>spares\<close> is a triple for the handlers that write once: up to the write the tables are the ones
  the request found, and after it nothing can fail any more, so an error reply means that
  nothing was written.
\<close>

section \<open>Error replies write nothing\<close>

fun status :: "reply \<Rightarrow> nat" where
  "status (Reply n _) = n"

definition spares :: "time \<Rightarrow> db \<Rightarrow> reply req \<Rightarrow> bool" where
  "spares t d0 m \<longleftrightarrow> leads t (\<lambda>d. d = d0) m (\<lambda>r d. d = d0 \<or> status r < 400) (\<lambda>d. d = d0)"

text \<open>The rest of a handler once the write has happened: it ends with a good reply.\<close>

definition settles :: "time \<Rightarrow> db \<Rightarrow> reply req \<Rightarrow> bool" where
  "settles t d0 m \<longleftrightarrow> leads t (\<lambda>_. True) m (\<lambda>r d. d = d0 \<or> status r < 400) (\<lambda>d. d = d0)"

definition all_or_nothing :: "(db \<Rightarrow> 'a outcome) \<Rightarrow> bool" where
  "all_or_nothing f \<longleftrightarrow> (\<forall>d e d'. f d = (Inl e, d') \<longrightarrow> d' = d)"

named_theorems spare

lemma spares_read [spare]: "keepsr t (\<lambda>d. d = d0) m \<Longrightarrow> (\<And>x. spares t d0 (k x)) \<Longrightarrow> spares t d0 (bindr m k)"
  unfolding spares_def by (rule leads_over)

lemma spares_step [spare]: "keepsr t (\<lambda>d. d = d0) m \<Longrightarrow> spares t d0 k \<Longrightarrow> spares t d0 (thenr m k)"
  unfolding thenr_def by (rule spares_read)

lemma spares_now [spare]: "spares t d0 (k t) \<Longrightarrow> spares t d0 (with_now k)"
  unfolding spares_def by (rule leadsI) (auto simp: with_now_def dest: leadsD)

lemma spares_end [spare]: "spares t d0 (okr r)" "spares t d0 (answer r)" "spares t d0 no_content"
  by (simp_all add: spares_def leads_def okr_def answer_def no_content_def)

lemma spares_cases [spare]:
  "spares t d0 m \<Longrightarrow> spares t d0 m' \<Longrightarrow> spares t d0 (if b then m else m')"
  "spares t d0 m \<Longrightarrow> (\<And>y. spares t d0 (f y)) \<Longrightarrow> spares t d0 (case o' of None \<Rightarrow> m | Some y \<Rightarrow> f y)"
  "(\<And>x y. spares t d0 (h x y)) \<Longrightarrow> spares t d0 (case p of (x, y) \<Rightarrow> h x y)"
  "spares t d0 (l z) \<Longrightarrow> spares t d0 (let y = z in l y)"
  by (auto split: option.split prod.split)

lemma spares_require_user [spare]: "(\<And>u. spares t d0 (h u)) \<Longrightarrow> spares t d0 (require_user env h)"
  by (auto simp: require_user_def spare split: option.split)

lemma spares_write:
  assumes "all_or_nothing f" and "\<And>x. settles t d0 (k x)"
  shows "spares t d0 (bindr (must f) k)" and "spares t d0 (bindr (must_find f st msg) k)"
    and "spares t d0 (bindr (must_be_free f st msg) k)"
proof -
  have f: "leads t (\<lambda>d. d = d0) m (\<lambda>_ _. True) (\<lambda>d. d = d0)"
    if "m \<in> {must f, must_find f st msg, must_be_free f st msg}" for m :: "'a req"
    using that assms(1) by (auto simp: all_or_nothing_def intro!: leads_must)
  show "spares t d0 (bindr (must f) k)" "spares t d0 (bindr (must_find f st msg) k)"
    "spares t d0 (bindr (must_be_free f st msg) k)"
    unfolding spares_def
    by (rule leads_bind [OF f assms(2) [unfolded settles_def]], simp)+
qed

text \<open>Steps that cannot fail.\<close>

definition harmless :: "unit req \<Rightarrow> bool" where
  "harmless m \<longleftrightarrow> (\<forall>w. \<exists>v. m w = (Inr (), v) \<and> w_now v = w_now w)"

lemma harmless_steps [spare]:
  "harmless (audit env ac tt tg rid me)" "harmless (call_hook env hk rd uid line)" "harmless (okr ())"
  "harmless m \<Longrightarrow> harmless m' \<Longrightarrow> harmless (if b then m else m')"
  by (auto simp: harmless_def audit_def record_audit_def call_hook_def okr_def split: list.split bool.split)

lemma harmless_bind: "harmless m \<Longrightarrow> harmless m' \<Longrightarrow> harmless (bindr m (\<lambda>_. m'))"
  unfolding harmless_def
proof
  fix w assume h: "\<forall>w. \<exists>v. m w = (Inr (), v) \<and> w_now v = w_now w" "\<forall>w. \<exists>v. m' w = (Inr (), v) \<and> w_now v = w_now w"
  obtain v where v: "m w = (Inr (), v)" "w_now v = w_now w" using h(1) by blast
  obtain u where "m' v = (Inr (), u)" "w_now u = w_now v" using h(2) by blast
  with v show "\<exists>v. bindr m (\<lambda>_. m') w = (Inr (), v) \<and> w_now v = w_now w" by (simp add: bindr_def)
qed

lemma settles_steps [spare]:
  "harmless m \<Longrightarrow> settles t d0 k \<Longrightarrow> settles t d0 (bindr m (\<lambda>_. k))"
  "settles t d0 no_content" "st < 400 \<Longrightarrow> settles t d0 (okr (Reply st p))"
  "settles t d0 (kk t) \<Longrightarrow> settles t d0 (with_now kk)"
proof -
  show "settles t d0 (bindr m (\<lambda>_. k))" if "harmless m" "settles t d0 k"
  proof -
    have "leads t (\<lambda>_. True) m (\<lambda>_ _. True) (\<lambda>d. d = d0)"
      using that(1) unfolding harmless_def by (intro leadsI) (metis old.sum.simps(6) prod.inject)
    then show ?thesis
      unfolding settles_def by (rule leads_bind) (use that(2) in \<open>simp add: settles_def\<close>)
  qed
qed (auto simp: settles_def leads_def no_content_def okr_def with_now_def)

text \<open>The reading steps, and the writes.\<close>

lemmas spares_reading = keep_steps [THEN spares_read] keep_load [THEN spares_read] keep_target [THEN spares_read]
  keep_links [THEN spares_read]

lemma spares_reading_cases:
  "keepsr t (\<lambda>d. d = d0) m \<Longrightarrow> keepsr t (\<lambda>d. d = d0) m' \<Longrightarrow> (\<And>x. spares t d0 (k x))
    \<Longrightarrow> spares t d0 (bindr (if b then m else m') k)"
  "keepsr t (\<lambda>d. d = d0) n \<Longrightarrow> (\<And>y. keepsr t (\<lambda>d. d = d0) (f y)) \<Longrightarrow> (\<And>x. spares t d0 (l x))
    \<Longrightarrow> spares t d0 (bindr (case o' of None \<Rightarrow> n | Some y \<Rightarrow> f y) l)"
  by (rule spares_read; (intro keep)?; simp)+

lemma spares_at: "spares t d0 (bindr (m t) k) \<Longrightarrow> spares t d0 (bindr (with_now m) k)"
proof -
  assume "spares t d0 (bindr (m t) k)"
  moreover have "bindr (with_now m) k = with_now (\<lambda>n. bindr (m n) k)"
    by (simp add: with_now_def bindr_def fun_eq_iff)
  ultimately show ?thesis by (simp add: spares_now)
qed

lemma updates_all_or_nothing:
  "all_or_nothing (upsert_member now rid uid role)" "all_or_nothing (delete_member rid uid)"
  "all_or_nothing (transfer_ownership now rid old to)" "all_or_nothing (create_ban now rid uid b' reason)"
  "all_or_nothing (delete_ban rid uid)" "all_or_nothing (set_mute now rid uid b' reason until)"
  "all_or_nothing (delete_mute rid uid)" "all_or_nothing (accept_invite now i)" "all_or_nothing (decline_invite i)"
  "all_or_nothing (set_star uid rid on)" "all_or_nothing (revoke_invite_link now rid i)"
  "all_or_nothing (use_invite_link now now' i uid)" "all_or_nothing (delete_room rid)"
  unfolding all_or_nothing_def upsert_member_def delete_member_def transfer_ownership_def create_ban_def
    delete_ban_def set_mute_def delete_mute_def accept_invite_def decline_invite_def set_star_def
    revoke_invite_link_def use_invite_link_def delete_room_def Let_def
  by (auto split: option.splits if_splits)

lemmas spares_writing = updates_all_or_nothing [THEN spares_write(1)] updates_all_or_nothing [THEN spares_write(2)]
  updates_all_or_nothing [THEN spares_write(3)]

lemmas spares_rules = spares_end spares_cases spares_require_user spares_reading spares_reading_cases spares_at
  spares_writing harmless_steps harmless_bind settles_steps

fun writes_once :: "request \<Rightarrow> bool" where
  "writes_once (PostRooms _) = False"
| "writes_once (PatchRoom _ _) = False"
| "writes_once (PostInvites _ _) = False"
| "writes_once (PostInviteLinks _ _) = False"
| "writes_once _ = True"

lemma spares_member_handlers:
  "spares t d0 (handle_add_moderator env slug name)" "spares t d0 (handle_remove_moderator env slug name)"
  "spares t d0 (handle_unban env slug name)" "spares t d0 (handle_unmute env slug name)"
  "spares t d0 (handle_star env slug on)" "spares t d0 (handle_delete_room env slug)"
  unfolding handle_add_moderator_def handle_remove_moderator_def handle_unban_def handle_unmute_def handle_star_def
    handle_delete_room_def thenr_def
  by (intro spares_rules; simp)+

lemma spares_remove_member: "spares t d0 (handle_remove_member env slug name)"
  unfolding handle_remove_member_def thenr_def
  by (intro spares_rules keep; simp)+

lemma spares_transfer_and_ban:
  "spares t d0 (handle_transfer_ownership env slug b)" "spares t d0 (handle_ban env slug name b')"
  unfolding handle_transfer_ownership_def handle_ban_def thenr_def
  by (intro spares_rules keep; simp)+

lemma spares_mute: "spares t d0 (handle_mute env slug name b)"
  unfolding handle_mute_def thenr_def by (intro spares_rules; simp)+

lemma spares_invites:
  "spares t d0 (handle_accept_invite env iid)" "spares t d0 (handle_decline_invite env iid)"
  "spares t d0 (handle_revoke_invite_link env slug iid)"
  unfolding handle_accept_invite_def handle_decline_invite_def handle_revoke_invite_link_def thenr_def
  by (intro spares_rules; simp)+

lemma spares_join: "spares t d0 (handle_join env token)"
  unfolding handle_join_def thenr_def by (intro spares_rules; simp)+

lemma keep_readers:
  "keepsr t P (handle_get_room env slug)" "keepsr t P (handle_list_members env slug)" "keepsr t P (handle_ws env slug)"
  "keepsr t P (handle_list_bans env slug)" "keepsr t P (handle_list_mutes env slug)"
  "keepsr t P (handle_list_invite_links env slug)" "keepsr t P (handle_my_rooms env)" "keepsr t P (handle_my_invites env)"
  "keepsr t P (handle_my_upcoming env)" "keepsr t P (handle_join_preview env token)"
  unfolding handle_get_room_def handle_list_members_def handle_ws_def handle_list_bans_def handle_list_mutes_def
    handle_list_invite_links_def handle_my_rooms_def handle_my_invites_def handle_my_upcoming_def handle_join_preview_def
  by (intro keep)+

lemma spares_reader: "keepsr t (\<lambda>d. d = d0) m \<Longrightarrow> spares t d0 m"
  unfolding keepsr_def spares_def by (erule leads_mono) simp_all

lemma spares_serve: "writes_once q \<Longrightarrow> spares t d0 (serve env q)"
  by (cases q) (simp_all add: spares_member_handlers spares_remove_member spares_transfer_and_ban spares_mute
      spares_invites spares_join keep_readers spares_reader)

text \<open>
  C11: a request that is answered with an error status wrote nothing, whichever of its calls
  failed; only the requests that write in several steps (making a room with its extras, changing
  one, and making an invite or a link, which read it back) are left out.
\<close>

theorem refused_changes_nothing:
  assumes "writes_once q" and "run (serve env q) w = (Reply st p, v)" and "400 \<le> st"
  shows "w_db v = w_db w"
proof -
  obtain r u where m: "serve env q w = (r, u)" by fastforce
  from leadsD [OF spares_serve [OF assms(1), unfolded spares_def] refl refl m] assms(2,3) m
  show ?thesis by (auto simp: run_def split: sum.splits)
qed

text \<open>The room's member tries to make somebody a moderator.\<close>

definition member_server :: web_env where
  "member_server = sample_server\<lparr>we_user := Some ((sample_user 3)\<lparr>u_name := ''bob''\<rparr>)\<rparr>"

theorem refused_changes_nothing_witness:
  "w_db (snd (run (serve member_server (PutModerator ''r'' ''bob'')) sample_web)) = w_db sample_web"
proof (rule refused_changes_nothing)
  show "writes_once (PutModerator ''r'' ''bob'')" by simp
  have "fst (run (serve member_server (PutModerator ''r'' ''bob'')) sample_web)
      = Reply 403 (ErrorText ''insufficient permissions'')" by code_simp
  then show "run (serve member_server (PutModerator ''r'' ''bob'')) sample_web
      = (Reply 403 (ErrorText ''insufficient permissions''),
         snd (run (serve member_server (PutModerator ''r'' ''bob'')) sample_web))"
    by (metis prod.collapse)
qed simp

end
