(* ===== verification/Rooms_Entry.thy ===== *)
theory Rooms_Entry
  imports Rooms_Refuse
begin

text \<open>
  Who may do what over HTTP, who gets into a room, and the names rooms are found by.  The lemmas
  \<open>calm\<close> say what a step does when no call of the store fails.
\<close>

section \<open>Steps when nothing fails\<close>

named_theorems calm

lemma no_faults [simp]: "w_faults w = [] \<Longrightarrow> w\<lparr>w_faults := []\<rparr> = w"
  by (cases w) simp

lemma same_db [simp]: "w\<lparr>w_db := w_db w\<rparr> = w"
  by (cases w) simp

lemma ask_looking [calm]: "w_faults w = [] \<Longrightarrow> ask (looking f) w = (Inr (f (w_db w)), w)"
  by (simp add: ask_def looking_def)

lemma if_there_looking [calm]:
  "w_faults w = [] \<Longrightarrow> if_there (looking f) w = (case f (w_db w) of
      Inl e \<Rightarrow> if e = NotFoundErr then (Inr None, w) else (Inl (write_error 500 ''internal error''), w)
    | Inr x \<Rightarrow> (Inr (Some x), w))"
  by (simp add: if_there_def bindr_def ask_looking okr_def internal_error_def answer_def split: sum.split)

lemma must_find_looking [calm]:
  "w_faults w = [] \<Longrightarrow> must_find (looking f) st msg w = (case f (w_db w) of
      Inl e \<Rightarrow> (Inl (if e = NotFoundErr then write_error st msg else write_error 500 ''internal error''), w)
    | Inr x \<Rightarrow> (Inr x, w))"
  by (simp add: must_find_def bindr_def ask_looking okr_def internal_error_def answer_def split: sum.split)

lemma seen_looking [calm]:
  "w_faults w = [] \<Longrightarrow> seen (looking f) w = (Inr (\<not> isl (f (w_db w))), w)"
  by (simp add: seen_def bindr_def ask_looking okr_def split: sum.split)

lemma steps_calm [calm]:
  "fail_unless b st msg w = (if b then (Inr (), w) else (Inl (write_error st msg), w))"
  "permit room a act w = (if can (w_now w) a act (Some room) then (Inr (), w) else (Inl (denied room a), w))"
  "permit_target room a act role w =
    (if can_target (w_now w) a act (Some room) role then (Inr (), w) else (Inl (denied room a), w))"
  "with_now k w = k (w_now w) w"
  by (simp_all add: fail_unless_def okr_def answer_def permit_def permit_target_def with_now_def)

section \<open>The actor of a request\<close>

definition found :: "cerr + 'a \<Rightarrow> 'a option" where
  "found r = (case r of Inl _ \<Rightarrow> None | Inr x \<Rightarrow> Some x)"

text \<open>The actor that \<open>actorFor\<close> finds in the tables.\<close>

definition actor_in :: "web_env \<Rightarrow> room_info \<Rightarrow> time \<Rightarrow> db \<Rightarrow> actor" where
  "actor_in env room now d = (case we_user env of
      None \<Rightarrow> \<lparr>a_user = None, a_member = None, a_banned = False, a_muted_until = None\<rparr>
    | Some u \<Rightarrow> let mu = if we_mutes env then found (get_mute d (ri_id room) (u_id u)) else None in
        \<lparr>a_user = Some u, a_member = found (get_member d (ri_id room) (u_id u)),
         a_banned = (found (get_ban d (ri_id room) (u_id u)) \<noteq> None),
         a_muted_until = (if mute_active mu now then map_option mu_until mu else None)\<rparr>)"

lemma lookups_only_miss:
  "get_member d rid uid = Inl e \<Longrightarrow> e = NotFoundErr" "get_ban d rid uid = Inl e \<Longrightarrow> e = NotFoundErr"
  "get_mute d rid uid = Inl e \<Longrightarrow> e = NotFoundErr"
  by (auto simp: get_member_def get_ban_def get_mute_def get_user_def split: option.splits sum.splits)

lemma if_there_found:
  assumes "w_faults w = []" and "\<And>e. f (w_db w) = Inl e \<Longrightarrow> e = NotFoundErr"
  shows "if_there (looking f) w = (Inr (found (f (w_db w))), w)"
  using assms by (auto simp: calm found_def split: sum.split)

lemma actor_of_calm [calm]: "w_faults w = [] \<Longrightarrow> actor_of env room w = (Inr (actor_in env room (w_now w) (w_db w)), w)"
  by (cases "we_user env")
    (simp_all add: actor_of_def actor_in_def req_defs steps_calm if_there_found lookups_only_miss Let_def)

lemma load_room_calm [calm]:
  "w_faults w = [] \<Longrightarrow> get_room_by_slug (w_db w) slug = Inr room
   \<Longrightarrow> load_room env slug w = (Inr (room, actor_in env room (w_now w) (w_db w)), w)"
  by (simp add: load_room_def bindr_def calm okr_def)

lemma actor_in_user [simp]: "a_user (actor_in env room now d) = we_user env"
  by (simp add: actor_in_def Let_def split: option.split)

section \<open>What a request needs\<close>

fun needs :: "request \<Rightarrow> (string \<times> action) option" where
  "needs (GetRoom slug) = Some (slug, ViewRoom)"
| "needs (GetMembers slug) = Some (slug, ViewRoom)"
| "needs (GetWS slug) = Some (slug, ViewRoom)"
| "needs (PutStar slug) = Some (slug, ViewRoom)"
| "needs (DeleteStar slug) = Some (slug, ViewRoom)"
| "needs (PatchRoom slug _) = Some (slug, ManageRoom)"
| "needs (PostOwner slug _) = Some (slug, ManageRoom)"
| "needs (DeleteRoomReq slug) = Some (slug, DeleteRoom)"
| "needs (PutModerator slug _) = Some (slug, ManageModerators)"
| "needs (DeleteModerator slug _) = Some (slug, ManageModerators)"
| "needs (GetBans slug) = Some (slug, BanMember)"
| "needs (DeleteBanReq slug _) = Some (slug, BanMember)"
| "needs (GetMutes slug) = Some (slug, ModerateChat)"
| "needs (DeleteMuteReq slug _) = Some (slug, ModerateChat)"
| "needs (PostInvites slug _) = Some (slug, Invite)"
| "needs (PostInviteLinks slug _) = Some (slug, Invite)"
| "needs (GetInviteLinks slug) = Some (slug, Invite)"
| "needs (DeleteInviteLink slug _) = Some (slug, Invite)"
| "needs _ = None"

text \<open>The requests about another person: the room, the name and the action.\<close>

fun needs_over :: "request \<Rightarrow> (string \<times> string \<times> action) option" where
  "needs_over (DeleteMemberReq slug name) = Some (slug, name, RemoveMember)"
| "needs_over (PutBan slug name _) = Some (slug, name, BanMember)"
| "needs_over (PutMute slug name _) = Some (slug, name, ModerateChat)"
| "needs_over _ = None"

lemma denied_anonymous: "a_user a = None \<Longrightarrow> denied room a = write_error 401 ''authentication required''"
  by (simp add: denied_def)

lemma status_denied: "400 \<le> status (denied room a)"
  by (simp add: denied_def write_error_def)

lemma require_user_denied:
  assumes "\<And>u. we_user env = Some u \<Longrightarrow> run (h u) w = (denied room (actor_in env room now d), w)"
  shows "run (require_user env h) w = (denied room (actor_in env room now d), w)"
  using assms by (cases "we_user env") (simp_all add: require_user_def run_def answer_def denied_anonymous)

lemma refused_at_once:
  assumes "w_faults w = []" and "get_room_by_slug (w_db w) slug = Inr room"
    and "\<not> can (w_now w) (actor_in env room (w_now w) (w_db w)) act (Some room)"
  shows "run (bindr (load_room env slug) (\<lambda>(room, a). thenr (permit room a act) (k room a))) w
    = (denied room (actor_in env room (w_now w) (w_db w)), w)"
  using assms by (simp add: run_def bindr_def thenr_def calm)

text \<open>
  C9: a request about a room, by somebody who lacks the permission it needs, is answered with
  the matching refusal and has no effect at all: the tables, the audit log, the hooks and the
  notices stay as they were.
\<close>

theorem requests_need_permission:
  assumes "needs q = Some (slug, act)" and "w_faults w = []" and "get_room_by_slug (w_db w) slug = Inr room"
    and "\<not> can (w_now w) (actor_in env room (w_now w) (w_db w)) act (Some room)"
  shows "run (serve env q) w = (denied room (actor_in env room (w_now w) (w_db w)), w)"
  using assms refused_at_once [OF assms(2,3,4)]
  by (cases q)
    (simp_all add: handle_get_room_def handle_list_members_def handle_ws_def handle_star_def handle_update_room_def
      handle_transfer_ownership_def handle_delete_room_def handle_add_moderator_def handle_remove_moderator_def
      handle_list_bans_def handle_unban_def handle_list_mutes_def handle_unmute_def handle_create_invite_def
      handle_create_invite_link_def handle_list_invite_links_def handle_revoke_invite_link_def require_user_denied)


theorem requests_need_permission_witness:
  "run (serve member_server (PutModerator ''r'' ''bob'')) sample_web
    = (denied sample_room (actor_in member_server sample_room 5 sample_tables), sample_web)"
proof -
  have "run (serve member_server (PutModerator ''r'' ''bob'')) sample_web
    = (denied sample_room (actor_in member_server sample_room (w_now sample_web) (w_db sample_web)), sample_web)"
  proof (rule requests_need_permission)
    show "needs (PutModerator ''r'' ''bob'') = Some (''r'', ManageModerators)" by simp
    show "w_faults sample_web = []" by (simp add: sample_web_def)
    show "get_room_by_slug (w_db sample_web) ''r'' = Inr sample_room" by code_simp
    show "\<not> can (w_now sample_web) (actor_in member_server sample_room (w_now sample_web) (w_db sample_web))
        ManageModerators (Some sample_room)" by code_simp
  qed
  then show ?thesis by (simp add: sample_web_def)
qed

text \<open>What the requests about somebody else do before the permission is checked.\<close>

lemma target_role_calm [calm]:
  "w_faults w = [] \<Longrightarrow> target_role room uid w
    = (Inr (case found (get_member (w_db w) (ri_id room) uid) of None \<Rightarrow> RoleNone | Some m \<Rightarrow> rm_role m), w)"
  by (simp add: target_role_def bindr_def if_there_found lookups_only_miss okr_def)

lemma target_user_calm [calm]:
  "w_faults w = [] \<Longrightarrow> get_user_by_name (w_db w) name = Inr t \<Longrightarrow> target_user name w = (Inr t, w)"
  by (simp add: target_user_def calm)



section \<open>Bans at the door\<close>

text \<open>
  C15: a banned person does not come back by an invite or by an invite link: the answer is 403 and
  nothing changes, as long as the ban can be read.
\<close>

theorem banned_stays_out:
  assumes "we_user env = Some u" and "w_faults w = []" and "16 \<le> length token" and "length token \<le> 128"
  shows "(get_invite_link_by_token (w_db w) (we_hash env token) = Inr l \<and> get_ban (w_db w) (il_room l) (u_id u) = Inr b
      \<longrightarrow> run (serve env (PostJoin token)) w = (Reply 403 (ErrorText ''you are banned from this room''), w))
    \<and> (get_invite (w_db w) i = Inr v \<and> iv_invitee v = u_id u \<and> get_ban (w_db w) (iv_room v) (u_id u) = Inr b'
      \<longrightarrow> run (serve env (PostAccept (Some i))) w = (Reply 403 (ErrorText ''you are banned from this room''), w))"
  using assms
  by (simp add: handle_join_def load_link_def handle_accept_invite_def load_own_invite_def require_user_def run_def
      bindr_def thenr_def calm okr_def write_error_def)

text \<open>A room with a link and an invite for somebody who is banned there.\<close>

definition banned_tables :: db where
  "banned_tables = sample_tables
     \<lparr>d_users := d_users sample_tables @ [(sample_user 4)\<lparr>u_name := ''eve''\<rparr>],
      d_bans := [\<lparr>rb_room = 1, rb_user = 4, rb_username = [], rb_banned_by = Some 1, rb_reason = [], rb_created = 0\<rparr>],
      d_links := [(''0123456789abcdef'', \<lparr>il_id = 7, il_room = 1, il_room_slug = [], il_room_name = [],
         il_created_by = Some 1, il_creator = [], il_expires = None, il_max_uses = None, il_uses = 0,
         il_revoked = None, il_created = 0\<rparr>)],
      d_invites := [\<lparr>iv_id = 8, iv_room = 1, iv_room_slug = [], iv_room_name = [], iv_invitee = 4,
         iv_inviter = Some 1, iv_inviter_name = [], iv_status = InvitePending, iv_created = 0\<rparr>]\<rparr>"

definition banned_web :: web where
  "banned_web = sample_web\<lparr>w_db := banned_tables\<rparr>"

definition banned_server :: web_env where
  "banned_server = sample_server\<lparr>we_user := Some ((sample_user 4)\<lparr>u_name := ''eve''\<rparr>)\<rparr>"

theorem banned_stays_out_witness:
  "run (serve banned_server (PostJoin ''0123456789abcdef'')) banned_web
     = (Reply 403 (ErrorText ''you are banned from this room''), banned_web)"
proof -
  obtain l where l: "get_invite_link_by_token (w_db banned_web) (we_hash banned_server ''0123456789abcdef'') = Inr l"
    and r: "il_room l = 1"
    by (cases "get_invite_link_by_token (w_db banned_web) (we_hash banned_server ''0123456789abcdef'')")
      (simp_all add: banned_web_def banned_tables_def banned_server_def sample_server_def sample_web_def sample_tables_def
        sample_room_def get_invite_link_by_token_def link_found_def join_link_def room_name_slug_def split: option.splits sum.splits)
  have u: "we_user banned_server = Some ((sample_user 4)\<lparr>u_name := ''eve''\<rparr>)" by (simp add: banned_server_def)
  obtain b where b: "get_ban (w_db banned_web) (il_room l) (u_id ((sample_user 4)\<lparr>u_name := ''eve''\<rparr>)) = Inr b"
    using r by (simp add: banned_web_def banned_tables_def sample_web_def sample_tables_def sample_user_def get_ban_def get_user_def)
  have "w_faults banned_web = []" by (simp add: banned_web_def sample_web_def)
  from banned_stays_out [OF u this, of "''0123456789abcdef''" l b] l b show ?thesis by simp
qed

text \<open>
  The ban is looked up by a call that may fail, and a failure counts as "not banned": the same
  request then makes the banned person a member.
\<close>

lemma ban_check_fails_open:
  "let v = snd (run (serve banned_server (PostAccept (Some 8))) (banned_web\<lparr>w_faults := [False, True]\<rparr>))
   in found (get_ban (w_db v) 1 4) \<noteq> None \<and> find_member (w_db v) 1 4 \<noteq> None"
  by code_simp

end
