(* ===== verification/Rooms_Names.thy ===== *)
theory Rooms_Names
  imports Rooms_Entry
begin

text \<open>
  Slugs: which ones a room can have, and that a room is found by its former ones too; and
  invites, which are answered once.
\<close>

section \<open>Valid slugs\<close>

lemma slug_char_cases: "slug_char c \<Longrightarrow> (of_char c :: nat) < 128 \<and> \<not> (of_char c \<le> (32::nat)) \<and> \<not> (65 \<le> (of_char c :: nat) \<and> of_char c \<le> (90::nat))"
  by (auto simp: slug_char_def Let_def)

lemma lower_shape: "list_all slug_char s \<Longrightarrow> lower s = s"
proof -
  have "slug_lower (map of_char s) = map of_char s" if "list_all slug_char s" for s :: string
    using that
  proof (induction s)
    case (Cons c s)
    then show ?case using slug_char_cases [of c] by auto
  qed simp
  then show "list_all slug_char s \<Longrightarrow> lower s = s" by (simp add: lower_def comp_def)
qed

lemma slug_printable: "slug_char c \<Longrightarrow> printable c"
  by (auto simp: slug_char_def printable_def Let_def)

lemma trim_shape: "list_all slug_char s \<Longrightarrow> trim_space s = s"
  by (rule trim_space_stays) (auto simp: list_all_iff slug_printable)

lemma validate_canonical: "slug_shape t \<Longrightarrow> t \<notin> set reserved_slugs \<Longrightarrow> validate_slug t = Inr t"
  by (simp add: validate_slug_def slug_shape_def trim_shape lower_shape)

lemma slug_alphabet_shape: "list_all slug_char slug_alphabet"
  by code_simp

lemma generated_shape: "8 \<le> length bs \<Longrightarrow> slug_shape (generate_slug bs)"
proof -
  assume l: "8 \<le> length bs"
  have "slug_char (slug_alphabet ! (b mod length slug_alphabet))" for b
  proof -
    have "b mod length slug_alphabet < length slug_alphabet"
      by (rule mod_less_divisor) (simp add: slug_alphabet_def)
    with slug_alphabet_shape show ?thesis by (auto simp: list_all_length)
  qed
  then show ?thesis
    using l by (simp add: slug_shape_def generate_slug_def slug_length_def list_all_iff)
qed

text \<open>
  A slug somebody chose is lower case, three to 32 letters, digits and hyphens, not one
  of the reserved paths, and checking it again changes nothing; and a generated slug has the
  same shape.
\<close>

theorem slugs_are_paths:
  "(validate_slug s = Inr t \<longrightarrow> slug_shape t \<and> t \<notin> set reserved_slugs \<and> validate_slug t = Inr t)
    \<and> (slug_length \<le> length bs \<longrightarrow> slug_shape (generate_slug bs))"
proof (intro conjI impI)
  assume v: "validate_slug s = Inr t"
  then have t: "slug_shape t" "t \<notin> set reserved_slugs"
    by (auto simp: validate_slug_def Let_def split: if_splits)
  then show "slug_shape t" "t \<notin> set reserved_slugs" "validate_slug t = Inr t"
    by (simp_all add: validate_canonical)
next
  assume "slug_length \<le> length bs"
  then show "slug_shape (generate_slug bs)" by (simp add: generated_shape slug_length_def)
qed

theorem slugs_are_paths_witness:
  "validate_slug ''movie-night'' = Inr ''movie-night'' \<and> slug_shape ''movie-night''
    \<and> slug_shape (generate_slug [0, 1, 2, 3, 4, 5, 6, 31])"
proof -
  have "slug_shape ''movie-night''" "''movie-night'' \<notin> set reserved_slugs" by code_simp+
  then have "validate_slug ''movie-night'' = Inr ''movie-night''" by (rule validate_canonical)
  with slugs_are_paths [of "''movie-night''" "''movie-night''" "[0, 1, 2, 3, 4, 5, 6, 31]"]
  show ?thesis by (simp add: slug_length_def)
qed

text \<open>
  A generated slug may be a reserved one: two of the paths a slug must not shadow have eight
  letters of the alphabet, and nothing checks for them.
\<close>

lemma generated_slug_may_be_reserved:
  "generate_slug [17, 4, 6, 8, 18, 19, 4, 17] = ''register'' \<and> ''register'' \<in> set reserved_slugs"
  by code_simp

section \<open>Former slugs\<close>

lemma find_unique_slug:
  assumes "distinct (map ri_slug rs)" and "r \<in> set rs"
  shows "find (\<lambda>x. ri_slug x = ri_slug r) rs = Some r"
  using assms by (induction rs) auto

lemma find_unique_id:
  assumes "distinct (map ri_id rs)" and "r \<in> set rs"
  shows "find (\<lambda>x. ri_id x = ri_id r) rs = Some r"
  using assms by (induction rs) auto

lemma distinct_renamed:
  assumes "distinct (map ri_id rs)" and "distinct (map ri_slug rs)"
    and "\<And>x. x \<in> set rs \<Longrightarrow> ri_id x \<noteq> rid \<Longrightarrow> ri_slug x \<noteq> ri_slug r'"
  shows "distinct (map ri_slug (map (\<lambda>i. if ri_id i = rid then r' else i) rs))"
  using assms
proof (induction rs)
  case (Cons x rs)
  have same: "map (\<lambda>i. if ri_id i = rid then r' else i) rs = rs" if "ri_id x = rid"
    using Cons.prems(1) that by (intro map_idI) (force simp: image_iff)
  show ?case
  proof (cases "ri_id x = rid")
    case True
    have "ri_slug r' \<notin> ri_slug ` set rs"
    proof
      assume "ri_slug r' \<in> ri_slug ` set rs"
      then obtain y where y: "y \<in> set rs" "ri_slug r' = ri_slug y" by auto
      with Cons.prems(1) True have "ri_id y \<noteq> rid" by (force simp: image_iff)
      with Cons.prems(3) [of y] y show False by simp
    qed
    with same [OF True] Cons.prems(2) True show ?thesis by simp
  next
    case False
    with Cons show ?thesis by (auto split: if_splits)
  qed
qed simp

text \<open>
  C18: after a room was renamed, its new slug and its old one lead to the room as it is now, and
  the slugs of all other rooms to the rooms they led to before.
\<close>

theorem old_slug_resolves:
  assumes "keyed d" and "find_room d rid = Some r" and "update_room now rid slug name vis descr sched d = (Inr r', d')"
  shows "get_room_by_slug d' slug = Inr r' \<and> get_room_by_slug d' (ri_slug r) = Inr r'
    \<and> (\<forall>x \<in> set (d_rooms d). ri_id x \<noteq> rid \<longrightarrow> get_room_by_slug d' (ri_slug x) = Inr x)"
proof -
  let ?rs = "d_rooms d" let ?swap = "\<lambda>i. if ri_id i = rid then r' else i"
  from assms(2) have r: "r \<in> set ?rs" "ri_id r = rid" by (auto simp: find_room_def find_Some_iff)
  from assms(1) have ids: "distinct (map ri_id ?rs)" and slugs: "distinct (map ri_slug ?rs)"
    by (simp_all add: keyed_def)
  from assms(2,3) have free: "x \<in> set ?rs \<Longrightarrow> ri_id x \<noteq> rid \<Longrightarrow> ri_slug x \<noteq> slug" for x
    by (auto simp: update_room_def Let_def split: if_splits)
  from assms(2,3) have r': "ri_slug r' = slug" "ri_id r' = rid"
    and d': "d' = map_room rid (\<lambda>_. r') (forget_slug slug (remember_slug rid slug d))"
    by (auto simp: update_room_def Let_def r(2) split: if_splits)
  have rooms: "d_rooms d' = map ?swap ?rs"
    by (auto simp: d' map_room_def forget_slug_def remember_slug_def split: option.split)
  have named: "get_room_by_slug d' (ri_slug y) = Inr y" if "y \<in> set (d_rooms d')" for y
    using find_unique_slug [OF _ that] distinct_renamed [OF ids slugs, of rid r'] free r'(1)
    by (simp add: get_room_by_slug_def rooms)
  have in': "r' \<in> set (d_rooms d')" using r by (force simp: rooms)
  have new: "get_room_by_slug d' slug = Inr r'" using named [OF in'] r' by simp
  have old: "get_room_by_slug d' (ri_slug r) = Inr r'" if ne: "ri_slug r \<noteq> slug"
  proof -
    have "ri_slug y \<noteq> ri_slug r" if y: "y \<in> set (d_rooms d')" for y
    proof (cases "y = r'")
      case False
      with y have y': "y \<in> set ?rs" "ri_id y \<noteq> rid" by (auto simp: rooms split: if_splits)
      with r have "y \<noteq> r" by auto
      with slugs y'(1) r(1) show ?thesis by (auto simp: distinct_map dest: inj_onD)
    qed (use ne r' in simp)
    then have "find (\<lambda>x. ri_slug x = ri_slug r) (d_rooms d') = None" by (auto simp: find_None_iff)
    moreover have "map_of (d_slugs d') (ri_slug r) = Some rid"
      using ne assms(2) by (simp add: d' map_room_def forget_slug_def remember_slug_def)
    moreover have "get_room d' rid = Inr r'"
    proof -
      have "map ri_id (map ?swap ?rs) = map ri_id ?rs" using r'(2) by simp
      with ids have "distinct (map ri_id (d_rooms d'))" by (simp only: rooms)
      from find_unique_id [OF this in'] r'(2) show ?thesis by (simp add: get_room_def find_room_def)
    qed
    ultimately show ?thesis by (simp add: get_room_by_slug_def)
  qed
  have "get_room_by_slug d' (ri_slug x) = Inr x" if "x \<in> set ?rs" "ri_id x \<noteq> rid" for x
    using that by (intro named) (force simp: rooms)
  with new old show ?thesis by (cases "ri_slug r = slug") simp_all
qed

theorem old_slug_resolves_witness:
  "let d = snd (update_room 9 1 ''films'' ''F'' VisPublic [] None sample_tables)
   in get_room_by_slug d ''r'' = get_room_by_slug d ''films'' \<and> \<not> isl (get_room_by_slug d ''r'')"
proof -
  obtain r' where u: "update_room 9 1 ''films'' ''F'' VisPublic [] None sample_tables
      = (Inr r', snd (update_room 9 1 ''films'' ''F'' VisPublic [] None sample_tables))"
    by (auto simp: update_room_def sample_tables_def sample_room_def find_room_def Let_def)
  have k: "keyed sample_tables" by code_simp
  have f: "find_room sample_tables 1 = Some sample_room" and s: "ri_slug sample_room = ''r''"
    by (simp_all add: sample_tables_def sample_room_def find_room_def)
  from old_slug_resolves [OF k f u] s show ?thesis by (simp add: Let_def)
qed

section \<open>Invites are answered once\<close>

lemma find_map_None: "(\<And>x. \<not> P (f x)) \<Longrightarrow> find P (map f xs) = None"
  by (induction xs) simp_all

lemma answered: "find (\<lambda>v. iv_id v = i \<and> iv_status v = InvitePending) (d_invites (set_invite i st d)) = None"
  if "st \<noteq> InvitePending"
  unfolding set_invite_def by (simp, rule find_map_None) (simp add: that)

lemma join_keeps_invites [simp]: "d_invites (join_member now rid uid d) = d_invites d"
  by (simp add: join_member_def add_member_def split: option.split)

text \<open>
  An invite is answered once: after it was accepted or declined, accepting and declining it
  again both fail and change nothing.
\<close>

theorem invites_answered_once:
  assumes "d' = snd (accept_invite now i d) \<or> d' = snd (decline_invite i d)"
  shows "accept_invite now' i d' = (Inl NotFoundErr, d') \<and> decline_invite i d' = (Inl NotFoundErr, d')"
proof -
  have "find (\<lambda>v. iv_id v = i \<and> iv_status v = InvitePending) (d_invites d') = None"
    using assms
  proof
    assume "d' = snd (accept_invite now i d)"
    then show ?thesis by (simp add: accept_invite_def answered split: option.split)
  next
    assume d: "d' = snd (decline_invite i d)"
    show ?thesis
    proof (cases "\<exists>v \<in> set (d_invites d). iv_id v = i \<and> iv_status v = InvitePending")
      case True
      with d show ?thesis by (simp add: decline_invite_def answered)
    next
      case False
      with d show ?thesis by (auto simp: decline_invite_def find_None_iff)
    qed
  qed
  then show ?thesis
    by (simp add: accept_invite_def) (auto simp: decline_invite_def find_None_iff)
qed

theorem invites_answered_once_witness:
  "accept_invite 6 8 (snd (accept_invite 5 8 banned_tables)) = (Inl NotFoundErr, snd (accept_invite 5 8 banned_tables))"
  using invites_answered_once [of "snd (accept_invite 5 8 banned_tables)" 5 8 banned_tables 6] by simp

end
