(* ===== verification/Jobs.thy ===== *)
theory Jobs
  imports Go_Base
begin

text \<open>
  The job queue (\<open>jobs/queue.go\<close>, \<open>jobs/worker.go\<close>): the rows of the \<open>jobs\<close> table and what the
  statements do to them.  A claim hands out an attempt, a copy of the row with a fresh lease; all
  its later writes carry the lease.  The steps of all workers, in any interleaving and with any
  clocks, are the relation \<open>jstep\<close>.
\<close>

section \<open>Rows\<close>

datatype job_status = JobPending | JobRunning | JobDone | JobFailed

record job =
  jb_id :: uuid
  jb_kind :: string
  jb_payload :: string
  jb_status :: job_status
  jb_attempts :: int
  jb_max :: int
  jb_run_at :: time
  jb_locked_at :: "time option"
  jb_locked_by :: string
  jb_lease :: "uuid option"
  jb_error :: string
  jb_created :: time

datatype job_err = NoJobs | LeaseLost | PublishFailed

definition default_max_attempts :: int where
  "default_max_attempts = 3"

definition default_lease :: duration where
  "default_lease = 5 * minute"

definition enqueue :: "time \<Rightarrow> time \<Rightarrow> uuid \<Rightarrow> string \<Rightarrow> string \<Rightarrow> int \<Rightarrow> job list \<Rightarrow> job list" where
  "enqueue now created i kind payload limit rows = rows @
     [\<lparr>jb_id = i, jb_kind = kind, jb_payload = payload, jb_status = JobPending, jb_attempts = 0,
       jb_max = (if limit \<le> 0 then default_max_attempts else limit), jb_run_at = now, jb_locked_at = None,
       jb_locked_by = [], jb_lease = None, jb_error = [], jb_created = created\<rparr>]"

text \<open>The rows locked by other transactions (\<open>locked\<close>) are skipped.\<close>

definition runnable :: "time \<Rightarrow> string list \<Rightarrow> job \<Rightarrow> bool" where
  "runnable now kinds r \<longleftrightarrow> jb_status r = JobPending \<and> jb_run_at r \<le> now \<and> jb_kind r \<in> set kinds"

definition claim_order :: "job list \<Rightarrow> job list" where
  "claim_order rows = sort_key jb_run_at (sort_key jb_created rows)"

definition begin_attempt :: "time \<Rightarrow> string \<Rightarrow> uuid \<Rightarrow> job \<Rightarrow> job" where
  "begin_attempt now worker lease r = r\<lparr>jb_status := JobRunning, jb_locked_at := Some now,
     jb_locked_by := worker, jb_lease := Some lease, jb_attempts := jb_attempts r + 1\<rparr>"

definition map_job :: "uuid \<Rightarrow> (job \<Rightarrow> job) \<Rightarrow> job list \<Rightarrow> job list" where
  "map_job i f rows = map (\<lambda>r. if jb_id r = i then f r else r) rows"

definition claim :: "time \<Rightarrow> string \<Rightarrow> uuid \<Rightarrow> string list \<Rightarrow> (uuid \<Rightarrow> bool) \<Rightarrow> job list \<Rightarrow> (job_err + job) \<times> job list" where
  "claim now worker lease kinds locked rows =
     (case filter (\<lambda>r. runnable now kinds r \<and> \<not> locked (jb_id r)) (claim_order rows) of
        [] \<Rightarrow> (Inl NoJobs, rows)
      | r # _ \<Rightarrow> (Inr (begin_attempt now worker lease r), map_job (jb_id r) (begin_attempt now worker lease) rows))"

text \<open>The condition \<open>owned\<close> of an attempt's writes, and \<open>held\<close>.\<close>

definition owned_by :: "job \<Rightarrow> job \<Rightarrow> bool" where
  "owned_by j r \<longleftrightarrow> jb_id r = jb_id j \<and> jb_lease j \<noteq> None \<and> jb_lease r = jb_lease j \<and> jb_status r = JobRunning"

definition write_owned :: "job \<Rightarrow> (job \<Rightarrow> job) \<Rightarrow> job list \<Rightarrow> (job_err + unit) \<times> job list" where
  "write_owned j f rows =
     (if \<exists>r \<in> set rows. owned_by j r then (Inr (), map (\<lambda>r. if owned_by j r then f r else r) rows)
      else (Inl LeaseLost, rows))"

definition renew :: "time \<Rightarrow> job \<Rightarrow> job list \<Rightarrow> (job_err + unit) \<times> job list" where
  "renew now j = write_owned j (\<lambda>r. r\<lparr>jb_locked_at := Some now\<rparr>)"

text \<open>\<open>fn\<close> writes \<open>p\<close> in the transaction; None is its error, which rolls everything back.\<close>

definition fenced :: "time \<Rightarrow> job \<Rightarrow> ('p \<Rightarrow> 'p option) \<Rightarrow> job list \<times> 'p \<Rightarrow> (job_err + unit) \<times> job list \<times> 'p" where
  "fenced now j fn s = (case s of (rows, p) \<Rightarrow>
     (case write_owned j (\<lambda>r. r\<lparr>jb_locked_at := Some now\<rparr>) rows of
        (Inl e, _) \<Rightarrow> (Inl e, rows, p)
      | (Inr _, rows') \<Rightarrow> (case fn p of None \<Rightarrow> (Inl PublishFailed, rows, p) | Some p' \<Rightarrow> (Inr (), rows', p'))))"

definition unlocked :: "job_status \<Rightarrow> job \<Rightarrow> job" where
  "unlocked st r = r\<lparr>jb_status := st, jb_locked_at := None, jb_locked_by := [], jb_lease := None\<rparr>"

definition complete :: "job \<Rightarrow> job list \<Rightarrow> (job_err + unit) \<times> job list" where
  "complete j = write_owned j (unlocked JobDone)"

text \<open>
  \<open>Backoff\<close>: a power of two as a \<open>float64\<close>, exact below 2 to the 63; above, the conversion to
  an integer gives the smallest one on amd64.  The product wraps.
\<close>

definition pow2_duration :: "nat \<Rightarrow> int" where
  "pow2_duration n = (if n < 63 then 2 ^ n else min_int64)"

definition backoff :: "int \<Rightarrow> duration" where
  "backoff attempt = (let a = (if attempt < 1 then 1 else attempt);
       d = wrap64 (30 * second * pow2_duration (nat (a - 1)))
     in if 30 * minute < d then 30 * minute else d)"

definition fail_job :: "time \<Rightarrow> job \<Rightarrow> string \<Rightarrow> bool \<Rightarrow> job list \<Rightarrow> (bool \<times> (job_err + unit)) \<times> job list" where
  "fail_job now j cause permanent rows =
     (let msg = take 2000 cause; again = jb_attempts j < jb_max j \<and> \<not> permanent in
      if \<not> again then
        (case write_owned j (\<lambda>r. unlocked JobFailed r\<lparr>jb_error := msg\<rparr>) rows of (r, rows') \<Rightarrow> ((False, r), rows'))
      else
        (case write_owned j (\<lambda>r. unlocked JobPending r\<lparr>jb_error := msg, jb_run_at := now + backoff (jb_attempts j)\<rparr>) rows of
           (r, rows') \<Rightarrow> ((True, r), rows')))"

definition stale :: "time \<Rightarrow> duration \<Rightarrow> job \<Rightarrow> bool" where
  "stale now lease r \<longleftrightarrow> jb_status r = JobRunning
     \<and> (case jb_locked_at r of None \<Rightarrow> False | Some t \<Rightarrow> t < now - lease)"

definition recover_stale :: "time \<Rightarrow> duration \<Rightarrow> job list \<Rightarrow> job list" where
  "recover_stale now lease rows = map (\<lambda>r. if stale now lease r
     then unlocked (if jb_max r \<le> jb_attempts r then JobFailed else JobPending) r\<lparr>jb_error := ''worker lock expired''\<rparr>
     else r) rows"

definition retry_job :: "time \<Rightarrow> uuid \<Rightarrow> job list \<Rightarrow> job list" where
  "retry_job now i rows = map (\<lambda>r. if jb_id r = i \<and> jb_status r = JobFailed
     then r\<lparr>jb_status := JobPending, jb_attempts := 0, jb_run_at := now, jb_error := []\<rparr> else r) rows"

section \<open>The worker\<close>

text \<open>
  How \<open>Worker.run\<close> records an attempt: \<open>lost\<close> says that its context was cancelled with
  \<open>ErrLeaseLost\<close>, \<open>failure\<close> is the handler's error and whether it is permanent.
\<close>

definition record_attempt :: "time \<Rightarrow> job \<Rightarrow> bool \<Rightarrow> (string \<times> bool) option \<Rightarrow> job list \<Rightarrow> job list" where
  "record_attempt now j lost failure rows =
     (if lost then rows
      else case failure of
          Some (cause, permanent) \<Rightarrow> snd (fail_job now j cause permanent rows)
        | None \<Rightarrow> snd (complete j rows))"

text \<open>
  \<open>keepLease\<close>: the renewals with the times they were sent and answered, and the watchdog's
  deadline.  The value is the time the handler is cancelled at the latest, with the time of the
  last renewal that took effect.
\<close>

datatype renewal = Renewed | RenewLost | RenewError

definition safety :: "duration \<Rightarrow> duration" where
  "safety lease = go_div (lease * 3) 5"

fun keep_lease :: "duration \<Rightarrow> time \<Rightarrow> time \<Rightarrow> (time \<times> time \<times> renewal) list \<Rightarrow> time \<times> time" where
  "keep_lease lease since dl [] = (dl, since)"
| "keep_lease lease since dl ((sent, ans, res) # es) =
     (if dl \<le> ans then (dl, if res = Renewed \<and> sent \<le> dl then sent else since)
      else case res of
          Renewed \<Rightarrow> keep_lease lease sent (ans + safety lease) es
        | RenewLost \<Rightarrow> (ans, since)
        | RenewError \<Rightarrow> keep_lease lease since dl es)"

section \<open>All workers together\<close>

text \<open>\<open>js_out\<close> are the attempts handed out so far, \<open>js_published\<close> the ones whose result was made visible, in order.\<close>

record jsys =
  js_rows :: "job list"
  js_out :: "job list"
  js_published :: "job list"

definition no_jobs :: jsys where
  "no_jobs = \<lparr>js_rows = [], js_out = [], js_published = []\<rparr>"

inductive jstep :: "jsys \<Rightarrow> jsys \<Rightarrow> bool" where
  Enqueued: "i \<notin> jb_id ` set (js_rows s)
    \<Longrightarrow> jstep s (s\<lparr>js_rows := enqueue now created i kind payload limit (js_rows s)\<rparr>)"
| Claimed: "Some lease \<notin> jb_lease ` set (js_out s) \<Longrightarrow> claim now worker lease kinds locked (js_rows s) = (Inr j, rows)
    \<Longrightarrow> jstep s (s\<lparr>js_rows := rows, js_out := js_out s @ [j]\<rparr>)"
| Extended: "j \<in> set (js_out s) \<Longrightarrow> jstep s (s\<lparr>js_rows := snd (renew now j (js_rows s))\<rparr>)"
| Published: "j \<in> set (js_out s)
    \<Longrightarrow> fenced now j (\<lambda>p. Some (p @ [j])) (js_rows s, js_published s) = (r, rows, published)
    \<Longrightarrow> jstep s (s\<lparr>js_rows := rows, js_published := published\<rparr>)"
| Recorded: "j \<in> set (js_out s) \<Longrightarrow> jstep s (s\<lparr>js_rows := record_attempt now j lost failure (js_rows s)\<rparr>)"
| Recovered: "jstep s (s\<lparr>js_rows := recover_stale now lease (js_rows s)\<rparr>)"
| Retried: "jstep s (s\<lparr>js_rows := retry_job now i (js_rows s)\<rparr>)"

inductive jreach :: "jsys \<Rightarrow> bool" where
  start: "jreach no_jobs"
| step: "jreach s \<Longrightarrow> jstep s t \<Longrightarrow> jreach t"

inductive jruns :: "jsys \<Rightarrow> jsys \<Rightarrow> bool" where
  refl: "jruns s s"
| more: "jruns s t \<Longrightarrow> jstep t u \<Longrightarrow> jruns s u"

definition holds_job :: "job \<Rightarrow> job list \<Rightarrow> bool" where
  "holds_job j rows \<longleftrightarrow> (\<exists>r \<in> set rows. owned_by j r)"

section \<open>Backoff and the watchdog\<close>

text \<open>
  Retries wait 30 seconds, one minute, two, and so on up to half an hour, for every attempt
  number that can be doubled without leaving the integers.
\<close>

lemma pow2_duration_le: "n \<le> 28 \<Longrightarrow> 30 * second * pow2_duration n = 30000000000 * 2 ^ n \<and> is_int64 (30000000000 * 2 ^ n)"
proof -
  assume n: "n \<le> 28"
  define p :: int where "p = 2 ^ n"
  have "0 \<le> p" by (simp add: p_def)
  moreover have "p \<le> 2 ^ 28" unfolding p_def using n by (rule power_increasing) simp
  ultimately show ?thesis
    using n unfolding p_def [symmetric] by (simp add: pow2_duration_def second_def is_int64_def p_def [symmetric])
qed

lemma backoff_exact: "1 \<le> a \<Longrightarrow> a \<le> 29 \<Longrightarrow> backoff a = min (30 * second * 2 ^ nat (a - 1)) (30 * minute)"
  using pow2_duration_le [of "nat (a - 1)"] by (simp add: backoff_def Let_def second_def)

theorem backoff_doubles:
  assumes "1 \<le> a" and "a < 29"
  shows "backoff a = min (30 * second * 2 ^ nat (a - 1)) (30 * minute)
    \<and> 30 * second \<le> backoff a \<and> backoff a \<le> backoff (a + 1) \<and> backoff (a + 1) \<le> 30 * minute"
proof -
  have "nat (a + 1 - 1) = Suc (nat (a - 1))" using assms by simp
  moreover have "(1::int) \<le> 2 ^ nat (a - 1)" by simp
  ultimately show ?thesis
    using assms by (simp add: backoff_exact second_def minute_def min_def)
qed

theorem backoff_doubles_witness: "backoff 3 = 2 * minute \<and> backoff 3 \<le> backoff 4"
  using backoff_doubles [of 3] by (simp add: second_def minute_def)

text \<open>Attempt 30 would be retried at once: the product wraps below zero.\<close>

lemma backoff_wraps: "backoff 30 < 0"
  by code_simp

definition prompt :: "duration \<Rightarrow> time \<times> time \<times> renewal \<Rightarrow> bool" where
  "prompt lease e \<longleftrightarrow> fst e \<le> fst (snd e) \<and> fst (snd e) \<le> fst e + go_div lease 5"

lemma safety_bounds:
  assumes "0 < lease"
  shows "0 \<le> safety lease" and "0 \<le> go_div lease 5" and "go_div lease 5 + safety lease < lease"
  using assms by (simp_all add: safety_def go_div_nonneg)

text \<open>
  C24: the worker stops an attempt before recovery could hand its job to another one: when each
  renewal is answered within a fifth of the lease, the handler is cancelled at most four fifths of
  the lease after the last renewal that took effect.
\<close>

theorem cancelled_before_recovery:
  assumes "0 < lease" and "list_all (prompt lease) es" and "since \<le> dl"
    and "dl \<le> since + go_div lease 5 + safety lease"
  shows "fst (keep_lease lease since dl es) \<le> snd (keep_lease lease since dl es) + go_div lease 5 + safety lease
    \<and> go_div lease 5 + safety lease < lease"
proof (rule conjI)
  show "go_div lease 5 + safety lease < lease" using assms(1) by (rule safety_bounds)
  show "fst (keep_lease lease since dl es) \<le> snd (keep_lease lease since dl es) + go_div lease 5 + safety lease"
    using assms
  proof (induction lease since dl es rule: keep_lease.induct)
    case (2 lease since dl sent ans res es)
    note s = safety_bounds [OF "2.prems"(1)]
    from "2.prems" have p: "sent \<le> ans" "ans \<le> sent + go_div lease 5" "list_all (prompt lease) es"
      by (auto simp: prompt_def list_all_iff)
    show ?case
    proof (cases "dl \<le> ans")
      case True
      with p(2) s(1) have "dl \<le> sent + go_div lease 5 + safety lease" by linarith
      with True "2.prems"(4) show ?thesis by simp
    next
      case False
      with p "2.prems" s show ?thesis
        using "2.IH" by (cases res) simp_all
    qed
  qed simp
qed

theorem cancelled_before_recovery_witness:
  "fst (keep_lease default_lease 0 (safety default_lease) [(60 * second, 61 * second, RenewError), (120 * second, 121 * second, Renewed)])
     \<le> 120 * second + default_lease"
  using cancelled_before_recovery [of default_lease "[(60 * second, 61 * second, RenewError), (120 * second, 121 * second, Renewed)]"
      0 "safety default_lease"]
  by (simp add: default_lease_def safety_def go_div_nonneg prompt_def second_def minute_def)

section \<open>What every step keeps\<close>

definition row_ok :: "job list \<Rightarrow> job \<Rightarrow> bool" where
  "row_ok attempts r \<longleftrightarrow> 0 \<le> jb_attempts r \<and> jb_attempts r \<le> jb_max r \<and> 1 \<le> jb_max r
     \<and> (jb_status r = JobPending \<longrightarrow> jb_attempts r < jb_max r)
     \<and> (jb_status r = JobRunning \<longleftrightarrow> jb_lease r \<noteq> None)
     \<and> (\<forall>l. jb_lease r = Some l \<longrightarrow> (\<exists>j \<in> set attempts. jb_lease j = Some l \<and> jb_id j = jb_id r
          \<and> jb_attempts j = jb_attempts r \<and> jb_max j = jb_max r))"

definition jobs_ok :: "jsys \<Rightarrow> bool" where
  "jobs_ok s \<longleftrightarrow> distinct (map jb_id (js_rows s)) \<and> distinct (map jb_lease (js_out s))
     \<and> (\<forall>j \<in> set (js_out s). jb_lease j \<noteq> None) \<and> (\<forall>r \<in> set (js_rows s). row_ok (js_out s) r)"

text \<open>A change of rows, one by one, that keeps their ids.\<close>

definition same_ids :: "(job \<Rightarrow> job) \<Rightarrow> bool" where
  "same_ids f \<longleftrightarrow> (\<forall>r. jb_id (f r) = jb_id r)"

lemma jobs_ok_map:
  assumes "jobs_ok s" and "same_ids f" and "\<And>r. r \<in> set (js_rows s) \<Longrightarrow> row_ok (js_out s) r \<Longrightarrow> row_ok (js_out s) (f r)"
  shows "jobs_ok (s\<lparr>js_rows := map f (js_rows s)\<rparr>)"
proof -
  have "map jb_id (map f (js_rows s)) = map jb_id (js_rows s)"
    using assms(2) by (simp add: same_ids_def)
  with assms show ?thesis by (simp add: jobs_ok_def del: map_map)
qed

text \<open>An attempt's write is such a change.\<close>

lemma write_owned_map: "snd (write_owned j f rows) = map (\<lambda>r. if owned_by j r then f r else r) rows"
  by (auto simp: write_owned_def intro!: map_idI [symmetric])

lemma row_ok_renewed: "row_ok as r \<Longrightarrow> row_ok as (r\<lparr>jb_locked_at := t\<rparr>)"
  by (simp add: row_ok_def)

lemma row_ok_unlocked:
  "row_ok as r \<Longrightarrow> st \<noteq> JobRunning \<Longrightarrow> (st = JobPending \<Longrightarrow> jb_attempts r < jb_max r) \<Longrightarrow> row_ok as (unlocked st r)"
  by (simp add: row_ok_def unlocked_def)

lemma row_ok_touched: "row_ok as (r\<lparr>jb_error := e\<rparr>) = row_ok as r" "row_ok as (r\<lparr>jb_run_at := t\<rparr>) = row_ok as r"
  by (simp_all add: row_ok_def)

text \<open>The attempt that owns a row counts like the row.\<close>

lemma owner_counts:
  assumes "jobs_ok s" and "j \<in> set (js_out s)" and "r \<in> set (js_rows s)" and "owned_by j r"
  shows "jb_attempts j = jb_attempts r" and "jb_max j = jb_max r"
proof -
  from assms(3,4,1) obtain l k where l: "jb_lease r = Some l" "jb_lease j = Some l"
    and k: "k \<in> set (js_out s)" "jb_lease k = Some l" "jb_attempts k = jb_attempts r" "jb_max k = jb_max r"
    by (fastforce simp: owned_by_def jobs_ok_def row_ok_def)
  have "inj_on jb_lease (set (js_out s))"
    using assms(1) by (simp add: jobs_ok_def distinct_map)
  then have "j = k"
    by (rule inj_onD) (use assms(2) l(2) k(1,2) in simp_all)
  with k show "jb_attempts j = jb_attempts r" "jb_max j = jb_max r" by simp_all
qed

lemma fail_job_rows:
  "snd (fail_job now j cause permanent rows) = snd (write_owned j
     (if jb_attempts j < jb_max j \<and> \<not> permanent
      then (\<lambda>r. unlocked JobPending r\<lparr>jb_error := take 2000 cause, jb_run_at := now + backoff (jb_attempts j)\<rparr>)
      else (\<lambda>r. unlocked JobFailed r\<lparr>jb_error := take 2000 cause\<rparr>)) rows)"
  by (simp add: fail_job_def Let_def split: prod.split)

lemma unlocked_simps [simp]:
  "jb_id (unlocked st r) = jb_id r" "jb_lease (unlocked st r) = None" "jb_status (unlocked st r) = st"
  "jb_attempts (unlocked st r) = jb_attempts r" "jb_max (unlocked st r) = jb_max r"
  by (simp_all add: unlocked_def)

lemma jobs_ok_record:
  assumes "jobs_ok s" and "j \<in> set (js_out s)"
  shows "jobs_ok (s\<lparr>js_rows := record_attempt now j lost failure (js_rows s)\<rparr>)"
proof -
  have w: "jobs_ok (s\<lparr>js_rows := snd (write_owned j f (js_rows s))\<rparr>)"
    if "same_ids f" and "\<And>r. r \<in> set (js_rows s) \<Longrightarrow> owned_by j r \<Longrightarrow> row_ok (js_out s) r \<Longrightarrow> row_ok (js_out s) (f r)" for f
    unfolding write_owned_map using assms(1) that by (intro jobs_ok_map) (simp_all add: same_ids_def)
  show ?thesis
  proof (cases failure)
    case None
    then show ?thesis
      using assms(1) by (auto simp: record_attempt_def complete_def same_ids_def intro!: w row_ok_unlocked)
  next
    case (Some e)
    obtain cause permanent where e: "e = (cause, permanent)" by (cases e)
    have "jobs_ok (s\<lparr>js_rows := snd (fail_job now j cause permanent (js_rows s))\<rparr>)"
      unfolding fail_job_rows
      by (rule w) (auto simp: same_ids_def row_ok_touched owner_counts [OF assms] intro!: row_ok_unlocked)
    with Some e assms(1) show ?thesis by (simp add: record_attempt_def)
  qed
qed

lemma jobs_ok_claim:
  assumes "jobs_ok s" and "Some lease \<notin> jb_lease ` set (js_out s)"
    and "claim now worker lease kinds locked (js_rows s) = (Inr j, rows)"
  shows "jobs_ok (s\<lparr>js_rows := rows, js_out := js_out s @ [j]\<rparr>)"
proof -
  from assms(3) obtain r rs where f: "filter (\<lambda>r. runnable now kinds r \<and> \<not> locked (jb_id r)) (claim_order (js_rows s)) = r # rs"
    and j: "j = begin_attempt now worker lease r" and rows: "rows = map_job (jb_id r) (begin_attempt now worker lease) (js_rows s)"
    by (auto simp: claim_def split: list.splits)
  have "r \<in> set (filter (\<lambda>r. runnable now kinds r \<and> \<not> locked (jb_id r)) (claim_order (js_rows s)))"
    by (simp only: f) simp
  then have r: "r \<in> set (js_rows s)" "jb_status r = JobPending"
    by (simp_all add: claim_order_def runnable_def)
  have ids: "map jb_id rows = map jb_id (js_rows s)"
    by (simp add: rows map_job_def begin_attempt_def)
  have only: "x = r" if "x \<in> set (js_rows s)" "jb_id x = jb_id r" for x
    using assms(1) that r(1) by (intro inj_onD [of jb_id "set (js_rows s)"]) (simp_all add: jobs_ok_def distinct_map)
  have new: "row_ok (js_out s @ [j]) j"
    using assms(1) r by (auto simp: jobs_ok_def row_ok_def j begin_attempt_def)
  have old: "row_ok (js_out s @ [j]) x" if "x \<in> set (js_rows s)" for x
    using assms(1) that by (fastforce simp: jobs_ok_def row_ok_def)
  have "row_ok (js_out s @ [j]) x" if "x \<in> set rows" for x
    using that new old only by (auto simp: rows map_job_def j)
  with ids assms(1,2) show ?thesis
    by (simp add: jobs_ok_def j begin_attempt_def del: map_map)
qed

lemma jstep_ok: "jstep s t \<Longrightarrow> jobs_ok s \<Longrightarrow> jobs_ok t"
proof (induction rule: jstep.induct)
  case (Enqueued i s now created kind payload limit)
  then show ?case
    by (auto simp: jobs_ok_def row_ok_def enqueue_def default_max_attempts_def)
next
  case (Claimed lease s now worker kinds locked j rows)
  then show ?case by (intro jobs_ok_claim)
next
  case (Extended j s now)
  then show ?case
    unfolding renew_def write_owned_map by (intro jobs_ok_map) (simp_all add: same_ids_def row_ok_renewed)
next
  case (Published j s now r rows published)
  have "jobs_ok (s\<lparr>js_rows := snd (write_owned j (\<lambda>r. r\<lparr>jb_locked_at := Some now\<rparr>) (js_rows s))\<rparr>)"
    unfolding write_owned_map using Published.prems by (intro jobs_ok_map) (simp_all add: same_ids_def row_ok_renewed)
  with Published show ?case
    by (auto simp: fenced_def jobs_ok_def split: prod.splits sum.splits)
next
  case (Recorded j s now lost failure)
  then show ?case by (intro jobs_ok_record)
next
  case (Recovered s now lease)
  then show ?case
    unfolding recover_stale_def
    by (intro jobs_ok_map) (auto simp: same_ids_def row_ok_touched intro!: row_ok_unlocked)
next
  case (Retried s now i)
  then show ?case
    unfolding retry_job_def by (intro jobs_ok_map) (auto simp: same_ids_def row_ok_def)
qed

lemma jreach_ok: "jreach s \<Longrightarrow> jobs_ok s"
proof (induction rule: jreach.induct)
  case start
  show ?case by (simp add: jobs_ok_def no_jobs_def)
qed (rule jstep_ok)

section \<open>Fencing\<close>

lemma holds_map: "same_ids f \<Longrightarrow> (\<And>r. r \<in> set rows \<Longrightarrow> owned_by j (f r) \<Longrightarrow> owned_by j r)
    \<Longrightarrow> holds_job j (map f rows) \<Longrightarrow> holds_job j rows"
  by (auto simp: holds_job_def)

lemma not_owned_unlocked [simp]:
  "\<not> owned_by j (unlocked st r)" "\<not> owned_by j (unlocked st r\<lparr>jb_error := e\<rparr>)"
  "\<not> owned_by j (unlocked st r\<lparr>jb_error := e, jb_run_at := t\<rparr>)"
  by (auto simp: owned_by_def unlocked_def)

lemma holds_write_owned:
  assumes "\<And>r. owned_by j (f r) \<Longrightarrow> owned_by j r" and "holds_job j (snd (write_owned k f rows))"
  shows "holds_job j rows"
  using assms by (auto simp: write_owned_map holds_job_def split: if_splits)

lemma holds_record: "holds_job j (record_attempt now k lost failure rows) \<Longrightarrow> holds_job j rows"
  by (auto simp: record_attempt_def fail_job_rows complete_def split: if_splits option.splits prod.splits
      dest!: holds_write_owned [rotated])

lemma owned_touched [simp]: "owned_by j (r\<lparr>jb_locked_at := t\<rparr>) = owned_by j r"
  by (simp add: owned_by_def)

text \<open>Once an attempt has lost its lease it never gets it back.\<close>

lemma lost_stays_lost:
  "jstep s t \<Longrightarrow> j \<in> set (js_out s) \<Longrightarrow> \<not> holds_job j (js_rows s) \<Longrightarrow> j \<in> set (js_out t) \<and> \<not> holds_job j (js_rows t)
    \<and> filter (\<lambda>k. k = j) (js_published t) = filter (\<lambda>k. k = j) (js_published s)"
proof (induction rule: jstep.induct)
  case (Enqueued i s now created kind payload limit)
  then show ?case by (auto simp: holds_job_def enqueue_def owned_by_def)
next
  case (Claimed lease s now worker kinds locked k rows)
  have "jb_lease j \<noteq> Some lease" using Claimed by force
  with Claimed have "\<not> holds_job j rows"
    by (auto simp: claim_def holds_job_def map_job_def begin_attempt_def owned_by_def split: list.splits if_splits)
  with Claimed show ?case by simp
next
  case (Extended k s now)
  then show ?case by (auto simp: renew_def dest!: holds_write_owned [rotated])
next
  case (Published k s now r rows published)
  have "k \<noteq> j \<or> published = js_published s"
    using Published by (auto simp: fenced_def write_owned_def holds_job_def split: if_splits)
  moreover have "published = js_published s \<or> published = js_published s @ [k]"
    using Published(2) by (auto simp: fenced_def split: prod.splits sum.splits)
  moreover have "\<not> holds_job j rows"
  proof
    assume h: "holds_job j rows"
    have "rows = snd (write_owned k (\<lambda>r. r\<lparr>jb_locked_at := Some now\<rparr>) (js_rows s)) \<or> rows = js_rows s"
      using Published(2) by (auto simp: fenced_def split: prod.splits sum.splits)
    with h have "holds_job j (js_rows s)" by (auto dest!: holds_write_owned [rotated])
    with Published show False by simp
  qed
  ultimately show ?case using Published by auto
next
  case (Recorded k s now lost failure)
  then show ?case by (auto dest: holds_record)
next
  case (Recovered s now lease)
  then show ?case
    by (auto simp: recover_stale_def same_ids_def dest!: holds_map [rotated -1] split: if_splits)
next
  case (Retried s now i)
  then show ?case
    by (auto simp: retry_job_def same_ids_def owned_by_def dest!: holds_map [rotated -1] split: if_splits)
qed

lemma lost_for_good:
  "jruns s t \<Longrightarrow> j \<in> set (js_out s) \<Longrightarrow> \<not> holds_job j (js_rows s) \<Longrightarrow> j \<in> set (js_out t) \<and> \<not> holds_job j (js_rows t)
    \<and> filter (\<lambda>k. k = j) (js_published t) = filter (\<lambda>k. k = j) (js_published s)"
proof (induction rule: jruns.induct)
  case (more s t u)
  then show ?case using lost_stays_lost [of t u j] by simp
qed simp

lemma writes_of_lost:
  assumes "\<not> holds_job j rows"
  shows "renew now j rows = (Inl LeaseLost, rows)" and "complete j rows = (Inl LeaseLost, rows)"
    and "snd (fst (fail_job now j cause permanent rows)) = Inl LeaseLost" and "snd (fail_job now j cause permanent rows) = rows"
    and "fenced now j fn (rows, p) = (Inl LeaseLost, rows, p)"
  using assms by (auto simp: renew_def complete_def fail_job_def fenced_def write_owned_def holds_job_def Let_def)

text \<open>
  C22: an attempt that lost its job (its lease ran out, or the job was finished) can no longer
  do anything: from then on, whatever the workers do, every write it tries answers \<open>ErrLeaseLost\<close>
  and changes nothing, and it publishes nothing any more.
\<close>

theorem lost_attempts_are_fenced:
  assumes "j \<in> set (js_out s)" and "\<not> holds_job j (js_rows s)" and "jruns s t"
  shows "renew now j (js_rows t) = (Inl LeaseLost, js_rows t) \<and> complete j (js_rows t) = (Inl LeaseLost, js_rows t)
    \<and> record_attempt now j lost failure (js_rows t) = js_rows t
    \<and> fenced now j fn (js_rows t, p) = (Inl LeaseLost, js_rows t, p)
    \<and> filter (\<lambda>k. k = j) (js_published t) = filter (\<lambda>k. k = j) (js_published s)"
proof -
  from lost_for_good [OF assms(3,1,2)] have "\<not> holds_job j (js_rows t)" by simp
  from writes_of_lost [OF this] lost_for_good [OF assms(3,1,2)] show ?thesis
    by (auto simp: record_attempt_def split: option.split prod.split)
qed


text \<open>A crash: an attempt runs out of its lease, the job is recovered and handed to another worker.\<close>

definition crashed_1 :: jsys where
  "crashed_1 = no_jobs\<lparr>js_rows := enqueue 0 0 7 ''ingest'' [] 0 []\<rparr>"

definition first_try :: job where
  "first_try = begin_attempt 1 ''a'' 1 (hd (js_rows crashed_1))"

definition crashed_2 :: jsys where
  "crashed_2 = crashed_1\<lparr>js_rows := [first_try], js_out := [first_try]\<rparr>"

definition crashed_3 :: jsys where
  "crashed_3 = crashed_2\<lparr>js_rows := recover_stale (2 + default_lease) default_lease (js_rows crashed_2)\<rparr>"

definition second_try :: job where
  "second_try = begin_attempt (3 + default_lease) ''b'' 2 (hd (js_rows crashed_3))"

definition crashed_4 :: jsys where
  "crashed_4 = crashed_3\<lparr>js_rows := [second_try], js_out := [first_try, second_try]\<rparr>"

lemma crashed_reach: "jreach crashed_2" "jruns crashed_3 crashed_4" "jreach crashed_4"
proof -
  have s1: "jstep no_jobs crashed_1"
    using jstep.Enqueued [of 7 no_jobs 0 0 "''ingest''" "[]" 0] by (simp add: crashed_1_def no_jobs_def)
  have "claim 1 ''a'' 1 [''ingest''] (\<lambda>_. False) (js_rows crashed_1) = (Inr first_try, [first_try])" by code_simp
  from jstep.Claimed [OF _ this] have s2: "jstep crashed_1 crashed_2"
    by (simp add: crashed_2_def crashed_1_def no_jobs_def)
  have s3: "jstep crashed_2 crashed_3"
    unfolding crashed_3_def by (rule jstep.Recovered)
  have "claim (3 + default_lease) ''b'' 2 [''ingest''] (\<lambda>_. False) (js_rows crashed_3) = (Inr second_try, [second_try])"
    by code_simp
  moreover have "js_out crashed_3 = [first_try]" by (simp add: crashed_3_def crashed_2_def)
  moreover have "jb_lease first_try = Some 1" by (simp add: first_try_def begin_attempt_def)
  ultimately have s4: "jstep crashed_3 crashed_4"
    using jstep.Claimed [of 2 crashed_3 "3 + default_lease" "''b''" "[''ingest'']" "\<lambda>_. False" second_try "[second_try]"]
    by (simp add: crashed_4_def)
  show r2: "jreach crashed_2" by (rule jreach.step [OF jreach.step [OF jreach.start s1] s2])
  show "jreach crashed_4" by (rule jreach.step [OF jreach.step [OF r2 s3] s4])
  show "jruns crashed_3 crashed_4" by (rule jruns.more [OF jruns.refl s4])
qed

theorem lost_attempts_are_fenced_witness:
  "complete first_try (js_rows crashed_4) = (Inl LeaseLost, js_rows crashed_4)"
proof -
  have a: "first_try \<in> set (js_out crashed_3)" by (simp add: crashed_3_def crashed_2_def)
  have b: "\<not> holds_job first_try (js_rows crashed_3)" by code_simp
  show ?thesis by (rule lost_attempts_are_fenced [OF a b crashed_reach(2), THEN conjunct2, THEN conjunct1])
qed


section \<open>Finished jobs, and jobs whose worker died\<close>

lemma done_stays:
  "jstep s t \<Longrightarrow> jobs_ok s \<Longrightarrow> r \<in> set (js_rows s) \<Longrightarrow> jb_status r = JobDone \<Longrightarrow> r \<in> set (js_rows t)"
proof (induction rule: jstep.induct)
  case (Claimed lease s now worker kinds locked j rows)
  from Claimed(2) obtain q qs where q: "filter (\<lambda>r. runnable now kinds r \<and> \<not> locked (jb_id r)) (claim_order (js_rows s)) = q # qs"
    and rows: "rows = map_job (jb_id q) (begin_attempt now worker lease) (js_rows s)"
    by (auto simp: claim_def split: list.splits)
  have "q \<in> set (filter (\<lambda>r. runnable now kinds r \<and> \<not> locked (jb_id r)) (claim_order (js_rows s)))"
    by (simp only: q) simp
  then have "q \<in> set (js_rows s)" "jb_status q = JobPending"
    by (simp_all add: claim_order_def runnable_def)
  with Claimed.prems have "jb_id q \<noteq> jb_id r"
    by (auto simp: jobs_ok_def distinct_map dest: inj_onD)
  with Claimed.prems show ?case by (force simp: rows map_job_def)
next
  case (Published j s now res rows published)
  have "owned_by j r \<Longrightarrow> False" using Published.prems by (simp add: owned_by_def)
  with Published show ?case
    by (force simp: fenced_def write_owned_def split: if_splits)
qed (force simp: enqueue_def renew_def write_owned_map record_attempt_def fail_job_rows complete_def owned_by_def
    recover_stale_def stale_def retry_job_def split: option.split)+

text \<open>
  A finished job stays finished: its row never changes again, so no worker runs it a second
  time.
\<close>

theorem done_is_final:
  assumes "jreach s" and "jruns s t" and "r \<in> set (js_rows s)" and "jb_status r = JobDone"
  shows "r \<in> set (js_rows t)"
proof -
  have "jobs_ok t \<and> r \<in> set (js_rows t)"
    using assms(2,3) jreach_ok [OF assms(1)] assms(4)
    by (induction rule: jruns.induct) (auto intro: jstep_ok done_stays)
  then show ?thesis ..
qed

text \<open>
  A job whose worker died is not stuck: once its lease ran out, one recovery makes it
  runnable again, or gives it up when its attempts are used up; jobs with a live lease are left
  alone.
\<close>

theorem dead_jobs_recover:
  assumes "r \<in> set rows" and "jb_status r = JobRunning" and "jb_locked_at r = Some t"
  shows "(t < now - lease \<longrightarrow> (\<exists>q \<in> set (recover_stale now lease rows). jb_id q = jb_id r \<and>
        (if jb_attempts r < jb_max r then (jb_run_at r \<le> now \<longrightarrow> runnable now [jb_kind r] q) else jb_status q = JobFailed)))
    \<and> (now - lease \<le> t \<longrightarrow> r \<in> set (recover_stale now lease rows))"
proof -
  let ?f = "\<lambda>r. if stale now lease r then unlocked (if jb_max r \<le> jb_attempts r then JobFailed else JobPending) r
      \<lparr>jb_error := ''worker lock expired''\<rparr> else r"
  have m: "?f r \<in> set (recover_stale now lease rows)"
    using assms(1) by (simp add: recover_stale_def)
  show ?thesis
  proof (intro conjI impI)
    assume "t < now - lease"
    then have "stale now lease r" using assms by (simp add: stale_def)
    then show "\<exists>q \<in> set (recover_stale now lease rows). jb_id q = jb_id r \<and>
        (if jb_attempts r < jb_max r then (jb_run_at r \<le> now \<longrightarrow> runnable now [jb_kind r] q) else jb_status q = JobFailed)"
      by (intro bexI [OF _ m]) (auto simp: runnable_def unlocked_def)
  next
    assume "now - lease \<le> t"
    then have "\<not> stale now lease r" using assms by (simp add: stale_def)
    with m show "r \<in> set (recover_stale now lease rows)" by simp
  qed
qed

theorem dead_jobs_recover_witness:
  "\<exists>q \<in> set (recover_stale (2 + default_lease) default_lease [first_try]). runnable (2 + default_lease) [''ingest''] q"
proof -
  have f: "jb_status first_try = JobRunning" "jb_locked_at first_try = Some 1" "jb_kind first_try = ''ingest''"
    "jb_run_at first_try = 0" "jb_attempts first_try < jb_max first_try" by code_simp+
  from dead_jobs_recover [of first_try "[first_try]" 1 "2 + default_lease" default_lease] f
  show ?thesis by (auto simp: default_lease_def minute_def)
qed

theorem done_is_final_witness:
  "hd (js_rows (crashed_2\<lparr>js_rows := record_attempt 2 first_try False None (js_rows crashed_2)\<rparr>))
     \<in> set (recover_stale (3 + default_lease) default_lease (record_attempt 2 first_try False None [first_try]))"
proof -
  let ?s = "crashed_2\<lparr>js_rows := record_attempt 2 first_try False None (js_rows crashed_2)\<rparr>"
  have "first_try \<in> set (js_out crashed_2)" by (simp add: crashed_2_def)
  then have r: "jreach ?s" by (intro jreach.step [OF crashed_reach(1)] jstep.Recorded)
  have t: "jruns ?s (?s\<lparr>js_rows := recover_stale (3 + default_lease) default_lease (js_rows ?s)\<rparr>)"
    by (intro jruns.more [OF jruns.refl] jstep.Recovered)
  have h: "hd (js_rows ?s) \<in> set (js_rows ?s)" "jb_status (hd (js_rows ?s)) = JobDone" by code_simp+
  from done_is_final [OF r t h] show ?thesis by (simp add: crashed_2_def)
qed

end
