(* ===== verification/Manager.thy ===== *)
theory Manager
  imports Hub
begin

text \<open>
  The rooms in memory (\<open>room/manager.go\<close>), with the way a WebSocket connection uses them
  (\<open>hub/hub.go\<close>) and the way the REST hooks reach them (\<open>cmd/couchcast/serve.go\<close>).  All rooms
  share one environment (clock, tables, faults, what was sent): \<open>mg_env\<close> holds it between two
  steps, and \<open>with_env\<close> puts it into a room before its step and takes it back after.  A map is an
  association list; the order a loop visits it in is the list's.
\<close>

section \<open>State\<close>

record manager =
  mg_rooms :: "(uuid \<times> st) list"
  mg_loading :: "(uuid \<times> nat list) list"
  mg_env :: st
  mg_answers :: "(nat \<times> (cerr + uuid)) list"
  mg_idle_after :: duration

text \<open>What rooms share; \<open>mg_answers\<close> collects what the callers of \<open>Get\<close> were told.\<close>

definition with_env :: "st \<Rightarrow> st \<Rightarrow> st" where
  "with_env e s = s\<lparr>st_deps := st_deps e, st_now := st_now e, st_db := st_db e, st_faults := st_faults e,
     st_sent := st_sent e, st_hung_up := st_hung_up e, st_notified := st_notified e, st_add_asked := st_add_asked e\<rparr>"

definition peek :: "uuid \<Rightarrow> manager \<Rightarrow> st option" where
  "peek i g = map_option (with_env (mg_env g)) (map_of (mg_rooms g) i)"

definition put_room :: "uuid \<Rightarrow> st \<Rightarrow> manager \<Rightarrow> manager" where
  "put_room i t g = g\<lparr>mg_rooms := AList.update i t (mg_rooms g), mg_env := with_env t (mg_env g)\<rparr>"

definition drop_room :: "uuid \<Rightarrow> manager \<Rightarrow> manager" where
  "drop_room i g = g\<lparr>mg_rooms := AList.delete i (mg_rooms g)\<rparr>"

text \<open>A method of a loaded room; of a room that is not in memory it is skipped.\<close>

definition in_room :: "uuid \<Rightarrow> (st \<Rightarrow> st) \<Rightarrow> manager \<Rightarrow> manager" where
  "in_room i f g = (case peek i g of None \<Rightarrow> g | Some s \<Rightarrow> put_room i (f s) g)"

definition each_room :: "(st \<Rightarrow> st) \<Rightarrow> manager \<Rightarrow> manager" where
  "each_room f g = fold (\<lambda>i. in_room i f) (map fst (mg_rooms g)) g"

section \<open>Getting a room\<close>

text \<open>
  \<open>Get\<close> in three parts: the look into the maps, the load by the caller that came first, and the
  end of the load, when it and the callers that waited are answered.
\<close>

datatype got = Ready | Wait | MustLoad

definition get_begin :: "nat \<Rightarrow> uuid \<Rightarrow> manager \<Rightarrow> got \<times> manager" where
  "get_begin caller i g =
     (if map_of (mg_rooms g) i \<noteq> None then (Ready, g\<lparr>mg_answers := mg_answers g @ [(caller, Inr i)]\<rparr>)
      else case map_of (mg_loading g) i of
          Some cs \<Rightarrow> (Wait, g\<lparr>mg_loading := AList.update i (cs @ [caller]) (mg_loading g)\<rparr>)
        | None \<Rightarrow> (MustLoad, g\<lparr>mg_loading := AList.update i [caller] (mg_loading g)\<rparr>))"

definition load_into :: "uuid \<Rightarrow> manager \<Rightarrow> (cerr + unit) \<times> manager" where
  "load_into i g = (case load i (mg_env g) of
      (Inl e, t) \<Rightarrow> (Inl e, g\<lparr>mg_env := with_env t (mg_env g)\<rparr>)
    | (Inr _, t) \<Rightarrow> (Inr (), put_room i t g))"

definition get_end :: "uuid \<Rightarrow> manager \<Rightarrow> manager" where
  "get_end i g = (case map_of (mg_loading g) i of
      None \<Rightarrow> g
    | Some cs \<Rightarrow> (case load_into i g of (r, g') \<Rightarrow>
        g'\<lparr>mg_loading := AList.delete i (mg_loading g'),
           mg_answers := mg_answers g' @ map (\<lambda>c. (c, map_sum id (\<lambda>_. i) r)) cs\<rparr>))"

text \<open>\<open>Get\<close> by a caller that nobody disturbs.\<close>

definition get_live :: "uuid \<Rightarrow> manager \<Rightarrow> (cerr + unit) \<times> manager" where
  "get_live i g = (if map_of (mg_rooms g) i \<noteq> None then (Inr (), g) else load_into i g)"

definition env_query :: "(db \<Rightarrow> cerr + 'a) \<Rightarrow> manager \<Rightarrow> (cerr + 'a) \<times> manager" where
  "env_query f g = (case query f (mg_env g) of (r, t) \<Rightarrow> (r, g\<lparr>mg_env := t\<rparr>))"

definition warm :: "manager \<Rightarrow> (cerr + unit) \<times> manager" where
  "warm g = (case env_query (\<lambda>d. Inr (list_playing_room_ids d)) g of
      (Inl e, g') \<Rightarrow> (Inl e, g')
    | (Inr ids, g') \<Rightarrow> (Inr (), fold (\<lambda>i h. snd (get_live i h)) ids g'))"

section \<open>Reading\<close>

definition loaded_rooms :: "manager \<Rightarrow> nat" where
  "loaded_rooms g = length (mg_rooms g)"

definition live_counts :: "manager \<Rightarrow> (uuid \<times> nat) list" where
  "live_counts g = filter (\<lambda>p. 0 < snd p) (map (\<lambda>p. (room_id (snd p), length (st_viewers (snd p)))) (mg_rooms g))"

definition live_playback :: "uuid \<Rightarrow> manager \<Rightarrow> playback option" where
  "live_playback i g = map_option room_playback (peek i g)"

definition live_debug :: "uuid \<Rightarrow> manager \<Rightarrow> debug_state option" where
  "live_debug i g = map_option debug (peek i g)"

section \<open>Reaching into rooms\<close>

definition kick_from :: "uuid \<Rightarrow> uuid \<Rightarrow> string \<Rightarrow> manager \<Rightarrow> manager" where
  "kick_from i u reason = in_room i (kick u reason)"

definition log_in :: "uuid \<Rightarrow> string \<Rightarrow> manager \<Rightarrow> manager" where
  "log_in i line = in_room i (room_log line)"

definition kick_everywhere :: "uuid \<Rightarrow> string \<Rightarrow> manager \<Rightarrow> manager" where
  "kick_everywhere u reason = each_room (kick u reason)"

definition refresh_live :: "uuid \<Rightarrow> manager \<Rightarrow> manager" where
  "refresh_live i = in_room i (\<lambda>s. snd (refresh s))"

text \<open>The rooms that hold a video in memory (\<open>holding\<close>).\<close>

definition holding :: "uuid \<Rightarrow> manager \<Rightarrow> uuid list" where
  "holding mid g = map fst (filter (\<lambda>p. map_of (st_media (snd p)) mid \<noteq> None) (mg_rooms g))"

definition media_deleted :: "uuid \<Rightarrow> manager \<Rightarrow> manager" where
  "media_deleted mid g = fold (\<lambda>i. in_room i (\<lambda>s. snd (reload_queue_cmd s))) (holding mid g) g"

definition media_changed :: "uuid \<Rightarrow> manager \<Rightarrow> manager" where
  "media_changed mid g =
     (if holding mid g = [] then g
      else case env_query (\<lambda>d. get_media d mid) g of
          (Inl _, g') \<Rightarrow> g'
        | (Inr m, g') \<Rightarrow> fold (\<lambda>i. in_room i (media_updated m)) (holding mid g) g')"

definition reconcile_all :: "manager \<Rightarrow> manager" where
  "reconcile_all g = (let ids = remdups (concat (map (\<lambda>p. unsettled_media (snd p)) (mg_rooms g))) in
     if ids = [] then g
     else case env_query (\<lambda>d. Inr (get_media_batch d ids)) g of
         (Inl _, g') \<Rightarrow> g'
       | (Inr fresh, g') \<Rightarrow> each_room (reconcile_media (map snd fresh)) g')"

definition unload :: "uuid \<Rightarrow> string \<Rightarrow> manager \<Rightarrow> manager" where
  "unload i reason g = (case peek i g of
      None \<Rightarrow> g
    | Some s \<Rightarrow> drop_room i (put_room i (close_room (hang_up_all reason s)) g))"

section \<open>The periodic tick\<close>

text \<open>
  For each room, \<open>Tick\<close> (\<open>tick_check\<close>) under the room's mutex, and when it says the room is idle,
  dropping it and \<open>shutdown\<close> (\<open>tick_drop\<close>) later; other steps may run in between.
\<close>

definition tick_check :: "uuid \<Rightarrow> manager \<Rightarrow> bool \<times> manager" where
  "tick_check i g = (case peek i g of
      None \<Rightarrow> (False, g)
    | Some s \<Rightarrow> (case tick (mg_idle_after g) s of (idle, t) \<Rightarrow> (idle, put_room i t g)))"

definition tick_drop :: "uuid \<Rightarrow> manager \<Rightarrow> manager" where
  "tick_drop i g = (case peek i g of
      None \<Rightarrow> g
    | Some s \<Rightarrow> drop_room i (put_room i (shutdown s) g))"

definition tick_room :: "uuid \<Rightarrow> manager \<Rightarrow> manager" where
  "tick_room i g = (case tick_check i g of (idle, g') \<Rightarrow> if idle then tick_drop i g' else g')"

definition tick_all :: "manager \<Rightarrow> manager" where
  "tick_all g = fold tick_room (map fst (mg_rooms g)) g"

definition shutdown_all :: "manager \<Rightarrow> manager" where
  "shutdown_all g = fold (\<lambda>i h. drop_room i (in_room i (\<lambda>s. shutdown (close_viewers reason_shutdown s)) h))
     (map fst (mg_rooms g)) g"

section \<open>Connections\<close>

text \<open>
  \<open>Serve\<close> and \<open>run\<close> of a connection: the room is got, joined with the actor the request
  resolved, and left when the connection ends; in between, its messages are dispatched.
\<close>

definition conn_join :: "hub_conn \<Rightarrow> manager \<Rightarrow> (cerr + unit) \<times> manager" where
  "conn_join c g = (case get_live (hc_room c) g of
      (Inl e, g') \<Rightarrow> (Inl e, g')
    | (Inr _, g') \<Rightarrow> (Inr (), in_room (hc_room c) (join (hc_id c) (hc_actor c)) g'))"

definition conn_leave :: "hub_conn \<Rightarrow> manager \<Rightarrow> manager" where
  "conn_leave c = in_room (hc_room c) (leave (hc_id c))"

definition conn_message :: "hub_env \<Rightarrow> int \<Rightarrow> client_msg \<Rightarrow> hub_conn \<Rightarrow> manager \<Rightarrow> hub_conn \<times> manager" where
  "conn_message env ref m c g = (case peek (hc_room c) g of
      None \<Rightarrow> (c, g)
    | Some s \<Rightarrow> (case dispatch env ref m c s of (c', t) \<Rightarrow> (c', put_room (hc_room c) t g)))"

text \<open>A timer of a room.\<close>

definition room_timer :: "uuid \<Rightarrow> time \<times> callback \<Rightarrow> manager \<Rightarrow> manager" where
  "room_timer i tcb = in_room i (fire tcb)"

section \<open>The hooks of the REST handlers\<close>

definition live_queue_add :: "(string \<Rightarrow> admit_err + admission) \<Rightarrow> uuid \<Rightarrow> actor \<Rightarrow> string \<Rightarrow> manager \<Rightarrow> (cerr + unit) \<times> manager" where
  "live_queue_add admit i a url g = (case get_live i g of
      (Inl e, g') \<Rightarrow> (Inl e, g')
    | (Inr _, g') \<Rightarrow> (case peek i g' of
          None \<Rightarrow> (Inr (), g')
        | Some s \<Rightarrow> (case queue_add admit a url False True s of (r, t) \<Rightarrow> (r, put_room i t g'))))"

end
