(* ===== verification/Manager_Safe.thy ===== *)
theory Manager_Safe
  imports Manager Rooms_Laws
begin

text \<open>
  The whole web process: rooms in memory, the tables they share, messages, timers, the periodic
  tick and REST requests.  \<open>mstep\<close> is one step of any of them; \<open>F\<close> are the rooms in which a command
  failed half-way since their queue was last read, \<open>B\<close> those in which another command ran after
  that.  The theorems say that all other rooms in memory hold what the tables hold.
\<close>

section \<open>One room at a time\<close>

lemma with_env_same [simp]:
  "room_id (with_env e s) = room_id s" "st_queue (with_env e s) = st_queue s" "st_db (with_env e s) = st_db e"
  "st_info (with_env e s) = st_info s" "st_played (with_env e s) = st_played s"
  by (simp_all add: with_env_def room_id_def)

lemma with_env_idem [simp]: "with_env (with_env t e) s = with_env t s"
  by (simp add: with_env_def)

lemma coherent_cong:
  "room_id t = room_id s \<Longrightarrow> st_queue t = st_queue s \<Longrightarrow> st_db t = st_db s \<Longrightarrow> coherent t = coherent s"
  by (simp add: coherent_def tables_ok_def)

lemma headroom_cong: "room_id t = room_id s \<Longrightarrow> st_db t = st_db s \<Longrightarrow> headroom t k = headroom s k"
  by (simp add: headroom_def)

lemma peek_put:
  "peek j (put_room i t g) = (if j = i then Some (with_env (with_env t (mg_env g)) t)
     else map_option (with_env t) (map_of (mg_rooms g) j))"
  by (auto simp: peek_def put_room_def update_conv' map_option_case with_env_def split: option.split)

lemma peek_drop: "peek j (drop_room i g) = (if j = i then None else peek j g)"
  by (simp add: peek_def drop_room_def delete_conv')

lemma env_put [simp]: "st_db (mg_env (put_room i t g)) = st_db t"
  by (simp add: put_room_def)

lemma env_drop [simp]: "mg_env (drop_room i g) = mg_env g"
  by (simp add: drop_room_def)

text \<open>A step of one room leaves the rows of all others alone.\<close>

definition elsewhere :: "uuid \<Rightarrow> db \<Rightarrow> db \<Rightarrow> bool" where
  "elsewhere i d d' \<longleftrightarrow> (ids_ok d \<longrightarrow> ids_ok d') \<and> (\<forall>j. j \<noteq> i \<longrightarrow> room_rows d' j = room_rows d j)"

lemma others_elsewhere:
  assumes "\<And>X. others_are i X s \<Longrightarrow> others_are i X t" and "room_id s = i" and "ids_ok (st_db s)"
  shows "elsewhere i (st_db s) (st_db t)" and "room_id t = i"
proof -
  have o: "others_are i (others i (st_db s)) t"
    by (rule assms(1)) (simp add: others_are_def assms(2,3))
  show "room_id t = i" using o by (simp add: others_are_def)
  have "room_rows (st_db t) j = room_rows (st_db s) j" if "j \<noteq> i" for j
  proof -
    have "filter (\<lambda>r. ir_room r \<noteq> i) (d_items (st_db t)) = filter (\<lambda>r. ir_room r \<noteq> i) (d_items (st_db s))"
      using o by (simp add: others_are_def others_def)
    then have "filter (queued_in j) (filter (\<lambda>r. ir_room r \<noteq> i) (d_items (st_db t)))
        = filter (queued_in j) (filter (\<lambda>r. ir_room r \<noteq> i) (d_items (st_db s)))" by simp
    moreover have "(\<lambda>r. ir_room r \<noteq> i \<and> queued_in j r) = queued_in j"
      using that by (auto simp: queued_in_def)
    ultimately show ?thesis by (simp add: room_rows_def conj_commute)
  qed
  with o show "elsewhere i (st_db s) (st_db t)" by (simp add: elsewhere_def others_are_def)
qed

lemma quiet_elsewhere: "quiet s t \<Longrightarrow> room_id s = i \<Longrightarrow> elsewhere i (st_db s) (st_db t)"
  by (auto simp: elsewhere_def quiet_def quiet_db_def ids_ok_def room_rows_def)

section \<open>Rooms in step with the tables\<close>

definition settled :: "manager \<Rightarrow> uuid set \<Rightarrow> uuid set \<Rightarrow> bool" where
  "settled g F B \<longleftrightarrow> ids_ok (st_db (mg_env g))
     \<and> (\<forall>i. i \<notin> B \<longrightarrow> ranks_ok (st_db (mg_env g)) i)
     \<and> (\<forall>i s. peek i g = Some s \<longrightarrow> room_id s = i \<and> (i \<notin> F \<union> B \<longrightarrow> coherent s))"

lemma settledD:
  assumes "settled g F B" and "peek i g = Some s"
  shows "room_id s = i" and "i \<notin> F \<union> B \<Longrightarrow> coherent s" and "i \<notin> B \<Longrightarrow> tables_ok s" and "ids_ok (st_db s)"
    and "st_db s = st_db (mg_env g)"
proof -
  show d: "st_db s = st_db (mg_env g)" using assms(2) by (auto simp: peek_def)
  show i: "room_id s = i" using assms by (auto simp: settled_def)
  show "ids_ok (st_db s)" using assms(1) d by (simp add: settled_def)
  show "i \<notin> F \<union> B \<Longrightarrow> coherent s" using assms by (auto simp: settled_def)
  show "i \<notin> B \<Longrightarrow> tables_ok s" using assms(1) d i by (simp add: settled_def tables_ok_def)
qed

text \<open>
  The central lemma: a step of room \<open>i\<close>, after which the room is good unless it is marked.
\<close>

lemma settled_put:
  assumes "settled g F B" and "room_id t = i" and "elsewhere i (st_db (mg_env g)) (st_db t)"
    and "F - {i} \<subseteq> F'" and "B - {i} \<subseteq> B'" and "i \<notin> B' \<Longrightarrow> ranks_ok (st_db t) i" and "i \<notin> F' \<union> B' \<Longrightarrow> coherent t"
  shows "settled (put_room i t g) F' B'"
  unfolding settled_def
proof (intro conjI allI impI)
  show "ids_ok (st_db (mg_env (put_room i t g)))"
    using assms(1,3) by (simp add: settled_def elsewhere_def)
next
  fix j assume j: "j \<notin> B'"
  show "ranks_ok (st_db (mg_env (put_room i t g))) j"
  proof (cases "j = i")
    case False
    with j assms(5) have "j \<notin> B" by blast
    with assms(1,3) False show ?thesis by (simp add: settled_def elsewhere_def ranks_ok_def)
  qed (use j assms(6) in simp)
next
  fix j s assume p: "peek j (put_room i t g) = Some s"
  show "room_id s = j"
  proof (cases "j = i")
    case False
    with p obtain r where "map_of (mg_rooms g) j = Some r" "s = with_env t r"
      by (auto simp: peek_put)
    with settledD(1) [OF assms(1), of j "with_env (mg_env g) r"] show ?thesis by (simp add: peek_def)
  qed (use p assms(2) in \<open>auto simp: peek_put\<close>)
next
  fix j s assume p: "peek j (put_room i t g) = Some s" and j: "j \<notin> F' \<union> B'"
  show "coherent s"
  proof (cases "j = i")
    case True
    with p have "s = with_env (with_env t (mg_env g)) t" by (simp add: peek_put)
    then have "coherent s = coherent t" by (intro coherent_cong) simp_all
    with assms(7) j True show ?thesis by simp
  next
    case False
    with p obtain r where r: "map_of (mg_rooms g) j = Some r" and s: "s = with_env t r"
      by (auto simp: peek_put)
    then have q: "peek j g = Some (with_env (mg_env g) r)" by (simp add: peek_def)
    have "j \<notin> F \<union> B" using False j assms(4,5) by blast
    with settledD [OF assms(1) q] have c: "coherent (with_env (mg_env g) r)" "room_id r = j" by simp_all
    have e: "room_rows (st_db t) j = room_rows (st_db (mg_env g)) j" "ids_ok (st_db t)"
      using assms(1,3) False by (simp_all add: elsewhere_def settled_def)
    from c e show ?thesis
      by (simp add: s coherent_def tables_ok_def queue_rows_def ranks_ok_def)
  qed
qed

lemma settled_drop: "settled g F B \<Longrightarrow> settled (drop_room i g) (F - {i}) B"
  by (auto simp: settled_def peek_drop split: if_splits)

section \<open>Steps\<close>

text \<open>The visits to a room that leave its queue alone, whoever makes them.\<close>

datatype visit =
  Joins conn actor
| Leaves conn
| Kicks uuid string
| Logs string
| Refreshes
| NewMedia media
| Reconciles "media list"
| Ticks duration
| HangsUp string
| ShutsDown

fun calls :: "visit \<Rightarrow> st \<Rightarrow> st" where
  "calls (Joins c a) = join c a"
| "calls (Leaves c) = leave c"
| "calls (Kicks u reason) = kick u reason"
| "calls (Logs line) = room_log line"
| "calls Refreshes = (\<lambda>s. snd (refresh s))"
| "calls (NewMedia m) = media_updated m"
| "calls (Reconciles fresh) = reconcile_media fresh"
| "calls (Ticks d) = (\<lambda>s. snd (tick d s))"
| "calls (HangsUp reason) = (\<lambda>s. close_room (hang_up_all reason s))"
| "calls ShutsDown = shutdown"

lemma quiet_hang_up: "quiet s (hang_up_all reason s)"
  unfolding hang_up_all_def by (intro quiet)

lemma quiet_tick: "quiet s (snd (tick d s))"
  unfolding tick_def Let_def by (auto intro: quiet_save_playback_snd quiet)

lemma quiet_shutdown: "quiet s (shutdown s)"
  unfolding shutdown_def by (rule quiet_trans [OF _ quiet_persist_snd]) (intro quiet)

lemma quiet_refresh_roles: "quiet s t \<Longrightarrow> quiet s (refresh_roles cvs t)"
proof (induction cvs arbitrary: t)
  case (Cons cv cvs)
  obtain c v where cv: "cv = (c, v)" by (cases cv)
  show ?case
  proof (cases "v_user v")
    case None
    with cv Cons show ?thesis by simp
  next
    case (Some u)
    obtain r t' where run: "query (\<lambda>d. get_member d (room_id t) (u_id u)) t = (r, t')" by fastforce
    have "quiet t t'"
      using quietcD [OF quietc_query, of t "\<lambda>d. get_member d (room_id t) (u_id u)"] run by simp
    with Cons.prems have t': "quiet s t'" by (rule quiet_trans)
    have vs: "quiet s (t'\<lparr>st_viewers := vs\<rparr>)" for vs using t' by (intro quiet)
    show ?thesis using Some run by (cases r) (simp_all add: cv Cons.IH t' vs)
  qed
qed simp

lemma quietc_refresh: "quietc refresh"
proof (rule quietcI)
  fix s
  have read: "quietc (refresh_read)"
    by (rule quietcI, subst refresh_read_def, rule quietcD) (intro quiet_bindc quietc_query quiet_guards)
  obtain r t where run: "refresh_read s = (r, t)" by fastforce
  have q: "quiet s t" using quietcD [OF read, of s] run by simp
  show "quiet s (snd (refresh s))"
  proof (cases r)
    case (Inl e)
    with run q show ?thesis by (simp add: refresh_def bindc_def)
  next
    case (Inr io)
    have "ri_id (fst io) = room_id s"
      using run Inr by (auto simp: refresh_read_def cmd_defs store_def get_room_def find_room_def find_Some_iff
          split: list.splits bool.splits prod.splits sum.splits option.splits)
    then have "quiet s (refresh_apply io t)"
      using q quiet_room_id [OF q] unfolding refresh_apply_def Let_def
      by (intro quiet_broadcasts(1) quiet_refresh_roles) (intro quiet; simp)
    with run Inr show ?thesis by (simp add: refresh_def bindc_def doc_def)
  qed
qed

lemma quiet_visit: "quiet s (calls v s)"
  by (cases v) (simp_all add: quiet_join quiet_leave quiet_kick room_log_def quiet_log_line_snd quietcD [OF quietc_refresh]
      quiet_media_updated quiet_reconcile_media quiet_tick quiet_shutdown quiet_hang_up quiet_small(3))

section \<open>Messages, timers, loads\<close>

text \<open>Whether the command of a message ended with an error.\<close>

definition fails :: "hub_env \<Rightarrow> int \<Rightarrow> client_msg \<Rightarrow> hub_conn \<Rightarrow> st \<Rightarrow> bool" where
  "fails env ref m c s = (case m of
      CPing _ \<Rightarrow> False
    | CReport _ _ \<Rightarrow> False
    | _ \<Rightarrow> (case fresh_actor ref c s of
          (None, _, _) \<Rightarrow> False
        | (Some a, _, s1) \<Rightarrow> isl (fst (command env a m s1))))"

text \<open>Whether the callback of a timer went on to the next item and that ended with an error.\<close>

definition timer_fails :: "time \<times> callback \<Rightarrow> st \<Rightarrow> bool" where
  "timer_fails tcb s = (case snd tcb of
      CbAdvance i n \<Rightarrow> isl (fst (next_item (s\<lparr>st_armed := remove1 tcb (st_armed s)\<rparr>)))
    | _ \<Rightarrow> False)"

lemma succeeded:
  fixes m :: "unit cmd"
  assumes "\<not> isl (fst (m s))"
  obtains t where "m s = (Inr (), t)"
proof (cases "m s")
  case (Pair r t)
  with assms that show thesis by (cases r) simp_all
qed

lemma dispatch_coherent:
  assumes "coherent s" and "headroom s most_adds" and "shuffle_ok env" and "\<not> fails env ref m c s"
    and "dispatch env ref m c s = (c', t)"
  shows "coherent t"
proof -
  obtain x d s1 where f: "fresh_actor ref c s = (x, d, s1)" by (cases "fresh_actor ref c s")
  have q: "quiet s s1" by (rule quiet_fresh_actor [OF f])
  consider "\<exists>t0. m = CPing t0" | "\<exists>st pos. m = CReport st pos"
    | "\<nexists>t0. m = CPing t0" "\<nexists>st pos. m = CReport st pos" by blast
  then show ?thesis
  proof cases
    case 1
    with assms(5) have "quiet s t" using quiet_tell(1) [OF quiet_refl] by (auto simp: dispatch_def)
    with assms(1) show ?thesis by (rule coherent_quiet)
  next
    case 2
    with assms(5) have "quiet s t" by (auto simp: dispatch_def intro: quiet_report)
    with assms(1) show ?thesis by (rule coherent_quiet)
  next
    case 3
    have c1: "coherent s1" "headroom s1 most_adds"
      using coherent_quiet [OF assms(1) q] headroom_quiet [OF assms(2) q] by simp_all
    show ?thesis
    proof (cases x)
      case None
      with dispatch_command [OF 3, of env ref c s] f assms(5) c1 show ?thesis by simp
    next
      case (Some a)
      have "\<not> isl (fst (command env a m s1))"
        using assms(4) f Some 3 by (cases m) (simp_all add: fails_def)
      then obtain s2 where run: "command env a m s1 = (Inr (), s2)" by (rule succeeded)
      have "coherent s2"
        using keepsD(1) [OF room.command_keeps [OF assms(3)] conjI [OF c1] run] .
      with dispatch_command [OF 3, of env ref c s] f assms(5) Some run show ?thesis by simp
    qed
  qed
qed

lemma dispatch_parts:
  assumes "shuffle_ok env" and "dispatch env ref m c s = (c', t)" and "ids_ok (st_db s)"
  shows "elsewhere (room_id s) (st_db s) (st_db t)" and "room_id t = room_id s"
    and "coherent s \<Longrightarrow> headroom s most_adds \<Longrightarrow> tables_ok t"
proof -
  show "coherent s \<Longrightarrow> headroom s most_adds \<Longrightarrow> tables_ok t"
    by (rule room.dispatch_keeps [OF assms(1) _ _ assms(2)])
  have "others_are (room_id s) X t" if "others_are (room_id s) X s" for X
    by (rule others.dispatch_keeps [OF assms(1) that _ assms(2)]) simp
  from others_elsewhere [OF this _ assms(3)]
  show "elsewhere (room_id s) (st_db s) (st_db t)" "room_id t = room_id s" by simp_all
qed

lemma fire_parts:
  assumes "ids_ok (st_db s)"
  shows "elsewhere (room_id s) (st_db s) (st_db (fire tcb s))" and "room_id (fire tcb s) = room_id s"
    and "coherent s \<Longrightarrow> headroom s 0 \<Longrightarrow> tables_ok (fire tcb s)"
proof -
  show "coherent s \<Longrightarrow> headroom s 0 \<Longrightarrow> tables_ok (fire tcb s)"
    by (rule room.fire_keeps)
  have "others_are (room_id s) X (fire tcb s)" if "others_are (room_id s) X s" for X
    by (rule others.fire_keeps [OF that]) simp
  from others_elsewhere [OF this _ assms]
  show "elsewhere (room_id s) (st_db s) (st_db (fire tcb s))" "room_id (fire tcb s) = room_id s" by simp_all
qed

lemma fire_coherent:
  assumes "coherent s" and "headroom s 0" and "\<not> timer_fails tcb s"
  shows "coherent (fire tcb s)"
proof -
  let ?s = "s\<lparr>st_armed := remove1 tcb (st_armed s)\<rparr>"
  have q: "quiet s ?s" by (intro quiet)
  have c: "coherent ?s" "headroom ?s 0"
    using coherent_quiet [OF assms(1) q] headroom_quiet [OF assms(2) q] .
  have "coherent (run_callback (snd tcb) ?s)"
  proof (cases "snd tcb")
    case (CbAdvance i n)
    have "\<not> isl (fst (next_item ?s))" using assms(3) CbAdvance by (simp add: timer_fails_def)
    then obtain t where run: "next_item ?s = (Inr (), t)" by (rule succeeded)
    have "coherent t" using keepsD(1) [OF room.next_item_keeps conjI [OF c] run] .
    then have "coherent (broadcast t)" by (rule coherent_quiet) (intro quiet)
    with c run show ?thesis by (simp add: CbAdvance run_callback_def on_ended_def)
  qed (use c in \<open>simp_all add: run_callback_def\<close>, (rule coherent_quiet [OF c(1)],
      simp add: quiet_timers_fire quiet_broadcasts(3) quiet_refl)+)
  with c show ?thesis by (simp add: fire_def Let_def)
qed

lemma query_db: "query f s = (r, t) \<Longrightarrow> st_db t = st_db s \<and> (r = f (st_db s) \<or> r = Inl InternalErr)"
  by (auto simp: query_def store_def split: list.splits bool.splits)

text \<open>What \<open>load\<close> does after it read the queue.\<close>

lemma quiet_load_end:
  "quiet s (let s1 = drop_lost_current (load_pinned s);
                s2 = (if c_playing (st_clock s1) then schedule_advance s1 else s1)
            in arm_empty_pause s2)"
proof -
  have p: "quiet s (s\<lparr>st_pinned := None\<rparr>)" by (intro quiet)
  have q: "quiet s t" if "query f (s\<lparr>st_pinned := None\<rparr>) = (r, t)" for f :: "db \<Rightarrow> cerr + message" and r t
    using quietcD [OF quietc_query, of "s\<lparr>st_pinned := None\<rparr>" f] that quiet_trans [OF p] by simp
  have z: "quiet s (t\<lparr>st_pinned := x\<rparr>)" if "quiet s t" for t x using that by (intro quiet)
  have "quiet s (load_pinned s)"
    unfolding load_pinned_def Let_def
    by (auto intro: p z dest: q split: option.split prod.split sum.split)
  moreover have "quiet t (drop_lost_current t)" for t
    unfolding drop_lost_current_def by (auto intro!: quiet split: option.split)
  ultimately have d: "quiet s (drop_lost_current (load_pinned s))" using quiet_trans by blast
  then show ?thesis unfolding Let_def by (intro quiet)
qed

lemma load_parts:
  assumes "load i e = (r, t)"
  shows "d_items (st_db t) = d_items (st_db e) \<and> d_next (st_db e) \<le> d_next (st_db t)"
    and "r = Inr u \<Longrightarrow> room_id t = i"
    and "r = Inr u \<Longrightarrow> ids_ok (st_db e) \<Longrightarrow> ranks_ok (st_db e) i \<Longrightarrow> coherent t"
proof -
  have "d_items (st_db t) = d_items (st_db e) \<and> d_next (st_db e) \<le> d_next (st_db t)
    \<and> (r = Inr u \<longrightarrow> room_id t = i \<and> (ids_ok (st_db e) \<longrightarrow> ranks_ok (st_db e) i \<longrightarrow> coherent t))"
  proof -
    obtain r1 s1 where 1: "query (\<lambda>d. get_room d i) e = (r1, s1)" by fastforce
    show ?thesis
    proof (cases r1)
      case (Inl x)
      with assms 1 query_db [OF 1] show ?thesis by (auto simp: load_def bindc_def)
    next
      case (Inr info)
      obtain r2 s2 where 2: "query (\<lambda>d. get_user d (ri_owner info)) s1 = (r2, s2)" by fastforce
      show ?thesis
      proof (cases r2)
        case (Inl x)
        with assms 1 Inr 2 query_db [OF 1] query_db [OF 2] show ?thesis by (auto simp: load_def bindc_def)
      next
        case (Inr owner)
        let ?f = "fresh_room info (u_name owner) s2"
        have f: "st_db ?f = st_db e" "room_id ?f = i"
          using query_db [OF 1] query_db [OF 2] \<open>r1 = Inr info\<close>
          by (auto simp: fresh_room_def room_id_def get_room_def find_room_def find_Some_iff split: option.splits)
        obtain r3 s3 where 3: "reload_queue ?f = (r3, s3)" by fastforce
        show ?thesis
        proof (cases r3)
          case (Inl x)
          have "quiet ?f s3" using 3 Inl by (intro room.reload_failed) simp
          with assms 1 2 3 Inl Inr \<open>r1 = Inr info\<close> f show ?thesis
            by (auto simp: load_def cmd_defs quiet_def quiet_db_def)
        next
          case 4: (Inr y)
          define g where "g s = (let s1 = drop_lost_current (load_pinned s);
                s2 = (if c_playing (st_clock s1) then schedule_advance s1 else s1)
            in arm_empty_pause s2)" for s
          have run: "r = Inr ()" "t = g s3"
            using assms 1 2 3 4 Inr \<open>r1 = Inr info\<close> by (simp_all add: load_def cmd_defs g_def)
          have q: "quiet s3 t" unfolding run(2) g_def by (rule quiet_load_end)
          have rl: "st_db s3 = st_db e" "room_id s3 = i"
            using reload_reads [of ?f y s3] 3 4 f by (simp_all add: room_id_def)
          have "coherent s3" if "ids_ok (st_db e)" "ranks_ok (st_db e) i"
            using coherent_reload [of ?f y s3] that f 3 4 by (simp add: tables_ok_def)
          with q rl coherent_quiet show ?thesis by (auto simp: quiet_def quiet_db_def)
        qed
      qed
    qed
  qed
  then show "d_items (st_db t) = d_items (st_db e) \<and> d_next (st_db e) \<le> d_next (st_db t)"
    "r = Inr u \<Longrightarrow> room_id t = i" "r = Inr u \<Longrightarrow> ids_ok (st_db e) \<Longrightarrow> ranks_ok (st_db e) i \<Longrightarrow> coherent t"
    by simp_all
qed

section \<open>Requests\<close>

text \<open>A request past the rooms leaves the rows of each room as they were, or deletes the room.\<close>

definition rows_or_none :: "(uuid \<Rightarrow> item_row list) \<Rightarrow> db \<Rightarrow> bool" where
  "rows_or_none X d \<longleftrightarrow> ids_ok d \<and> (\<forall>i. room_rows d i = X i \<or> room_rows d i = [])"

lemma rows_or_none_cong:
  "d_items d' = d_items d \<Longrightarrow> d_next d \<le> d_next d' \<Longrightarrow> rows_or_none X d \<Longrightarrow> rows_or_none X d'"
  unfolding rows_or_none_def ids_ok_def room_rows_def by (auto intro: less_le_trans)

lemma rows_or_none_delete: "safe_for (rows_or_none X) (delete_room rid)"
proof -
  have "rows_or_none X d'" if q: "rows_or_none X d" and i: "d_items d' = filter (\<lambda>r. ir_room r \<noteq> rid) (d_items d)"
    and n: "d_next d' = d_next d" for d d'
  proof -
    have "room_rows d' x = (if x = rid then [] else room_rows d x)" for x
      by (auto simp: room_rows_def i queued_in_def filter_empty_conv intro!: filter_cong)
    with q show ?thesis by (auto simp: rows_or_none_def ids_ok_def i n distinct_map_filter)
  qed
  note f = this
  show ?thesis
    unfolding safe_for_def
  proof (intro allI impI)
    fix d assume q: "rows_or_none X d"
    show "rows_or_none X (snd (delete_room rid d))"
      by (cases "find_room d rid") (use q f [OF q] in \<open>simp_all add: delete_room_def Let_def\<close>)
  qed
qed

lemma rows_or_none_links: "safe_for (rows_or_none X) (use_invite_link now now' i uid)"
proof -
  have "d_items (join_member now rid u (map_link hit f d)) = d_items d" "d_next (join_member now rid u (map_link hit f d)) = d_next d"
    for rid u hit f d
    by (simp_all add: join_member_def add_member_def map_link_def split: option.split)
  then show ?thesis
    by (auto simp: safe_for_def use_invite_link_def intro: rows_or_none_cong [rotated -1] split: option.split)
qed

lemma rows_or_none_same:
  "rows_or_none X d \<Longrightarrow> rows_or_none X (d\<lparr>d_members := a\<rparr>)" "rows_or_none X d \<Longrightarrow> rows_or_none X (d\<lparr>d_rooms := b\<rparr>)"
  "rows_or_none X d \<Longrightarrow> rows_or_none X (d\<lparr>d_bans := c\<rparr>)" "rows_or_none X d \<Longrightarrow> rows_or_none X (d\<lparr>d_mutes := e\<rparr>)"
  "rows_or_none X d \<Longrightarrow> rows_or_none X (d\<lparr>d_invites := f\<rparr>)" "rows_or_none X d \<Longrightarrow> rows_or_none X (d\<lparr>d_links := g\<rparr>)"
  "rows_or_none X d \<Longrightarrow> rows_or_none X (d\<lparr>d_stars := h\<rparr>)" "rows_or_none X d \<Longrightarrow> rows_or_none X (d\<lparr>d_slugs := k\<rparr>)"
  by (erule rows_or_none_cong [rotated -1]; simp)+

lemma rows_or_none_creates:
  "safe_for (rows_or_none X) (create_room now slug name uid vis p)"
  "safe_for (rows_or_none X) (create_invite now rid invitee inviter)"
  "safe_for (rows_or_none X) (create_invite_link now rid h b' expires limit)"
  by (auto simp: safe_for_def create_room_def create_invite_def create_invite_link_def add_member_def forget_slug_def
      Let_def intro: rows_or_none_cong [rotated -1] split: option.split)

interpretation rows: tables_law "rows_or_none X" for X
proof
  show "safe_for (rows_or_none X) (delete_room rid)" for rid by (rule rows_or_none_delete)
  show "safe_for (rows_or_none X) (use_invite_link now now' i uid)" for now now' i uid by (rule rows_or_none_links)
qed (auto simp: safe_for_def rows_or_none_creates [unfolded safe_for_def] update_room_def upsert_member_def delete_member_def
    transfer_ownership_def create_ban_def delete_ban_def set_mute_def delete_mute_def accept_invite_def
    decline_invite_def set_star_def revoke_invite_link_def set_invite_def join_member_def add_member_def
    map_member_def map_room_def map_link_def forget_slug_def remember_slug_def Let_def
    intro!: rows_or_none_same split: option.split)

section \<open>Every step of the process\<close>

type_synonym marks = "uuid set \<times> uuid set"

definition mark_step :: "bool \<Rightarrow> uuid \<Rightarrow> marks \<Rightarrow> marks" where
  "mark_step ok i FB = (case FB of (F, B) \<Rightarrow>
     if i \<in> F \<union> B then (F, insert i B) else if ok then (F, B) else (insert i F, B))"

text \<open>The environment between steps: time passes, calls fail, other processes write other tables.\<close>

definition env_moves :: "st \<Rightarrow> st \<Rightarrow> bool" where
  "env_moves e e' \<longleftrightarrow> d_items (st_db e') = d_items (st_db e) \<and> d_next (st_db e) \<le> d_next (st_db e')"

inductive mstep :: "hub_env \<Rightarrow> manager \<times> marks \<Rightarrow> manager \<times> marks \<Rightarrow> bool" for env where
  Loaded: "map_of (mg_rooms g) i = None \<Longrightarrow> load_into i g = (r, g') \<Longrightarrow> mstep env (g, F, B) (g', F - {i}, B)"
| Visited: "peek i g = Some s \<Longrightarrow> mstep env (g, F, B) (put_room i (calls v s) g, F, B)"
| Message: "peek i g = Some s \<Longrightarrow> headroom s most_adds \<Longrightarrow> dispatch env ref m c s = (c', t)
    \<Longrightarrow> mstep env (g, FB) (put_room i t g, mark_step (\<not> fails env ref m c s) i FB)"
| Timer: "peek i g = Some s \<Longrightarrow> headroom s 0
    \<Longrightarrow> mstep env (g, FB) (put_room i (fire tcb s) g, mark_step (\<not> timer_fails tcb s) i FB)"
| Reread: "peek i g = Some s \<Longrightarrow> reload_queue_cmd s = (Inr u, t) \<Longrightarrow> mstep env (g, F, B) (put_room i t g, F - {i}, B)"
| Dropped: "mstep env (g, F, B) (drop_room i g, F - {i}, B)"
| Request: "(\<And>X rid a url d. rows_or_none X d \<Longrightarrow> rows_or_none X (snd (we_first_add wenv rid a url d)))
    \<Longrightarrow> w_db w = st_db (mg_env g) \<Longrightarrow> d = w_db (snd (run (serve wenv q) w))
    \<Longrightarrow> mstep env (g, F, B) (g\<lparr>mg_env := (mg_env g)\<lparr>st_db := d\<rparr>\<rparr>,
          F \<union> {i. room_rows d i \<noteq> room_rows (st_db (mg_env g)) i}, B)"
| Elsewhere: "env_moves (mg_env g) e \<Longrightarrow> mstep env (g, F, B) (g\<lparr>mg_env := e\<rparr>, F, B)"

inductive mreach :: "hub_env \<Rightarrow> manager \<Rightarrow> uuid set \<Rightarrow> uuid set \<Rightarrow> bool" for env where
  start: "mg_rooms g = [] \<Longrightarrow> queues_ok (st_db (mg_env g)) \<Longrightarrow> mreach env g {} {}"
| step: "mreach env g F B \<Longrightarrow> mstep env (g, F, B) (g', F', B') \<Longrightarrow> mreach env g' F' B'"

lemma peek_env: "peek j (g\<lparr>mg_env := e\<rparr>) = map_option (with_env e) (map_of (mg_rooms g) j)"
  by (simp add: peek_def)

lemma settled_env:
  assumes "settled g F B" and "ids_ok (st_db e)"
    and "\<And>j. j \<notin> B \<Longrightarrow> room_rows (st_db e) j = room_rows (st_db (mg_env g)) j \<or> room_rows (st_db e) j = []"
    and "\<And>j. j \<notin> F' \<Longrightarrow> j \<notin> F \<and> room_rows (st_db e) j = room_rows (st_db (mg_env g)) j"
  shows "settled (g\<lparr>mg_env := e\<rparr>) F' B"
  unfolding settled_def
proof (intro conjI allI impI)
  show "ids_ok (st_db (mg_env (g\<lparr>mg_env := e\<rparr>)))" using assms(2) by simp
next
  fix j assume "j \<notin> B"
  with assms(3) [OF this] assms(1) show "ranks_ok (st_db (mg_env (g\<lparr>mg_env := e\<rparr>))) j"
    by (auto simp: settled_def ranks_ok_def)
next
  fix j s assume "peek j (g\<lparr>mg_env := e\<rparr>) = Some s"
  then obtain r where r: "map_of (mg_rooms g) j = Some r" and s: "s = with_env e r" by (auto simp: peek_env)
  then have q: "peek j g = Some (with_env (mg_env g) r)" by (simp add: peek_def)
  show "room_id s = j" using settledD(1) [OF assms(1) q] by (simp add: s)
  assume "j \<notin> F' \<union> B"
  with assms(4) [of j] have "j \<notin> F \<union> B" and e: "room_rows (st_db e) j = room_rows (st_db (mg_env g)) j" by auto
  with settledD(1,2) [OF assms(1) q] e assms(2) show "coherent s"
    by (simp add: s coherent_def tables_ok_def queue_rows_def ranks_ok_def)
qed

lemma settled_quiet_env: "settled g F B \<Longrightarrow> env_moves (mg_env g) e \<Longrightarrow> settled (g\<lparr>mg_env := e\<rparr>) F B"
  by (rule settled_env) (auto simp: settled_def env_moves_def ids_ok_def room_rows_def)

lemma settled_unloaded:
  assumes "settled g F B" and "map_of (mg_rooms g) i = None"
  shows "settled g (F - {i}) B"
  using assms by (auto simp: settled_def peek_def split: if_splits)

lemma settled_load:
  assumes "settled g F B" and "map_of (mg_rooms g) i = None" and "load_into i g = (r, g')"
  shows "settled g' (F - {i}) B"
proof -
  obtain q t where run: "load i (mg_env g) = (q, t)" by fastforce
  note parts = load_parts [OF run]
  show ?thesis
  proof (cases q)
    case (Inl e)
    have "env_moves (mg_env g) (with_env t (mg_env g))" using parts(1) by (simp add: env_moves_def)
    from settled_unloaded [OF settled_quiet_env [OF assms(1) this], of i] assms(2,3) run Inl
    show ?thesis by (simp add: load_into_def)
  next
    case (Inr u)
    have "settled (put_room i t g) (F - {i}) B"
    proof (rule settled_put [OF assms(1)])
      show "room_id t = i" using parts(2) Inr by simp
      show "elsewhere i (st_db (mg_env g)) (st_db t)"
        using parts(1) by (auto simp: elsewhere_def ids_ok_def room_rows_def)
      show "ranks_ok (st_db t) i" if "i \<notin> B"
        using assms(1) that parts(1) by (simp add: settled_def ranks_ok_def room_rows_def)
      show "coherent t" if "i \<notin> F - {i} \<union> B"
        using parts(3) Inr that assms(1) by (simp add: settled_def)
    qed auto
    with assms(3) run Inr show ?thesis by (simp add: load_into_def)
  qed
qed

lemma settled_mark:
  assumes "settled g F B" and "peek i g = Some s" and "room_id t = i" and "elsewhere i (st_db s) (st_db t)"
    and "coherent s \<Longrightarrow> tables_ok t" and "coherent s \<Longrightarrow> ok \<Longrightarrow> coherent t" and "mark_step ok i (F, B) = (F', B')"
  shows "settled (put_room i t g) F' B'"
proof (rule settled_put [OF assms(1,3)])
  note s = settledD [OF assms(1,2)]
  show "elsewhere i (st_db (mg_env g)) (st_db t)" using assms(4) s(5) by simp
  show "F - {i} \<subseteq> F'" "B - {i} \<subseteq> B'" using assms(7) by (auto simp: mark_step_def split: if_splits)
  show "ranks_ok (st_db t) i" if "i \<notin> B'"
  proof -
    have "i \<notin> F \<union> B" using that assms(7) by (auto simp: mark_step_def split: if_splits)
    with assms(3,5) s(2) show ?thesis by (simp add: tables_ok_def)
  qed
  show "coherent t" if "i \<notin> F' \<union> B'"
  proof -
    have "i \<notin> F \<union> B" "ok" using that assms(7) by (auto simp: mark_step_def split: if_splits)
    with assms(6) s(2) show ?thesis by simp
  qed
qed

lemma settled_step:
  assumes "shuffle_ok env" and "mstep env (g, F, B) (g', F', B')" and "settled g F B"
  shows "settled g' F' B'"
  using assms(2,3)
proof (cases rule: mstep.cases)
  case (Loaded i r)
  with assms(3) show ?thesis by (auto intro: settled_load)
next
  case (Visited i s v)
  note s = settledD [OF assms(3) Visited(4)]
  have q: "quiet s (calls v s)" by (rule quiet_visit)
  have "settled (put_room i (calls v s) g) F B"
  proof (rule settled_put [OF assms(3)])
    show "room_id (calls v s) = i" using quiet_room_id [OF q] s(1) by simp
    show "elsewhere i (st_db (mg_env g)) (st_db (calls v s))" using quiet_elsewhere [OF q s(1)] s(5) by simp
    show "ranks_ok (st_db (calls v s)) i" if "i \<notin> B"
      using quiet_rows(4) [OF q s(3) [OF that]] quiet_room_id [OF q] s(1) by (simp add: tables_ok_def)
    show "coherent (calls v s)" if "i \<notin> F \<union> B" using coherent_quiet [OF s(2) [OF that] q] .
  qed auto
  with Visited show ?thesis by simp
next
  case (Message i s ref m c c' t)
  note s = settledD [OF assms(3) Message(3)]
  note d = dispatch_parts [OF assms(1) Message(5) s(4)]
  have "settled (put_room i t g) F' B'"
    by (rule settled_mark [OF assms(3) Message(3)]) (use d s(1) Message dispatch_coherent [OF _ Message(4) assms(1) _ Message(5)] in auto)
  with Message show ?thesis by simp
next
  case (Timer i s tcb)
  note s = settledD [OF assms(3) Timer(3)]
  note d = fire_parts [OF s(4), of tcb]
  have "settled (put_room i (fire tcb s) g) F' B'"
    by (rule settled_mark [OF assms(3) Timer(3)]) (use d s(1) Timer fire_coherent in auto)
  with Timer show ?thesis by simp
next
  case (Reread i s u t)
  note s = settledD [OF assms(3) Reread(4)]
  have k: "tables_ok s \<Longrightarrow> coherent t"
    using keepsD(1) [OF room.reload_queue_cmd_keeps _ Reread(5)] .
  have o': "others_are i X s \<Longrightarrow> others_are i X t" for X
    using keepsD(1) [OF others.reload_queue_cmd_keeps _ Reread(5)] .
  note e = others_elsewhere [OF o' s(1) s(4)]
  have "settled (put_room i t g) (F - {i}) B"
  proof (rule settled_put [OF assms(3)])
    show "room_id t = i" by (rule e(2))
    show "elsewhere i (st_db (mg_env g)) (st_db t)" using e(1) s(5) by simp
    show "ranks_ok (st_db t) i" if "i \<notin> B"
      using k [OF s(3) [OF that]] e(2) by (simp add: coherent_def tables_ok_def)
    show "coherent t" if "i \<notin> F - {i} \<union> B" using k s(3) that by simp
  qed auto
  with Reread show ?thesis by simp
next
  case (Dropped i)
  with assms(3) settled_drop show ?thesis by simp
next
  case (Request wenv w d q)
  have "rows_or_none (room_rows (w_db w)) (w_db w)"
    using assms(3) Request(5) by (simp add: rows_or_none_def settled_def)
  from rows.request_keeps [OF Request(4) this, where q = q] Request(6)
  have "rows_or_none (room_rows (w_db w)) d" by simp
  with Request(5) have "settled (g\<lparr>mg_env := (mg_env g)\<lparr>st_db := d\<rparr>\<rparr>)
      (F \<union> {i. room_rows d i \<noteq> room_rows (st_db (mg_env g)) i}) B"
    by (intro settled_env [OF assms(3)]) (auto simp: rows_or_none_def)
  with Request show ?thesis by simp
next
  case (Elsewhere e)
  with settled_quiet_env [OF assms(3)] show ?thesis by simp
qed

lemma mreach_settled: "mreach env g F B \<Longrightarrow> shuffle_ok env \<Longrightarrow> settled g F B"
proof (induction rule: mreach.induct)
  case (start g)
  then show ?case by (simp add: settled_def queues_ok_def peek_def)
next
  case (step g F B g' F' B')
  then show ?case by (blast intro: settled_step)
qed


definition boot_db :: db where
  "boot_db = sample_db\<lparr>d_users := [sample_user 1, sample_user 3]\<rparr>"

definition boot :: manager where
  "boot = \<lparr>mg_rooms = [], mg_loading = [], mg_env = sample_base\<lparr>st_db := boot_db\<rparr>, mg_answers = [],
     mg_idle_after = 10 * minute\<rparr>"

lemma boot_rows: "room_rows boot_db i = (if i = 1 then sample_rows else [])" "ids_ok boot_db"
proof -
  show "room_rows boot_db i = (if i = 1 then sample_rows else [])"
    by (simp add: room_rows_def boot_db_def sample_room_defs queued_in_def)
  show "ids_ok boot_db"
    by (simp add: ids_ok_def boot_db_def sample_room_defs)
qed

lemma boot_reach: "mreach sample_env boot {} {}"
proof (rule mreach.start)
  have "good_rank (fmt_08d 1)" using good_rank_1 by simp
  then show "queues_ok (st_db (mg_env boot))"
    by (simp add: queues_ok_def boot_def ranks_ok_def boot_rows) (simp add: sample_rows_def)
qed (simp add: boot_def)


section \<open>One load for all callers\<close>

lemma waiting:
  assumes "map_of (mg_rooms g) i = None" and "map_of (mg_loading g) i = Some ws"
  shows "fst (get_begin c i g) = Wait" and "map_of (mg_loading (snd (get_begin c i g))) i = Some (ws @ [c])"
    and "mg_rooms (snd (get_begin c i g)) = mg_rooms g" and "mg_env (snd (get_begin c i g)) = mg_env g"
    and "mg_answers (snd (get_begin c i g)) = mg_answers g"
  using assms by (simp_all add: get_begin_def update_conv')

lemma all_waiting:
  "map_of (mg_rooms g) i = None \<Longrightarrow> map_of (mg_loading g) i = Some ws \<Longrightarrow> h = fold (\<lambda>c h. snd (get_begin c i h)) cs g
   \<Longrightarrow> map_of (mg_loading h) i = Some (ws @ cs) \<and> mg_rooms h = mg_rooms g \<and> mg_env h = mg_env g \<and> mg_answers h = mg_answers g"
proof (induction cs arbitrary: g ws)
  case (Cons c cs)
  note w = waiting [OF Cons.prems(1,2), of c]
  from Cons.IH [of "snd (get_begin c i g)" "ws @ [c]"] w Cons.prems show ?case by simp
qed simp

text \<open>
  C20: callers that ask for a room while it is being read wait for the same read: there is one
  load, all of them get its result, the first included, and if it went well they all get the one
  instance in memory.
\<close>

theorem one_load_for_all:
  assumes "get_begin c i g = (MustLoad, g1)" and "g2 = fold (\<lambda>c h. snd (get_begin c i h)) cs g1"
    and "load_into i g2 = (r, g3)"
  shows "mg_answers (get_end i g2) = mg_answers g @ map (\<lambda>c. (c, map_sum id (\<lambda>_. i) r)) (c # cs)
    \<and> map_of (mg_loading (get_end i g2)) i = None
    \<and> (map_of (mg_rooms (get_end i g2)) i \<noteq> None \<longleftrightarrow> r = Inr ())
    \<and> fst (get_begin c' i g2) = Wait"
proof -
  have n: "map_of (mg_rooms g) i = None" and g1: "g1 = g\<lparr>mg_loading := AList.update i [c] (mg_loading g)\<rparr>"
    using assms(1) by (auto simp: get_begin_def split: if_splits option.splits)
  have "map_of (mg_rooms g1) i = None" "map_of (mg_loading g1) i = Some [c]"
    using n by (simp_all add: g1 update_conv')
  from all_waiting [OF this assms(2)] g1 n
  have h: "map_of (mg_loading g2) i = Some (c # cs)" "map_of (mg_rooms g2) i = None" "mg_answers g2 = mg_answers g"
    by simp_all
  have g3: "mg_answers g3 = mg_answers g2" "mg_loading g3 = mg_loading g2"
    "map_of (mg_rooms g3) i \<noteq> None \<longleftrightarrow> r = Inr ()"
    using assms(3) h(2) by (auto simp: load_into_def put_room_def update_conv' split: prod.splits sum.splits)
  show ?thesis
    using h g3 assms(3) waiting(1) [OF h(2,1)]
    by (simp add: get_end_def delete_conv')
qed

theorem one_load_for_all_witness:
  "mg_answers (get_end 1 (snd (get_begin 8 1 (snd (get_begin 7 1 boot))))) = [(7, Inr 1), (8, Inr 1)]"
proof -
  let ?g1 = "snd (get_begin 7 1 boot)" let ?g2 = "snd (get_begin 8 1 ?g1)"
  have a: "get_begin 7 1 boot = (MustLoad, ?g1)" by (simp add: get_begin_def boot_def)
  have b: "?g2 = fold (\<lambda>c h. snd (get_begin c 1 h)) [8] ?g1" by simp
  have c: "fst (load_into 1 ?g2) = Inr ()" by code_simp
  have "load_into 1 ?g2 = (Inr (), snd (load_into 1 ?g2))" using c by (metis prod.collapse)
  from one_load_for_all [OF a b this, of 9] show ?thesis by (simp add: boot_def)
qed

section \<open>Two races\<close>

definition later :: "duration \<Rightarrow> manager \<Rightarrow> manager" where
  "later d g = g\<lparr>mg_env := (mg_env g)\<lparr>st_now := st_now (mg_env g) + d\<rparr>\<rparr>"

definition eve :: hub_conn where
  "eve = \<lparr>hc_id = 9, hc_room = 1, hc_actor = sample_actor 3 RoleMember\<rparr>"

text \<open>
  The tick decides that a room is idle under the room's mutex and drops it later: a viewer who
  joins in between stays in a room that is closed and no longer in memory, and is not hung up on.
\<close>

lemma tick_drops_a_joined_room:
  "let g1 = later (11 * minute) (snd (load_into 1 boot)); (idle, g2) = tick_check 1 g1;
       g3 = snd (conn_join eve g2); g4 = tick_drop 1 g3
   in idle \<and> live_counts g3 = [(1, 1)] \<and> peek 1 g4 = None \<and> st_hung_up (mg_env g4) = []"
  by code_simp

text \<open>
  A connection joins with the actor its request resolved: a ban and its kick that come between
  the request's lookups and the join leave the banned person watching.
\<close>

lemma banned_while_joining:
  "let d = sample_db\<lparr>d_users := [sample_user 1, sample_user 3],
         d_bans := [\<lparr>rb_room = 1, rb_user = 3, rb_username = [], rb_banned_by = None, rb_reason = [], rb_created = 0\<rparr>]\<rparr>;
       g1 = kick_from 1 3 ''banned'' (boot\<lparr>mg_env := (mg_env boot)\<lparr>st_db := d\<rparr>\<rparr>); g2 = snd (conn_join eve g1)
   in live_counts g2 = [(1, 1)] \<and> st_hung_up (mg_env g2) = []"
  by code_simp

end
