(* ===== verification/Live.thy ===== *)
theory Live
  imports Manager_Safe Rooms_Names
begin

text \<open>
  REST requests on the running process: the request runs on the shared tables, and its hooks act
  on the rooms in memory, as \<open>cmd/couchcast/serve.go\<close> wires them.
\<close>

section \<open>Hooks\<close>

definition run_hook :: "hook_call \<Rightarrow> manager \<Rightarrow> manager" where
  "run_hook h = (case hk_hook h of
      OnBan \<Rightarrow> kick_from (hk_room h) (hk_user h) ''banned''
    | OnRemove \<Rightarrow> kick_from (hk_room h) (hk_user h) ''removed from room''
    | OnLeave \<Rightarrow> kick_from (hk_room h) (hk_user h) ''left''
    | OnMute \<Rightarrow> log_in (hk_room h) (hk_line h)
    | OnRoomChanged \<Rightarrow> refresh_live (hk_room h)
    | OnRoomDeleted \<Rightarrow> unload (hk_room h) ''room deleted'')"

definition web_of :: "(budget \<Rightarrow> uuid \<Rightarrow> time list) \<Rightarrow> manager \<Rightarrow> web" where
  "web_of asked g = \<lparr>w_db = st_db (mg_env g), w_faults = st_faults (mg_env g), w_now = st_now (mg_env g),
     w_audit = [], w_hooks = [], w_notified = [], w_asked = asked\<rparr>"

definition after_request :: "web \<Rightarrow> manager \<Rightarrow> manager" where
  "after_request v g = g\<lparr>mg_env := (mg_env g)\<lparr>st_db := w_db v, st_faults := w_faults v\<rparr>\<rparr>"

definition request_live :: "web_env \<Rightarrow> request \<Rightarrow> (budget \<Rightarrow> uuid \<Rightarrow> time list) \<Rightarrow> manager \<Rightarrow> reply \<times> manager" where
  "request_live env q asked g = (case run (serve env q) (web_of asked g) of
      (r, v) \<Rightarrow> (r, fold run_hook (w_hooks v) (after_request v g)))"

section \<open>A ban takes effect\<close>

lemma must_calm [calm]:
  "w_faults w = [] \<Longrightarrow> must f w = (case f (w_db w) of
      (Inl e, d) \<Rightarrow> (Inl (write_error 500 ''internal error''), w\<lparr>w_db := d\<rparr>) | (Inr x, d) \<Rightarrow> (Inr x, w\<lparr>w_db := d\<rparr>))"
  by (auto simp: must_def ask_def bindr_def okr_def internal_error_def answer_def split: prod.split sum.split)

lemma audit_calm [calm]:
  "w_faults w = [] \<Longrightarrow> audit env act tt tg rid me w = (Inr (), w\<lparr>w_audit := w_audit w @
     [\<lparr>au_actor = map_option u_id (we_user env), au_action = act, au_target_type = tt, au_target = tg,
       au_room = rid, au_meta = me\<rparr>]\<rparr>)"
  by (simp add: audit_def record_audit_def)

lemma ban_writes:
  assumes "create_ban now rid uid x reason d = (Inr u, d')"
  shows "\<exists>b \<in> set (d_bans d'). rb_room b = rid \<and> rb_user b = uid"
proof (cases "\<exists>b \<in> set (d_bans d). rb_room b = rid \<and> rb_user b = uid")
  case True
  then obtain b where b: "b \<in> set (d_bans d)" "rb_room b = rid" "rb_user b = uid" by blast
  from assms True have "d_bans d' = map (\<lambda>b. if rb_room b = rid \<and> rb_user b = uid
       then b\<lparr>rb_banned_by := Some x, rb_reason := reason, rb_created := now\<rparr> else b) (d_bans d)"
    by (auto simp: create_ban_def)
  with b have "b\<lparr>rb_banned_by := Some x, rb_reason := reason, rb_created := now\<rparr> \<in> set (d_bans d')"
    by (simp add: rev_image_eqI)
  with b show ?thesis by (intro bexI) simp_all
next
  case False
  with assms show ?thesis by (auto simp: create_ban_def split: if_splits)
qed

lemma denied_no_success [simp]: "denied room a \<noteq> Reply 204 p"
  using status_denied [of room a] by auto

lemma ban_request:
  assumes "w_faults w = []" and "get_room_by_slug (w_db w) slug = Inr room" and "get_user_by_name (w_db w) name = Inr t"
    and "run (serve env (PutBan slug name b)) w = (Reply 204 p, v)"
  shows "w_hooks v = w_hooks w @ (if we_hook env OnBan then [\<lparr>hk_hook = OnBan, hk_room = ri_id room, hk_user = u_id t, hk_line = []\<rparr>] else [])
    \<and> (\<exists>x \<in> set (d_bans (w_db v)). rb_room x = ri_id room \<and> rb_user x = u_id t) \<and> w_faults v = []"
proof (cases "we_user env")
  case None
  with assms show ?thesis by (simp add: handle_ban_def require_user_def run_def answer_def write_error_def)
next
  case (Some u)
  let ?a = "actor_in env room (w_now w) (w_db w)"
  define k where "k reason = thenr (fail_unless (length reason \<le> 200) 400 ''reason must be at most 200 characters'')
    (thenr (with_now (\<lambda>now. must (create_ban now (ri_id room) (u_id t) (actor_id ?a) reason)))
    (thenr (audit env ''member.ban'' ''user'' (uuid_text (u_id t)) (Some (ri_id room))
        [username_meta t, (''reason'', MetaText reason)])
    (thenr (call_hook env OnBan (ri_id room) (u_id t) []) no_content)))" for reason
  have "run (serve env (PutBan slug name b)) w =
      (if u_id t = actor_id ?a then (write_error 400 ''you cannot ban yourself'', w)
       else if \<not> can_target (w_now w) ?a BanMember (Some room) (case found (get_member (w_db w) (ri_id room) (u_id t)) of
           None \<Rightarrow> RoleNone | Some m \<Rightarrow> rm_role m) then (denied room ?a, w)
       else run (bindr (case b of None \<Rightarrow> okr [] | Some q \<Rightarrow> decode q) k) w)"
    by (simp add: assms(1,2,3) Some handle_ban_def require_user_def run_def bindr_def thenr_def calm k_def [abs_def])
  then have "run (bindr (case b of None \<Rightarrow> okr [] | Some q \<Rightarrow> decode q) k) w = (Reply 204 p, v)"
    using assms(4) by (auto simp: write_error_def split: if_splits)
  then have "\<exists>reason. run (k reason) w = (Reply 204 p, v)"
    by (auto simp: run_def bindr_def okr_def decode_def answer_def write_error_def split: option.splits body.splits)
  then obtain reason where r: "run (k reason) w = (Reply 204 p, v)" ..
  obtain q d where c: "create_ban (w_now w) (ri_id room) (u_id t) (actor_id ?a) reason (w_db w) = (q, d)" by fastforce
  show ?thesis
    using r c assms(1)
    by (cases q) (auto simp: k_def run_def bindr_def thenr_def calm answer_def write_error_def call_hook_def no_content_def
        okr_def split: if_splits dest: ban_writes)
qed

lemma kicked_gone:
  assumes "peek i (kick_from i u reason g) = Some s" and "cv \<in> set (st_viewers s)"
  shows "\<not> is_viewer_of u (snd cv)"
proof -
  obtain r where r: "peek i g = Some r" and k: "kick_from i u reason g = put_room i (kick u reason r) g"
    using assms(1) by (cases "peek i g") (auto simp: kick_from_def in_room_def)
  from assms(1) k have "st_viewers s = st_viewers (kick u reason r)"
    by (auto simp: peek_put with_env_def)
  moreover have "st_viewers (kick u reason r) = filter (\<lambda>cv. \<not> is_viewer_of u (snd cv)) (st_viewers r)"
    by (simp add: kick_def Let_def broadcast_def arm_empty_pause_def send_def set_timers_def after_def)
  ultimately show ?thesis using assms(2) by simp
qed

text \<open>
  C21: when a ban is answered with success, it is in the tables and none of the banned person's
  connections is left in the room: the hook has closed them.
\<close>

theorem ban_disconnects:
  assumes "we_hook env OnBan" and "st_faults (mg_env g) = []" and "get_room_by_slug (st_db (mg_env g)) slug = Inr room"
    and "get_user_by_name (st_db (mg_env g)) name = Inr t"
    and "request_live env (PutBan slug name b) asked g = (Reply 204 p, g')"
  shows "(\<exists>x \<in> set (d_bans (st_db (mg_env g'))). rb_room x = ri_id room \<and> rb_user x = u_id t)
    \<and> (\<forall>s. peek (ri_id room) g' = Some s \<longrightarrow> (\<forall>cv \<in> set (st_viewers s). \<not> is_viewer_of (u_id t) (snd cv)))"
proof -
  obtain v where run: "run (serve env (PutBan slug name b)) (web_of asked g) = (Reply 204 p, v)"
    and g': "g' = fold run_hook (w_hooks v) (after_request v g)"
    using assms(5) by (auto simp: request_live_def split: prod.splits)
  have w: "w_faults (web_of asked g) = []" "w_db (web_of asked g) = st_db (mg_env g)" "w_hooks (web_of asked g) = []"
    using assms(2) by (simp_all add: web_of_def)
  from ban_request [OF w(1) _ _ run, of room t] w assms(1,3,4)
  have h: "w_hooks v = [\<lparr>hk_hook = OnBan, hk_room = ri_id room, hk_user = u_id t, hk_line = []\<rparr>]"
    and b: "\<exists>x \<in> set (d_bans (w_db v)). rb_room x = ri_id room \<and> rb_user x = u_id t" by simp_all
  have k: "g' = kick_from (ri_id room) (u_id t) ''banned'' (after_request v g)"
    by (simp add: g' h run_hook_def)
  have "st_db (mg_env g') = w_db v"
  proof (cases "peek (ri_id room) (after_request v g)")
    case None
    then show ?thesis by (simp add: k kick_from_def in_room_def after_request_def)
  next
    case (Some s)
    then have "st_db s = w_db v" by (auto simp: peek_def after_request_def with_env_def)
    moreover have "st_db (kick u r s) = st_db s" for u r
      by (simp add: kick_def Let_def broadcast_def arm_empty_pause_def send_def set_timers_def after_def)
    ultimately show ?thesis by (simp add: k kick_from_def in_room_def Some)
  qed
  with b kicked_gone k show ?thesis by fastforce
qed

text \<open>The owner of the room bans a member who is watching.\<close>

definition watched :: manager where
  "watched = snd (conn_join eve (boot\<lparr>mg_env := (mg_env boot)\<lparr>st_db := sample_tables\<rparr>\<rparr>))"

theorem ban_disconnects_witness:
  "live_counts watched = [(1, 1)]
    \<and> (case peek 1 (snd (request_live sample_server (PutBan ''r'' ''bob'' None) (\<lambda>_ _. []) watched)) of
         None \<Rightarrow> True
       | Some s \<Rightarrow> list_all (\<lambda>cv. \<not> is_viewer_of 3 (snd cv)) (st_viewers s))"
proof -
  let ?r = "request_live sample_server (PutBan ''r'' ''bob'' None) (\<lambda>_ _. []) watched"
  have c: "live_counts watched = [(1, 1)]" by code_simp
  have d: "st_faults (mg_env watched) = []" by code_simp
  have r: "get_room_by_slug (st_db (mg_env watched)) ''r'' = Inr sample_room" by code_simp
  have t: "get_user_by_name (st_db (mg_env watched)) ''bob'' = Inr ((sample_user 3)\<lparr>u_name := ''bob''\<rparr>)" by code_simp
  have "fst ?r = Reply 204 NoContent" by code_simp
  then have q: "?r = (Reply 204 NoContent, snd ?r)" by (metis prod.collapse)
  have h: "we_hook sample_server OnBan" by (simp add: sample_server_def)
  have i: "ri_id sample_room = 1" "u_id ((sample_user 3)\<lparr>u_name := ''bob''\<rparr>) = 3"
    by (simp_all add: sample_room_def sample_user_def)
  from ban_disconnects [OF h d r t q] c i show ?thesis by (simp add: list_all_iff split: option.split)
qed

end
