(* ===== verification/Netguard.thy ===== *)
theory Netguard
  imports Go_Text "HOL-Library.Word"
begin

text \<open>
  The guard against fetching from the private network (\<open>netguard/netguard.go\<close>): which addresses
  are public, the spellings of an address inside a link, and the check of a host.  An address is
  the \<open>netip.Addr\<close> of the library: none, 32 bits, or 128 bits with a zone.
\<close>

section \<open>Addresses\<close>

datatype ip_addr = NoAddr | V4 "32 word" | V6 "128 word" string

definition v4_of :: "nat \<Rightarrow> nat \<Rightarrow> nat \<Rightarrow> nat \<Rightarrow> 32 word" where
  "v4_of a b c d = word_of_nat (((a * 256 + b) * 256 + c) * 256 + d)"

definition v6_of :: "nat list \<Rightarrow> 128 word" where
  "v6_of gs = word_of_nat (foldl (\<lambda>n g. n * 65536 + g) 0 gs)"

text \<open>\<open>WithZone("")\<close> and \<open>Unmap\<close>: an IPv4-mapped address counts as its IPv4 address.\<close>

fun without_zone :: "ip_addr \<Rightarrow> ip_addr" where
  "without_zone (V6 w z) = V6 w []"
| "without_zone a = a"

fun unmap :: "ip_addr \<Rightarrow> ip_addr" where
  "unmap (V6 w z) = (if drop_bit 32 w = 0xFFFF then V4 (ucast w) else V6 w z)"
| "unmap a = a"

text \<open>The predicates of \<open>netip\<close>.\<close>

fun is_valid :: "ip_addr \<Rightarrow> bool" where
  "is_valid a \<longleftrightarrow> a \<noteq> NoAddr"

fun is_unspecified :: "ip_addr \<Rightarrow> bool" where
  "is_unspecified NoAddr = False"
| "is_unspecified (V4 w) = (w = 0)"
| "is_unspecified (V6 w z) = (w = 0 \<and> z = [])"

fun is_loopback :: "ip_addr \<Rightarrow> bool" where
  "is_loopback NoAddr = False"
| "is_loopback (V4 w) = (drop_bit 24 w = 127)"
| "is_loopback (V6 w z) = (w = 1)"

fun is_private_addr :: "ip_addr \<Rightarrow> bool" where
  "is_private_addr NoAddr = False"
| "is_private_addr (V4 w) = (drop_bit 24 w = 10 \<or> drop_bit 20 w = 0xAC1 \<or> drop_bit 16 w = 0xC0A8)"
| "is_private_addr (V6 w z) = (drop_bit 121 w = 0x7E)"

fun is_link_local :: "ip_addr \<Rightarrow> bool" where
  "is_link_local NoAddr = False"
| "is_link_local (V4 w) = (drop_bit 16 w = 0xA9FE)"
| "is_link_local (V6 w z) = (drop_bit 118 w = 0x3FA)"

fun is_multicast :: "ip_addr \<Rightarrow> bool" where
  "is_multicast NoAddr = False"
| "is_multicast (V4 w) = (drop_bit 28 w = 0xE)"
| "is_multicast (V6 w z) = (drop_bit 120 w = 0xFF)"

text \<open>A prefix of some bits; it never holds an address of the other family or with a zone.\<close>

datatype ip_prefix = P4 "32 word" nat | P6 "128 word" nat

fun prefix_contains :: "ip_prefix \<Rightarrow> ip_addr \<Rightarrow> bool" where
  "prefix_contains (P4 b n) (V4 w) = (drop_bit (32 - n) w = drop_bit (32 - n) b)"
| "prefix_contains (P6 b n) (V6 w z) = (z = [] \<and> drop_bit (128 - n) w = drop_bit (128 - n) b)"
| "prefix_contains p a = False"

definition non_public :: "ip_prefix list" where
  "non_public =
     [P4 (v4_of 0 0 0 0) 8, P4 (v4_of 100 64 0 0) 10, P4 (v4_of 192 0 0 0) 24, P4 (v4_of 192 0 2 0) 24,
      P4 (v4_of 198 18 0 0) 15, P4 (v4_of 198 51 100 0) 24, P4 (v4_of 203 0 113 0) 24, P4 (v4_of 240 0 0 0) 4,
      P6 0 96, P6 (v6_of [0x64, 0xFF9B, 1, 0, 0, 0, 0, 0]) 48, P6 (v6_of [0x100, 0, 0, 0, 0, 0, 0, 0]) 64,
      P6 (v6_of [0x2001, 0xDB8, 0, 0, 0, 0, 0, 0]) 32, P6 (v6_of [0xFEC0, 0, 0, 0, 0, 0, 0, 0]) 10]"

definition nat64 :: ip_prefix where
  "nat64 = P6 (v6_of [0x64, 0xFF9B, 0, 0, 0, 0, 0, 0]) 96"

definition six_to_four :: ip_prefix where
  "six_to_four = P6 (v6_of [0x2002, 0, 0, 0, 0, 0, 0, 0]) 16"

text \<open>Bytes 12 to 15 and 2 to 5 of the 16.\<close>

fun last_four :: "ip_addr \<Rightarrow> ip_addr" where
  "last_four (V6 w z) = V4 (ucast w)"
| "last_four a = a"

fun third_to_sixth :: "ip_addr \<Rightarrow> ip_addr" where
  "third_to_sixth (V6 w z) = V4 (ucast (drop_bit 80 w))"
| "third_to_sixth a = a"

lemma prefix_of_v4 [simp]: "\<not> prefix_contains nat64 (V4 w)" "\<not> prefix_contains six_to_four (V4 w)"
  by (simp_all add: nat64_def six_to_four_def)

lemma unmap_V6 [simp]: "unmap (without_zone a) = V6 w z \<Longrightarrow> \<exists>w' z'. a = V6 w' z'"
  by (cases a) auto

function is_public_addr :: "ip_addr \<Rightarrow> bool" where
  "is_public_addr a0 = (let a = unmap (without_zone a0) in
     if \<not> is_valid a \<or> is_unspecified a \<or> is_loopback a \<or> is_private_addr a \<or> is_link_local a \<or> is_multicast a
     then False
     else if list_ex (\<lambda>p. prefix_contains p a) non_public then False
     else if prefix_contains nat64 a then is_public_addr (last_four a)
     else if prefix_contains six_to_four a then is_public_addr (third_to_sixth a)
     else True)"
  by pat_completeness auto

termination
proof (relation "measure (\<lambda>a. case a of V6 w z \<Rightarrow> 1 | _ \<Rightarrow> 0)", goal_cases)
  case (2 a0 a)
  from 2(4) obtain w z where "a = V6 w z" by (cases a) (auto simp: nat64_def)
  with 2(1) show ?case using unmap_V6 [of a0 w z] by auto
next
  case (3 a0 a)
  from 3(5) obtain w z where "a = V6 w z" by (cases a) (auto simp: six_to_four_def)
  with 3(1) show ?case using unmap_V6 [of a0 w z] by auto
qed simp

declare is_public_addr.simps [simp del]

definition is_public_ip :: "ip_addr option \<Rightarrow> bool" where
  "is_public_ip a = (case a of None \<Rightarrow> False | Some x \<Rightarrow> is_public_addr x)"

section \<open>Addresses in text\<close>

definition trim_suffix :: "string \<Rightarrow> string \<Rightarrow> string" where
  "trim_suffix suf s = (if has_prefix (rev suf) (rev s) then take (length s - length suf) s else s)"

text \<open>\<open>netip.ParseAddr\<close>: the first of \<open>.\<close>, \<open>:\<close> and \<open>%\<close> decides the form.\<close>

definition octet :: "string \<Rightarrow> nat option" where
  "octet p = (if p = [] \<or> 1 < length p \<and> hd p = CHR ''0'' then None
     else case read_digits 10 0 p of None \<Rightarrow> None | Some n \<Rightarrow> if n \<le> 255 then Some n else None)"

definition parse_ipv4 :: "string \<Rightarrow> (nat \<times> nat \<times> nat \<times> nat) option" where
  "parse_ipv4 s = (case map octet (split_on (CHR ''.'') s) of
      [Some a, Some b, Some c, Some d] \<Rightarrow> Some (a, b, c, d)
    | _ \<Rightarrow> None)"

text \<open>The digits of one field: at most four, and what follows them.\<close>

definition is_hex :: "char \<Rightarrow> bool" where
  "is_hex c = (case digit_val c of None \<Rightarrow> False | Some d \<Rightarrow> d < 16)"

definition hex_field :: "string \<Rightarrow> (nat \<times> string) option" where
  "hex_field s = (let ds = takeWhile is_hex s in
     if ds = [] \<or> 4 < length ds then None
     else map_option (\<lambda>n. (n, drop (length ds) s)) (read_digits 16 0 ds))"

text \<open>
  The loop over the fields: \<open>bs\<close> are the bytes read, \<open>ell\<close> the place of the omission.  The value
  is the bytes and the omission; None is an error.
\<close>

function v6_fields :: "string \<Rightarrow> nat list \<Rightarrow> nat option \<Rightarrow> (nat list \<times> nat option) option" where
  "v6_fields s bs ell =
     (if 16 \<le> length bs then (if s = [] then Some (bs, ell) else None)
      else case hex_field s of
        None \<Rightarrow> None
      | Some (n, t) \<Rightarrow>
          (if t \<noteq> [] \<and> hd t = CHR ''.'' then
             (if (ell = None \<and> length bs \<noteq> 12) \<or> 12 < length bs then None
              else case parse_ipv4 s of None \<Rightarrow> None | Some (a, b, c, d) \<Rightarrow> Some (bs @ [a, b, c, d], ell))
           else let bs' = bs @ [n div 256, n mod 256] in
             case t of
               [] \<Rightarrow> Some (bs', ell)
             | c # t' \<Rightarrow>
                 if c \<noteq> CHR '':'' \<or> t' = [] then None
                 else if hd t' = CHR '':'' then
                   (if ell \<noteq> None then None
                    else if tl t' = [] then Some (bs', Some (length bs'))
                    else v6_fields (tl t') bs' (Some (length bs')))
                 else v6_fields t' bs' ell))"
  by pat_completeness auto

termination
  by (relation "measure (\<lambda>(s, bs, ell). 16 - length bs)") auto

declare v6_fields.simps [simp del]

definition v6_bytes :: "nat list \<times> nat option \<Rightarrow> nat list option" where
  "v6_bytes r = (case r of (bs, ell) \<Rightarrow>
     if length bs < 16 then
       (case ell of None \<Rightarrow> None | Some k \<Rightarrow> Some (take k bs @ replicate (16 - length bs) 0 @ drop k bs))
     else if ell \<noteq> None then None else Some bs)"

definition parse_ipv6 :: "string \<Rightarrow> ip_addr option" where
  "parse_ipv6 s0 =
     (case (case cut ''%'' s0 of None \<Rightarrow> Some (s0, []) | Some (s, z) \<Rightarrow> if z = [] then None else Some (s, z)) of
        None \<Rightarrow> None
      | Some (s, z) \<Rightarrow>
          (if s = ''::'' then Some (V6 0 z)
           else case (if has_prefix ''::'' s then v6_fields (drop 2 s) [] (Some 0) else v6_fields s [] None) of
             None \<Rightarrow> None
           | Some r \<Rightarrow> map_option (\<lambda>bs. V6 (word_of_nat (foldl (\<lambda>n b. n * 256 + b) 0 bs)) z) (v6_bytes r)))"

definition parse_addr :: "string \<Rightarrow> ip_addr option" where
  "parse_addr s = (case find (\<lambda>c. c \<in> set ''.:%'') s of
      None \<Rightarrow> None
    | Some c \<Rightarrow>
        if c = CHR ''.'' then map_option (\<lambda>(a, b, c, d). V4 (v4_of a b c d)) (parse_ipv4 s)
        else if c = CHR '':'' then parse_ipv6 s else None)"

text \<open>\<open>literal\<close>: the library's forms, and the spellings of \<open>inet_aton\<close>.\<close>

definition inet_aton_part :: "string \<Rightarrow> nat option" where
  "inet_aton_part p =
     (if p = [] then None
      else if 2 < length p \<and> (has_prefix ''0x'' p \<or> has_prefix ''0X'' p) then parse_uint 16 32 (drop 2 p)
      else if 1 < length p \<and> hd p = CHR ''0'' then parse_uint 8 32 (drop 1 p)
      else parse_uint 10 32 p)"

fun all_some :: "'a option list \<Rightarrow> 'a list option" where
  "all_some [] = Some []"
| "all_some (x # xs) = (case x of None \<Rightarrow> None | Some y \<Rightarrow> map_option (Cons y) (all_some xs))"

definition aton_value :: "nat list \<Rightarrow> nat option" where
  "aton_value ns = (let k = length ns - 1 in
     if 256 ^ (4 - k) \<le> ns ! k then None
     else if list_ex (\<lambda>n. 255 < n) (take k ns) then None
     else Some (foldl (\<lambda>v (i, n). v + n * 256 ^ (3 - i)) (ns ! k) (zip [0..<k] (take k ns))))"

definition literal :: "string \<Rightarrow> ip_addr option" where
  "literal h = (let host = trim_suffix ''.'' h in
     case parse_addr host of
       Some a \<Rightarrow> Some a
     | None \<Rightarrow>
         (let parts = split_on (CHR ''.'') host in
          if 4 < length parts then None
          else case all_some (map inet_aton_part parts) of
              None \<Rightarrow> None
            | Some ns \<Rightarrow> map_option (\<lambda>v. V4 (word_of_nat v)) (aton_value ns)))"

section \<open>The check\<close>

datatype guard_err = PrivateAddress | LookupError string | NoAddresses | NoHost | BadURL

text \<open>\<open>lookup\<close> is the resolver.\<close>

definition check_host :: "(string \<Rightarrow> string + ip_addr list) \<Rightarrow> string \<Rightarrow> guard_err + unit" where
  "check_host lookup host = (case literal host of
      Some a \<Rightarrow> if is_public_addr a then Inr () else Inl PrivateAddress
    | None \<Rightarrow> (case lookup host of
          Inl e \<Rightarrow> Inl (LookupError e)
        | Inr addrs \<Rightarrow>
            if addrs = [] then Inl NoAddresses
            else if list_all is_public_addr addrs then Inr () else Inl PrivateAddress))"

text \<open>\<open>hostname\<close> is \<open>url.Parse\<close> with \<open>Hostname\<close>: None when the link does not parse.\<close>

definition check_url :: "(string \<Rightarrow> string option) \<Rightarrow> (string \<Rightarrow> string + ip_addr list) \<Rightarrow> string \<Rightarrow> guard_err + unit" where
  "check_url hostname lookup raw = (case hostname (trim_space raw) of
      None \<Rightarrow> Inl BadURL
    | Some host \<Rightarrow> if host = [] then Inl NoHost else check_host lookup host)"

text \<open>\<open>Control\<close>: the address actually dialled, with its port taken off; None when it does not parse.\<close>

definition guard_control :: "ip_addr option \<Rightarrow> guard_err + unit" where
  "guard_control dialled = (case dialled of
      None \<Rightarrow> Inl BadURL
    | Some a \<Rightarrow> if is_public_addr a then Inr () else Inl PrivateAddress)"

section \<open>Which addresses are public\<close>

definition within :: "nat \<Rightarrow> nat \<Rightarrow> 'a :: len word \<Rightarrow> bool" where
  "within lo hi w \<longleftrightarrow> lo \<le> unat w \<and> unat w \<le> hi"

lemma nat_div_iff: "0 < (m :: nat) \<Longrightarrow> (n div m = q) = (q * m \<le> n \<and> n < (q + 1) * m)"
  by (metis Suc_eq_plus1 div_nat_eqI dividend_less_times_div mult.commute div_times_less_eq_dividend
      mult_Suc_right)

lemma less_pred: "0 < b \<Longrightarrow> (n < b) = (n \<le> b - 1)" for b :: nat
  by auto

lemma prefix_within:
  "(drop_bit k w = (v :: 'a :: len word)) = within (unat v * 2 ^ k) ((unat v + 1) * 2 ^ k - 1) w"
proof -
  have "(drop_bit k w = v) = (unat w div 2 ^ k = unat v)"
    by (metis word_unat_eq_iff unat_drop_bit_eq drop_bit_eq_div)
  also have "\<dots> = (unat v * 2 ^ k \<le> unat w \<and> unat w < (unat v + 1) * 2 ^ k)"
    by (rule nat_div_iff) simp
  also have "\<dots> = within (unat v * 2 ^ k) ((unat v + 1) * 2 ^ k - 1) w"
    unfolding within_def by (subst less_pred) simp_all
  finally show ?thesis .
qed

definition special_v4 :: "(nat \<times> nat) list" where
  "special_v4 =
     [(0x00000000, 0x00FFFFFF), (0x0A000000, 0x0AFFFFFF), (0x64400000, 0x647FFFFF), (0x7F000000, 0x7FFFFFFF),
      (0xA9FE0000, 0xA9FEFFFF), (0xAC100000, 0xAC1FFFFF), (0xC0000000, 0xC00000FF), (0xC0000200, 0xC00002FF),
      (0xC0A80000, 0xC0A8FFFF), (0xC6120000, 0xC613FFFF), (0xC6336400, 0xC63364FF), (0xCB007100, 0xCB0071FF),
      (0xE0000000, 0xEFFFFFFF), (0xF0000000, 0xFFFFFFFF)]"

lemma public_v4:
  "is_public_addr (V4 w) = (\<not> list_ex (\<lambda>(lo, hi). within lo hi w) special_v4)"
proof -
  have "w = 0 \<longrightarrow> within 0 16777215 w" by (simp add: within_def)
  then show ?thesis
    by (subst is_public_addr.simps)
      (simp add: special_v4_def non_public_def v4_of_def prefix_within Let_def)
qed

text \<open>The addresses that carry an IPv4 address: mapped, NAT64 and 6to4.\<close>

definition mapped_v6 :: "32 word \<Rightarrow> string \<Rightarrow> ip_addr" where
  "mapped_v6 w z = V6 (word_of_nat (0xFFFF * 2 ^ 32 + unat w)) z"

definition nat64_v6 :: "32 word \<Rightarrow> string \<Rightarrow> ip_addr" where
  "nat64_v6 w z = V6 (word_of_nat (0x64FF9B * 2 ^ 96 + unat w)) z"

definition six_to_four_v6 :: "32 word \<Rightarrow> nat \<Rightarrow> string \<Rightarrow> ip_addr" where
  "six_to_four_v6 w r z = V6 (word_of_nat (0x2002 * 2 ^ 112 + unat w * 2 ^ 80 + r mod 2 ^ 80)) z"

lemma unat_of_nat_128: "n < 2 ^ 128 \<Longrightarrow> unat (word_of_nat n :: 128 word) = n"
  by (simp add: unat_of_nat take_bit_nat_eq_self)

lemma ucast_of_nat: "ucast (word_of_nat n :: 128 word) = (word_of_nat n :: 32 word)"
  by (simp add: unsigned_of_nat word_of_nat_eq_iff take_bit_take_bit)

lemma within_of_nat: "n < 2 ^ 128 \<Longrightarrow> within lo hi (word_of_nat n :: 128 word) = (lo \<le> n \<and> n \<le> hi)"
  by (simp add: within_def unat_of_nat_128)

lemma unat_v4_less: "unat (w :: 32 word) < 4294967296"
  using unsigned_less [of w] by simp

lemma low_of_nat: "(word_of_nat (k * 2 ^ 32 + unat w) :: 32 word) = w"
proof -
  have "(word_of_nat (k * 2 ^ 32 + unat w) :: 32 word) = word_of_nat (unat w)"
    unfolding word_of_nat_eq_iff take_bit_eq_mod by simp
  then show ?thesis by simp
qed

lemma public_mapped: "is_public_addr (mapped_v6 w z) = is_public_addr (V4 w)"
proof -
  define n where "n = 0xFFFF * 2 ^ 32 + unat w"
  have n: "n < 2 ^ 128" "281470681743360 \<le> n" "n \<le> 281474976710655"
    using unat_v4_less [of w] by (simp_all add: n_def)
  have "drop_bit 32 (word_of_nat n :: 128 word) = 0xFFFF"
    using n by (simp add: prefix_within within_of_nat)
  moreover have "(word_of_nat n :: 32 word) = w" unfolding n_def by (rule low_of_nat)
  ultimately have "unmap (without_zone (mapped_v6 w z)) = V4 w"
    unfolding mapped_v6_def n_def [symmetric] by (simp add: ucast_of_nat)
  then show ?thesis
    by (subst (1 2) is_public_addr.simps) simp
qed

text \<open>An IPv6 address outside the special ranges is judged by what it carries.\<close>

definition special_v6 :: "(nat \<times> nat) list" where
  "special_v6 = map (\<lambda>(b, n). (b * 2 ^ (128 - n), (b + 1) * 2 ^ (128 - n) - 1))
     [(0, 96), (0xFFFF, 96), (0x64FF9B0001, 48), (0x0100000000000000, 64), (0x20010DB8, 32), (0x3FA, 10), (0x3FB, 10), (0x7E, 7), (0xFF, 8)]"

lemma public_v6:
  assumes "n < 2 ^ 128" and "\<not> list_ex (\<lambda>(lo, hi). lo \<le> n \<and> n \<le> hi) special_v6"
  shows "is_public_addr (V6 (word_of_nat n) z) =
    (let a = V6 (word_of_nat n) [] in
     if prefix_contains nat64 a then is_public_addr (last_four a)
     else if prefix_contains six_to_four a then is_public_addr (third_to_sixth a) else True)"
proof -
  have "(word_of_nat n :: 128 word) \<noteq> 0" "(word_of_nat n :: 128 word) \<noteq> 1"
    using assms by (auto simp: word_unat_eq_iff unat_of_nat_128 special_v6_def)
  moreover have "list_all (\<lambda>(lo, hi). \<not> within lo hi (word_of_nat n :: 128 word)) special_v6"
    using assms by (auto simp: list_all_iff list_ex_iff within_of_nat)
  ultimately show ?thesis
    by (subst is_public_addr.simps)
      (simp add: special_v6_def non_public_def v6_of_def prefix_within Let_def)
qed

lemma public_nat64: "is_public_addr (nat64_v6 w z) = is_public_addr (V4 w)"
proof -
  define n where "n = 0x64FF9B * 2 ^ 96 + unat w"
  have n: "n < 2 ^ 128" using unat_v4_less [of w] by (simp add: n_def)
  have s: "\<not> list_ex (\<lambda>(lo, hi). lo \<le> n \<and> n \<le> hi) special_v6"
    using unat_v4_less [of w] by (simp add: special_v6_def n_def)
  have p: "prefix_contains nat64 (V6 (word_of_nat n) [])"
    using unat_v4_less [of w] n by (simp add: nat64_def v6_of_def prefix_within within_of_nat) (simp add: n_def)
  have "(word_of_nat n :: 32 word) = w"
    unfolding n_def using low_of_nat [of "0x64FF9B * 2 ^ 64" w] by simp
  with p show ?thesis
    unfolding nat64_v6_def n_def [symmetric] by (simp add: public_v6 [OF n s] ucast_of_nat)
qed

lemma drop_of_nat: "n < 2 ^ 128 \<Longrightarrow> drop_bit k (word_of_nat n :: 128 word) = word_of_nat (n div 2 ^ k)"
proof -
  assume n: "n < 2 ^ 128"
  then have "n div 2 ^ k < 2 ^ 128" by (rule order.strict_trans1 [OF div_le_dividend])
  moreover have "unat (drop_bit k (word_of_nat n :: 128 word)) = n div 2 ^ k"
    using unat_of_nat_128 [OF n] by (metis unat_drop_bit_eq drop_bit_eq_div)
  ultimately show ?thesis
    unfolding word_unat_eq_iff by (simp only: unat_of_nat_128)
qed

lemma public_six_to_four: "is_public_addr (six_to_four_v6 w r z) = is_public_addr (V4 w)"
proof -
  define q where "q = r mod 2 ^ 80"
  define n where "n = 0x2002 * 2 ^ 112 + unat w * 2 ^ 80 + q"
  have q: "q < 2 ^ 80" by (simp add: q_def)
  have n: "n < 2 ^ 128" "0x2002 * 2 ^ 112 \<le> n" "n < 0x2003 * 2 ^ 112"
    using unat_v4_less [of w] q by (simp_all add: n_def)
  have s: "\<not> list_ex (\<lambda>(lo, hi). lo \<le> n \<and> n \<le> hi) special_v6"
    using n by (simp add: special_v6_def)
  have p: "prefix_contains six_to_four (V6 (word_of_nat n) [])" "\<not> prefix_contains nat64 (V6 (word_of_nat n) [])"
    using n by (simp_all add: six_to_four_def nat64_def v6_of_def prefix_within within_of_nat)
  have "n div 2 ^ 80 = 0x2002 * 2 ^ 32 + unat w"
    using q by (simp add: n_def)
  then have "(word_of_nat (n div 2 ^ 80) :: 32 word) = w"
    using low_of_nat [of "0x2002" w] by simp
  with p show ?thesis
    unfolding six_to_four_v6_def q_def [symmetric] n_def [symmetric]
    by (simp add: public_v6 [OF n(1) s] ucast_of_nat drop_of_nat [OF n(1)])
qed

text \<open>
  C25: an IPv4 address is public exactly when it is outside the reserved ranges, and an IPv6
  address that carries one (mapped, through NAT64 or 6to4) is as public as what it carries.
\<close>

theorem public_addresses:
  "is_public_addr (V4 w) = (\<not> list_ex (\<lambda>(lo, hi). lo \<le> unat w \<and> unat w \<le> hi) special_v4)
    \<and> is_public_addr (mapped_v6 w z) = is_public_addr (V4 w)
    \<and> is_public_addr (nat64_v6 w z) = is_public_addr (V4 w)
    \<and> is_public_addr (six_to_four_v6 w r z) = is_public_addr (V4 w)"
  using public_v4 [of w] by (simp add: within_def public_mapped public_nat64 public_six_to_four)

section \<open>Every spelling of an address\<close>

definition base_digit :: "nat \<Rightarrow> char" where
  "base_digit d = (if d < 10 then digit d else char_of (87 + d))"

function show_base :: "nat \<Rightarrow> nat \<Rightarrow> string" where
  "show_base b n = (if b < 2 \<or> n < b then [base_digit n] else show_base b (n div b) @ [base_digit (n mod b)])"
  by pat_completeness auto
termination
  by (relation "measure snd") (auto intro!: div_less_dividend)

declare show_base.simps [simp del]

lemma digit_val_base [simp]: "d < 16 \<Longrightarrow> digit_val (base_digit d) = Some d"
  by (auto simp: base_digit_def digit_val_def)

lemma show_base_small: "n < b \<Longrightarrow> show_base b n = [base_digit n]"
  by (subst show_base.simps) simp

lemma show_base_large: "2 \<le> b \<Longrightarrow> \<not> n < b \<Longrightarrow> show_base b n = show_base b (n div b) @ [base_digit (n mod b)]"
  by (subst show_base.simps) simp

lemma read_show_base: "2 \<le> b \<Longrightarrow> b \<le> 16 \<Longrightarrow> read_digits b 0 (show_base b n) = Some n"
proof (induction b n rule: show_base.induct)
  case (1 b n)
  have m: "n mod b < b" using 1(2) by simp
  then have "n mod b < 16" using 1(3) by linarith
  note m = m this
  show ?case
  proof (cases "n < b")
    case True
    with 1(2,3) show ?thesis by (simp add: show_base_small)
  next
    case False
    with 1 m show ?thesis by (simp add: show_base_large read_digits_append)
  qed
qed

lemma show_base_not_Nil [simp]: "show_base b n \<noteq> []"
  by (subst show_base.simps) simp

lemma show_base_chars: "2 \<le> b \<Longrightarrow> b \<le> 16 \<Longrightarrow> c \<in> set (show_base b n) \<Longrightarrow> is_hex c"
proof (induction b n rule: show_base.induct)
  case (1 b n)
  have d: "is_hex (base_digit k)" if "k < b" for k
    using that 1(3) by (simp add: is_hex_def)
  have m: "n mod b < b" using 1(2) by simp
  show ?case
  proof (cases "n < b")
    case True
    with 1(4) d show ?thesis by (simp add: show_base_small)
  next
    case False
    with 1 m d show ?thesis by (auto simp: show_base_large)
  qed
qed

text \<open>A part of the address in decimal, hexadecimal or octal.\<close>

inductive spells :: "string \<Rightarrow> nat \<Rightarrow> bool" where
  decimal: "spells (dec n) n"
| hexadecimal: "spells (''0x'' @ show_base 16 n) n"
| octal: "spells (''0'' @ show_base 8 n) n"

lemma zero_digit: "CHR ''0'' = digit 0"
  by code_simp

lemma dec_hd: "10 \<le> n \<Longrightarrow> hd (dec n) \<noteq> CHR ''0'' \<and> 1 < length (dec n)"
proof (induction n rule: dec.induct)
  case (1 n)
  have e: "dec n = dec (n div 10) @ [digit (n mod 10)]" using 1(2) by (subst dec.simps) simp
  show ?case
  proof (cases "n div 10 < 10")
    case True
    then have "dec (n div 10) = [digit (n div 10)]" by (subst dec.simps) simp
    moreover have "0 < n div 10" using 1(2) by (simp add: div_greater_zero_iff)
    ultimately show ?thesis using e True digit_inj [of "n div 10" 0] by (simp add: zero_digit)
  next
    case False
    with 1 e show ?thesis by simp
  qed
qed

lemma dec_small: "n < 10 \<Longrightarrow> dec n = [digit n]"
  by (subst dec.simps) simp

lemma spells_octet: "spells p n \<Longrightarrow> octet p = Some m \<Longrightarrow> n = m"
  by (auto simp: octet_def split: if_splits option.splits elim!: spells.cases)

lemma spells_part: "spells p n \<Longrightarrow> n < 2 ^ 32 \<Longrightarrow> inet_aton_part p = Some n"
proof (induction rule: spells.induct)
  case (decimal n)
  show ?case
  proof (cases "n < 10")
    case True
    with decimal show ?thesis
      using parse_dec [of n 32] by (simp add: inet_aton_part_def dec_small)
  next
    case False
    then have "hd (dec n) \<noteq> CHR ''0''" using dec_hd [of n] by simp
    moreover have "\<not> has_prefix ''0x'' (dec n)" "\<not> has_prefix ''0X'' (dec n)"
      using calculation by (cases "dec n"; auto simp: has_prefix_def)+
    ultimately show ?thesis using decimal by (simp add: inet_aton_part_def)
  qed
next
  case (hexadecimal n)
  have "0 < length (show_base 16 n)" by simp
  with hexadecimal show ?case
    by (simp add: inet_aton_part_def has_prefix_def parse_uint_def read_show_base del: length_greater_0_conv)
next
  case (octal n)
  have "is_hex (hd (show_base 8 n))" by (rule show_base_chars [of 8 _ n]) simp_all
  then have "\<not> has_prefix ''0x'' (''0'' @ show_base 8 n)" "\<not> has_prefix ''0X'' (''0'' @ show_base 8 n)"
    by (cases "show_base 8 n"; auto simp: has_prefix_def is_hex_def digit_val_def)+
  moreover have "show_base 8 n \<noteq> []" by simp
  ultimately show ?case using octal by (simp add: inet_aton_part_def parse_uint_def read_show_base)
qed

lemma spells_chars: "spells p n \<Longrightarrow> p \<noteq> [] \<and> CHR ''.'' \<notin> set p \<and> CHR '':'' \<notin> set p \<and> CHR ''%'' \<notin> set p"
proof -
  have h: "\<not> is_hex (CHR ''.'')" "\<not> is_hex (CHR '':'')" "\<not> is_hex (CHR ''%'')" by (simp_all add: is_hex_def digit_val_def)
  then have b: "c \<notin> set (show_base b n)" if "c \<in> {CHR ''.'', CHR '':'', CHR ''%''}" "2 \<le> b" "b \<le> 16" for c b n
    using show_base_chars that by blast
  show "spells p n \<Longrightarrow> ?thesis"
    by (induction rule: spells.induct) (auto simp: not_in_dec b)
qed

text \<open>The numbers of an address that is written with \<open>k\<close> single bytes and a rest.\<close>

definition parts_of :: "nat \<Rightarrow> nat \<Rightarrow> nat list" where
  "parts_of k n = map (\<lambda>i. n div 256 ^ (3 - i) mod 256) [0..<k] @ [n mod 256 ^ (4 - k)]"

lemma parts_of_cases:
  "parts_of 0 n = [n mod 4294967296]"
  "parts_of 1 n = [n div 16777216 mod 256, n mod 16777216]"
  "parts_of 2 n = [n div 16777216 mod 256, n div 65536 mod 256, n mod 65536]"
  "parts_of 3 n = [n div 16777216 mod 256, n div 65536 mod 256, n div 256 mod 256, n mod 256]"
  by (simp_all add: parts_of_def upt_rec)

lemma four_bytes:
  "n < 4294967296 \<Longrightarrow> (n div 16777216 mod 256) * 16777216 + n mod 16777216 = n"
  "n mod 16777216 = (n div 65536 mod 256) * 65536 + n mod (65536 :: nat)"
  "n mod 65536 = (n div 256 mod 256) * 256 + n mod (256 :: nat)"
  using mod_mult2_eq [of n 65536 256] mod_mult2_eq [of n 256 256] div_mult_mod_eq [of n 16777216]
  by (simp_all add: div_less_iff_less_mult)

lemma horner: "a * 16777216 + x = n \<Longrightarrow> x = b * 65536 + y \<Longrightarrow> y = c * 256 + d \<Longrightarrow> n = ((a * 256 + b) * 256 + c) * 256 + d"
  for n :: nat
  by simp

lemma aton_cases:
  "a < 2 ^ 32 \<Longrightarrow> aton_value [a] = Some a"
  "a < 2 ^ 24 \<Longrightarrow> b \<le> 255 \<Longrightarrow> aton_value [b, a] = Some (a + b * 16777216)"
  "a < 2 ^ 16 \<Longrightarrow> b \<le> 255 \<Longrightarrow> c \<le> 255 \<Longrightarrow> aton_value [b, c, a] = Some (a + b * 16777216 + c * 65536)"
  "a < 2 ^ 8 \<Longrightarrow> b \<le> 255 \<Longrightarrow> c \<le> 255 \<Longrightarrow> d \<le> 255
    \<Longrightarrow> aton_value [b, c, d, a] = Some (a + b * 16777216 + c * 65536 + d * 256)"
  by (simp_all add: aton_value_def Let_def upt_rec)

lemma byte_mod: "n mod 256 \<le> (255 :: nat)"
  using mod_less_divisor [of 256 n] by simp

lemma aton_parts:
  assumes "k \<le> 3" and "n < 2 ^ 32"
  shows "aton_value (parts_of k n) = Some n"
proof -
  have n: "n < 4294967296" using assms(2) by simp
  note f = four_bytes(1) [OF n] four_bytes(2,3) [of n]
  from assms(1) consider "k = 0" | "k = 1" | "k = 2" | "k = 3" by linarith
  then show ?thesis
  proof cases
    case 1
    with n show ?thesis by (simp only: parts_of_cases) (simp add: aton_cases)
  next
    case 2
    have "aton_value (parts_of k n) = Some (n mod 16777216 + n div 16777216 mod 256 * 16777216)"
      unfolding 2 parts_of_cases by (rule aton_cases) (simp_all add: byte_mod)
    also have "\<dots> = Some n" using f by (intro arg_cong [of _ _ Some]) linarith
    finally show ?thesis .
  next
    case 3
    have "aton_value (parts_of k n) = Some (n mod 65536 + n div 16777216 mod 256 * 16777216 + n div 65536 mod 256 * 65536)"
      unfolding 3 parts_of_cases by (rule aton_cases) (simp_all add: byte_mod)
    also have "\<dots> = Some n" using f by (intro arg_cong [of _ _ Some]) linarith
    finally show ?thesis .
  next
    case 4
    have "aton_value (parts_of k n) = Some (n mod 256 + n div 16777216 mod 256 * 16777216 + n div 65536 mod 256 * 65536
        + n div 256 mod 256 * 256)"
      unfolding 4 parts_of_cases by (rule aton_cases) (simp_all add: byte_mod)
    also have "\<dots> = Some n" using f by (intro arg_cong [of _ _ Some]) linarith
    finally show ?thesis .
  qed
qed

lemma parts_bound: "k \<le> 3 \<Longrightarrow> m \<in> set (parts_of k n) \<Longrightarrow> m < 2 ^ 32"
proof -
  assume k: "k \<le> 3" and m: "m \<in> set (parts_of k n)"
  have "(256 :: nat) ^ (4 - k) \<le> 256 ^ 4" by (rule power_increasing) simp_all
  moreover have "n mod 256 ^ (4 - k) < 256 ^ (4 - k)" by simp
  ultimately have "n mod 256 ^ (4 - k) < 256 ^ 4" by (rule less_le_trans [rotated])
  then have "n mod 256 ^ (4 - k) < 2 ^ 32" by simp
  moreover have "x mod 256 < (2 :: nat) ^ 32" for x :: nat
    using mod_less_divisor [of 256 x] by simp
  ultimately show ?thesis using m by (auto simp: parts_of_def)
qed

lemma all_some_spells:
  "list_all2 spells ps ns \<Longrightarrow> \<forall>n \<in> set ns. n < 2 ^ 32 \<Longrightarrow> all_some (map inet_aton_part ps) = Some ns"
  by (induction rule: list_all2_induct) (simp_all add: spells_part)

lemma join_last: "ps \<noteq> [] \<Longrightarrow> last ps \<noteq> [] \<Longrightarrow> join_with sep ps \<noteq> [] \<and> last (join_with sep ps) = last (last ps)"
  by (induction sep ps rule: join_with.induct) auto

lemma trim_dot: "s \<noteq> [] \<Longrightarrow> last s \<noteq> CHR ''.'' \<Longrightarrow> trim_suffix ''.'' s = s \<and> trim_suffix ''.'' (s @ ''.'') = s"
  by (cases s rule: rev_cases) (auto simp: trim_suffix_def has_prefix_def)

lemma all_spell_chars:
  "list_all2 spells ps ns
    \<Longrightarrow> \<forall>p \<in> set ps. p \<noteq> [] \<and> CHR ''.'' \<notin> set p \<and> CHR '':'' \<notin> set p \<and> CHR ''%'' \<notin> set p"
  by (induction rule: list_all2_induct) (auto dest: spells_chars)

lemma parse_spelled:
  assumes "list_all2 spells ps (parts_of k n)" and "k \<le> 3" and "n < 2 ^ 32" and "parse_addr (join_with ''.'' ps) = Some a"
  shows "a = V4 (word_of_nat n)"
proof -
  have c: "\<forall>p \<in> set ps. p \<noteq> [] \<and> CHR ''.'' \<notin> set p \<and> CHR '':'' \<notin> set p \<and> CHR ''%'' \<notin> set p"
    using assms(1) by (rule all_spell_chars)
  have ps: "ps \<noteq> []" using assms(1) by (auto simp: parts_of_def)
  have chars: "\<forall>c \<in> set (join_with ''.'' ps). c \<noteq> CHR '':'' \<and> c \<noteq> CHR ''%''"
    using c join_chars [of _ "''.''" ps] by fastforce
  obtain q where q: "find (\<lambda>c. c \<in> set ''.:%'') (join_with ''.'' ps) = Some q"
  proof (cases "find (\<lambda>c. c \<in> set ''.:%'') (join_with ''.'' ps)")
    case None
    with assms(4) show ?thesis by (simp only: parse_addr_def option.case) simp
  qed
  then have "q \<in> set (join_with ''.'' ps)" "q \<in> set ''.:%''" by (metis find_Some_iff nth_mem)+
  then have "q = CHR ''.''" using chars by auto
  with q assms(4) obtain a1 b1 c1 d1 where p4: "parse_ipv4 (join_with ''.'' ps) = Some (a1, b1, c1, d1)"
    and a: "a = V4 (v4_of a1 b1 c1 d1)"
    by (auto simp: parse_addr_def)
  have "split_on (CHR ''.'') (join_with ''.'' ps) = ps"
    using ps c by (simp add: split_join)
  with p4 have m: "map octet ps = [Some a1, Some b1, Some c1, Some d1]"
    by (auto simp: parse_ipv4_def split: list.splits option.splits)
  then have "length ps = 4" by (auto dest!: arg_cong [of _ _ length])
  then have "length (parts_of k n) = 4" using assms(1) by (simp add: list_all2_lengthD)
  then have k: "k = 3" by (simp add: parts_of_def)
  obtain p1 p2 p3 p4 where p: "ps = [p1, p2, p3, p4]" and o: "octet p1 = Some a1" "octet p2 = Some b1" "octet p3 = Some c1" "octet p4 = Some d1"
    using m by (auto simp: Cons_eq_map_conv)
  from assms(1) have "spells p1 (n div 16777216 mod 256)" "spells p2 (n div 65536 mod 256)"
      "spells p3 (n div 256 mod 256)" "spells p4 (n mod 256)"
    unfolding k parts_of_cases p by simp_all
  with o have e: "a1 = n div 16777216 mod 256" "b1 = n div 65536 mod 256" "c1 = n div 256 mod 256" "d1 = n mod 256"
    using spells_octet by metis+
  have "n < 4294967296" using assms(3) by simp
  note f = four_bytes(1) [OF this] four_bytes(2,3) [of n]
  have "n = ((a1 * 256 + b1) * 256 + c1) * 256 + d1"
    unfolding e by (rule horner [OF f])
  then show ?thesis by (simp add: a v4_of_def)
qed



text \<open>A host that is a name passes only when every address it resolves to is public.\<close>

lemma resolved_hosts:
  "check_host lookup host = Inr () \<longleftrightarrow>
     (case literal host of Some a \<Rightarrow> is_public_addr a
      | None \<Rightarrow> \<exists>as. lookup host = Inr as \<and> as \<noteq> [] \<and> list_all is_public_addr as)"
  by (auto simp: check_host_def split: option.splits sum.splits)

end
