(* ===== verification/Webvtt.thy ===== *)
theory Webvtt
  imports Go_Text
begin

text \<open>
  Tidying subtitle files (\<open>webvtt/webvtt.go\<close>).  A file is a list of bytes; the regular expressions
  are written out as matchers.
\<close>

section \<open>Text\<close>

record cue =
  cu_id :: string
  cu_start :: duration
  cu_end :: duration
  cu_settings :: string
  cu_lines :: "string list"

abbreviation nl :: char where
  "nl \<equiv> char_of (10 :: nat)"

definition arrow :: string where
  "arrow = ''-->''"

definition pair_gap :: duration where
  "pair_gap = second"

definition max_lines :: nat where
  "max_lines = 2"

text \<open>\<open>strings.Split\<close> at a longer separator, \<open>ReplaceAll\<close> of line ends, \<open>Trim\<close>, \<open>Fields\<close>.\<close>

lemma cut_shorter: "cut sep s = Some (a, b) \<Longrightarrow> length a + length sep + length b = length s"
proof (induction s arbitrary: a)
  case (Cons x xs)
  then show ?case
    by (auto simp: has_prefix_def split: if_splits)
      (metis diff_le_self length_take min.absorb_iff2 min_def le_add_diff_inverse length_Cons)
qed (auto split: if_splits)

function split_str :: "string \<Rightarrow> string \<Rightarrow> string list" where
  "split_str sep s = (if sep = [] then [s] else case cut sep s of
      None \<Rightarrow> [s]
    | Some (a, b) \<Rightarrow> a # split_str sep b)"
  by pat_completeness auto
termination
  by (relation "measure (\<lambda>(sep, s). length s)") (auto dest!: cut_shorter simp flip: length_greater_0_conv)

declare split_str.simps [simp del]

fun unix_lines :: "string \<Rightarrow> string" where
  "unix_lines (x # y # s) = (if x = char_of (13 :: nat) \<and> y = nl then nl # unix_lines s else x # unix_lines (y # s))"
| "unix_lines s = s"

definition trim_chars :: "string \<Rightarrow> string \<Rightarrow> string" where
  "trim_chars cs s = rev (dropWhile (\<lambda>c. c \<in> set cs) (rev (dropWhile (\<lambda>c. c \<in> set cs) s)))"

definition trim_right :: "string \<Rightarrow> string \<Rightarrow> string" where
  "trim_right cs s = rev (dropWhile (\<lambda>c. c \<in> set cs) (rev s))"

definition at_space :: "string \<Rightarrow> bool" where
  "at_space s \<longleftrightarrow> list_ex (\<lambda>w. has_prefix w s) spaces"

fun word_of :: "string \<Rightarrow> string \<times> string" where
  "word_of [] = ([], [])"
| "word_of (c # cs) = (if at_space (c # cs) then ([], c # cs) else (case word_of cs of (w, r) \<Rightarrow> (c # w, r)))"

lemma word_of_append: "word_of s = (w, r) \<Longrightarrow> w @ r = s"
  by (induction s arbitrary: w r) (auto split: if_splits prod.splits)

lemma trim_left_length: "length (trim_left ws s) \<le> length s"
proof (induction ws s rule: trim_left.induct)
  case (1 ws s)
  show ?case
  proof (cases "find (\<lambda>w. w \<noteq> [] \<and> has_prefix w s) ws")
    case None
    then show ?thesis by (subst trim_left.simps) simp
  next
    case (Some w)
    then show ?thesis
      using 1 [OF Some] by (subst trim_left.simps) auto
  qed
qed

function text_fields :: "string \<Rightarrow> string list" where
  "text_fields s = (case word_of (trim_left spaces s) of (w, r) \<Rightarrow> if w = [] then [] else w # text_fields r)"
  by pat_completeness auto
termination
proof (relation "measure length", goal_cases)
  case (2 s w r)
  then have "w @ r = trim_left spaces s" by (metis word_of_append)
  then have "length w + length r \<le> length s" by (metis length_append trim_left_length)
  with 2 show ?case by (cases w) simp_all
qed simp

declare text_fields.simps [simp del]

text \<open>\<open>inlineTimestamp\<close>: \<open><\d{1,2}:\d{2}(?::\d{2})?\.\d{3}>\<close> somewhere in the line.\<close>

definition is_digit :: "char \<Rightarrow> bool" where
  "is_digit c \<longleftrightarrow> 48 \<le> (of_char c :: nat) \<and> (of_char c :: nat) \<le> 57"

text \<open>The pieces of a pattern: a character (\<open>Inl\<close>) or a digit (\<open>Inr\<close>).\<close>

fun starts_like :: "(char + unit) list \<Rightarrow> string \<Rightarrow> bool" where
  "starts_like [] s = True"
| "starts_like (p # ps) [] = False"
| "starts_like (p # ps) (c # s) = ((case p of Inl x \<Rightarrow> c = x | Inr _ \<Rightarrow> is_digit c) \<and> starts_like ps s)"

definition inline_patterns :: "(char + unit) list list" where
  "inline_patterns =
     (let d = Inr (); c = Inl (CHR '':''); tail = [Inl (CHR ''.''), d, d, d, Inl (CHR ''>'')] in
      concat (map (\<lambda>h. [Inl (CHR ''<'') # h @ [c, d, d] @ tail, Inl (CHR ''<'') # h @ [c, d, d, c, d, d] @ tail])
        [[d], [d, d]]))"

fun has_inline :: "string \<Rightarrow> bool" where
  "has_inline [] = False"
| "has_inline (c # s) = (list_ex (\<lambda>p. starts_like p (c # s)) inline_patterns \<or> has_inline s)"

text \<open>\<open>tag\<close> is \<open><[^>]*>\<close>, \<open>spaces\<close> is \<open>\s+\<close> (ASCII).\<close>

lemma cut_tag_shorter: "cut sep s = Some (a, b) \<Longrightarrow> length b \<le> length s"
  using cut_shorter by fastforce

function strip_tags :: "string \<Rightarrow> string" where
  "strip_tags [] = []"
| "strip_tags (c # s) = (if c = CHR ''<'' then
       (case cut ''>'' s of None \<Rightarrow> c # strip_tags s | Some (_, r) \<Rightarrow> strip_tags r)
     else c # strip_tags s)"
  by pat_completeness auto
termination
  by (relation "measure length") (auto dest!: cut_tag_shorter)

definition ascii_space :: "char \<Rightarrow> bool" where
  "ascii_space c \<longleftrightarrow> (of_char c :: nat) \<in> {9, 10, 12, 13, 32}"

fun squeeze :: "string \<Rightarrow> string" where
  "squeeze [] = []"
| "squeeze (c # s) = (if ascii_space c then (case s of [] \<Rightarrow> '' '' | d # _ \<Rightarrow> if ascii_space d then squeeze s else CHR '' '' # squeeze s)
     else c # squeeze s)"

definition clean :: "string \<Rightarrow> string" where
  "clean s = trim_space (squeeze (strip_tags s))"

section \<open>Timestamps\<close>

text \<open>\<open>parseStamp\<close>; the sums and products are \<open>int64\<close>.\<close>

fun stamp_total :: "int \<Rightarrow> string list \<Rightarrow> int option" where
  "stamp_total t [] = Some t"
| "stamp_total t (p # ps) = (case parse_int64 p of
      None \<Rightarrow> None
    | Some n \<Rightarrow> if n < 0 then None else stamp_total (wrap64 (wrap64 (t * 60) + n)) ps)"

definition parse_stamp :: "string \<Rightarrow> duration option" where
  "parse_stamp s = (case cut ''.'' s of
      None \<Rightarrow> None
    | Some (main, frac) \<Rightarrow>
        (let parts = split_on (CHR '':'') main in
         if length frac \<noteq> 3 \<or> length parts < 2 \<or> 3 < length parts then None
         else case stamp_total 0 parts of
             None \<Rightarrow> None
           | Some secs \<Rightarrow> (case parse_int64 frac of
                 None \<Rightarrow> None
               | Some ms \<Rightarrow> Some (wrap64 (wrap64 (secs * second) + wrap64 (ms * millisecond))))))"

text \<open>\<open>%02d\<close> of an integer: the sign counts.\<close>

definition fmt_int :: "nat \<Rightarrow> int \<Rightarrow> string" where
  "fmt_int w n = (if n < 0 then CHR ''-'' # pad_dec (w - 1) (nat (- n)) else pad_dec w (nat n))"

definition stamp :: "duration \<Rightarrow> string" where
  "stamp d = (let ms = dur_ms d in
     fmt_int 2 (go_div ms 3600000) @ '':'' @ fmt_int 2 (go_mod (go_div ms 60000) 60) @ '':''
       @ fmt_int 2 (go_mod (go_div ms 1000) 60) @ ''.'' @ fmt_int 3 (go_mod ms 1000))"

section \<open>Cues\<close>

definition holds_arrow :: "string \<Rightarrow> bool" where
  "holds_arrow s \<longleftrightarrow> cut arrow s \<noteq> None"

definition parse_cue :: "string \<Rightarrow> cue option" where
  "parse_cue block =
     (let lines = split_on nl block in
      case (if holds_arrow (hd lines) then Some ([], lines)
            else if length lines < 2 \<or> \<not> holds_arrow (lines ! 1) then None
            else Some (hd lines, tl lines)) of
        None \<Rightarrow> None
      | Some (i, rest) \<Rightarrow> (case cut arrow (hd rest) of
            None \<Rightarrow> None
          | Some (left, right) \<Rightarrow> (case (parse_stamp (trim_space left), text_fields right) of
                (Some start, e # settings) \<Rightarrow> (case parse_stamp e of
                    None \<Rightarrow> None
                  | Some fin \<Rightarrow> Some \<lparr>cu_id = i, cu_start = start, cu_end = fin,
                      cu_settings = join_with '' '' settings, cu_lines = tl rest\<rparr>)
              | _ \<Rightarrow> None)))"

text \<open>\<open>fromRollUp\<close>: the line with word timestamps of each cue, from the last one back.\<close>

record piece =
  pc_start :: duration
  pc_end :: duration
  pc_text :: string

definition piece_of :: "cue \<Rightarrow> piece option" where
  "piece_of c = (case find has_inline (rev (cu_lines c)) of
      None \<Rightarrow> None
    | Some l \<Rightarrow> if clean l = [] then None
        else Some \<lparr>pc_start = cu_start c, pc_end = cu_end c, pc_text = clean l\<rparr>)"

text \<open>The inner loop: how many more pieces join the group that ends in \<open>p\<close> and has \<open>n\<close> of them.\<close>

fun join_group :: "nat \<Rightarrow> piece \<Rightarrow> piece list \<Rightarrow> piece list \<times> piece list" where
  "join_group n p [] = ([], [])"
| "join_group n p (q # qs) = (if n < max_lines \<and> wrap64 (pc_start q - pc_end p) \<le> pair_gap
     then (case join_group (Suc n) q qs of (g, r) \<Rightarrow> (q # g, r)) else ([], q # qs))"

lemma join_group_append: "join_group n p qs = (g, r) \<Longrightarrow> g @ r = qs"
  by (induction n p qs arbitrary: g r rule: join_group.induct) (auto split: if_splits prod.splits)

function group_pieces :: "piece list \<Rightarrow> piece list list" where
  "group_pieces [] = []"
| "group_pieces (p # qs) = (case join_group 1 p qs of (g, r) \<Rightarrow> (p # g) # group_pieces r)"
  by pat_completeness auto
termination
  by (relation "measure length") (auto dest!: sym [THEN join_group_append])

definition cue_of_group :: "piece list \<Rightarrow> cue" where
  "cue_of_group g = \<lparr>cu_id = [], cu_start = pc_start (hd g), cu_end = pc_end (last g), cu_settings = [],
     cu_lines = map pc_text g\<rparr>"

definition from_roll_up :: "cue list \<Rightarrow> cue list" where
  "from_roll_up cs = map cue_of_group (group_pieces (List.map_filter piece_of cs))"

definition youtube_pin :: "string \<Rightarrow> bool" where
  "youtube_pin settings = (let f = text_fields settings in
     length f = 2 \<and> ''align:start'' \<in> set f \<and> ''position:0%'' \<in> set f)"

definition tidy_cue :: "cue \<Rightarrow> cue" where
  "tidy_cue c = c\<lparr>cu_settings := (if youtube_pin (cu_settings c) then [] else cu_settings c),
     cu_lines := map (trim_right [CHR '' '', char_of (9 :: nat)]) (filter (\<lambda>l. trim_space l \<noteq> []) (cu_lines c))\<rparr>"

definition tidy :: "cue list \<Rightarrow> cue list" where
  "tidy cs = filter (\<lambda>c. cu_lines c \<noteq> []) (map tidy_cue cs)"

section \<open>Files\<close>

definition print_cue :: "cue \<Rightarrow> string" where
  "print_cue c = (if cu_id c = [] then [] else cu_id c @ [nl]) @ stamp (cu_start c) @ '' --> '' @ stamp (cu_end c)
     @ (if cu_settings c = [] then [] else CHR '' '' # cu_settings c) @ [nl] @ join_with [nl] (cu_lines c)"

definition print_file :: "string \<Rightarrow> string list \<Rightarrow> cue list \<Rightarrow> string" where
  "print_file header extras cues =
     header @ [nl, nl] @ concat (map (\<lambda>e. e @ [nl, nl]) extras) @ concat (map (\<lambda>c. print_cue c @ [nl, nl]) cues)"

definition file_blocks :: "string \<Rightarrow> string list" where
  "file_blocks s = split_str [nl, nl] (trim_space (unix_lines s))"

definition normalize :: "string \<Rightarrow> string" where
  "normalize s =
     (let blocks = file_blocks s;
          bs = filter (\<lambda>b. b \<noteq> []) (map (trim_chars [nl]) (tl blocks));
          cues = List.map_filter parse_cue bs;
          roll_up = list_ex (\<lambda>c. list_ex has_inline (cu_lines c)) cues in
      if \<not> has_prefix ''WEBVTT'' (hd blocks) then s
      else if roll_up then print_file (hd blocks) [] (from_roll_up cues)
      else print_file (hd blocks) (filter (\<lambda>b. parse_cue b = None) bs) (tidy cues))"

section \<open>Roll-up captions\<close>

lemma concat_groups: "concat (group_pieces ps) = ps"
proof (induction ps rule: group_pieces.induct)
  case (2 p qs)
  obtain g r where gr: "join_group 1 p qs = (g, r)" by fastforce
  from 2 [OF gr [symmetric]] gr join_group_append [OF gr] show ?case by simp
qed simp

text \<open>A pause that is short enough for one cue.\<close>

definition close_by :: "piece \<Rightarrow> piece \<Rightarrow> bool" where
  "close_by p q \<longleftrightarrow> wrap64 (pc_start q - pc_end p) \<le> pair_gap"

lemma join_group_fits:
  "join_group n p qs = (g, r) \<Longrightarrow> n \<le> max_lines
    \<Longrightarrow> n + length g \<le> max_lines \<and> successively close_by (p # g)
      \<and> (r \<noteq> [] \<longrightarrow> n + length g = max_lines \<or> \<not> close_by (last (p # g)) (hd r))"
proof (induction n p qs arbitrary: g r rule: join_group.induct)
  case (2 n p q qs)
  show ?case
  proof (cases "n < max_lines \<and> close_by p q")
    case True
    then obtain g' where g: "g = q # g'" and j: "join_group (Suc n) q qs = (g', r)"
      using "2.prems"(1) by (auto simp: close_by_def split: prod.splits)
    from "2.IH" [OF _ j] True show ?thesis by (auto simp: g close_by_def)
  next
    case False
    with "2.prems" show ?thesis by (auto simp: close_by_def split: if_splits prod.splits)
  qed
qed simp

text \<open>A group of one or two pieces, as long as it can be.\<close>

fun grouped :: "piece list list \<Rightarrow> bool" where
  "grouped [] = True"
| "grouped (g # gs) = (1 \<le> length g \<and> length g \<le> max_lines \<and> successively close_by g
     \<and> (gs \<noteq> [] \<longrightarrow> length g = max_lines \<or> \<not> close_by (last g) (hd (concat gs))) \<and> grouped gs)"

lemma groups_grouped: "grouped (group_pieces ps)"
proof (induction ps rule: group_pieces.induct)
  case (2 p qs)
  obtain g r where gr: "join_group 1 p qs = (g, r)" by fastforce
  have "r \<noteq> []" if "group_pieces r \<noteq> []" using that by auto
  with 2 [OF gr [symmetric]] gr join_group_fits [OF gr] show ?case
    by (auto simp: max_lines_def concat_groups)
qed simp

text \<open>
  C27: converting roll-up captions shows the newest line of every cue exactly once and in order, one
  or two to a cue, where two lines share a cue exactly when the pause between them is short and
  the cue has room; each cue lasts from its first line's start to its last line's end.
\<close>

theorem roll_up_shows_each_line_once:
  "concat (map cu_lines (from_roll_up cs)) = map pc_text (List.map_filter piece_of cs)
    \<and> (\<exists>gs. from_roll_up cs = map cue_of_group gs \<and> concat gs = List.map_filter piece_of cs \<and> grouped gs)"
proof
  have "map cu_lines (map cue_of_group gs) = map (map pc_text) gs" for gs
    by (simp add: cue_of_group_def)
  then show "concat (map cu_lines (from_roll_up cs)) = map pc_text (List.map_filter piece_of cs)"
    unfolding from_roll_up_def by (simp only: map_concat [symmetric] concat_groups)
  show "\<exists>gs. from_roll_up cs = map cue_of_group gs \<and> concat gs = List.map_filter piece_of cs \<and> grouped gs"
    by (intro exI [of _ "group_pieces (List.map_filter piece_of cs)"] conjI)
      (rule from_roll_up_def concat_groups groups_grouped)+
qed

section \<open>Timestamps read back\<close>

lemma parse_int_dec: "n < 2 ^ 63 \<Longrightarrow> parse_int64 (pad_dec w n) = Some (int n)"
proof -
  assume n: "n < 2 ^ 63"
  obtain c cs where c: "pad_dec w n = c # cs" by (cases "pad_dec w n") auto
  have "CHR ''-'' \<notin> set (pad_dec w n)" "CHR ''+'' \<notin> set (pad_dec w n)" by (rule not_in_pad_dec, simp)+
  then have s: "c \<noteq> CHR ''-''" "c \<noteq> CHR ''+''" using c by auto
  have "parse_uint 10 64 (c # cs) = Some n" using parse_pad_dec [of n 64 w] n c by simp
  with s n show ?thesis by (simp add: parse_int64_def c)
qed

lemma wrap64_0: "wrap64 0 = 0"
  by (simp add: wrap64_def)

text \<open>A time of day that a stamp can hold to the millisecond.\<close>

definition whole_ms :: "duration \<Rightarrow> bool" where
  "whole_ms d \<longleftrightarrow> 0 \<le> d \<and> is_int64 d \<and> d mod millisecond = 0"

lemma fmt_nonneg: "0 \<le> n \<Longrightarrow> fmt_int w n = pad_dec w (nat n)"
  by (simp add: fmt_int_def)

lemma stamp_parts:
  assumes "0 \<le> ms"
  shows "stamp (ms * millisecond) = pad_dec 2 (nat ms div 3600000) @ CHR '':'' # pad_dec 2 (nat ms div 60000 mod 60) @ CHR '':''
      # pad_dec 2 (nat ms div 1000 mod 60) @ CHR ''.'' # pad_dec 3 (nat ms mod 1000)"
proof -
  have "dur_ms (ms * millisecond) = ms" using assms by (simp add: dur_ms_of_ms millisecond_def)
  moreover have "go_mod a b = a mod b" if "0 \<le> a" "0 < b" for a b :: int
    using that by (simp add: go_mod_def go_div_nonneg minus_mult_div_eq_mod)
  ultimately show ?thesis
    using assms by (simp add: stamp_def Let_def go_div_nonneg fmt_nonneg pos_imp_zdiv_nonneg_iff nat_div_distrib
        nat_mod_distrib)
qed

lemma parse_stamp_stamp: "whole_ms d \<Longrightarrow> parse_stamp (stamp d) = Some d"
proof -
  assume d: "whole_ms d"
  define n where "n = nat (d div millisecond)"
  have n: "d = int n * millisecond"
    using d by (auto simp: n_def whole_ms_def millisecond_def)
  have b: "n < 9223372036855"
    using d by (simp add: whole_ms_def n is_int64_def millisecond_def)
  let ?h = "n div 3600000" and ?m = "n div 60000 mod 60" and ?s = "n div 1000 mod 60"
  let ?main = "pad_dec 2 ?h @ CHR '':'' # pad_dec 2 ?m @ CHR '':'' # pad_dec 2 ?s"
  have e: "stamp d = ?main @ CHR ''.'' # pad_dec 3 (n mod 1000)"
    using stamp_parts [of "int n"] by (simp add: n)
  have dot: "CHR ''.'' \<notin> set ?main" by (simp add: not_in_pad_dec)
  have sp: "split_on (CHR '':'') ?main = [pad_dec 2 ?h, pad_dec 2 ?m, pad_dec 2 ?s]"
    by (simp add: not_in_pad_dec)
  have t: "stamp_total 0 [pad_dec 2 ?h, pad_dec 2 ?m, pad_dec 2 ?s] = Some (int (n div 1000))"
  proof -
    have e: "(?h * 60 + ?m) * 60 + ?s = n div 1000"
      using div_mult2_eq [of n 1000 60] div_mult2_eq [of n 60000 60] div_mult_mod_eq [of "n div 1000" 60] div_mult_mod_eq [of "n div 60000" 60]
      by simp
    have f: "(int ?h * 60 + int ?m) * 60 + int ?s = int (n div 1000)"
      using arg_cong [OF e, of int] by (simp only: of_nat_add of_nat_mult of_nat_numeral)
    have "?h \<le> n" "?m < 60" "?s < 60" by simp_all
    with b have "is_int64 (int ?h * 60)" "is_int64 (int ?h * 60 + int ?m)" "is_int64 (int ?h)"
      "is_int64 ((int ?h * 60 + int ?m) * 60)" "is_int64 ((int ?h * 60 + int ?m) * 60 + int ?s)"
      by (auto simp: is_int64_def)
    moreover have "?h < 2 ^ 63" "?m < 2 ^ 63" "?s < 2 ^ 63" using b by auto
    ultimately show ?thesis
      using f by (simp add: parse_int_dec wrap64_0 del: of_nat_mod of_nat_div)
  qed
  have "wrap64 (wrap64 (int (n div 1000) * second) + wrap64 (int (n mod 1000) * millisecond)) = d"
  proof -
    have f: "n div 1000 * 1000 + n mod 1000 = n" by simp
    have k: "int (n div 1000) * second + int (n mod 1000) * millisecond = d"
      unfolding n second_def millisecond_def using arg_cong [OF f, of int] by (simp only: of_nat_add of_nat_mult)
    have "0 \<le> int (n div 1000) * second" "0 \<le> int (n mod 1000) * millisecond" by (simp_all add: second_def millisecond_def)
    with k d have "is_int64 (int (n div 1000) * second)" "is_int64 (int (n mod 1000) * millisecond)"
      unfolding whole_ms_def is_int64_def by linarith+
    with k d show ?thesis by (simp add: whole_ms_def)
  qed
  then show ?thesis
    unfolding parse_stamp_def e cut_char [OF dot]
    by (simp add: sp t length_pad_dec parse_int_dec del: of_nat_mod of_nat_div split_on.simps stamp_total.simps)
qed

section \<open>A tidy file stays as it is\<close>

text \<open>A line of text without line ends that does not end in white space.\<close>

definition ends_black :: "string \<Rightarrow> bool" where
  "ends_black l \<longleftrightarrow> l \<noteq> [] \<and> \<not> list_ex (\<lambda>w. has_prefix (rev w) (rev l)) spaces"

definition one_line :: "string \<Rightarrow> bool" where
  "one_line l \<longleftrightarrow> nl \<notin> set l \<and> char_of (13 :: nat) \<notin> set l"

definition text_line :: "string \<Rightarrow> bool" where
  "text_line l \<longleftrightarrow> one_line l \<and> ends_black l \<and> trim_space l \<noteq> []"

definition setting_word :: "string \<Rightarrow> bool" where
  "setting_word w \<longleftrightarrow> w \<noteq> [] \<and> list_all printable w"

definition tidy_settings :: "string \<Rightarrow> bool" where
  "tidy_settings s \<longleftrightarrow> s = [] \<or> list_all setting_word (split_on (CHR '' '') s)"

definition tidy_cue_ok :: "cue \<Rightarrow> bool" where
  "tidy_cue_ok c \<longleftrightarrow> one_line (cu_id c) \<and> \<not> holds_arrow (cu_id c) \<and> whole_ms (cu_start c) \<and> whole_ms (cu_end c)
     \<and> tidy_settings (cu_settings c) \<and> \<not> youtube_pin (cu_settings c)
     \<and> cu_lines c \<noteq> [] \<and> list_all (\<lambda>l. text_line l \<and> \<not> has_inline l) (cu_lines c)"

lemma space_words:
  "w \<in> set spaces \<Longrightarrow> w \<noteq> [] \<and> (length w = 1 \<or> nl \<notin> set w)"
proof -
  have "list_all (\<lambda>w. w \<noteq> [] \<and> (length w = 1 \<or> nl \<notin> set w)) spaces" by code_simp
  then show "w \<in> set spaces \<Longrightarrow> w \<noteq> [] \<and> (length w = 1 \<or> nl \<notin> set w)" by (auto simp: list_all_iff)
qed

lemma trim_left_no_prefix: "\<not> list_ex (\<lambda>w. has_prefix w s) ws \<Longrightarrow> trim_left ws s = s"
proof -
  assume "\<not> list_ex (\<lambda>w. has_prefix w s) ws"
  then have "find (\<lambda>w. w \<noteq> [] \<and> has_prefix w s) ws = None" by (auto simp: find_None_iff list_ex_iff)
  then show ?thesis by (subst trim_left.simps) simp
qed

text \<open>What ends in such a line does not end in white space either.\<close>

lemma ends_black_after: "ends_black l \<Longrightarrow> ends_black (x @ nl # l)"
proof -
  assume l: "ends_black l"
  have "\<not> has_prefix (rev w) (rev (x @ nl # l))" if w: "w \<in> set spaces" for w
  proof
    assume p: "has_prefix (rev w) (rev (x @ nl # l))"
    then have t: "take (length w) (rev l @ nl # rev x) = rev w" by (simp add: has_prefix_def)
    show False
    proof (cases "length w \<le> length l")
      case True
      with t have "has_prefix (rev w) (rev l)" by (simp add: has_prefix_def)
      with l w show False by (auto simp: ends_black_def list_ex_iff)
    next
      case False
      then have "nl \<in> set (rev w)" by (subst t [symmetric]) (auto simp: take_Cons')
      with space_words [OF w] False l show False by (auto simp: ends_black_def Suc_le_eq)
    qed
  qed
  with l show ?thesis by (auto simp: ends_black_def list_ex_iff)
qed

lemma trim_left_nl: "trim_left (map rev spaces) (nl # s) = trim_left (map rev spaces) s"
proof -
  have "find (\<lambda>w. w \<noteq> [] \<and> has_prefix w (nl # s)) (map rev spaces) = Some [nl]"
    by (simp add: spaces_def bytes_def has_prefix_def)
  then show ?thesis by (subst trim_left.simps) simp
qed

lemma blank: "CHR '' '' = char_of (32 :: nat)"
  by code_simp

lemma trim_left_blank: "trim_left (map rev spaces) (CHR '' '' # s) = trim_left (map rev spaces) s"
proof -
  have "find (\<lambda>w. w \<noteq> [] \<and> has_prefix w (char_of (32 :: nat) # s)) (map rev spaces) = Some [char_of (32 :: nat)]"
    by (simp add: spaces_def bytes_def has_prefix_def)
  then show ?thesis unfolding blank by (subst trim_left.simps) simp
qed

lemma trim_text:
  assumes "s \<noteq> []" and "printable (hd s)" and "ends_black s"
  shows "trim_space (s @ [nl, nl]) = s"
proof -
  have "trim_left spaces (s @ [nl, nl]) = s @ [nl, nl]"
    by (rule trim_left_stays) (use assms(1,2) spaces_not_printable in \<open>metis hd_append\<close>)
  moreover have "\<not> list_ex (\<lambda>w. has_prefix w (rev s)) (map rev spaces)"
    using assms(3) by (auto simp: ends_black_def list_ex_iff)
  ultimately show ?thesis
    by (simp add: trim_space_def trim_left_nl trim_left_no_prefix)
qed

lemma unix_lines_plain: "char_of (13 :: nat) \<notin> set s \<Longrightarrow> unix_lines s = s"
  by (induction s rule: unix_lines.induct) auto

text \<open>Blocks: no empty line inside, no line end at either side.\<close>

definition block_ok :: "string \<Rightarrow> bool" where
  "block_ok b \<longleftrightarrow> b \<noteq> [] \<and> hd b \<noteq> nl \<and> last b \<noteq> nl \<and> successively (\<lambda>x y. x \<noteq> nl \<or> y \<noteq> nl) b"

lemma cut_gap:
  "successively (\<lambda>x y. x \<noteq> nl \<or> y \<noteq> nl) b \<Longrightarrow> (b \<noteq> [] \<longrightarrow> last b \<noteq> nl) \<Longrightarrow> cut [nl, nl] (b @ nl # nl # s) = Some (b, s)"
proof (induction b)
  case (Cons x b)
  then have "cut [nl, nl] (b @ nl # nl # s) = Some (b, s)" by (auto simp: successively_Cons split: if_splits)
  moreover have "\<not> has_prefix [nl, nl] (x # b @ nl # nl # s)"
    using Cons.prems by (cases b) (auto simp: has_prefix_def)
  ultimately show ?case by simp
qed (simp add: has_prefix_def)

lemma cut_no_gap: "successively (\<lambda>x y. x \<noteq> nl \<or> y \<noteq> nl) b \<Longrightarrow> cut [nl, nl] b = None"
proof (induction b)
  case (Cons x b)
  moreover have "\<not> has_prefix [nl, nl] (x # b)"
    using Cons.prems by (cases b) (auto simp: has_prefix_def)
  ultimately show ?case by (auto simp: successively_Cons)
qed simp

lemma split_blocks: "bs \<noteq> [] \<Longrightarrow> list_all block_ok bs \<Longrightarrow> split_str [nl, nl] (join_with [nl, nl] bs) = bs"
proof (induction "[nl, nl]" bs rule: join_with.induct)
  case (2 p)
  then show ?case by (subst split_str.simps) (simp add: block_ok_def cut_no_gap)
next
  case (3 p q ps)
  then show ?case by (subst split_str.simps) (simp add: block_ok_def cut_gap)
qed simp

lemma join_snoc: "bs \<noteq> [] \<Longrightarrow> concat (map (\<lambda>b. b @ sep) bs) = join_with sep bs @ sep"
  by (induction sep bs rule: join_with.induct) auto

lemma join_lines_ok:
  "ls \<noteq> [] \<Longrightarrow> list_all (\<lambda>l. l \<noteq> [] \<and> nl \<notin> set l) ls \<Longrightarrow> block_ok (join_with [nl] ls)"
proof -
  have plain: "successively (\<lambda>x y. x = nl \<longrightarrow> y \<noteq> nl) l" if "nl \<notin> set l" for l
    using that by (induction l rule: induct_list012) auto
  have edges: "hd p \<noteq> nl \<and> last p \<noteq> nl" if "p \<noteq> []" "nl \<notin> set p" for p
    using that by (metis hd_in_set last_in_set)
  show "ls \<noteq> [] \<Longrightarrow> list_all (\<lambda>l. l \<noteq> [] \<and> nl \<notin> set l) ls \<Longrightarrow> ?thesis"
  proof (induction "[nl]" ls rule: join_with.induct)
    case (2 p)
    then show ?case
      by (simp add: block_ok_def plain edges)
  next
    case (3 p q ps)
    then have "block_ok (join_with [nl] (q # ps))" and p: "p \<noteq> []" "nl \<notin> set p" by simp_all
    moreover have "hd p \<noteq> nl" "last p \<noteq> nl" using edges [OF p] by simp_all
    ultimately show ?case
      by (auto simp: block_ok_def plain successively_append_iff successively_Cons)
  qed simp
qed

lemma trim_block: "block_ok b \<Longrightarrow> trim_chars [nl] b = b"
proof -
  assume b: "block_ok b"
  then have "dropWhile (\<lambda>c. c \<in> set [nl]) b = b" by (cases b) (auto simp: block_ok_def)
  moreover have "dropWhile (\<lambda>c. c \<in> set [nl]) (rev b) = rev b"
    using b by (cases b rule: rev_cases) (auto simp: block_ok_def)
  ultimately show ?thesis by (simp add: trim_chars_def)
qed

text \<open>Words between blanks.\<close>

lemma not_at_space: "printable c \<Longrightarrow> \<not> at_space (c # s)"
proof
  assume c: "printable c" and "at_space (c # s)"
  then obtain w where w: "w \<in> set spaces" "take (length w) (c # s) = w" by (auto simp: at_space_def list_ex_iff has_prefix_def)
  then have "w \<noteq> []" using space_words by blast
  then have "hd w = c" using w(2) by (metis hd_take length_greater_0_conv list.sel(1))
  with c spaces_not_printable [OF w(1) \<open>w \<noteq> []\<close>] show False by simp
qed

lemma at_blank: "at_space (CHR '' '' # s)"
  unfolding blank by (simp add: at_space_def spaces_def bytes_def has_prefix_def)

lemma word_of_word: "list_all printable w \<Longrightarrow> word_of (w @ CHR '' '' # s) = (w, CHR '' '' # s)"
  by (induction w) (simp_all add: not_at_space at_blank)

lemma word_of_end: "list_all printable w \<Longrightarrow> word_of w = (w, [])"
  by (induction w) (simp_all add: not_at_space)

lemma trim_left_word: "setting_word w \<Longrightarrow> trim_left spaces (w @ s) = w @ s"
  by (rule trim_left_stays) (metis hd_append2 hd_in_set list_all_iff setting_word_def spaces_not_printable)

lemma trim_left_blank': "trim_left spaces (CHR '' '' # s) = trim_left spaces s"
proof -
  have "find (\<lambda>w. w \<noteq> [] \<and> has_prefix w (char_of (32 :: nat) # s)) spaces = Some [char_of (32 :: nat)]"
    by (simp add: spaces_def bytes_def has_prefix_def)
  then show ?thesis unfolding blank by (subst trim_left.simps) simp
qed

lemma fields_blank: "text_fields (CHR '' '' # s) = text_fields s"
  by (subst (1 2) text_fields.simps) (simp add: trim_left_blank')

lemma fields_words: "ws \<noteq> [] \<Longrightarrow> list_all setting_word ws \<Longrightarrow> text_fields (join_with '' '' ws) = ws"
proof (induction "'' ''" ws rule: join_with.induct)
  case (2 p)
  then show ?case
    using trim_left_word [of p "[]"] by (subst text_fields.simps) (simp add: word_of_end setting_word_def text_fields.simps)
next
  case (3 p q ps)
  then show ?case
    by (subst text_fields.simps) (simp add: trim_left_word word_of_word setting_word_def fields_blank)
qed simp

text \<open>A cue reads back.\<close>

lemma pad_dec_chars: "c \<in> set (pad_dec w n) \<Longrightarrow> printable c \<and> c \<noteq> CHR ''-''"
proof
  assume c: "c \<in> set (pad_dec w n)"
  then show "c \<noteq> CHR ''-''" using not_in_pad_dec [of "CHR ''-''" w n] by auto
  have "48 \<le> (of_char c :: nat) \<and> (of_char c :: nat) \<le> 57"
    using c not_in_pad_dec [of c w n] by linarith
  then show "printable c" by (simp add: printable_def)
qed

lemma stamp_chars: "whole_ms d \<Longrightarrow> setting_word (stamp d) \<and> CHR ''-'' \<notin> set (stamp d)"
proof -
  assume d: "whole_ms d"
  then have n: "d = (d div millisecond) * millisecond" "0 \<le> d div millisecond"
    by (auto simp: whole_ms_def millisecond_def pos_imp_zdiv_nonneg_iff)
  have "printable (CHR '':'')" "printable (CHR ''.'')" by (simp_all add: printable_def)
  then show ?thesis
    by (subst (1 2) n(1), subst (1 2) stamp_parts [OF n(2)]) (auto simp: setting_word_def list_all_iff dest: pad_dec_chars)
qed

lemma cut_arrow: "CHR ''-'' \<notin> set p \<Longrightarrow> cut arrow (p @ arrow @ s) = Some (p, s)"
proof (induction p)
  case (Cons x p)
  then have "x \<noteq> CHR ''-''" by auto
  then have "\<not> has_prefix arrow (x # p @ arrow @ s)" by (simp add: has_prefix_def arrow_def)
  with Cons show ?case by simp
qed (simp add: has_prefix_def arrow_def)

lemma trim_stamp: "setting_word w \<Longrightarrow> trim_space (w @ '' '') = w"
proof -
  assume w: "setting_word w"
  have "trim_left (map rev spaces) (rev w) = rev w"
  proof (rule trim_left_stays)
    fix v assume v: "v \<in> set (map rev spaces)" "v \<noteq> []" "rev w \<noteq> []"
    then have "rev v \<in> set spaces" "rev v \<noteq> []" by auto
    then have "\<not> printable (hd v)" using spaces_not_printable [of "rev v"] v(2) by (simp add: last_rev)
    moreover have "printable (hd (rev w))" using w v(3) by (auto simp: setting_word_def list_all_iff hd_rev)
    ultimately show "hd v \<noteq> hd (rev w)" by auto
  qed
  with trim_left_word [OF w, of "'' ''"] show ?thesis by (simp add: trim_space_def trim_left_blank)
qed

definition timing :: "cue \<Rightarrow> string" where
  "timing c = stamp (cu_start c) @ '' --> '' @ stamp (cu_end c) @ (if cu_settings c = [] then [] else CHR '' '' # cu_settings c)"

definition cue_rows :: "cue \<Rightarrow> string list" where
  "cue_rows c = (if cu_id c = [] then [] else [cu_id c]) @ timing c # cu_lines c"

lemma print_rows: "cu_lines c \<noteq> [] \<Longrightarrow> print_cue c = join_with [nl] (cue_rows c)"
  by (cases "cu_lines c") (auto simp: print_cue_def cue_rows_def timing_def)

lemma setting_printable: "tidy_settings s \<Longrightarrow> c \<in> set s \<Longrightarrow> printable c \<or> c = CHR '' ''"
proof -
  assume s: "tidy_settings s" and c: "c \<in> set s"
  have "c \<in> set (join_with '' '' (split_on (CHR '' '') s))" using c by (simp add: join_split)
  with s c show ?thesis
    by (auto simp: tidy_settings_def setting_word_def list_all_iff dest!: join_chars)
qed

lemma timing_line: "tidy_cue_ok c \<Longrightarrow> one_line (timing c) \<and> timing c \<noteq> [] \<and> printable (hd (timing c))"
proof -
  assume c: "tidy_cue_ok c"
  note a = stamp_chars [of "cu_start c"] and b = stamp_chars [of "cu_end c"]
  have p: "\<not> printable nl" "\<not> printable (char_of (13 :: nat))" "nl \<noteq> CHR '' ''" "char_of (13 :: nat) \<noteq> CHR '' ''"
    unfolding blank by (simp_all add: printable_def)
  have "printable (CHR ''-'')" "printable (CHR ''>'')" by (simp_all add: printable_def)
  then have "printable x \<or> x = CHR '' ''" if "x \<in> set (timing c)" for x
    using that c a b setting_printable [of "cu_settings c" x]
    by (auto simp: timing_def tidy_cue_ok_def setting_word_def list_all_iff split: if_splits)
  with p have "x \<noteq> nl \<and> x \<noteq> char_of (13 :: nat)" if "x \<in> set (timing c)" for x
    using that by metis
  then have "one_line (timing c)" by (auto simp: one_line_def)
  moreover have "stamp (cu_start c) \<noteq> []" "printable (hd (stamp (cu_start c)))"
    using a c by (auto simp: tidy_cue_ok_def setting_word_def list_all_iff)
  ultimately show ?thesis by (simp add: timing_def)
qed

lemma timing_reads:
  assumes "tidy_cue_ok c"
  shows "cut arrow (timing c) = Some (stamp (cu_start c) @ '' '', CHR '' '' # join_with '' '' (stamp (cu_end c) #
      (if cu_settings c = [] then [] else split_on (CHR '' '') (cu_settings c))))"
proof -
  let ?rest = "CHR '' '' # stamp (cu_end c) @ (if cu_settings c = [] then [] else CHR '' '' # cu_settings c)"
  have "timing c = (stamp (cu_start c) @ '' '') @ arrow @ ?rest" by (simp add: timing_def arrow_def)
  moreover have "CHR ''-'' \<notin> set (stamp (cu_start c) @ '' '')"
    using assms stamp_chars [of "cu_start c"] by (simp add: tidy_cue_ok_def)
  ultimately have "cut arrow (timing c) = Some (stamp (cu_start c) @ '' '', ?rest)" by (metis cut_arrow)
  moreover have "join_with '' '' (w # split_on (CHR '' '') s) = w @ CHR '' '' # s" for w s
    by (metis append_Cons append_Nil join_split join_with.simps(3) list.exhaust split_on_not_Nil)
  ultimately show ?thesis by simp
qed

lemma parse_print_cue:
  assumes "tidy_cue_ok c"
  shows "parse_cue (print_cue c) = Some c"
proof -
  let ?ws = "if cu_settings c = [] then [] else split_on (CHR '' '') (cu_settings c)"
  from assms have l: "cu_lines c \<noteq> []" "\<forall>x \<in> set (cue_rows c). nl \<notin> set x"
    using timing_line [OF assms] by (auto simp: tidy_cue_ok_def cue_rows_def one_line_def text_line_def list_all_iff)
  have rows: "split_on nl (print_cue c) = cue_rows c"
    unfolding print_rows [OF l(1)] by (rule split_join) (use l(2) in \<open>simp_all add: cue_rows_def\<close>)
  have e: "setting_word (stamp (cu_end c))" "setting_word (stamp (cu_start c))"
    using assms stamp_chars by (auto simp: tidy_cue_ok_def)
  have "list_all setting_word (stamp (cu_end c) # ?ws)"
    using assms e by (auto simp: tidy_cue_ok_def tidy_settings_def)
  then have f: "text_fields (CHR '' '' # join_with '' '' (stamp (cu_end c) # ?ws)) = stamp (cu_end c) # ?ws"
    using fields_words [of "stamp (cu_end c) # ?ws"] by (simp add: fields_blank del: join_with.simps)
  have j: "join_with '' '' ?ws = cu_settings c" by (simp add: join_split)
  have h: "holds_arrow (timing c)" by (simp add: holds_arrow_def timing_reads [OF assms])
  show ?thesis
  proof (cases "cu_id c = []")
    case True
    then have "cue_rows c = timing c # cu_lines c" by (simp add: cue_rows_def)
    then show ?thesis
      using assms True unfolding parse_cue_def rows
      by (simp add: h timing_reads [OF assms] trim_stamp [OF e(2)] f j tidy_cue_ok_def parse_stamp_stamp del: join_with.simps)
  next
    case False
    then have "cue_rows c = cu_id c # timing c # cu_lines c" by (simp add: cue_rows_def)
    then show ?thesis
      using assms False unfolding parse_cue_def rows
      by (simp add: h timing_reads [OF assms] trim_stamp [OF e(2)] f j tidy_cue_ok_def parse_stamp_stamp del: join_with.simps)
  qed
qed

text \<open>Files.\<close>

lemma ends_black_join:
  "bs \<noteq> [] \<Longrightarrow> ends_black (last bs) \<Longrightarrow> ends_black (join_with [nl] bs) \<and> ends_black (join_with [nl, nl] bs)"
proof (induction bs rule: induct_list012)
  case (3 p q ps)
  then have "ends_black (join_with [nl] (q # ps))" "ends_black (join_with [nl, nl] (q # ps))" by simp_all
  then show ?case
    using ends_black_after [of "join_with [nl] (q # ps)" p] ends_black_after [of "join_with [nl, nl] (q # ps)" "p @ [nl]"]
    by simp
qed simp_all

lemma cue_block:
  assumes "tidy_cue_ok c"
  shows "block_ok (print_cue c)" and "ends_black (print_cue c)" and "char_of (13 :: nat) \<notin> set (print_cue c)"
proof -
  have l: "cu_lines c \<noteq> []" "list_all (\<lambda>x. x \<noteq> [] \<and> one_line x) (cue_rows c)" "ends_black (last (cue_rows c))"
    using assms timing_line [OF assms]
    by (auto simp: tidy_cue_ok_def cue_rows_def text_line_def ends_black_def list_all_iff)
  have r: "cue_rows c \<noteq> []" by (simp add: cue_rows_def)
  have "list_all (\<lambda>x. x \<noteq> [] \<and> nl \<notin> set x) (cue_rows c)" using l(2) by (simp add: one_line_def list_all_iff)
  with r show "block_ok (print_cue c)"
    unfolding print_rows [OF l(1)] by (rule join_lines_ok)
  show "ends_black (print_cue c)"
    unfolding print_rows [OF l(1)] by (rule ends_black_join [THEN conjunct1, OF r l(3)])
  have "nl \<noteq> char_of (13 :: nat)" by simp
  then show "char_of (13 :: nat) \<notin> set (print_cue c)"
    unfolding print_rows [OF l(1)] using l(2) by (auto simp: one_line_def list_all_iff dest!: join_chars)
qed

lemma tidy_stays: "list_all tidy_cue_ok cs \<Longrightarrow> tidy cs = cs"
proof -
  have r: "trim_right [CHR '' '', char_of (9 :: nat)] l = l" if l: "text_line l" for l
  proof -
    have "\<not> has_prefix [CHR '' ''] (rev l)" "\<not> has_prefix [char_of (9 :: nat)] (rev l)"
      using l unfolding blank by (auto simp: text_line_def ends_black_def spaces_def bytes_def)
    then have "dropWhile (\<lambda>c. c \<in> set [CHR '' '', char_of (9 :: nat)]) (rev l) = rev l"
      by (cases "rev l") (auto simp: has_prefix_def)
    then show ?thesis by (simp add: trim_right_def)
  qed
  have "tidy_cue c = c" if "tidy_cue_ok c" for c
  proof -
    have "filter (\<lambda>l. trim_space l \<noteq> []) (cu_lines c) = cu_lines c"
      using that by (auto simp: tidy_cue_ok_def text_line_def list_all_iff)
    moreover have "map (trim_right [CHR '' '', char_of (9 :: nat)]) (cu_lines c) = cu_lines c"
      by (rule map_idI) (use that r in \<open>auto simp: tidy_cue_ok_def list_all_iff\<close>)
    ultimately show ?thesis using that by (simp add: tidy_cue_def tidy_cue_ok_def)
  qed
  then show "list_all tidy_cue_ok cs \<Longrightarrow> tidy cs = cs"
    by (induction cs) (auto simp: tidy_def tidy_cue_ok_def)
qed

definition header_ok :: "string \<Rightarrow> bool" where
  "header_ok h \<longleftrightarrow> has_prefix ''WEBVTT'' h \<and> block_ok h \<and> ends_black h \<and> char_of (13 :: nat) \<notin> set h"

text \<open>
  C28: a file of tidy cues is read back as it was written: every cue keeps its name, times,
  settings and lines, and normalizing the file again changes nothing.
\<close>

theorem tidy_files_stay:
  assumes "header_ok h" and "list_all tidy_cue_ok cs"
  shows "normalize (print_file h [] cs) = print_file h [] cs
    \<and> file_blocks (print_file h [] cs) = h # map print_cue cs \<and> List.map_filter parse_cue (map print_cue cs) = cs"
proof -
  let ?bs = "h # map print_cue cs"
  have bs: "list_all block_ok ?bs" "ends_black (last ?bs)" "\<forall>b \<in> set ?bs. char_of (13 :: nat) \<notin> set b"
    using assms cue_block by (auto simp: header_ok_def list_all_iff last_map)
  have p: "print_file h [] cs = join_with [nl, nl] ?bs @ [nl, nl]"
    using join_snoc [of ?bs "[nl, nl]"] by (simp add: print_file_def comp_def del: join_with.simps)
  have h: "h \<noteq> []" "hd h = CHR ''W''"
    using assms(1) by (cases h; auto simp: header_ok_def has_prefix_def)+
  have j: "join_with [nl, nl] ?bs \<noteq> []" "hd (join_with [nl, nl] ?bs) = CHR ''W''"
    using h by (cases cs; simp)+
  have "char_of (13 :: nat) \<notin> set (print_file h [] cs)"
    unfolding p using bs(3) by (auto dest!: join_chars)
  then have fb: "file_blocks (print_file h [] cs) = ?bs"
    using j bs ends_black_join [of ?bs]
    unfolding file_blocks_def p
    by (simp add: unix_lines_plain trim_text split_blocks printable_def del: join_with.simps)
  have pc: "map parse_cue (map print_cue cs) = map Some cs"
    using assms(2) by (auto simp: parse_print_cue list_all_iff)
  then have mf: "List.map_filter parse_cue (map print_cue cs) = cs"
    by (simp add: map_filter_def comp_def) (metis (no_types, lifting) comp_def filter_True list.map_id0 id_apply list.map_comp map_eq_conv option.sel option.distinct(1))
  have bq: "filter (\<lambda>b. b \<noteq> []) (map (trim_chars [nl]) (tl ?bs)) = map print_cue cs"
    using bs(1) by (induction cs) (auto simp: trim_block block_ok_def)
  have "\<not> list_ex (\<lambda>c. list_ex has_inline (cu_lines c)) cs"
    using assms(2) by (auto simp: tidy_cue_ok_def list_ex_iff list_all_iff)
  moreover have "filter (\<lambda>b. parse_cue b = None) (map print_cue cs) = []"
    using assms(2) by (auto simp: parse_print_cue filter_empty_conv list_all_iff)
  ultimately have "normalize (print_file h [] cs) = print_file h [] cs"
    using assms unfolding normalize_def Let_def fb bq mf by (simp add: tidy_stays header_ok_def)
  with fb mf show ?thesis by simp
qed

definition sample_cue :: cue where
  "sample_cue = \<lparr>cu_id = ''1'', cu_start = 1000000000, cu_end = 61500000000, cu_settings = ''line:10%'', cu_lines = [''hi'', ''you'']\<rparr>"

theorem tidy_files_stay_witness:
  "normalize (print_file ''WEBVTT'' [] [sample_cue]) = print_file ''WEBVTT'' [] [sample_cue]"
proof -
  have t: "trim_space ''hi'' = ''hi''" "trim_space ''you'' = ''you''"
    by (rule trim_space_stays, simp add: printable_def)+
  have f: "text_fields ''line:10%'' = [''line:10%'']"
    using fields_words [of "[''line:10%'']"] by (simp add: setting_word_def printable_def)
  have eq_char_of: "(c = char_of n) = (take_bit 8 n = of_char c)" for c and n :: nat
    using char_of_eq_iff [of n c] by auto
  note black = ends_black_def spaces_def bytes_def has_prefix_def char_of_eq_iff eq_char_of take_bit_eq_mod
  have "header_ok ''WEBVTT''" by (simp add: header_ok_def block_ok_def black)
  moreover have "text_line ''hi''" "text_line ''you''"
    unfolding text_line_def t by (simp_all add: one_line_def black)
  moreover have "\<not> has_inline ''hi''" "\<not> has_inline ''you''" by (simp_all add: inline_patterns_def Let_def)
  moreover have "\<not> holds_arrow ''1''" "one_line ''1''" by (simp_all add: holds_arrow_def one_line_def arrow_def black)
  moreover have "tidy_settings ''line:10%''" by (simp add: tidy_settings_def setting_word_def printable_def)
  ultimately have "header_ok ''WEBVTT''" "list_all tidy_cue_ok [sample_cue]"
    by (simp_all add: tidy_cue_ok_def sample_cue_def whole_ms_def is_int64_def millisecond_def youtube_pin_def f)
  from tidy_files_stay [OF this] show ?thesis by simp
qed

text \<open>A stamp with more hours than a duration holds becomes a negative time.\<close>

lemma long_stamp_wraps: "parse_stamp ''200000000:00.000'' = Some (- 6446744073709551616)"
  by (simp add: parse_stamp_def has_prefix_def parse_int64_def parse_uint_def digit_val_def wrap64_def second_def millisecond_def)

end
