(* ===== verification/Base64.thy ===== *)
theory Base64
  imports Go_Text
begin

text \<open>
  The unpadded base64 encodings of the library (\<open>encoding/base64\<close>), as the session tokens, the
  password hashes and the media tokens use them.  Like the library, the decoder skips line ends
  and ignores the unused bits of the last character.
\<close>

definition b64_letters :: string where
  "b64_letters = ''ABCDEFGHIJKLMNOPQRSTUVWXYZabcdefghijklmnopqrstuvwxyz0123456789''"

definition std_alphabet :: string where
  "std_alphabet = b64_letters @ ''+/''"

definition url_alphabet :: string where
  "url_alphabet = b64_letters @ ''-_''"

fun b64_encode :: "string \<Rightarrow> string \<Rightarrow> string" where
  "b64_encode al (x # y # z # s) =
     (let n = ((of_char x :: nat) * 256 + of_char y) * 256 + of_char z
      in al ! (n div 262144) # al ! (n div 4096 mod 64) # al ! (n div 64 mod 64) # al ! (n mod 64) # b64_encode al s)"
| "b64_encode al [x, y] =
     (let n = ((of_char x :: nat) * 256 + of_char y) * 4 in [al ! (n div 4096), al ! (n div 64 mod 64), al ! (n mod 64)])"
| "b64_encode al [x] = (let n = (of_char x :: nat) * 16 in [al ! (n div 64), al ! (n mod 64)])"
| "b64_encode al [] = []"

fun b64_bytes :: "nat list \<Rightarrow> string option" where
  "b64_bytes (a # b # c # d # vs) =
     (let n = ((a * 64 + b) * 64 + c) * 64 + d
      in map_option (\<lambda>t. char_of (n div 65536) # char_of (n div 256) # char_of n # t) (b64_bytes vs))"
| "b64_bytes [a, b, c] = (let n = (a * 64 + b) * 64 + c in Some [char_of (n div 1024), char_of (n div 4)])"
| "b64_bytes [a, b] = Some [char_of ((a * 64 + b) div 16)]"
| "b64_bytes [a] = None"
| "b64_bytes [] = Some []"

fun b64_values :: "string \<Rightarrow> string \<Rightarrow> nat list option" where
  "b64_values al [] = Some []"
| "b64_values al (c # cs) =
     (if c = char_of (10 :: nat) \<or> c = char_of (13 :: nat) then b64_values al cs
      else case find_index (\<lambda>x. x = c) al of None \<Rightarrow> None | Some v \<Rightarrow> map_option (Cons v) (b64_values al cs))"

definition b64_decode :: "string \<Rightarrow> string \<Rightarrow> string option" where
  "b64_decode al s = (case b64_values al s of None \<Rightarrow> None | Some vs \<Rightarrow> b64_bytes vs)"

section \<open>Decoding what was encoded\<close>

definition alphabet_ok :: "string \<Rightarrow> bool" where
  "alphabet_ok al \<longleftrightarrow> length al = 64 \<and> distinct al \<and> char_of (10 :: nat) \<notin> set al \<and> char_of (13 :: nat) \<notin> set al"

lemma alphabets_ok: "alphabet_ok std_alphabet" "alphabet_ok url_alphabet"
  by code_simp+

lemma letter_value:
  assumes "alphabet_ok al" and "i < 64"
  shows "b64_values al (al ! i # cs) = map_option (Cons i) (b64_values al cs)"
proof -
  have al: "i < length al" "distinct al" using assms by (simp_all add: alphabet_ok_def)
  have "al ! i \<in> set al" using al by simp
  then have "al ! i \<noteq> char_of (10 :: nat)" "al ! i \<noteq> char_of (13 :: nat)" using assms(1) by (auto simp: alphabet_ok_def)
  moreover have "find_index (\<lambda>x. x = al ! i) al = Some i"
  proof -
    have "find_index (\<lambda>x. x = al ! i) al \<noteq> None" using al by (auto simp: find_index_None)
    then obtain j where j: "find_index (\<lambda>x. x = al ! i) al = Some j" by blast
    from find_index_Some [OF this] al have "j = i" by (metis nth_eq_iff_index_eq)
    with j show ?thesis by simp
  qed
  ultimately show ?thesis by simp
qed

lemma byte_less: "(of_char c :: nat) < 256"
  by (simp add: of_char_of)

lemma char_of_byte: "m mod 256 = (of_char c :: nat) \<Longrightarrow> char_of m = c"
  by (metis char_of_char char_of_mod_256)

lemma three_bytes:
  fixes n a b c :: nat
  assumes "n = (a * 256 + b) * 256 + c" and "a < 256" and "b < 256" and "c < 256"
  shows "n div 262144 < 64" "((n div 262144 * 64 + n div 4096 mod 64) * 64 + n div 64 mod 64) * 64 + n mod 64 = n"
    "n div 65536 mod 256 = a" "n div 256 mod 256 = b" "n mod 256 = c"
proof -
  show "n div 262144 < 64" using assms by simp
  show "((n div 262144 * 64 + n div 4096 mod 64) * 64 + n div 64 mod 64) * 64 + n mod 64 = n"
    using div_mult2_eq [of n 64 64] div_mult2_eq [of n 4096 64] div_mult_mod_eq [of n 64] div_mult_mod_eq [of "n div 64" 64]
      div_mult_mod_eq [of "n div 4096" 64] by simp
  have "n div 65536 = a" "n div 256 = a * 256 + b" using assms by simp_all
  then show "n div 65536 mod 256 = a" "n div 256 mod 256 = b" using assms by simp_all
  show "n mod 256 = c" unfolding assms(1) using assms(4) by (simp only: mod_mult_self3 mod_less)
qed

lemma two_bytes:
  fixes n a b :: nat
  assumes "n = (a * 256 + b) * 4" and "a < 256" and "b < 256"
  shows "n div 4096 < 64" "(n div 4096 * 64 + n div 64 mod 64) * 64 + n mod 64 = n"
    "n div 1024 mod 256 = a" "n div 4 mod 256 = b"
proof -
  show "n div 4096 < 64" using assms by simp
  show "(n div 4096 * 64 + n div 64 mod 64) * 64 + n mod 64 = n"
    using div_mult2_eq [of n 64 64] div_mult_mod_eq [of n 64] div_mult_mod_eq [of "n div 64" 64] by simp
  have "n div 4 = a * 256 + b" "n div 1024 = a" using assms div_mult2_eq [of n 4 256] by simp_all
  then show "n div 1024 mod 256 = a" "n div 4 mod 256 = b" using assms by simp_all
qed

lemma one_byte:
  fixes n a :: nat
  assumes "n = a * 16" and "a < 256"
  shows "n div 64 < 64" "n div 64 * 64 + n mod 64 = n" "n div 16 mod 256 = a"
proof -
  show "n div 64 < 64" "n div 16 mod 256 = a" using assms by simp_all
  show "n div 64 * 64 + n mod 64 = n" by (rule div_mult_mod_eq)
qed

lemma decode_three:
  assumes "alphabet_ok al" and "n = ((of_char x :: nat) * 256 + of_char y) * 256 + of_char z"
    and "b64_values al r = Some vs" and "b64_bytes vs = Some s"
  shows "\<exists>vs. b64_values al (al ! (n div 262144) # al ! (n div 4096 mod 64) # al ! (n div 64 mod 64) # al ! (n mod 64) # r)
      = Some vs \<and> b64_bytes vs = Some (x # y # z # s)"
proof -
  note t = three_bytes [OF assms(2) byte_less byte_less byte_less]
  note l = letter_value [OF assms(1)]
  have v: "b64_values al (al ! (n div 262144) # al ! (n div 4096 mod 64) # al ! (n div 64 mod 64) # al ! (n mod 64) # r)
      = Some (n div 262144 # n div 4096 mod 64 # n div 64 mod 64 # n mod 64 # vs)"
    by (simp only: l [OF t(1)] l [of "_ mod 64"] pos_mod_bound mod_less_divisor zero_less_numeral assms(3) option.map)
  have "b64_bytes (n div 262144 # n div 4096 mod 64 # n div 64 mod 64 # n mod 64 # vs)
      = Some (char_of (n div 65536) # char_of (n div 256) # char_of n # s)"
    by (simp only: b64_bytes.simps Let_def t(2) assms(4) option.map)
  then show ?thesis
    using v char_of_byte [OF t(3)] char_of_byte [OF t(4)] char_of_byte [OF t(5)] by (simp only: option.inject) blast
qed

lemma decode_two:
  assumes "alphabet_ok al" and "n = ((of_char x :: nat) * 256 + of_char y) * 4"
  shows "\<exists>vs. b64_values al [al ! (n div 4096), al ! (n div 64 mod 64), al ! (n mod 64)] = Some vs \<and> b64_bytes vs = Some [x, y]"
proof -
  note t = two_bytes [OF assms(2) byte_less byte_less]
  note l = letter_value [OF assms(1)]
  have v: "b64_values al [al ! (n div 4096), al ! (n div 64 mod 64), al ! (n mod 64)]
      = Some [n div 4096, n div 64 mod 64, n mod 64]"
    by (simp only: l [OF t(1)] l [of "_ mod 64"] mod_less_divisor zero_less_numeral option.map b64_values.simps(1))
  have "b64_bytes [n div 4096, n div 64 mod 64, n mod 64] = Some [char_of (n div 1024), char_of (n div 4)]"
    by (simp only: b64_bytes.simps Let_def t(2))
  then show ?thesis using v char_of_byte [OF t(3)] char_of_byte [OF t(4)] by (simp only: option.inject) blast
qed

lemma decode_one:
  assumes "alphabet_ok al" and "n = (of_char x :: nat) * 16"
  shows "\<exists>vs. b64_values al [al ! (n div 64), al ! (n mod 64)] = Some vs \<and> b64_bytes vs = Some [x]"
proof -
  note t = one_byte [OF assms(2) byte_less]
  note l = letter_value [OF assms(1)]
  have v: "b64_values al [al ! (n div 64), al ! (n mod 64)] = Some [n div 64, n mod 64]"
    by (simp only: l [OF t(1)] l [of "_ mod 64"] mod_less_divisor zero_less_numeral option.map b64_values.simps(1))
  have "b64_bytes [n div 64, n mod 64] = Some [char_of (n div 16)]"
    by (simp only: b64_bytes.simps t(2))
  then show ?thesis using v char_of_byte [OF t(3)] by (simp only: option.inject) blast
qed

lemma encode_values:
  "alphabet_ok al \<Longrightarrow> \<exists>vs. b64_values al (b64_encode al s) = Some vs \<and> b64_bytes vs = Some s"
proof (induction al s rule: b64_encode.induct)
  case (1 al x y z s)
  then obtain vs where vs: "b64_values al (b64_encode al s) = Some vs" "b64_bytes vs = Some s" by blast
  show ?case unfolding b64_encode.simps Let_def by (rule decode_three [OF "1.prems" refl vs])
next
  case (2 al x y)
  then show ?case unfolding b64_encode.simps Let_def by (rule decode_two [OF _ refl])
next
  case (3 al x)
  then show ?case unfolding b64_encode.simps Let_def by (rule decode_one [OF _ refl])
qed simp

lemma decode_encode: "alphabet_ok al \<Longrightarrow> b64_decode al (b64_encode al s) = Some s"
  using encode_values [of al s] by (auto simp: b64_decode_def)

text \<open>The characters of an encoding are letters of the alphabet.\<close>

lemma encode_letters: "alphabet_ok al \<Longrightarrow> set (b64_encode al s) \<subseteq> set al"
proof (induction al s rule: b64_encode.induct)
  case (1 al x y z s)
  have "al ! i \<in> set al" if "i < 64" for i using that "1.prems" by (simp add: alphabet_ok_def)
  moreover have "n mod 64 < 64" for n :: nat by simp
  ultimately show ?case
    unfolding b64_encode.simps Let_def using three_bytes(1) [OF refl byte_less byte_less byte_less, of x y z] 1 by (simp only: list.set) blast
next
  case (2 al x y)
  have "al ! i \<in> set al" if "i < 64" for i using that 2 by (simp add: alphabet_ok_def)
  moreover have "n mod 64 < 64" for n :: nat by simp
  ultimately show ?case
    unfolding b64_encode.simps Let_def using two_bytes(1) [OF refl byte_less byte_less, of x y] by (simp only: list.set) blast
next
  case (3 al x)
  have "al ! i \<in> set al" if "i < 64" for i using that 3 by (simp add: alphabet_ok_def)
  moreover have "n mod 64 < 64" for n :: nat by simp
  ultimately show ?case
    unfolding b64_encode.simps Let_def using one_byte(1) [OF refl byte_less, of x] by (simp only: list.set) blast
qed simp

end
