(* ===== verification/Media_Store.thy ===== *)
theory Media_Store
  imports Base64 Room_Snapshot
begin

text \<open>
  The packaged media (\<open>mediastore/*.go\<close>): where the objects are, the tokens that open them, the
  handler that serves them, the removal of abandoned packages and the eviction of what nobody
  watches.  HMAC-SHA-256 and the MIME table of the system are parameters; \<open>path.Clean\<close>,
  \<open>path.Ext\<close> and the byte order of \<open>encoding/binary\<close> are written out.
\<close>

section \<open>Keys (\<open>store.go\<close>)\<close>

definition media_dir :: "string \<Rightarrow> string" where
  "media_dir i = ''media/'' @ i @ ''/''"

definition attempt_prefix :: "string \<Rightarrow> string \<Rightarrow> string" where
  "attempt_prefix i lease = media_dir i @ lease @ ''/''"

definition is_thumbnail :: "string \<Rightarrow> bool" where
  "is_thumbnail name = has_prefix ''thumb.'' name"

text \<open>\<open>path.Ext\<close>: from the last dot of the last element.\<close>

definition path_ext :: "string \<Rightarrow> string" where
  "path_ext name = (let r = rev name; w = takeWhile (\<lambda>c. c \<noteq> CHR ''.'' \<and> c \<noteq> CHR ''/'') r
     in if has_prefix ''.'' (drop (length w) r) then CHR ''.'' # rev w else [])"

definition content_type :: "(string \<Rightarrow> string) \<Rightarrow> string \<Rightarrow> string" where
  "content_type mime name = (let e = to_lower (path_ext name) in
     if e = ''.vtt'' then ''text/vtt; charset=utf-8''
     else if e = ''.mpd'' then ''application/dash+xml''
     else if e = ''.m4s'' then ''video/iso.segment''
     else if e = ''.mp4'' then ''video/mp4''
     else if e = ''.m4a'' then ''audio/mp4''
     else if e = ''.webm'' then ''video/webm''
     else if e = ''.jpg'' \<or> e = ''.jpeg'' then ''image/jpeg''
     else if e = ''.png'' then ''image/png''
     else if e = ''.webp'' then ''image/webp''
     else if mime (path_ext name) \<noteq> [] then mime (path_ext name)
     else ''application/octet-stream'')"

section \<open>Tokens (\<open>token.go\<close>)\<close>

definition be_bytes :: "nat \<Rightarrow> nat \<Rightarrow> string" where
  "be_bytes k n = map (\<lambda>i. char_of (n div 256 ^ (k - 1 - i))) [0..<k]"

definition be_value :: "string \<Rightarrow> nat" where
  "be_value s = foldl (\<lambda>n c. n * 256 + of_char c) 0 s"

definition uuid_bytes :: "uuid \<Rightarrow> string" where
  "uuid_bytes i = be_bytes 16 i"

definition mac_len :: nat where
  "mac_len = 16"

text \<open>\<open>sg_hmac\<close> is the HMAC under the signer's secret.\<close>

record signer =
  sg_hmac :: "string \<Rightarrow> string"
  sg_ttl :: duration

definition mac :: "signer \<Rightarrow> string \<Rightarrow> string" where
  "mac s body = take mac_len (sg_hmac s body)"

definition token_body :: "uuid \<Rightarrow> int \<Rightarrow> string" where
  "token_body i e = uuid_bytes i @ be_bytes 8 (nat (e mod 18446744073709551616))"

definition sign_token :: "signer \<Rightarrow> uuid \<Rightarrow> time \<Rightarrow> string" where
  "sign_token s i now = (let buf = token_body i (unix_sec (now + sg_ttl s)) in b64_encode url_alphabet (buf @ mac s buf))"

definition verify_token :: "signer \<Rightarrow> string \<Rightarrow> uuid \<Rightarrow> time \<Rightarrow> bool" where
  "verify_token s tok i now = (case b64_decode url_alphabet tok of
      None \<Rightarrow> False
    | Some raw \<Rightarrow> length raw = 16 + 8 + mac_len \<and>
        (let body = take 24 raw in drop 24 raw = mac s body \<and> take 16 body = uuid_bytes i
          \<and> unix_sec now < wrap64 (int (be_value (drop 16 body)))))"

section \<open>Objects\<close>

record object =
  ob_key :: string
  ob_modified :: time
  ob_etag :: string

definition delete_prefix :: "string \<Rightarrow> object list \<Rightarrow> object list" where
  "delete_prefix p obs = filter (\<lambda>b. \<not> has_prefix p (ob_key b)) obs"

definition put_object :: "object \<Rightarrow> object list \<Rightarrow> object list" where
  "put_object b obs = filter (\<lambda>c. ob_key c \<noteq> ob_key b) obs @ [b]"

section \<open>The handler (\<open>handler.go\<close>)\<close>

text \<open>\<open>path.Clean\<close>: empty and dot elements go, a dot-dot takes the element before it.\<close>

fun clean_parts :: "bool \<Rightarrow> string list \<Rightarrow> string list \<Rightarrow> string list" where
  "clean_parts rooted st [] = rev st"
| "clean_parts rooted st (p # ps) =
     (if p = [] \<or> p = ''.'' then clean_parts rooted st ps
      else if p = ''..'' then
        (case st of
           [] \<Rightarrow> clean_parts rooted (if rooted then [] else [p]) ps
         | q # qs \<Rightarrow> clean_parts rooted (if q = ''..'' then p # st else qs) ps)
      else clean_parts rooted (p # st) ps)"

definition path_clean :: "string \<Rightarrow> string" where
  "path_clean s = (let rooted = has_prefix ''/'' s;
       out = join_with ''/'' (clean_parts rooted [] (split_on CHR ''/'' s))
     in if rooted then CHR ''/'' # out else if out = [] then ''.'' else out)"

definition trim_front :: "string \<Rightarrow> string \<Rightarrow> string" where
  "trim_front p s = (if has_prefix p s then drop (length p) s else s)"

definition uuid_parse :: "string \<Rightarrow> uuid option" where
  "uuid_parse s = parse_uint 10 128 s"

definition split_media_path :: "string \<Rightarrow> (uuid \<times> string) option" where
  "split_media_path p = (case cut ''/'' (trim_front ''/media/'' (path_clean p)) of
      None \<Rightarrow> None
    | Some (i, file) \<Rightarrow>
        if file = [] \<or> CHR ''/'' \<in> set file \<or> has_prefix ''.'' file then None
        else map_option (\<lambda>m. (m, file)) (uuid_parse i))"

text \<open>\<open>MediaPrefix\<close> and \<open>TouchMediaAccess\<close> of \<open>repository/media.go\<close>.\<close>

definition media_prefix :: "media list \<Rightarrow> uuid \<Rightarrow> string" where
  "media_prefix ms i = (case find (\<lambda>m. m_id m = i) ms of None \<Rightarrow> [] | Some m \<Rightarrow> m_s3_prefix m)"

definition touch_media :: "uuid \<Rightarrow> time \<Rightarrow> media list \<Rightarrow> media list" where
  "touch_media i at' ms = map (\<lambda>m. if m_id m = i \<and> m_last_accessed m < at' then m\<lparr>m_last_accessed := at'\<rparr> else m) ms"

datatype media_reply =
  MediaError nat string
| MediaNotFound
| MediaObject string string string string

record media_request =
  mq_method :: string
  mq_path :: string
  mq_token :: string

text \<open>The calls that may fail: the prefix, the object's reader, its metadata, the access time.\<close>

record media_faults =
  mf_prefix :: bool
  mf_open :: bool
  mf_stat :: bool
  mf_touch :: bool

definition serve_media ::
  "(string \<Rightarrow> string) \<Rightarrow> signer \<Rightarrow> media_faults \<Rightarrow> time \<Rightarrow> object list \<Rightarrow> media_request \<Rightarrow> media list \<Rightarrow> media_reply \<times> media list" where
  "serve_media mime s f now obs q ms =
     (if mq_method q \<noteq> ''GET'' \<and> mq_method q \<noteq> ''HEAD'' then (MediaError 405 ''method not allowed'', ms)
      else case split_media_path (mq_path q) of
        None \<Rightarrow> (MediaNotFound, ms)
      | Some (i, file) \<Rightarrow>
          if \<not> is_thumbnail file \<and> \<not> verify_token s (mq_token q) i now then
            (MediaError 401 ''invalid or expired media token'', ms)
          else if mf_prefix f then (MediaError 502 ''storage error'', ms)
          else let prefix = media_prefix ms i; key = prefix @ file in
            if prefix = [] then (MediaNotFound, ms)
            else if mf_open f then (MediaError 502 ''storage error'', ms)
            else if mf_stat f then (MediaError 502 ''storage error'', ms)
            else case find (\<lambda>b. ob_key b = key) obs of
                None \<Rightarrow> (MediaNotFound, ms)
              | Some b \<Rightarrow>
                  (MediaObject key (content_type mime file)
                     (if is_thumbnail file then ''public, max-age=86400'' else ''private, max-age=3600'')
                     (if ob_etag b = [] then [] else CHR 0x22 # ob_etag b @ [CHR 0x22]),
                   if file = ''manifest.mpd'' \<and> \<not> mf_touch f then touch_media i now ms else ms))"

section \<open>Big-endian numbers\<close>

lemma length_be_bytes [simp]: "length (be_bytes k n) = k"
  by (simp add: be_bytes_def)

lemma be_bytes_Suc: "be_bytes (Suc k) n = char_of (n div 256 ^ k) # be_bytes k n"
proof -
  have "[0..<Suc k] = 0 # map Suc [0..<k]" by (simp only: map_Suc_upt upt_conv_Cons zero_less_Suc)
  then show ?thesis by (simp add: be_bytes_def)
qed

lemma be_value_from: "foldl (\<lambda>n c. n * 256 + of_char c) a (be_bytes k n) = a * 256 ^ k + n mod 256 ^ k"
proof (induction k arbitrary: a)
  case 0
  show ?case by (simp add: be_bytes_def)
next
  case (Suc k)
  have "n mod 256 ^ Suc k = 256 ^ k * (n div 256 ^ k mod 256) + n mod 256 ^ k"
    using mod_mult2_eq [of n "256 ^ k" 256] by (simp add: mult.commute)
  then show ?case
    unfolding be_bytes_Suc foldl.simps Suc.IH by (simp add: algebra_simps of_char_of)
qed

lemma be_value_bytes: "be_value (be_bytes k n) = n mod 256 ^ k"
  by (simp add: be_value_def be_value_from)

lemma uuid_bytes_inj: "i < 2 ^ 128 \<Longrightarrow> j < 2 ^ 128 \<Longrightarrow> uuid_bytes i = uuid_bytes j \<longleftrightarrow> i = j"
proof (rule iffI)
  have p: "(256 :: nat) ^ 16 = 2 ^ 128" by simp
  assume lt: "i < 2 ^ 128" "j < 2 ^ 128" and "uuid_bytes i = uuid_bytes j"
  then have "i mod 256 ^ 16 = j mod 256 ^ 16"
    unfolding be_value_bytes [symmetric] uuid_bytes_def by (simp only:)
  then show "i = j" unfolding p using lt by (simp only: mod_less)
qed (rule arg_cong)

lemma int_mod_range: "int (nat (e mod 18446744073709551616) mod 256 ^ 8) = e mod 18446744073709551616"
proof -
  have "(256 :: nat) ^ 8 = 18446744073709551616" by simp
  moreover have "0 \<le> e mod 18446744073709551616" "e mod 18446744073709551616 < 18446744073709551616" by simp_all
  ultimately show ?thesis by simp
qed

lemma expiry_read: "is_int64 e \<Longrightarrow> wrap64 (int (be_value (be_bytes 8 (nat (e mod 18446744073709551616))))) = e"
  unfolding be_value_bytes int_mod_range using wrap64_id [of e] by (simp add: wrap64_def mod_add_left_eq)

section \<open>What a token opens\<close>

definition hmac_ok :: "signer \<Rightarrow> bool" where
  "hmac_ok s \<longleftrightarrow> (\<forall>b. length (sg_hmac s b) = 32)"

lemma length_mac: "hmac_ok s \<Longrightarrow> length (mac s b) = 16"
  by (simp add: hmac_ok_def mac_def mac_len_def)

lemma verify_sign:
  assumes "hmac_ok s" and "is_int64 (unix_sec (now + sg_ttl s))"
  shows "verify_token s (sign_token s i now) j t \<longleftrightarrow> uuid_bytes i = uuid_bytes j \<and> unix_sec t < unix_sec (now + sg_ttl s)"
proof -
  let ?e = "unix_sec (now + sg_ttl s)"
  have l: "length (token_body i ?e) = 24" "take 16 (token_body i ?e) = uuid_bytes i"
    "drop 16 (token_body i ?e) = be_bytes 8 (nat (?e mod 18446744073709551616))"
    by (simp_all add: token_body_def uuid_bytes_def)
  show ?thesis
    unfolding verify_token_def sign_token_def Let_def decode_encode [OF alphabets_ok(2)] option.case
    using length_mac [OF assms(1), of "token_body i ?e"] l expiry_read [OF assms(2)] by (simp add: mac_len_def)
qed

text \<open>What an accepted token is made of: whoever makes one has the HMAC of its body.\<close>

definition sealed :: "signer \<Rightarrow> string \<Rightarrow> uuid \<Rightarrow> time \<Rightarrow> bool" where
  "sealed s tok i now \<longleftrightarrow> (\<exists>x. length x = 8 \<and> unix_sec now < wrap64 (int (be_value x))
     \<and> b64_decode url_alphabet tok = Some ((uuid_bytes i @ x) @ mac s (uuid_bytes i @ x)))"

lemma verify_sealed: "verify_token s tok i now \<Longrightarrow> sealed s tok i now"
proof -
  assume v: "verify_token s tok i now"
  then obtain raw where raw: "b64_decode url_alphabet tok = Some raw" "length raw = 40"
      "drop 24 raw = mac s (take 24 raw)" "take 16 (take 24 raw) = uuid_bytes i"
      "unix_sec now < wrap64 (int (be_value (drop 16 (take 24 raw))))"
    by (auto simp: verify_token_def Let_def mac_len_def split: option.splits)
  let ?x = "drop 16 (take 24 raw)"
  have "take 24 raw = uuid_bytes i @ ?x" using append_take_drop_id [of 16 "take 24 raw"] raw(4) by simp
  moreover have "raw = take 24 raw @ mac s (take 24 raw)" using append_take_drop_id [of 24 raw] raw(3) by simp
  ultimately have "raw = (uuid_bytes i @ ?x) @ mac s (uuid_bytes i @ ?x)" by metis
  moreover have "length ?x = 8" using raw(2) by simp
  ultimately show ?thesis using raw(1,5) unfolding sealed_def by (intro exI [of _ ?x]) simp
qed

text \<open>
  C29: a token opens the media it was signed for, and no other, until it expires.
\<close>

theorem media_tokens_grant:
  assumes "hmac_ok s" and "is_int64 (unix_sec (now + sg_ttl s))" and "i < 2 ^ 128" and "j < 2 ^ 128"
  shows "verify_token s (sign_token s i now) j t \<longleftrightarrow> i = j \<and> unix_sec t < unix_sec (now + sg_ttl s)"
  using verify_sign [OF assms(1,2)] uuid_bytes_inj [OF assms(3,4)] by simp

definition sample_signer :: signer where
  "sample_signer = \<lparr>sg_hmac = (\<lambda>b. replicate 32 (if b = [] then CHR ''x'' else last b)), sg_ttl = 60 * second\<rparr>"

lemma sample_hmac: "hmac_ok sample_signer"
  by (simp add: hmac_ok_def sample_signer_def)

theorem media_tokens_grant_witness:
  "verify_token sample_signer (sign_token sample_signer 7 0) 7 (59 * second)
    \<and> \<not> verify_token sample_signer (sign_token sample_signer 7 0) 8 0
    \<and> \<not> verify_token sample_signer (sign_token sample_signer 7 0) 7 (60 * second)"
proof -
  have e: "is_int64 (unix_sec (0 + sg_ttl sample_signer))" "unix_sec (0 + sg_ttl sample_signer) = 60"
    by (simp_all add: sample_signer_def second_def unix_sec_def is_int64_def)
  have t: "unix_sec (59 * second) = 59" "unix_sec (60 * second) = 60" by (simp_all add: second_def unix_sec_def)
  show ?thesis
    using media_tokens_grant [OF sample_hmac e(1), of 7 7] media_tokens_grant [OF sample_hmac e(1), of 7 8] e(2) t by simp
qed

section \<open>What the handler serves\<close>

lemma split_path_plain: "split_media_path p = Some (i, file) \<Longrightarrow> file \<noteq> [] \<and> CHR ''/'' \<notin> set file \<and> \<not> has_prefix ''.'' file"
  by (auto simp: split_media_path_def split: option.splits prod.splits if_splits)

text \<open>
  C32: the handler serves an object only from the published package of the media in the path, one
  file of it, never a hidden or nested one; and unless it is the poster, only to a request whose
  token has the signer's seal on that very media and a time that has not come yet.
\<close>

theorem media_needs_token:
  assumes "serve_media mime s f now obs q ms = (MediaObject key ct cache etag, ms')"
  shows "\<exists>i name. split_media_path (mq_path q) = Some (i, name) \<and> key = media_prefix ms i @ name \<and> media_prefix ms i \<noteq> []
    \<and> CHR ''/'' \<notin> set name \<and> \<not> has_prefix ''.'' name \<and> key \<in> ob_key ` set obs
    \<and> (has_prefix ''thumb.'' name \<or> sealed s (mq_token q) i now \<and> cache = ''private, max-age=3600'')"
proof -
  from assms obtain i name where p: "split_media_path (mq_path q) = Some (i, name)"
    by (auto simp: serve_media_def split: if_splits option.splits)
  from assms p have a: "key = media_prefix ms i @ name" "media_prefix ms i \<noteq> []"
      "is_thumbnail name \<or> verify_token s (mq_token q) i now \<and> cache = ''private, max-age=3600''"
      "\<exists>b. find (\<lambda>b. ob_key b = key) obs = Some b"
    by (auto simp: serve_media_def Let_def split: if_splits option.splits)
  from a(4) have "key \<in> ob_key ` set obs" by (auto simp: find_Some_iff)
  with p a split_path_plain [OF p] show ?thesis
    by (auto simp: is_thumbnail_def dest: verify_sealed)
qed

lemma slash_not_dec: "CHR ''/'' \<notin> set (dec n)"
  by (rule not_in_dec) simp

lemma dec_not_dots: "dec n \<noteq> ''.''" "dec n \<noteq> ''..''"
proof -
  have "CHR ''.'' \<notin> set (dec n)" by (rule not_in_dec) simp
  then show "dec n \<noteq> ''.''" "dec n \<noteq> ''..''" by (metis list.set_intros(1))+
qed

text \<open>The addresses the snapshots hand out (\<open>mi_manifest\<close>) name the media and the file.\<close>

lemma manifest_path:
  assumes "i < 2 ^ 128" and "file \<noteq> []" and "CHR ''/'' \<notin> set file" and "\<not> has_prefix ''.'' file"
  shows "split_media_path (''/media/'' @ uuid_text i @ ''/'' @ file) = Some (i, file)"
proof -
  let ?ps = "[[], ''media'', dec i, file]"
  have s: "split_on CHR ''/'' (''/media/'' @ uuid_text i @ ''/'' @ file) = ?ps"
    using assms(3) slash_not_dec [of i] by (simp add: uuid_text_def)
  have n: "file \<noteq> ''.''" "file \<noteq> ''..''" using assms(4) by (auto simp: has_prefix_def)
  have c: "clean_parts b [] ?ps = [''media'', dec i, file]" for b using n assms(2) dec_not_dots [of i] by simp
  have "path_clean (''/media/'' @ uuid_text i @ ''/'' @ file) = ''/media/'' @ dec i @ ''/'' @ file"
    unfolding path_clean_def s Let_def c by (simp add: has_prefix_def)
  then show ?thesis
    using assms cut_char [OF slash_not_dec [of i]]
    by (simp add: split_media_path_def trim_front_def has_prefix_def uuid_parse_def)
qed

definition sample_media :: media where
  "sample_media = \<lparr>m_id = 7, m_source_key = [], m_source_url = [], m_title = [], m_duration_ms = 0, m_thumbnail_url = [],
     m_status = MediaReady, m_progress = 1, m_speed_bps = 0, m_eta_ms = 0, m_error = [], m_size_bytes = 0, m_renditions = [],
     m_subtitles = [], m_chapters = [], m_storyboard = None, m_s3_prefix = ''media/7/1/'', m_created = 0, m_updated = 0,
     m_last_accessed = 0\<rparr>"

theorem media_needs_token_witness:
  "let q = \<lparr>mq_method = ''GET'', mq_path = ''/media/'' @ uuid_text 7 @ ''/'' @ ''init.mp4'', mq_token = sign_token sample_signer 7 0\<rparr>;
       obs = [\<lparr>ob_key = ''media/7/1/init.mp4'', ob_modified = 0, ob_etag = []\<rparr>]; f = \<lparr>mf_prefix = False, mf_open = False, mf_stat = False, mf_touch = False\<rparr>
   in serve_media (\<lambda>_. []) sample_signer f second obs q [sample_media]
       = (MediaObject ''media/7/1/init.mp4'' ''video/mp4'' ''private, max-age=3600'' [], [sample_media])
     \<and> sealed sample_signer (mq_token q) 7 second"
proof -
  let ?q = "\<lparr>mq_method = ''GET'', mq_path = ''/media/'' @ uuid_text 7 @ ''/'' @ ''init.mp4'', mq_token = sign_token sample_signer 7 0\<rparr>"
  let ?obs = "[\<lparr>ob_key = ''media/7/1/init.mp4'', ob_modified = 0, ob_etag = []\<rparr>]"
  let ?f = "\<lparr>mf_prefix = False, mf_open = False, mf_stat = False, mf_touch = False\<rparr>"
  have p: "split_media_path (mq_path ?q) = Some (7, ''init.mp4'')"
    using manifest_path [of 7 "''init.mp4''"] by (simp add: has_prefix_def)
  have "is_int64 (unix_sec (0 + sg_ttl sample_signer))" "unix_sec second < unix_sec (0 + sg_ttl sample_signer)"
    by (simp_all add: sample_signer_def second_def unix_sec_def is_int64_def)
  then have v: "verify_token sample_signer (mq_token ?q) 7 second" using verify_sign [OF sample_hmac] by simp
  have ct: "content_type (\<lambda>_. []) ''init.mp4'' = ''video/mp4''" by code_simp
  have "serve_media (\<lambda>_. []) sample_signer ?f second ?obs ?q [sample_media]
      = (MediaObject ''media/7/1/init.mp4'' ''video/mp4'' ''private, max-age=3600'' [], [sample_media])"
    using v by (simp add: serve_media_def p [simplified] ct is_thumbnail_def has_prefix_def media_prefix_def sample_media_def)
  moreover from media_needs_token [OF this] have "sealed sample_signer (mq_token ?q) 7 second"
    by (simp add: p [simplified] has_prefix_def)
  ultimately show ?thesis by (simp add: Let_def)
qed

end
