(* ===== verification/Packages.thy ===== *)
theory Packages
  imports Media_Store Jobs
begin

text \<open>
  The packages of the ingest attempts: what the worker writes to the media rows
  (\<open>repository/media.go\<close>), the removal of abandoned packages (\<open>mediastore/attempts.go\<close>) and the
  eviction of what nobody watches (\<open>mediastore/evict.go\<close>), with the steps of all processes in any
  order as the relation \<open>pstep\<close>.
\<close>

section \<open>Writes of the media table\<close>

definition media_row :: "uuid \<Rightarrow> string \<Rightarrow> string \<Rightarrow> time \<Rightarrow> media" where
  "media_row i key url now = \<lparr>m_id = i, m_source_key = key, m_source_url = url, m_title = [], m_duration_ms = 0,
     m_thumbnail_url = [], m_status = MediaQueued, m_progress = 0, m_speed_bps = 0, m_eta_ms = 0, m_error = [],
     m_size_bytes = 0, m_renditions = [], m_subtitles = [], m_chapters = [], m_storyboard = None, m_s3_prefix = [],
     m_created = now, m_updated = now, m_last_accessed = now\<rparr>"

definition admit_media :: "uuid \<Rightarrow> time \<Rightarrow> string \<Rightarrow> string \<Rightarrow> media list \<Rightarrow> (media \<times> bool) \<times> media list" where
  "admit_media i now key url ms = (case find (\<lambda>m. m_source_key m = key) ms of
      Some m \<Rightarrow> ((m, False), ms)
    | None \<Rightarrow> ((media_row i key url now, True), ms @ [media_row i key url now]))"

text \<open>A write of one row; None is \<open>ErrNotFound\<close>.\<close>

definition on_media :: "uuid \<Rightarrow> (media \<Rightarrow> media) \<Rightarrow> media list \<Rightarrow> media list option" where
  "on_media i f ms = (if \<exists>m \<in> set ms. m_id m = i then Some (map (\<lambda>m. if m_id m = i then f m else m) ms) else None)"

definition mark_media :: "time \<Rightarrow> uuid \<Rightarrow> media_status \<Rightarrow> media list \<Rightarrow> media list option" where
  "mark_media now i st = on_media i (\<lambda>m. m\<lparr>m_status := st, m_progress := 0, m_speed_bps := 0, m_eta_ms := 0,
     m_error := [], m_updated := now\<rparr>)"

definition mark_progress :: "time \<Rightarrow> uuid \<Rightarrow> rat \<Rightarrow> int \<Rightarrow> int \<Rightarrow> media list \<Rightarrow> media list option" where
  "mark_progress now i v speed eta = on_media i (\<lambda>m. m\<lparr>m_progress := v, m_speed_bps := speed, m_eta_ms := eta, m_updated := now\<rparr>)"

definition mark_probed :: "time \<Rightarrow> uuid \<Rightarrow> string \<Rightarrow> int \<Rightarrow> string \<Rightarrow> media_chapter list \<Rightarrow> media list \<Rightarrow> media list option" where
  "mark_probed now i title dur thumb chs = on_media i (\<lambda>m. m\<lparr>m_title := title, m_duration_ms := dur, m_thumbnail_url := thumb,
     m_chapters := chs, m_updated := now\<rparr>)"

definition fail_media :: "time \<Rightarrow> uuid \<Rightarrow> string \<Rightarrow> media list \<Rightarrow> media list option" where
  "fail_media now i reason = on_media i (\<lambda>m. m\<lparr>m_status := MediaFailed, m_error := reason, m_updated := now\<rparr>)"

record published_media =
  pm_renditions :: "rendition list"
  pm_size :: int
  pm_prefix :: string
  pm_subtitles :: "subtitle list"
  pm_storyboard :: "storyboard option"
  pm_thumbnail :: string

definition publish_media :: "time \<Rightarrow> uuid \<Rightarrow> published_media \<Rightarrow> media list \<Rightarrow> media list option" where
  "publish_media now i p = on_media i (\<lambda>m. m\<lparr>m_status := MediaReady, m_progress := 1, m_error := [],
     m_renditions := pm_renditions p, m_size_bytes := pm_size p, m_s3_prefix := pm_prefix p, m_subtitles := pm_subtitles p,
     m_storyboard := pm_storyboard p, m_thumbnail_url := (if pm_thumbnail p = [] then m_thumbnail_url m else pm_thumbnail p),
     m_updated := now, m_last_accessed := now\<rparr>)"

definition remove_media :: "uuid \<Rightarrow> media list \<Rightarrow> media list option" where
  "remove_media i ms = (if \<exists>m \<in> set ms. m_id m = i then Some (filter (\<lambda>m. m_id m \<noteq> i) ms) else None)"

section \<open>Abandoned packages (\<open>attempts.go\<close>)\<close>

text \<open>The package an object belongs to: \<open>strings.SplitN(key, "/", 4)\<close> with two identifiers in the middle.\<close>

definition attempt_of_key :: "string \<Rightarrow> string option" where
  "attempt_of_key key = (case split_on CHR ''/'' key of
      _ # i # lease # _ # _ \<Rightarrow> if uuid_parse i = None \<or> uuid_parse lease = None then None else Some (attempt_prefix i lease)
    | _ \<Rightarrow> None)"

fun latest_of :: "(string \<times> time) list \<Rightarrow> object list \<Rightarrow> (string \<times> time) list" where
  "latest_of latest [] = latest"
| "latest_of latest (b # bs) =
     latest_of (case attempt_of_key (ob_key b) of
         None \<Rightarrow> latest
       | Some p \<Rightarrow> if (case map_of latest p of None \<Rightarrow> zero_time | Some t \<Rightarrow> t) < ob_modified b
           then AList.update p (ob_modified b) latest else latest) bs"

definition prune_candidates :: "time \<Rightarrow> object list \<Rightarrow> string list" where
  "prune_candidates older obs =
     map fst (filter (\<lambda>(p, t). t < older) (latest_of [] (filter (\<lambda>b. has_prefix ''media/'' (ob_key b)) obs)))"

text \<open>\<open>UnusedMediaAttempts\<close> of \<open>repository/media.go\<close>.\<close>

definition split_part :: "string \<Rightarrow> nat \<Rightarrow> string" where
  "split_part s n = (let ps = split_on CHR ''/'' s in if n \<le> length ps then ps ! (n - 1) else [])"

definition unused_attempts :: "job list \<Rightarrow> media list \<Rightarrow> string list \<Rightarrow> string list" where
  "unused_attempts rows ms ps = filter (\<lambda>p. (\<forall>m \<in> set ms. m_s3_prefix m \<noteq> p)
     \<and> (\<forall>r \<in> set rows. \<not> (jb_status r = JobRunning \<and> jb_lease r \<noteq> None \<and> jb_lease r = uuid_parse (split_part p 3)))) ps"

text \<open>\<open>DeletePrefix\<close> may fail half-way: \<open>Some kept\<close> is such a failure, with the objects it did not get to.\<close>

definition try_delete :: "(object \<Rightarrow> bool) option \<Rightarrow> string \<Rightarrow> object list \<Rightarrow> bool \<times> object list" where
  "try_delete failure p obs = (case failure of
      None \<Rightarrow> (True, delete_prefix p obs)
    | Some kept \<Rightarrow> (False, filter (\<lambda>b. has_prefix p (ob_key b) \<longrightarrow> kept b) obs))"

fun prune_each :: "(string \<Rightarrow> (object \<Rightarrow> bool) option) \<Rightarrow> string list \<Rightarrow> nat \<Rightarrow> object list \<Rightarrow> (nat \<times> bool) \<times> object list" where
  "prune_each fails [] n obs = ((n, True), obs)"
| "prune_each fails (p # ps) n obs = (case try_delete (fails p) p obs of
      (False, obs') \<Rightarrow> ((n, False), obs')
    | (True, obs') \<Rightarrow> prune_each fails ps (n + 1) obs')"

definition prune_attempts ::
  "(string list \<Rightarrow> string list option) \<Rightarrow> (string \<Rightarrow> (object \<Rightarrow> bool) option) \<Rightarrow> time \<Rightarrow> object list \<Rightarrow> (nat \<times> bool) \<times> object list" where
  "prune_attempts unused fails older obs =
     (let cs = prune_candidates older obs in
      if cs = [] then ((0, True), obs)
      else case unused cs of None \<Rightarrow> ((0, False), obs) | Some ps \<Rightarrow> prune_each fails ps 0 obs)"

section \<open>Eviction (\<open>evict.go\<close>)\<close>

definition ready_bytes :: "media list \<Rightarrow> int" where
  "ready_bytes ms = sum_list (map m_size_bytes (filter (\<lambda>m. m_status m = MediaReady) ms))"

definition evictable :: "nat \<Rightarrow> uuid list \<Rightarrow> media list \<Rightarrow> media list" where
  "evictable n queued ms = take n (sort_key m_last_accessed (filter (\<lambda>m. m_status m = MediaReady \<and> m_id m \<notin> set queued) ms))"

text \<open>
  For each candidate: the time it is looked at, and whether the removal of its objects or of its
  row fails.  The value is the removed media, in order.
\<close>

fun evict_each :: "int \<Rightarrow> duration \<Rightarrow> (uuid \<Rightarrow> time \<times> (object \<Rightarrow> bool) option \<times> bool) \<Rightarrow> int \<Rightarrow> media list \<Rightarrow> media list \<times> object list
    \<Rightarrow> media list \<times> media list \<times> object list" where
  "evict_each budget age env held [] s = ([], s)"
| "evict_each budget age env held (m # cs) s =
     (if held \<le> budget then ([], s)
      else case env (m_id m) of (now, no_objects, no_row) \<Rightarrow>
        if time_sub now (m_last_accessed m) < age \<or> m_s3_prefix m = [] then evict_each budget age env held cs s
        else case s of (ms, obs) \<Rightarrow> case try_delete no_objects (m_s3_prefix m) obs of (deleted, obs') \<Rightarrow>
          case (if no_row \<or> \<not> deleted then None else remove_media (m_id m) ms) of
            None \<Rightarrow> evict_each budget age env held cs (ms, obs')
          | Some ms' \<Rightarrow> (case evict_each budget age env (held - m_size_bytes m) cs (ms', obs') of
                (gone, t) \<Rightarrow> (m # gone, t)))"

definition evict_run :: "int \<Rightarrow> duration \<Rightarrow> (uuid \<Rightarrow> time \<times> (object \<Rightarrow> bool) option \<times> bool) \<Rightarrow> uuid list \<Rightarrow> media list \<times> object list
    \<Rightarrow> media list \<times> media list \<times> object list" where
  "evict_run budget age env queued s =
     (if budget \<le> 0 \<or> ready_bytes (fst s) \<le> budget then ([], s)
      else evict_each budget age env (ready_bytes (fst s)) (evictable 50 queued (fst s)) s)"

section \<open>All processes together\<close>

text \<open>
  \<open>pp_sent\<close> are the objects each attempt stored, \<open>pp_packages\<close> the keys of each published prefix,
  \<open>pp_unused\<close> every prefix that was judged abandoned, \<open>pp_evicted\<close> every published one whose
  objects the evictor or an administrator set out to delete.
\<close>

record pipe =
  pp_jobs :: jsys
  pp_media :: "media list"
  pp_objects :: "object list"
  pp_candidates :: "string list"
  pp_unused :: "string list"
  pp_sent :: "(job \<times> string) list"
  pp_packages :: "(string \<times> string list) list"
  pp_evicted :: "string list"

definition no_pipe :: pipe where
  "no_pipe = \<lparr>pp_jobs = no_jobs, pp_media = [], pp_objects = [], pp_candidates = [], pp_unused = [],
     pp_sent = [], pp_packages = [], pp_evicted = []\<rparr>"

definition package_of :: "uuid \<Rightarrow> uuid \<Rightarrow> string" where
  "package_of i lease = attempt_prefix (uuid_text i) (uuid_text lease)"

text \<open>What a write of a media row may do short of publishing.\<close>

definition keeps_package :: "(media \<Rightarrow> media) \<Rightarrow> bool" where
  "keeps_package f \<longleftrightarrow> (\<forall>m. m_id (f m) = m_id m \<and> m_s3_prefix (f m) = m_s3_prefix m)"

inductive pstep :: "pipe \<Rightarrow> pipe \<Rightarrow> bool" where
  Queue: "jstep (pp_jobs s) js \<Longrightarrow> pstep s (s\<lparr>pp_jobs := js\<rparr>)"
| Admitted: "pstep s (s\<lparr>pp_media := snd (admit_media i now key url (pp_media s))\<rparr>)"
| Edited: "keeps_package f \<Longrightarrow> pstep s (s\<lparr>pp_media := map f (pp_media s)\<rparr>)"
| Sent: "j \<in> set (js_out (pp_jobs s)) \<Longrightarrow> jb_lease j = Some lease \<Longrightarrow> ob_key b = package_of i lease @ file
    \<Longrightarrow> pstep s (s\<lparr>pp_objects := put_object b (pp_objects s), pp_sent := (j, ob_key b) # pp_sent s\<rparr>)"
| Published: "j \<in> set (js_out (pp_jobs s)) \<Longrightarrow> jb_lease j = Some lease \<Longrightarrow> pm_prefix p = package_of i lease
    \<Longrightarrow> (\<forall>k \<in> set keys. (j, k) \<in> set (pp_sent s) \<and> has_prefix (pm_prefix p) k)
    \<Longrightarrow> fenced now j (publish_media now i p) (js_rows (pp_jobs s), pp_media s) = (Inr (), rows, ms)
    \<Longrightarrow> pstep s (s\<lparr>pp_jobs := (pp_jobs s)\<lparr>js_rows := rows\<rparr>, pp_media := ms, pp_packages := (pm_prefix p, keys) # pp_packages s\<rparr>)"
| Listed: "pstep s (s\<lparr>pp_candidates := prune_candidates older (pp_objects s)\<rparr>)"
| Judged: "pstep s (s\<lparr>pp_unused := unused_attempts (js_rows (pp_jobs s)) (pp_media s) (pp_candidates s) @ pp_unused s\<rparr>)"
| Pruned: "p \<in> set (pp_unused s)
    \<Longrightarrow> pstep s (s\<lparr>pp_objects := filter (\<lambda>b. \<not> (has_prefix p (ob_key b) \<and> gone b)) (pp_objects s)\<rparr>)"
| Emptied: "m \<in> set (pp_media s) \<Longrightarrow> m_s3_prefix m \<noteq> []
    \<Longrightarrow> pstep s (s\<lparr>pp_objects := filter (\<lambda>b. \<not> (has_prefix (m_s3_prefix m) (ob_key b) \<and> gone b)) (pp_objects s),
          pp_evicted := m_s3_prefix m # pp_evicted s\<rparr>)"
| Removed: "remove_media i (pp_media s) = Some ms \<Longrightarrow> pstep s (s\<lparr>pp_media := ms\<rparr>)"

inductive preach :: "pipe \<Rightarrow> bool" where
  start: "preach no_pipe"
| step: "preach s \<Longrightarrow> pstep s t \<Longrightarrow> preach t"

section \<open>Keys and prefixes\<close>

lemma slash_not_text: "CHR ''/'' \<notin> set (uuid_text n)"
  unfolding uuid_text_def by (rule slash_not_dec)

lemma uuid_parse_text: "uuid_parse (uuid_text n) = Some l \<Longrightarrow> l = n"
  by (simp add: uuid_parse_def uuid_text_def parse_uint_def split: if_splits)

lemma split_package: "split_on CHR ''/'' (package_of i lease @ file)
    = ''media'' # uuid_text i # uuid_text lease # split_on CHR ''/'' file"
  using slash_not_text by (simp add: package_of_def attempt_prefix_def media_dir_def)

lemma uuid_text_inj: "uuid_text i = uuid_text j \<longleftrightarrow> i = j"
proof
  assume "uuid_text i = uuid_text j"
  then have "read_digits 10 0 (dec i) = read_digits 10 0 (dec j)" by (simp add: uuid_text_def)
  then show "i = j" by simp
qed simp

lemma package_inj: "package_of i l @ f = package_of i' l' @ f' \<longleftrightarrow> i = i' \<and> l = l' \<and> f = f'"
proof
  assume eq: "package_of i l @ f = package_of i' l' @ f'"
  from arg_cong [OF this, of "split_on CHR ''/''"] have "i = i'" "l = l'"
    by (simp_all add: split_package uuid_text_inj)
  with eq show "i = i' \<and> l = l' \<and> f = f'" by simp
qed simp

lemma package_prefix: "has_prefix (package_of i l) (package_of i' l' @ f) \<longleftrightarrow> i = i' \<and> l = l'"
proof
  assume "has_prefix (package_of i l) (package_of i' l' @ f)"
  then have "package_of i l @ drop (length (package_of i l)) (package_of i' l' @ f) = package_of i' l' @ f"
    using append_take_drop_id [of "length (package_of i l)" "package_of i' l' @ f"] by (simp add: has_prefix_def)
  then show "i = i' \<and> l = l'" by (simp add: package_inj)
qed (simp add: has_prefix_def)

lemma package_not_Nil [simp]: "package_of i l \<noteq> []"
  by (simp add: package_of_def attempt_prefix_def media_dir_def)

lemma attempt_of_package:
  assumes "attempt_of_key (package_of i l @ file) = Some p"
  shows "p = package_of i l" and "uuid_parse (uuid_text l) = Some l"
proof -
  obtain x xs where "split_on CHR ''/'' file = x # xs" by (cases "split_on CHR ''/'' file") auto
  with assms have "p = package_of i l \<and> uuid_parse (uuid_text l) \<noteq> None"
    unfolding attempt_of_key_def split_package by (auto simp: package_of_def split: if_splits)
  with uuid_parse_text [of l] show "p = package_of i l" "uuid_parse (uuid_text l) = Some l" by auto
qed

text \<open>A package without a lease directory is never a candidate.\<close>

lemma legacy_not_candidate: "CHR ''/'' \<notin> set file \<Longrightarrow> attempt_of_key (media_dir (uuid_text i) @ file) = None"
  using slash_not_text by (simp add: attempt_of_key_def media_dir_def)

lemma latest_keys: "p \<in> fst ` set (latest_of latest obs) \<Longrightarrow> p \<in> fst ` set latest \<or> (\<exists>b \<in> set obs. attempt_of_key (ob_key b) = Some p)"
proof (induction latest obs rule: latest_of.induct)
  case (2 latest b bs)
  let ?l = "case attempt_of_key (ob_key b) of None \<Rightarrow> latest
    | Some p \<Rightarrow> if (case map_of latest p of None \<Rightarrow> zero_time | Some t \<Rightarrow> t) < ob_modified b
        then AList.update p (ob_modified b) latest else latest"
  have "p \<in> fst ` set ?l \<Longrightarrow> p \<in> fst ` set latest \<or> attempt_of_key (ob_key b) = Some p"
    by (simp add: dom_update split: option.splits if_splits) blast+
  with 2 show ?case by (simp only: latest_of.simps list.set) blast
qed simp

lemma candidate_of_object: "p \<in> set (prune_candidates older obs) \<Longrightarrow> \<exists>b \<in> set obs. attempt_of_key (ob_key b) = Some p"
  using latest_keys [of p "[]"] by (fastforce simp: prune_candidates_def)

section \<open>Leases are never handed out twice\<close>

definition handed :: "jsys \<Rightarrow> uuid \<Rightarrow> bool" where
  "handed js l \<longleftrightarrow> Some l \<in> jb_lease ` set (js_out js)"

definition leased :: "jsys \<Rightarrow> uuid \<Rightarrow> bool" where
  "leased js l \<longleftrightarrow> (\<exists>r \<in> set (js_rows js). jb_status r = JobRunning \<and> jb_lease r = Some l)"

lemma leased_holds:
  assumes "jobs_ok js" and "j \<in> set (js_out js)" and "jb_lease j = Some l"
  shows "leased js l \<longleftrightarrow> holds_job j (js_rows js)"
proof
  assume "leased js l"
  then obtain r where r: "r \<in> set (js_rows js)" "jb_status r = JobRunning" "jb_lease r = Some l" by (auto simp: leased_def)
  with assms(1) obtain k where k: "k \<in> set (js_out js)" "jb_lease k = Some l" "jb_id k = jb_id r"
    unfolding jobs_ok_def row_ok_def by blast
  have "inj_on jb_lease (set (js_out js))" using assms(1) by (simp add: jobs_ok_def distinct_map)
  then have "k = j" by (rule inj_onD) (use k assms in simp_all)
  with r k show "holds_job j (js_rows js)" by (auto simp: holds_job_def owned_by_def)
next
  assume "holds_job j (js_rows js)"
  with assms(3) show "leased js l" by (auto simp: holds_job_def owned_by_def leased_def)
qed

lemma lease_stays_free:
  assumes "jstep js js'" and "jobs_ok js" and "handed js l" and "\<not> leased js l"
  shows "handed js' l \<and> \<not> leased js' l"
proof -
  from assms(3) obtain j where j: "j \<in> set (js_out js)" "jb_lease j = Some l" by (auto simp: handed_def)
  with assms leased_holds have "\<not> holds_job j (js_rows js)" by blast
  from lost_stays_lost [OF assms(1) j(1) this] have k: "j \<in> set (js_out js')" "\<not> holds_job j (js_rows js')" by simp_all
  with leased_holds [OF jstep_ok [OF assms(1,2)] k(1) j(2)] j show ?thesis by (metis handed_def imageI)
qed

lemma out_grows: "jstep js js' \<Longrightarrow> set (js_out js) \<subseteq> set (js_out js')"
  by (induction rule: jstep.induct) auto

lemma fenced_ok:
  assumes "fenced now j fn (rows, p) = (Inr (), rows', p')"
  shows "holds_job j rows" and "rows' = snd (renew now j rows)" and "fn p = Some p'"
  using assms by (auto simp: fenced_def renew_def write_owned_def holds_job_def split: if_splits option.splits)

section \<open>What every step keeps\<close>

definition condemned :: "pipe \<Rightarrow> string \<Rightarrow> bool" where
  "condemned s p \<longleftrightarrow> (\<exists>i l. p = package_of i l \<and> handed (pp_jobs s) l \<and> \<not> leased (pp_jobs s) l)
     \<and> (\<forall>m \<in> set (pp_media s). m_s3_prefix m \<noteq> p)"

definition sent_ok :: "pipe \<Rightarrow> bool" where
  "sent_ok s \<longleftrightarrow> (\<forall>j k. (j, k) \<in> set (pp_sent s) \<longrightarrow> j \<in> set (js_out (pp_jobs s)) \<and> (\<exists>i l f. jb_lease j = Some l \<and> k = package_of i l @ f)
     \<and> (k \<in> ob_key ` set (pp_objects s) \<or> (\<exists>p \<in> set (pp_unused s) \<union> set (pp_evicted s). has_prefix p k)))"

definition stored_ok :: "pipe \<Rightarrow> bool" where
  "stored_ok s \<longleftrightarrow> ob_key ` set (pp_objects s) \<subseteq> snd ` set (pp_sent s)
     \<and> (\<forall>p \<in> set (pp_candidates s). \<exists>i l. p = package_of i l \<and> handed (pp_jobs s) l \<and> uuid_parse (uuid_text l) = Some l)"

definition published_ok :: "pipe \<Rightarrow> bool" where
  "published_ok s \<longleftrightarrow> (\<forall>p \<in> set (pp_evicted s) \<union> (m_s3_prefix ` set (pp_media s) - {[]}). \<exists>i l. p = package_of i l)
     \<and> (\<forall>m \<in> set (pp_media s). m_s3_prefix m \<noteq> [] \<longrightarrow> m_s3_prefix m \<in> fst ` set (pp_packages s))
     \<and> (\<forall>p ks. (p, ks) \<in> set (pp_packages s) \<longrightarrow> set ks \<subseteq> snd ` set (pp_sent s) \<and> (\<forall>k \<in> set ks. has_prefix p k))"

definition packages_ok :: "pipe \<Rightarrow> bool" where
  "packages_ok s \<longleftrightarrow> jobs_ok (pp_jobs s) \<and> sent_ok s \<and> stored_ok s \<and> published_ok s \<and> (\<forall>p \<in> set (pp_unused s). condemned s p)"

lemma condemned_mono:
  assumes "condemned s p" and "jstep (pp_jobs s) (pp_jobs t) \<or> pp_jobs t = pp_jobs s" and "jobs_ok (pp_jobs s)"
    and "\<forall>m \<in> set (pp_media t). m_s3_prefix m = [] \<or> m_s3_prefix m \<in> m_s3_prefix ` set (pp_media s)"
  shows "condemned t p"
proof -
  from assms(1) obtain i l where p: "p = package_of i l" "handed (pp_jobs s) l" "\<not> leased (pp_jobs s) l"
    and m: "\<forall>m \<in> set (pp_media s). m_s3_prefix m \<noteq> p" by (auto simp: condemned_def)
  have "handed (pp_jobs t) l \<and> \<not> leased (pp_jobs t) l"
    using assms(2) lease_stays_free [OF _ assms(3) p(2,3)] p by auto
  moreover have "\<forall>m \<in> set (pp_media t). m_s3_prefix m \<noteq> p"
    using assms(4) m p(1) by (metis image_iff package_not_Nil)
  ultimately show ?thesis using p(1) by (auto simp: condemned_def)
qed

lemma sent_ok_mono:
  assumes "sent_ok s" and "set (js_out (pp_jobs s)) \<subseteq> set (js_out (pp_jobs t))" and "pp_sent t = pp_sent s"
    and "pp_objects t = pp_objects s" and "set (pp_unused s) \<subseteq> set (pp_unused t)" and "set (pp_evicted s) \<subseteq> set (pp_evicted t)"
  shows "sent_ok t"
  using assms(1,2,5,6) unfolding sent_ok_def assms(3,4) by blast

lemma handed_mono: "handed js l \<Longrightarrow> set (js_out js) \<subseteq> set (js_out js') \<Longrightarrow> handed js' l"
  by (auto simp: handed_def)

lemma stored_ok_mono:
  assumes "stored_ok s" and "set (js_out (pp_jobs s)) \<subseteq> set (js_out (pp_jobs t))" and "pp_sent t = pp_sent s"
    and "set (pp_objects t) \<subseteq> set (pp_objects s)" and "pp_candidates t = pp_candidates s"
  shows "stored_ok t"
proof -
  have "ob_key ` set (pp_objects t) \<subseteq> ob_key ` set (pp_objects s)" using assms(4) by (rule image_mono)
  with assms handed_mono [OF _ assms(2)] show ?thesis unfolding stored_ok_def by (simp only:) blast
qed

lemma bspec_subset: "A \<subseteq> B \<Longrightarrow> \<forall>x \<in> B. P x \<Longrightarrow> \<forall>x \<in> A. P x"
  by blast

lemma published_ok_mono:
  assumes "published_ok s" and "\<forall>m \<in> set (pp_media t). m_s3_prefix m = [] \<or> m_s3_prefix m \<in> m_s3_prefix ` set (pp_media s)"
    and "pp_packages t = pp_packages s" and "snd ` set (pp_sent s) \<subseteq> snd ` set (pp_sent t)"
    and "set (pp_evicted t) \<subseteq> set (pp_evicted s) \<union> (m_s3_prefix ` set (pp_media s) - {[]})"
  shows "published_ok t"
proof -
  note ok = assms(1) [unfolded published_ok_def]
  have "set (pp_evicted t) \<union> (m_s3_prefix ` set (pp_media t) - {[]}) \<subseteq> set (pp_evicted s) \<union> (m_s3_prefix ` set (pp_media s) - {[]})"
    using assms(2,5) by blast
  from this ok [THEN conjunct1]
  have "\<forall>p \<in> set (pp_evicted t) \<union> (m_s3_prefix ` set (pp_media t) - {[]}). \<exists>i l. p = package_of i l" by (rule bspec_subset)
  moreover have "\<forall>m \<in> set (pp_media t). m_s3_prefix m \<noteq> [] \<longrightarrow> m_s3_prefix m \<in> fst ` set (pp_packages t)"
    using ok [THEN conjunct2, THEN conjunct1] assms(2) unfolding assms(3) by (metis (no_types, lifting) image_iff)
  moreover have "\<forall>p ks. (p, ks) \<in> set (pp_packages t) \<longrightarrow> set ks \<subseteq> snd ` set (pp_sent t) \<and> (\<forall>k \<in> set ks. has_prefix p k)"
    using ok [THEN conjunct2, THEN conjunct2] assms(4) unfolding assms(3) by blast
  ultimately show ?thesis unfolding published_ok_def by (intro conjI)
qed

lemma packages_ok_mono:
  assumes "packages_ok s" and "jstep (pp_jobs s) (pp_jobs t) \<or> pp_jobs t = pp_jobs s"
    and "\<forall>m \<in> set (pp_media t). m_s3_prefix m = [] \<or> m_s3_prefix m \<in> m_s3_prefix ` set (pp_media s)"
    and "pp_objects t = pp_objects s" and "pp_candidates t = pp_candidates s" and "pp_unused t = pp_unused s"
    and "pp_sent t = pp_sent s" and "pp_packages t = pp_packages s" and "pp_evicted t = pp_evicted s"
  shows "packages_ok t"
proof -
  have out: "set (js_out (pp_jobs s)) \<subseteq> set (js_out (pp_jobs t))" using assms(2) out_grows by auto
  have j: "jobs_ok (pp_jobs t)" using assms(1,2) jstep_ok by (auto simp: packages_ok_def)
  show ?thesis
    using assms j sent_ok_mono [OF _ out] stored_ok_mono [OF _ out] published_ok_mono [OF _ assms(3)]
      condemned_mono [OF _ assms(2) _ assms(3)]
    by (simp add: packages_ok_def)
qed

lemma admit_media_prefixes: "m \<in> set (snd (admit_media i now key url ms)) \<Longrightarrow> m \<in> set ms \<or> m_s3_prefix m = []"
  by (auto simp: admit_media_def media_row_def split: option.splits)

lemma on_media_rows: "on_media i f ms = Some ms' \<Longrightarrow> m \<in> set ms' \<Longrightarrow> m \<in> set ms \<or> (\<exists>x \<in> set ms. m = f x)"
  by (auto simp: on_media_def split: if_splits)

lemma packages_ok_sent:
  assumes "packages_ok s" and "j \<in> set (js_out (pp_jobs s))" and "jb_lease j = Some lease" and "ob_key b = package_of i lease @ file"
  shows "packages_ok (s\<lparr>pp_objects := put_object b (pp_objects s), pp_sent := (j, ob_key b) # pp_sent s\<rparr>)" (is "packages_ok ?t")
proof -
  have keys: "ob_key ` set (put_object b (pp_objects s)) = insert (ob_key b) (ob_key ` set (pp_objects s))"
    by (auto simp: put_object_def image_iff)
  have "sent_ok ?t"
    using assms unfolding packages_ok_def sent_ok_def by (auto simp: keys)
  moreover have "stored_ok ?t"
    using assms(1) by (auto simp: packages_ok_def stored_ok_def keys)
  moreover have "published_ok ?t"
    by (rule published_ok_mono [of s]) (use assms(1) in \<open>auto simp: packages_ok_def\<close>)
  moreover have "condemned ?t p" if "condemned s p" for p
    using that by (simp add: condemned_def)
  ultimately show ?thesis using assms(1) by (simp add: packages_ok_def)
qed

text \<open>Nothing that was judged abandoned is published any more: its lease is gone.\<close>

lemma packages_ok_published:
  assumes ok: "packages_ok s" and j: "j \<in> set (js_out (pp_jobs s))" "jb_lease j = Some lease" and p: "pm_prefix p = package_of i lease"
    and keys: "\<forall>k \<in> set keys. (j, k) \<in> set (pp_sent s) \<and> has_prefix (pm_prefix p) k"
    and fenced: "fenced now j (publish_media now i p) (js_rows (pp_jobs s), pp_media s) = (Inr (), rows, ms)"
  shows "packages_ok (s\<lparr>pp_jobs := (pp_jobs s)\<lparr>js_rows := rows\<rparr>, pp_media := ms, pp_packages := (pm_prefix p, keys) # pp_packages s\<rparr>)"
    (is "packages_ok ?t")
proof -
  note f = fenced_ok [OF fenced]
  have jobs: "jobs_ok (pp_jobs s)" using ok by (simp add: packages_ok_def)
  have leased: "leased (pp_jobs s) lease" using leased_holds [OF jobs j] f(1) by simp
  have step: "jstep (pp_jobs s) (pp_jobs ?t)" using jstep.Extended [OF j(1), of now] f(2) by simp
  have ms: "m \<in> set (pp_media s) \<or> m_s3_prefix m = pm_prefix p \<or> m_s3_prefix m \<in> m_s3_prefix ` set (pp_media s)" if "m \<in> set ms" for m
    using on_media_rows [OF f(3) [unfolded publish_media_def] that] by auto
  have "condemned ?t q" if q: "condemned s q" for q
  proof -
    from q obtain a l where l: "q = package_of a l" "handed (pp_jobs s) l" "\<not> leased (pp_jobs s) l" by (auto simp: condemned_def)
    then have "pm_prefix p \<noteq> q" using leased p package_inj [of a l "[]" i lease "[]"] by auto
    moreover have "handed (pp_jobs ?t) l \<and> \<not> leased (pp_jobs ?t) l" by (rule lease_stays_free [OF step jobs l(2,3)])
    moreover have "m_s3_prefix m \<noteq> q" if "m \<in> set ms" for m
      using ms [OF that] calculation(1) q by (auto simp: condemned_def)
    ultimately show ?thesis unfolding condemned_def using l(1) by (intro conjI exI [of _ a] exI [of _ l] ballI) simp_all
  qed
  moreover have "sent_ok ?t" by (rule sent_ok_mono [of s]) (use ok in \<open>simp_all add: packages_ok_def\<close>)
  moreover have "stored_ok ?t" by (rule stored_ok_mono [of s]) (use ok in \<open>simp_all add: packages_ok_def\<close>)
  moreover have "published_ok ?t"
  proof -
    have pub: "published_ok s" using ok by (simp add: packages_ok_def)
    have "set (pp_evicted s) \<union> (m_s3_prefix ` set ms - {[]})
        \<subseteq> insert (package_of i lease) (set (pp_evicted s) \<union> (m_s3_prefix ` set (pp_media s) - {[]}))"
    proof
      fix q
      assume "q \<in> set (pp_evicted s) \<union> (m_s3_prefix ` set ms - {[]})"
      then show "q \<in> insert (package_of i lease) (set (pp_evicted s) \<union> (m_s3_prefix ` set (pp_media s) - {[]}))"
        using ms p by auto
    qed
    moreover have "\<forall>q \<in> insert (package_of i lease) (set (pp_evicted s) \<union> (m_s3_prefix ` set (pp_media s) - {[]})). \<exists>i l. q = package_of i l"
      using pub [unfolded published_ok_def, THEN conjunct1] by blast
    ultimately have "\<forall>q \<in> set (pp_evicted s) \<union> (m_s3_prefix ` set ms - {[]}). \<exists>i l. q = package_of i l"
      by (rule bspec_subset)
    moreover have "m_s3_prefix m \<in> insert (pm_prefix p) (fst ` set (pp_packages s))" if "m \<in> set ms" "m_s3_prefix m \<noteq> []" for m
      using ms [OF that(1)] that(2) pub unfolding published_ok_def by (metis (no_types, lifting) image_iff insertI1 insertI2)
    moreover have "set keys \<subseteq> snd ` set (pp_sent s)" using keys by force
    ultimately show ?thesis using pub keys unfolding published_ok_def by (simp del: split_paired_All)
  qed
  ultimately show ?thesis using ok jstep_ok [OF step jobs] by (simp add: packages_ok_def)
qed

lemma split_part_package: "split_part (package_of i l) 3 = uuid_text l"
  using split_package [of i l "[]"] by (simp add: split_part_def)

lemma packages_ok_judged:
  assumes ok: "packages_ok s"
  shows "packages_ok (s\<lparr>pp_unused := unused_attempts (js_rows (pp_jobs s)) (pp_media s) (pp_candidates s) @ pp_unused s\<rparr>)"
    (is "packages_ok ?t")
proof -
  have "condemned ?t p" if p: "p \<in> set (unused_attempts (js_rows (pp_jobs s)) (pp_media s) (pp_candidates s))" for p
  proof -
    have c: "p \<in> set (pp_candidates s)" and m: "\<forall>m \<in> set (pp_media s). m_s3_prefix m \<noteq> p"
      and r: "\<forall>r \<in> set (js_rows (pp_jobs s)). \<not> (jb_status r = JobRunning \<and> jb_lease r \<noteq> None \<and> jb_lease r = uuid_parse (split_part p 3))"
      using p by (simp_all add: unused_attempts_def)
    from c ok obtain i l where l: "p = package_of i l" "handed (pp_jobs s) l" "uuid_parse (uuid_text l) = Some l"
      unfolding packages_ok_def stored_ok_def by blast
    have "\<not> leased (pp_jobs s) l" using r unfolding l(1) split_part_package l(3) leased_def by auto
    with l m show ?thesis unfolding condemned_def by auto
  qed
  moreover have "condemned ?t p" if "condemned s p" for p using that by (simp add: condemned_def)
  moreover have "sent_ok ?t" by (rule sent_ok_mono [of s]) (use ok in \<open>simp_all add: packages_ok_def\<close>)
  moreover have "stored_ok ?t" by (rule stored_ok_mono [of s]) (use ok in \<open>simp_all add: packages_ok_def\<close>)
  moreover have "published_ok ?t" by (rule published_ok_mono [of s]) (use ok in \<open>auto simp: packages_ok_def\<close>)
  ultimately show ?thesis using ok by (auto simp: packages_ok_def)
qed

lemma sent_ok_deleted:
  assumes "sent_ok s" and "p \<in> set (pp_unused t) \<union> set (pp_evicted t)" and "pp_jobs t = pp_jobs s" and "pp_sent t = pp_sent s"
    and "pp_objects t = filter (\<lambda>b. \<not> (has_prefix p (ob_key b) \<and> gone b)) (pp_objects s)"
    and "set (pp_unused s) \<subseteq> set (pp_unused t)" and "set (pp_evicted s) \<subseteq> set (pp_evicted t)"
  shows "sent_ok t"
  unfolding sent_ok_def assms(3,4)
proof (intro allI impI)
  fix j k
  assume jk: "(j, k) \<in> set (pp_sent s)"
  have "k \<in> ob_key ` set (pp_objects t) \<or> (\<exists>p \<in> set (pp_unused t) \<union> set (pp_evicted t). has_prefix p k)"
    if "k \<in> ob_key ` set (pp_objects s)"
    using that assms(2,5) by (cases "has_prefix p k") auto
  with assms(1,6,7) jk show "j \<in> set (js_out (pp_jobs s)) \<and> (\<exists>i l f. jb_lease j = Some l \<and> k = package_of i l @ f) \<and>
      (k \<in> ob_key ` set (pp_objects t) \<or> (\<exists>p \<in> set (pp_unused t) \<union> set (pp_evicted t). has_prefix p k))"
    unfolding sent_ok_def by blast
qed

lemma packages_ok_deleted:
  assumes ok: "packages_ok s" and "p \<in> set (pp_unused t) \<union> set (pp_evicted t)"
    and "t = s\<lparr>pp_objects := filter (\<lambda>b. \<not> (has_prefix p (ob_key b) \<and> gone b)) (pp_objects s), pp_evicted := es\<rparr>"
    and "set (pp_evicted s) \<subseteq> set es" and "set es \<subseteq> set (pp_evicted s) \<union> (m_s3_prefix ` set (pp_media s) - {[]})"
  shows "packages_ok t"
proof -
  have "sent_ok t" by (rule sent_ok_deleted [OF _ assms(2)]) (use ok assms(3,4) in \<open>simp_all add: packages_ok_def\<close>)
  moreover have "stored_ok t" by (rule stored_ok_mono [of s]) (use ok assms(3) in \<open>auto simp: packages_ok_def\<close>)
  moreover have "published_ok t" by (rule published_ok_mono [of s]) (use ok assms(3,5) in \<open>auto simp: packages_ok_def\<close>)
  moreover have "condemned t p" if "condemned s p" for p using that assms(3) by (simp add: condemned_def)
  ultimately show ?thesis using ok assms(3) by (simp add: packages_ok_def)
qed

lemma packages_ok_listed:
  assumes ok: "packages_ok s"
  shows "packages_ok (s\<lparr>pp_candidates := prune_candidates older (pp_objects s)\<rparr>)" (is "packages_ok ?t")
proof -
  have "\<exists>i l. p = package_of i l \<and> handed (pp_jobs s) l \<and> uuid_parse (uuid_text l) = Some l"
    if p: "p \<in> set (prune_candidates older (pp_objects s))" for p
  proof -
    from candidate_of_object [OF p] obtain b where b: "b \<in> set (pp_objects s)" "attempt_of_key (ob_key b) = Some p" by blast
    with ok obtain j where "(j, ob_key b) \<in> set (pp_sent s)" unfolding packages_ok_def stored_ok_def by force
    with ok obtain i l f where j: "j \<in> set (js_out (pp_jobs s))" "jb_lease j = Some l" "ob_key b = package_of i l @ f"
      unfolding packages_ok_def sent_ok_def by blast
    have "handed (pp_jobs s) l" using j(1,2) unfolding handed_def by (metis imageI)
    with attempt_of_package [OF b(2) [unfolded j(3)]] show ?thesis by blast
  qed
  then have "stored_ok ?t" using ok by (simp add: packages_ok_def stored_ok_def)
  moreover have "condemned ?t p" if "condemned s p" for p using that by (simp add: condemned_def)
  moreover have "sent_ok ?t" by (rule sent_ok_mono [of s]) (use ok in \<open>simp_all add: packages_ok_def\<close>)
  moreover have "published_ok ?t" by (rule published_ok_mono [of s]) (use ok in \<open>auto simp: packages_ok_def\<close>)
  ultimately show ?thesis using ok by (simp add: packages_ok_def)
qed

lemma pstep_ok: "pstep s t \<Longrightarrow> packages_ok s \<Longrightarrow> packages_ok t"
proof (induction rule: pstep.induct)
  case (Queue s js)
  show ?case by (rule packages_ok_mono [OF Queue.prems]) (use Queue.hyps in simp_all)
next
  case (Admitted s i now key url)
  have m: "\<forall>m \<in> set (snd (admit_media i now key url (pp_media s))). m_s3_prefix m = [] \<or> m_s3_prefix m \<in> m_s3_prefix ` set (pp_media s)"
    using admit_media_prefixes by blast
  show ?case by (rule packages_ok_mono [OF Admitted.prems]) (use m in simp_all)
next
  case (Edited f s)
  then have m: "\<forall>m \<in> set (map f (pp_media s)). m_s3_prefix m = [] \<or> m_s3_prefix m \<in> m_s3_prefix ` set (pp_media s)"
    by (auto simp: keeps_package_def)
  show ?case by (rule packages_ok_mono [OF Edited.prems]) (use m in simp_all)
next
  case (Removed i s ms)
  then have m: "\<forall>m \<in> set ms. m_s3_prefix m = [] \<or> m_s3_prefix m \<in> m_s3_prefix ` set (pp_media s)"
    by (auto simp: remove_media_def split: if_splits)
  show ?case by (rule packages_ok_mono [OF Removed.prems]) (use m in simp_all)
next
  case (Pruned p s gone)
  show ?case by (rule packages_ok_deleted [OF Pruned.prems, where p = p and gone = gone and es = "pp_evicted s"]) (use Pruned.hyps in auto)
next
  case (Emptied m s gone)
  show ?case by (rule packages_ok_deleted [OF Emptied.prems, where p = "m_s3_prefix m" and gone = gone and es = "m_s3_prefix m # pp_evicted s"]) (use Emptied.hyps in auto)
next
  case (Sent j s lease b i nm)
  then show ?case by (intro packages_ok_sent)
next
  case (Published j s lease p i keys now rows ms)
  then show ?case by (intro packages_ok_published)
next
  case (Listed s older)
  then show ?case by (rule packages_ok_listed)
next
  case (Judged s)
  then show ?case by (rule packages_ok_judged)
qed

lemma preach_ok: "preach s \<Longrightarrow> packages_ok s"
proof (induction rule: preach.induct)
  case start
  show ?case
    by (simp add: packages_ok_def sent_ok_def stored_ok_def published_ok_def no_pipe_def jobs_ok_def no_jobs_def)
qed (rule pstep_ok)

text \<open>
  C31: however uploads, publications, the listing, judging and deleting of abandoned packages and
  the removal of media interleave, every object of a published package is still stored, unless
  the evictor or an administrator set out to delete that package.
\<close>

theorem published_packages_survive:
  assumes "preach s" and "m \<in> set (pp_media s)" and "m_s3_prefix m \<noteq> []" and "m_s3_prefix m \<notin> set (pp_evicted s)"
  shows "m_s3_prefix m \<in> fst ` set (pp_packages s)
    \<and> (\<forall>keys. (m_s3_prefix m, keys) \<in> set (pp_packages s) \<longrightarrow> set keys \<subseteq> ob_key ` set (pp_objects s))"
proof (intro conjI allI impI subsetI)
  note ok = preach_ok [OF assms(1)]
  note pub = ok [unfolded packages_ok_def published_ok_def]
  show "m_s3_prefix m \<in> fst ` set (pp_packages s)" using pub assms(2,3) by blast
  fix keys k
  assume "(m_s3_prefix m, keys) \<in> set (pp_packages s)" and "k \<in> set keys"
  with pub obtain j where k: "(j, k) \<in> set (pp_sent s)" "has_prefix (m_s3_prefix m) k" by force
  from k(1) ok obtain a lease f where a: "k = package_of a lease @ f"
    and stored: "k \<in> ob_key ` set (pp_objects s) \<or> (\<exists>p \<in> set (pp_unused s) \<union> set (pp_evicted s). has_prefix p k)"
    unfolding packages_ok_def sent_ok_def by blast
  from pub assms(2,3) obtain i l where "m_s3_prefix m = package_of i l" by blast
  with a k(2) have p: "m_s3_prefix m = package_of a lease" by (simp add: package_prefix)
  have "p = m_s3_prefix m" if "p \<in> set (pp_unused s) \<union> set (pp_evicted s)" "has_prefix p k" for p
  proof -
    have "condemned s p \<or> p \<in> set (pp_evicted s)" using that(1) ok unfolding packages_ok_def by (simp only: Un_iff) metis
    then have "\<exists>i l. p = package_of i l"
      using pub [THEN conjunct2, THEN conjunct2, THEN conjunct2, THEN conjunct1, THEN conjunct1] by (auto simp: condemned_def)
    with that(2) a p show ?thesis by (auto simp: package_prefix)
  qed
  moreover have "m_s3_prefix m \<notin> set (pp_unused s)"
    using ok assms(2) unfolding packages_ok_def condemned_def by blast
  ultimately show "k \<in> ob_key ` set (pp_objects s)" using stored assms(4) by blast
qed

section \<open>What eviction removes\<close>

definition evicted_ok :: "int \<Rightarrow> duration \<Rightarrow> (uuid \<Rightarrow> time \<times> (object \<Rightarrow> bool) option \<times> bool) \<Rightarrow> int \<Rightarrow> media list \<Rightarrow> media list \<Rightarrow> bool" where
  "evicted_ok budget age env held cs gone \<longleftrightarrow> set gone \<subseteq> set cs
     \<and> (\<forall>m \<in> set gone. age \<le> time_sub (fst (env (m_id m))) (m_last_accessed m) \<and> m_s3_prefix m \<noteq> [])
     \<and> (\<forall>k < length gone. budget < held - sum_list (map m_size_bytes (take k gone)))"

definition lost_objects_ok :: "media list \<Rightarrow> object list \<Rightarrow> object list \<Rightarrow> bool" where
  "lost_objects_ok cs obs obs' \<longleftrightarrow> set obs' \<subseteq> set obs
     \<and> (\<forall>b \<in> set obs - set obs'. \<exists>m \<in> set cs. m_s3_prefix m \<noteq> [] \<and> has_prefix (m_s3_prefix m) (ob_key b))"

lemma evicted_ok_Cons:
  assumes "budget < held" and "age \<le> time_sub (fst (env (m_id m))) (m_last_accessed m)" and "m_s3_prefix m \<noteq> []"
    and "evicted_ok budget age env (held - m_size_bytes m) cs gone"
  shows "evicted_ok budget age env held (m # cs) (m # gone)"
proof -
  have "budget < held - sum_list (map m_size_bytes (take k (m # gone)))" if "k < length (m # gone)" for k
    using that assms(1,4) by (cases k) (simp_all add: evicted_ok_def diff_diff_eq)
  with assms show ?thesis unfolding evicted_ok_def by auto
qed

lemma evicted_ok_skip: "evicted_ok budget age env held cs gone \<Longrightarrow> evicted_ok budget age env held (m # cs) gone"
  by (auto simp: evicted_ok_def)

lemma lost_objects_skip: "lost_objects_ok cs obs obs' \<Longrightarrow> lost_objects_ok (m # cs) obs obs'"
  by (auto simp: lost_objects_ok_def)

lemma lost_objects_Cons:
  "m_s3_prefix m \<noteq> [] \<Longrightarrow> lost_objects_ok cs (snd (try_delete failure (m_s3_prefix m) obs)) obs' \<Longrightarrow> lost_objects_ok (m # cs) obs obs'"
  by (cases failure) (auto simp: lost_objects_ok_def delete_prefix_def try_delete_def)

lemma evict_each_ok:
  "evict_each budget age env held cs (ms, obs) = (gone, ms', obs') \<Longrightarrow>
     evicted_ok budget age env held cs gone \<and> lost_objects_ok cs obs obs' \<and> ms' = filter (\<lambda>m. m_id m \<notin> m_id ` set gone) ms"
proof (induction cs arbitrary: held ms obs gone)
  case Nil
  then show ?case by (auto simp: evicted_ok_def lost_objects_ok_def)
next
  case (Cons m cs)
  obtain now no_objects no_row where env: "env (m_id m) = (now, no_objects, no_row)" by (cases "env (m_id m)")
  obtain deleted obs1 where d: "try_delete no_objects (m_s3_prefix m) obs = (deleted, obs1)"
    by (cases "try_delete no_objects (m_s3_prefix m) obs")
  let ?skip = "time_sub now (m_last_accessed m) < age \<or> m_s3_prefix m = []"
  let ?row = "if no_row \<or> \<not> deleted then None else remove_media (m_id m) ms"
  consider "held \<le> budget" | "\<not> held \<le> budget" ?skip | "\<not> held \<le> budget" "\<not> ?skip" "?row = None"
    | ms1 where "\<not> held \<le> budget" "\<not> ?skip" "?row = Some ms1" by (cases ?row) blast+
  then show ?case
  proof cases
    case 1
    with Cons.prems show ?thesis by (simp add: evicted_ok_def lost_objects_ok_def)
  next
    case 2
    with Cons.prems env have "evict_each budget age env held cs (ms, obs) = (gone, ms', obs')" by simp
    from Cons.IH [OF this] show ?thesis using evicted_ok_skip lost_objects_skip by metis
  next
    case 3
    with Cons.prems env d have "evict_each budget age env held cs (ms, obs1) = (gone, ms', obs')" by simp
    from Cons.IH [OF this] show ?thesis
      using evicted_ok_skip lost_objects_Cons [of m cs no_objects obs obs'] 3(2) d by auto
  next
    case (4 ms1)
    then have ms1: "ms1 = filter (\<lambda>x. m_id x \<noteq> m_id m) ms" by (auto simp: remove_media_def split: if_splits)
    have go: "budget < held" "age \<le> time_sub (fst (env (m_id m))) (m_last_accessed m)" "m_s3_prefix m \<noteq> []"
      using 4 env by auto
    obtain g1 where g: "gone = m # g1" and rest: "evict_each budget age env (held - m_size_bytes m) cs (ms1, obs1) = (g1, ms', obs')"
      using Cons.prems 4 env d by (auto split: prod.splits)
    from Cons.IH [OF rest] show ?thesis
      using evicted_ok_Cons [where budget = budget and held = held and age = age and env = env and m = m and cs = cs and gone = g1] go lost_objects_Cons [OF go(3), of cs no_objects obs obs'] d by (auto simp: g ms1)
  qed
qed

text \<open>
  An eviction pass removes only packages that were ready and in no queue when it looked, and
  that nobody opened for the minimum age; it goes on only while the cache is over its budget,
  keeps every other row as it was, and deletes no other object.
\<close>

theorem eviction_is_bounded:
  assumes "evict_run budget age env queued (ms, obs) = (gone, ms', obs')"
  shows "(\<forall>m \<in> set gone. m \<in> set ms \<and> m_status m = MediaReady \<and> m_id m \<notin> set queued \<and> m_s3_prefix m \<noteq> []
       \<and> age \<le> time_sub (fst (env (m_id m))) (m_last_accessed m))
    \<and> (\<forall>k < length gone. budget < ready_bytes ms - sum_list (map m_size_bytes (take k gone)))
    \<and> ms' = filter (\<lambda>m. m_id m \<notin> m_id ` set gone) ms \<and> set obs' \<subseteq> set obs
    \<and> (\<forall>b \<in> set obs - set obs'. \<exists>m \<in> set ms. m_id m \<notin> set queued \<and> m_s3_prefix m \<noteq> [] \<and> has_prefix (m_s3_prefix m) (ob_key b))"
proof (cases "budget \<le> 0 \<or> ready_bytes ms \<le> budget")
  case True
  with assms show ?thesis by (auto simp: evict_run_def)
next
  case False
  with assms have "evict_each budget age env (ready_bytes ms) (evictable 50 queued ms) (ms, obs) = (gone, ms', obs')"
    by (simp add: evict_run_def)
  note ok = evict_each_ok [OF this]
  have sub: "m \<in> set ms \<and> m_status m = MediaReady \<and> m_id m \<notin> set queued" if "m \<in> set (evictable 50 queued ms)" for m
    using in_set_takeD [OF that [unfolded evictable_def]] by simp
  show ?thesis
    using ok sub unfolding evicted_ok_def lost_objects_ok_def by (intro conjI) (blast+)
qed

definition stored_media :: "uuid \<Rightarrow> uuid \<Rightarrow> int \<Rightarrow> time \<Rightarrow> media" where
  "stored_media i lease n seen = (media_row i (uuid_text i) [] 0)\<lparr>m_status := MediaReady, m_size_bytes := n,
     m_s3_prefix := package_of i lease, m_last_accessed := seen\<rparr>"

text \<open>Of three packages the one in a queue stays, and the younger of the others, as the budget is met.\<close>

theorem eviction_is_bounded_witness:
  "evict_run 20 5 (\<lambda>_. (100, None, False)) [1] ([stored_media 1 1 10 0, stored_media 2 2 10 7, stored_media 3 3 10 6],
      [\<lparr>ob_key = package_of 3 3 @ ''x'', ob_modified = 0, ob_etag = []\<rparr>])
     = ([stored_media 3 3 10 6], [stored_media 1 1 10 0, stored_media 2 2 10 7], [])
    \<and> stored_media 3 3 10 6 \<in> set [stored_media 1 1 10 0, stored_media 2 2 10 7, stored_media 3 3 10 6]"
proof -
  have e: "evict_run 20 5 (\<lambda>_. (100, None, False)) [1] ([stored_media 1 1 10 0, stored_media 2 2 10 7, stored_media 3 3 10 6],
      [\<lparr>ob_key = package_of 3 3 @ ''x'', ob_modified = 0, ob_etag = []\<rparr>])
     = ([stored_media 3 3 10 6], [stored_media 1 1 10 0, stored_media 2 2 10 7], [])"
    by (simp add: evict_run_def ready_bytes_def evictable_def stored_media_def media_row_def time_sub_def remove_media_def
        try_delete_def delete_prefix_def package_prefix)
  with eviction_is_bounded [OF e] show ?thesis by simp
qed

section \<open>A package from upload to pruning\<close>

lemma jobs_reach: "jreach js \<Longrightarrow> preach (no_pipe\<lparr>pp_jobs := js\<rparr>)"
proof (induction rule: jreach.induct)
  case start
  show ?case using preach.start by (simp add: no_pipe_def)
next
  case (step js js')
  have "pstep (no_pipe\<lparr>pp_jobs := js\<rparr>) ((no_pipe\<lparr>pp_jobs := js\<rparr>)\<lparr>pp_jobs := js'\<rparr>)" by (rule pstep.Queue) (simp add: step)
  from preach.step [OF step.IH this] show ?case by simp
qed

definition first_object :: object where
  "first_object = \<lparr>ob_key = package_of 7 1 @ ''manifest.mpd'', ob_modified = 2, ob_etag = []\<rparr>"

definition first_result :: published_media where
  "first_result = \<lparr>pm_renditions = [], pm_size = 10, pm_prefix = package_of 7 1, pm_subtitles = [], pm_storyboard = None,
     pm_thumbnail = []\<rparr>"

definition uploaded :: pipe where
  "uploaded = no_pipe\<lparr>pp_jobs := crashed_2, pp_media := [media_row 7 ''k'' ''u'' 0], pp_objects := [first_object],
     pp_sent := [(first_try, ob_key first_object)]\<rparr>"

definition published :: pipe where
  "published = uploaded\<lparr>pp_jobs := crashed_2\<lparr>js_rows := [first_try\<lparr>jb_locked_at := Some 3\<rparr>]\<rparr>,
     pp_media := the (publish_media 3 7 first_result (pp_media uploaded)),
     pp_packages := [(package_of 7 1, [ob_key first_object])]\<rparr>"

definition judged :: pipe where
  "judged = published\<lparr>pp_candidates := prune_candidates 9 (pp_objects published),
     pp_unused := unused_attempts (js_rows (pp_jobs published)) (pp_media published) (prune_candidates 9 (pp_objects published))\<rparr>"

lemma first_try_facts: "jb_lease first_try = Some 1" "jb_status first_try = JobRunning" "jb_id first_try = 7"
  "first_try \<in> set (js_out crashed_2)" "js_rows crashed_2 = [first_try]"
  by (simp_all add: first_try_def begin_attempt_def crashed_2_def crashed_1_def enqueue_def no_jobs_def)

lemma judged_step: "pp_unused s = [] \<Longrightarrow> pstep (s\<lparr>pp_candidates := cs\<rparr>)
    (s\<lparr>pp_candidates := cs, pp_unused := unused_attempts (js_rows (pp_jobs s)) (pp_media s) cs\<rparr>)"
  using pstep.Judged [of "s\<lparr>pp_candidates := cs\<rparr>"] by simp

lemma uploaded_reach: "preach uploaded"
proof -
  have r0: "preach (no_pipe\<lparr>pp_jobs := crashed_2\<rparr>)" using jobs_reach [OF crashed_reach(1)] .
  have s1: "pstep (no_pipe\<lparr>pp_jobs := crashed_2\<rparr>) (no_pipe\<lparr>pp_jobs := crashed_2, pp_media := [media_row 7 ''k'' ''u'' 0]\<rparr>)"
    using pstep.Admitted [of "no_pipe\<lparr>pp_jobs := crashed_2\<rparr>" 7 0 "''k''" "''u''"] by (simp add: admit_media_def no_pipe_def)
  have s2: "pstep (no_pipe\<lparr>pp_jobs := crashed_2, pp_media := [media_row 7 ''k'' ''u'' 0]\<rparr>) uploaded"
    using pstep.Sent [of first_try "no_pipe\<lparr>pp_jobs := crashed_2, pp_media := [media_row 7 ''k'' ''u'' 0]\<rparr>" 1 first_object 7 "''manifest.mpd''"]
    by (simp add: first_try_facts first_object_def uploaded_def no_pipe_def put_object_def)
  show ?thesis by (rule preach.step [OF preach.step [OF r0 s1] s2])
qed

lemma judged_reach: "preach judged"
proof -
  have f: "fenced 3 first_try (publish_media 3 7 first_result) (js_rows crashed_2, pp_media uploaded)
      = (Inr (), [first_try\<lparr>jb_locked_at := Some 3\<rparr>], the (publish_media 3 7 first_result (pp_media uploaded)))"
    by (simp add: fenced_def write_owned_def owned_by_def first_try_facts publish_media_def on_media_def uploaded_def media_row_def)
  have s3: "pstep uploaded published"
    using pstep.Published [of first_try uploaded 1 first_result 7 "[ob_key first_object]"] f
    by (simp add: first_try_facts first_object_def uploaded_def no_pipe_def published_def first_result_def has_prefix_def)
  have s4: "pstep published (published\<lparr>pp_candidates := prune_candidates 9 (pp_objects published)\<rparr>)" by (rule pstep.Listed)
  have u: "pp_unused published = []" by (simp add: published_def uploaded_def no_pipe_def)
  have s5: "pstep (published\<lparr>pp_candidates := prune_candidates 9 (pp_objects published)\<rparr>) judged"
    unfolding judged_def by (rule judged_step [OF u])
  show ?thesis by (rule preach.step [OF preach.step [OF preach.step [OF uploaded_reach s3] s4] s5])
qed

theorem published_packages_survive_witness: "package_of 7 1 @ ''manifest.mpd'' \<in> ob_key ` set (pp_objects judged)"
proof -
  let ?m = "hd (pp_media judged)"
  have m: "?m \<in> set (pp_media judged)" "m_s3_prefix ?m = package_of 7 1"
    by (simp_all add: judged_def published_def uploaded_def publish_media_def on_media_def media_row_def first_result_def)
  have "(package_of 7 1, [ob_key first_object]) \<in> set (pp_packages judged)" "m_s3_prefix ?m \<notin> set (pp_evicted judged)"
    by (simp_all add: judged_def published_def uploaded_def no_pipe_def)
  with published_packages_survive [OF judged_reach m(1)] m(2) show ?thesis by (auto simp: first_object_def)
qed

end
