(* ===== verification/Source.thy ===== *)
theory Source
  imports Go_Text
begin

text \<open>
  The choice of what to download (\<open>source/source.go\<close>): one family of video codecs, for every rung
  of the quality ladder the nearest height, and the best audio track.  A Go map from heights is
  an association list; its keys are sorted before they are used.
\<close>

record fmt =
  fm_id :: string
  fm_ext :: string
  fm_vcodec :: string
  fm_acodec :: string
  fm_height :: int
  fm_width :: int
  fm_bitrate :: int
  fm_filesize :: int

definition fm_video :: "fmt \<Rightarrow> bool" where
  "fm_video f = (fm_vcodec f \<noteq> [])"

definition fm_audio :: "fmt \<Rightarrow> bool" where
  "fm_audio f = (fm_acodec f \<noteq> [])"

definition codec_family :: "fmt \<Rightarrow> string" where
  "codec_family f = (let c = takeWhile (\<lambda>x. x \<noteq> CHR ''.'') (if fm_vcodec f = [] then fm_acodec f else fm_vcodec f)
     in if c = ''vp9'' then ''vp09'' else if c = ''vp8'' then ''vp08'' else c)"

record selection =
  sl_video :: "fmt list"
  sl_audio :: fmt

definition selection_formats :: "selection \<Rightarrow> fmt list" where
  "selection_formats s = sl_video s @ [sl_audio s]"

datatype select_err = NoVideo | NoAudio

definition video_preference :: "string list" where
  "video_preference = [''vp09'', ''avc1'', ''av01'']"

definition audio_preference :: "string list" where
  "audio_preference = [''opus'', ''mp4a'']"

text \<open>The formats of a family: video without sound, with a height.\<close>

definition family_formats :: "string \<Rightarrow> fmt list \<Rightarrow> fmt list" where
  "family_formats fam fs = filter (\<lambda>f. fm_video f \<and> \<not> fm_audio f \<and> 0 < fm_height f \<and> codec_family f = fam) fs"

fun best_at :: "(int \<times> fmt) list \<Rightarrow> fmt list \<Rightarrow> (int \<times> fmt) list" where
  "best_at best [] = best"
| "best_at best (f # fs) =
     best_at (case map_of best (fm_height f) of
         None \<Rightarrow> AList.update (fm_height f) f best
       | Some cur \<Rightarrow> if fm_bitrate cur < fm_bitrate f then AList.update (fm_height f) f best else best) fs"

definition descending :: "int list \<Rightarrow> int list" where
  "descending xs = rev (sort xs)"

text \<open>The height a rung takes: the nearest above the floor that is still free, the first among equals.\<close>

fun nearest :: "int \<Rightarrow> int \<Rightarrow> int list \<Rightarrow> int list \<Rightarrow> int option \<Rightarrow> int option" where
  "nearest rung floor used [] pick = pick"
| "nearest rung floor used (h # hs) pick =
     (if h \<in> set used \<or> h \<le> floor then nearest rung floor used hs pick
      else nearest rung floor used hs
        (case pick of None \<Rightarrow> Some h | Some p \<Rightarrow> if \<bar>h - rung\<bar> < \<bar>p - rung\<bar> then Some h else Some p))"

fun fill_rungs :: "int list \<Rightarrow> int list \<Rightarrow> int list \<Rightarrow> int list" where
  "fill_rungs available [] used = used"
| "fill_rungs available (rung # rungs) used =
     (let floor = (if rungs = [] \<and> used = [] then 0 else go_div rung 2)
      in fill_rungs available rungs (case nearest rung floor used available None of None \<Rightarrow> used | Some h \<Rightarrow> h # used))"

definition pick_ladder :: "fmt list \<Rightarrow> int list \<Rightarrow> fmt list" where
  "pick_ladder fs ladder =
     (let best = best_at [] fs; available = descending (map fst best);
          used = fill_rungs available (descending ladder) []
      in List.map_filter (map_of best) (filter (\<lambda>h. h \<in> set used) available))"

fun best_audio :: "string \<Rightarrow> fmt option \<Rightarrow> fmt list \<Rightarrow> fmt option" where
  "best_audio fam best [] = best"
| "best_audio fam best (f # fs) =
     best_audio fam (if fm_audio f \<and> \<not> fm_video f \<and> codec_family f = fam
         \<and> (case best of None \<Rightarrow> True | Some b \<Rightarrow> fm_bitrate b < fm_bitrate f) then Some f else best) fs"

fun pick_audio :: "string list \<Rightarrow> fmt list \<Rightarrow> fmt option" where
  "pick_audio [] fs = None"
| "pick_audio (fam # fams) fs = (case best_audio fam None fs of None \<Rightarrow> pick_audio fams fs | Some f \<Rightarrow> Some f)"

fun pick_video :: "string list \<Rightarrow> fmt list \<Rightarrow> int list \<Rightarrow> fmt list" where
  "pick_video [] fs ladder = []"
| "pick_video (fam # fams) fs ladder =
     (let video = pick_ladder (family_formats fam fs) ladder in if video = [] then pick_video fams fs ladder else video)"

definition select_formats :: "fmt list \<Rightarrow> int list \<Rightarrow> select_err + selection" where
  "select_formats fs ladder =
     (let video = pick_video video_preference fs ladder in
      if video = [] then Inl NoVideo
      else case pick_audio audio_preference fs of
          None \<Rightarrow> Inl NoAudio
        | Some a \<Rightarrow> Inr \<lparr>sl_video = video, sl_audio = a\<rparr>)"

section \<open>The best format at each height\<close>

lemma best_at_map:
  "map_of (best_at best fs) h =
     (let cs = filter (\<lambda>f. fm_height f = h) fs in
      foldl (\<lambda>b f. case b of None \<Rightarrow> Some f | Some c \<Rightarrow> if fm_bitrate c < fm_bitrate f then Some f else Some c) (map_of best h) cs)"
  by (induction best fs rule: best_at.induct) (auto simp: update_conv' split: option.split)

definition better :: "fmt option \<Rightarrow> fmt \<Rightarrow> fmt option" where
  "better b f = (case b of None \<Rightarrow> Some f | Some c \<Rightarrow> if fm_bitrate c < fm_bitrate f then Some f else Some c)"

lemma best_of_all:
  "foldl better b fs = Some f \<Longrightarrow> (Some f = b \<or> f \<in> set fs) \<and> (\<forall>g. Some g = b \<or> g \<in> set fs \<longrightarrow> fm_bitrate g \<le> fm_bitrate f)"
proof (induction fs arbitrary: b)
  case (Cons x fs)
  from Cons.IH [of "better b x"] Cons.prems show ?case
    by (cases b) (auto simp: better_def split: if_splits)
qed auto

lemma best_of_some: "foldl better b fs = None \<longleftrightarrow> b = None \<and> fs = []"
proof (induction fs arbitrary: b)
  case (Cons x fs)
  then show ?case by (cases b) (simp_all add: better_def)
qed simp

lemma best_at_none: "map_of (best_at [] fs) h = foldl better None (filter (\<lambda>f. fm_height f = h) fs)"
  by (simp add: best_at_map better_def [abs_def] Let_def)

lemma best_at_distinct: "distinct (map fst best) \<Longrightarrow> distinct (map fst (best_at best fs))"
  by (induction best fs rule: best_at.induct) (auto simp: distinct_update split: option.split)

section \<open>Filling the rungs\<close>

lemma nearest_in: "nearest r fl used hs p = Some h \<Longrightarrow> Some h = p \<or> h \<in> set hs \<and> h \<notin> set used \<and> fl < h"
  by (induction r fl used hs p rule: nearest.induct) (auto split: if_splits option.splits)

lemma nearest_none: "nearest r fl used hs p = None \<longleftrightarrow> p = None \<and> (\<forall>h \<in> set hs. h \<in> set used \<or> h \<le> fl)"
  by (induction r fl used hs p rule: nearest.induct) (auto split: option.splits if_splits)

text \<open>No free height above the floor is nearer than the one taken.\<close>

lemma nearest_is_nearest:
  "nearest r fl used hs p = Some h \<Longrightarrow> (\<forall>q. Some q = p \<longrightarrow> \<bar>h - r\<bar> \<le> \<bar>q - r\<bar>) \<and>
     (\<forall>q \<in> set hs. q \<notin> set used \<longrightarrow> fl < q \<longrightarrow> \<bar>h - r\<bar> \<le> \<bar>q - r\<bar>)"
  by (induction r fl used hs p rule: nearest.induct) (fastforce split: if_splits option.splits)+

lemma fill_rungs_used:
  "set (fill_rungs av rungs used) \<subseteq> set used \<union> set av \<and> (distinct used \<longrightarrow> distinct (fill_rungs av rungs used))
     \<and> length (fill_rungs av rungs used) \<le> length used + length rungs \<and> set used \<subseteq> set (fill_rungs av rungs used)"
proof (induction av rungs used rule: fill_rungs.induct)
  case (2 av rung rungs used)
  define fl where "fl = (if rungs = [] \<and> used = [] then 0 else go_div rung 2)"
  show ?case
  proof (cases "nearest rung fl used av None")
    case None
    with 2 [OF fl_def] show ?thesis by (simp add: Let_def fl_def [symmetric])
  next
    case (Some h)
    with nearest_in [OF Some] 2 [OF fl_def] show ?thesis by (auto simp: Let_def fl_def [symmetric])
  qed
qed simp

lemma fill_rungs_some: "rungs \<noteq> [] \<Longrightarrow> h \<in> set av \<Longrightarrow> 0 < h \<Longrightarrow> fill_rungs av rungs used \<noteq> []"
proof (induction av rungs used rule: fill_rungs.induct)
  case (2 av rung rungs used)
  show ?case
  proof (cases "rungs = []")
    case True
    have "used = [] \<Longrightarrow> nearest rung 0 [] av None \<noteq> None"
      using 2(2-) by (auto simp: nearest_none not_le)
    with True show ?thesis by (auto split: option.split)
  next
    case False
    with 2 show ?thesis by (simp add: Let_def)
  qed
qed simp

section \<open>The selection\<close>

lemma best_height: "map_of (best_at [] fs) h = Some f \<Longrightarrow> f \<in> set fs \<and> fm_height f = h \<and>
    (\<forall>g \<in> set fs. fm_height g = h \<longrightarrow> fm_bitrate g \<le> fm_bitrate f)"
  using best_of_all [of None "filter (\<lambda>f. fm_height f = h) fs" f] by (auto simp: best_at_none)

lemma best_exists: "h \<in> set (map fst (best_at [] fs)) \<longleftrightarrow> (\<exists>f \<in> set fs. fm_height f = h)"
proof -
  have "h \<in> set (map fst (best_at [] fs)) \<longleftrightarrow> map_of (best_at [] fs) h \<noteq> None"
    by (simp add: map_of_eq_None_iff)
  then show ?thesis by (auto simp: best_at_none best_of_some filter_empty_conv)
qed

lemma descending_sorted: "distinct xs \<Longrightarrow> sorted_wrt (>) (descending xs)"
  by (simp add: descending_def sorted_wrt_rev strict_sorted_iff)

lemma set_descending [simp]: "set (descending xs) = set xs" "length (descending xs) = length xs"
    "descending xs = [] \<longleftrightarrow> xs = []" "distinct (descending xs) = distinct xs"
proof -
  have "length (sort xs) = 0 \<longleftrightarrow> length xs = 0" by simp
  then show "descending xs = [] \<longleftrightarrow> xs = []" by (simp only: descending_def rev_is_Nil_conv length_0_conv)
qed (simp_all add: descending_def)

lemma map_filter_heights:
  "(\<And>h. h \<in> set hs \<Longrightarrow> \<exists>f. g h = Some f \<and> fm_height f = h) \<Longrightarrow> map fm_height (List.map_filter g hs) = hs"
  by (induction hs) (fastforce simp: List.map_filter_simps)+

lemma pick_ladder_ok:
  "(\<forall>v \<in> set (pick_ladder fs ladder). v \<in> set fs \<and> (\<forall>g \<in> set fs. fm_height g = fm_height v \<longrightarrow> fm_bitrate g \<le> fm_bitrate v))
    \<and> sorted_wrt (>) (map fm_height (pick_ladder fs ladder)) \<and> length (pick_ladder fs ladder) \<le> length ladder"
proof -
  define best where "best = best_at [] fs"
  define av where "av = descending (map fst best)"
  define used where "used = fill_rungs av (descending ladder) []"
  define hs where "hs = filter (\<lambda>h. h \<in> set used) av"
  have out: "pick_ladder fs ladder = List.map_filter (map_of best) hs"
    by (simp add: pick_ladder_def Let_def best_def av_def used_def hs_def)
  have dist: "distinct (map fst best)" unfolding best_def by (rule best_at_distinct) simp
  have "\<exists>f. map_of best h = Some f \<and> fm_height f = h" if "h \<in> set hs" for h
  proof -
    have "h \<in> set (map fst best)" using that by (simp add: hs_def av_def)
    then obtain f where f: "map_of best h = Some f" by (metis list.set_map map_of_eq_None_iff option.exhaust)
    with best_height show ?thesis unfolding best_def by blast
  qed
  then have m: "map fm_height (pick_ladder fs ladder) = hs" unfolding out by (rule map_filter_heights)
  have "sorted_wrt (>) hs" unfolding hs_def av_def by (rule sorted_wrt_filter) (rule descending_sorted [OF dist])
  moreover have "length hs \<le> length ladder"
  proof -
    have "distinct hs" using dist by (simp add: hs_def av_def)
    then have "length hs = card (set hs)" by (simp only: distinct_card)
    also have "\<dots> \<le> card (set used)" by (rule card_mono) (auto simp: hs_def)
    also have "\<dots> \<le> length used" by (rule card_length)
    also have "\<dots> \<le> length ladder" using fill_rungs_used [of av "descending ladder" "[]"] by (simp add: used_def)
    finally show ?thesis .
  qed
  moreover have "v \<in> set fs \<and> (\<forall>g \<in> set fs. fm_height g = fm_height v \<longrightarrow> fm_bitrate g \<le> fm_bitrate v)"
    if "v \<in> set (pick_ladder fs ladder)" for v
  proof -
    from that obtain h where "map_of best h = Some v" unfolding out by (auto simp: List.map_filter_def)
    with best_height show ?thesis unfolding best_def by blast
  qed
  ultimately show ?thesis using m by (metis length_map)
qed

lemma pick_ladder_Nil:
  assumes "\<forall>f \<in> set fs. 0 < fm_height f"
  shows "pick_ladder fs ladder = [] \<longleftrightarrow> fs = [] \<or> ladder = []"
proof
  assume e: "pick_ladder fs ladder = []"
  show "fs = [] \<or> ladder = []"
  proof (rule ccontr)
    assume "\<not> ?thesis"
    then obtain f where f: "f \<in> set fs" "ladder \<noteq> []" by (cases fs) auto
    define av where "av = descending (map fst (best_at [] fs))"
    have "fm_height f \<in> set av" using f best_exists unfolding av_def by auto
    then have "fill_rungs av (descending ladder) [] \<noteq> []"
      by (intro fill_rungs_some) (use f assms in auto)
    then obtain h where h: "h \<in> set (fill_rungs av (descending ladder) [])" by (cases "fill_rungs av (descending ladder) []") auto
    with fill_rungs_used [of av "descending ladder" "[]"] have "h \<in> set av" by auto
    then obtain g where "map_of (best_at [] fs) h = Some g"
      unfolding av_def by (metis list.set_map map_of_eq_None_iff option.exhaust set_descending(1))
    with h \<open>h \<in> set av\<close> have "g \<in> set (pick_ladder fs ladder)"
      by (auto simp: pick_ladder_def Let_def av_def [symmetric] List.map_filter_def image_iff)
    with e show False by simp
  qed
qed (auto simp: pick_ladder_def Let_def descending_def List.map_filter_simps)

lemma family_positive: "\<forall>f \<in> set (family_formats fam fs). 0 < fm_height f"
  by (simp add: family_formats_def)

lemma pick_video_ok:
  "pick_video fams fs ladder = [] \<and> (ladder = [] \<or> (\<forall>fam \<in> set fams. family_formats fam fs = []))
   \<or> pick_video fams fs ladder \<noteq> [] \<and> (\<exists>fam \<in> set fams. pick_video fams fs ladder = pick_ladder (family_formats fam fs) ladder)"
proof (induction fams fs ladder rule: pick_video.induct)
  case (2 fam fams fs ladder)
  show ?case
  proof (cases "pick_ladder (family_formats fam fs) ladder = []")
    case True
    with 2 [OF HOL.refl True] show ?thesis by (auto simp: Let_def pick_ladder_Nil [OF family_positive])
  qed (simp add: Let_def)
qed simp

lemma best_audio_ok: "best_audio fam best fs = Some f \<Longrightarrow>
    Some f = best \<or> f \<in> set fs \<and> fm_audio f \<and> \<not> fm_video f \<and> codec_family f = fam"
  by (induction fam best fs rule: best_audio.induct) (auto split: if_splits)

lemma pick_audio_ok: "pick_audio fams fs = Some f \<Longrightarrow> f \<in> set fs \<and> fm_audio f \<and> \<not> fm_video f \<and> codec_family f \<in> set fams"
  by (induction fams fs rule: pick_audio.induct) (auto split: option.splits dest: best_audio_ok)

text \<open>
  C30: a selection takes one preferred family of video codecs, from it the best format of each
  height it uses, highest first and at most one for a rung, and an audio track; video is refused
  only when the ladder is empty or no preferred family is offered.
\<close>

theorem selection_fits:
  assumes "select_formats fs ladder = r"
  shows "(case r of
      Inl NoVideo \<Rightarrow> ladder = [] \<or> (\<forall>fam \<in> set video_preference. family_formats fam fs = [])
    | Inl NoAudio \<Rightarrow> pick_audio audio_preference fs = None
    | Inr s \<Rightarrow> sl_video s \<noteq> [] \<and> length (sl_video s) \<le> length ladder \<and> sorted_wrt (>) (map fm_height (sl_video s))
        \<and> (\<exists>fam \<in> set video_preference. \<forall>v \<in> set (sl_video s). v \<in> set (family_formats fam fs)
            \<and> (\<forall>g \<in> set (family_formats fam fs). fm_height g = fm_height v \<longrightarrow> fm_bitrate g \<le> fm_bitrate v))
        \<and> sl_audio s \<in> set fs \<and> fm_audio (sl_audio s) \<and> \<not> fm_video (sl_audio s)
        \<and> codec_family (sl_audio s) \<in> set audio_preference)"
proof (cases "pick_video video_preference fs ladder = []")
  case True
  with pick_video_ok [of video_preference fs ladder] assms show ?thesis by (auto simp: select_formats_def)
next
  case False
  with pick_video_ok [of video_preference fs ladder] obtain fam where
    fam: "fam \<in> set video_preference" "pick_video video_preference fs ladder = pick_ladder (family_formats fam fs) ladder" by blast
  note ok = pick_ladder_ok [of "family_formats fam fs" ladder]
  show ?thesis
  proof (cases "pick_audio audio_preference fs")
    case None
    with False assms show ?thesis by (auto simp: select_formats_def)
  next
    case (Some a)
    with False assms fam have r: "r = Inr \<lparr>sl_video = pick_ladder (family_formats fam fs) ladder, sl_audio = a\<rparr>"
      by (simp add: select_formats_def)
    show ?thesis using ok pick_audio_ok [OF Some] False fam unfolding r by auto
  qed
qed

definition sample_fmt :: "string \<Rightarrow> string \<Rightarrow> int \<Rightarrow> int \<Rightarrow> fmt" where
  "sample_fmt v a h b = \<lparr>fm_id = [], fm_ext = [], fm_vcodec = v, fm_acodec = a, fm_height = h, fm_width = 0, fm_bitrate = b, fm_filesize = 0\<rparr>"

definition sample_offer :: "fmt list" where
  "sample_offer = [sample_fmt ''avc1.64'' [] 1080 9, sample_fmt ''vp9'' [] 818 3, sample_fmt ''vp09.00'' [] 818 4,
     sample_fmt ''vp9'' [] 360 1, sample_fmt [] ''mp4a.40'' 0 2, sample_fmt [] ''opus'' 0 1]"

theorem selection_fits_witness:
  "select_formats sample_offer [360, 720] = Inr \<lparr>sl_video = [sample_fmt ''vp09.00'' [] 818 4, sample_fmt ''vp9'' [] 360 1],
      sl_audio = sample_fmt [] ''opus'' 0 1\<rparr>
    \<and> length [sample_fmt ''vp09.00'' [] 818 4, sample_fmt ''vp9'' [] 360 1] \<le> length [360 :: int, 720]"
proof -
  have s: "select_formats sample_offer [360, 720] = Inr \<lparr>sl_video = [sample_fmt ''vp09.00'' [] 818 4, sample_fmt ''vp9'' [] 360 1],
      sl_audio = sample_fmt [] ''opus'' 0 1\<rparr>" by code_simp
  from s selection_fits [OF s] show ?thesis by simp
qed

end
