(* ===== verification/Go_Run.thy ===== *)
theory Go_Run
  imports Main
begin

text \<open>
  Go code that calls the outside and may give up: a run reads and writes a state, and goes on with a
  value or stops with an error.
\<close>

type_synonym ('s, 'e, 'a) run = "'s \<Rightarrow> ('e + 'a) \<times> 's"

definition oka :: "'a \<Rightarrow> ('s, 'e, 'a) run" where
  "oka x t = (Inr x, t)"

definition stopa :: "'e \<Rightarrow> ('s, 'e, 'a) run" where
  "stopa e t = (Inl e, t)"

definition binda :: "('s, 'e, 'a) run \<Rightarrow> ('a \<Rightarrow> ('s, 'e, 'b) run) \<Rightarrow> ('s, 'e, 'b) run" where
  "binda m k t = (case m t of (Inl e, t') \<Rightarrow> (Inl e, t') | (Inr x, t') \<Rightarrow> k x t')"

definition thena :: "('s, 'e, unit) run \<Rightarrow> ('s, 'e, 'b) run \<Rightarrow> ('s, 'e, 'b) run" where
  "thena m k = binda m (\<lambda>_. k)"

definition lifta :: "'e + 'a \<Rightarrow> ('s, 'e, 'a) run" where
  "lifta r t = (r, t)"

text \<open>An error that is only logged, and one that is turned into something else.\<close>

definition anyway :: "('s, 'e, 'a) run \<Rightarrow> ('s, 'f, unit) run" where
  "anyway m t = (Inr (), snd (m t))"

definition rescue :: "('s, 'e, 'a) run \<Rightarrow> ('e \<Rightarrow> ('s, 'f, 'a) run) \<Rightarrow> ('s, 'f, 'a) run" where
  "rescue m h t = (case m t of (Inl e, t') \<Rightarrow> h e t' | (Inr x, t') \<Rightarrow> (Inr x, t'))"

definition unlessa :: "bool \<Rightarrow> 'e \<Rightarrow> ('s, 'e, unit) run" where
  "unlessa b e = (if b then oka () else stopa e)"

text \<open>Where a run ends, error or not.\<close>

definition finish :: "('s, 'r, 'r) run \<Rightarrow> 's \<Rightarrow> 'r \<times> 's" where
  "finish m t = (case m t of (Inl r, t') \<Rightarrow> (r, t') | (Inr r, t') \<Rightarrow> (r, t'))"

lemmas run_steps = oka_def stopa_def binda_def thena_def lifta_def anyway_def rescue_def unlessa_def

section \<open>What runs keep and give\<close>

text \<open>
  \<open>gives P m Q\<close>: \<open>m\<close> leaves \<open>P\<close> true however it ends, and a value it goes on with satisfies \<open>Q\<close>.
\<close>

definition gives :: "('s \<Rightarrow> bool) \<Rightarrow> ('s, 'e, 'a) run \<Rightarrow> ('a \<Rightarrow> bool) \<Rightarrow> bool" where
  "gives P m Q \<longleftrightarrow> (\<forall>t. P t \<longrightarrow> P (snd (m t)) \<and> (\<forall>x. fst (m t) = Inr x \<longrightarrow> Q x))"

abbreviation keeps :: "('s \<Rightarrow> bool) \<Rightarrow> ('s, 'e, 'a) run \<Rightarrow> bool" where
  "keeps P m \<equiv> gives P m (\<lambda>_. True)"

lemma gives_intro: "(\<And>t. P t \<Longrightarrow> P (snd (m t))) \<Longrightarrow> (\<And>t x. P t \<Longrightarrow> fst (m t) = Inr x \<Longrightarrow> Q x) \<Longrightarrow> gives P m Q"
  by (auto simp: gives_def)

lemma gives_keeps: "gives P m Q \<Longrightarrow> P t \<Longrightarrow> P (snd (m t))"
  by (simp add: gives_def)

lemma gives_value: "gives P m Q \<Longrightarrow> P t \<Longrightarrow> fst (m t) = Inr x \<Longrightarrow> Q x"
  by (simp add: gives_def)

lemma gives_weaken: "gives P m Q \<Longrightarrow> (\<And>x. Q x \<Longrightarrow> R x) \<Longrightarrow> gives P m R"
  by (auto simp: gives_def)

lemma gives_also: "keeps P m \<Longrightarrow> (\<And>t x. P t \<Longrightarrow> fst (m t) = Inr x \<Longrightarrow> Q x) \<Longrightarrow> gives P m Q"
  by (auto simp: gives_def)

lemma gives_ok: "Q x \<Longrightarrow> gives P (oka x) Q"
  by (simp add: gives_def oka_def)

lemma gives_stop [simp]: "gives P (stopa e) Q"
  by (simp add: gives_def stopa_def)

lemma keeps_oka [simp]: "keeps P (oka x)"
  by (simp add: gives_ok)

lemma gives_lift: "(\<And>x. r = Inr x \<Longrightarrow> Q x) \<Longrightarrow> gives P (lifta r) Q"
  by (simp add: gives_def lifta_def)

lemma gives_unless: "gives P (unlessa b e) (\<lambda>_. b)"
  by (simp add: gives_def unlessa_def oka_def stopa_def)

lemma gives_bind: "gives P m Q \<Longrightarrow> (\<And>x. Q x \<Longrightarrow> gives P (k x) R) \<Longrightarrow> gives P (binda m k) R"
  by (fastforce simp: gives_def binda_def split: prod.split sum.split)

lemma gives_then: "gives P m Q \<Longrightarrow> (Q () \<Longrightarrow> gives P k R) \<Longrightarrow> gives P (thena m k) R"
  unfolding thena_def by (erule gives_bind) simp

lemma keeps_anyway: "keeps P m \<Longrightarrow> keeps P (anyway m)"
  by (simp add: gives_def anyway_def)

lemma gives_rescue: "gives P m Q \<Longrightarrow> (\<And>e. gives P (h e) Q) \<Longrightarrow> gives P (rescue m h) Q"
  by (fastforce simp: gives_def rescue_def split: prod.split sum.split)

lemma finish_keeps: "gives P m Q \<Longrightarrow> P t \<Longrightarrow> P (snd (finish m t))"
  using gives_keeps [of P m Q t] by (auto simp: finish_def split: prod.split sum.split)

end
