(* ===== verification/Go_Rune.thy ===== *)
theory Go_Rune
  imports Go_Text
begin

text \<open>
  UTF-8 as Go reads it, rune by rune: \<open>rune_len c s\<close> is the number of bytes after \<open>c\<close> that belong to its
  rune when \<open>s\<close> follows, 0 for ASCII and for a byte that starts no valid rune.
\<close>

definition in_range :: "nat \<Rightarrow> nat \<Rightarrow> char \<Rightarrow> bool" where
  "in_range lo hi c \<longleftrightarrow> lo \<le> of_char c \<and> of_char c \<le> hi"

definition rune_tail :: "char \<Rightarrow> (char \<Rightarrow> bool) list" where
  "rune_tail c = (let t = in_range 0x80 0xBF in
     if in_range 0xC2 0xDF c then [t]
     else if in_range 0xE0 0xE0 c then [in_range 0xA0 0xBF, t]
     else if in_range 0xE1 0xEC c \<or> in_range 0xEE 0xEF c then [t, t]
     else if in_range 0xED 0xED c then [in_range 0x80 0x9F, t]
     else if in_range 0xF0 0xF0 c then [in_range 0x90 0xBF, t, t]
     else if in_range 0xF1 0xF3 c then [t, t, t]
     else if in_range 0xF4 0xF4 c then [in_range 0x80 0x8F, t, t]
     else [])"

definition rune_len :: "char \<Rightarrow> string \<Rightarrow> nat" where
  "rune_len c s = (let t = rune_tail c in
     if length t \<le> length s \<and> list_all2 (\<lambda>p x. p x) t (take (length t) s) then length t else 0)"

text \<open>\<open>utf8.ValidString\<close>, and \<open>strings.ToValidUTF8(s, "")\<close>, which drops the bytes that are not valid.\<close>

definition rune_ok :: "char \<Rightarrow> string \<Rightarrow> bool" where
  "rune_ok c s \<longleftrightarrow> in_range 0 0x7F c \<or> 0 < rune_len c s"

function valid_utf8 :: "string \<Rightarrow> bool" where
  "valid_utf8 [] = True"
| "valid_utf8 (c # s) = (rune_ok c s \<and> valid_utf8 (drop (rune_len c s) s))"
  by pat_completeness auto
termination by (relation "measure length") auto

function to_valid_utf8 :: "string \<Rightarrow> string" where
  "to_valid_utf8 [] = []"
| "to_valid_utf8 (c # s) = (if rune_ok c s then c # take (rune_len c s) s else []) @ to_valid_utf8 (drop (rune_len c s) s)"
  by pat_completeness auto
termination by (relation "measure length") auto

lemma rune_len_append: "0 < rune_len c s \<Longrightarrow> rune_len c (take (rune_len c s) s @ t) = rune_len c s"
  by (auto simp: rune_len_def Let_def split: if_splits)

lemma rune_len_take: "rune_len c s \<le> length s"
  by (auto simp: rune_len_def Let_def)

lemma rune_len_ascii: "in_range 0 0x7F c \<Longrightarrow> rune_len c s = 0"
  by (auto simp: rune_len_def rune_tail_def in_range_def Let_def)

lemma valid_to_valid: "valid_utf8 (to_valid_utf8 s)"
proof (induction s rule: to_valid_utf8.induct)
  case (2 c s)
  show ?case
  proof (cases "0 < rune_len c s")
    case True
    with rune_len_take [of c s] 2 show ?thesis by (simp add: rune_ok_def rune_len_append)
  next
    case False
    then have zero: "rune_len c s = 0" by simp
    show ?thesis
    proof (cases "in_range 0 0x7F c")
      case True
      with 2 zero show ?thesis by (simp add: rune_ok_def rune_len_ascii)
    next
      case False
      with 2 zero show ?thesis by (simp add: rune_ok_def)
    qed
  qed
qed simp

end
