(* ===== verification/Ingest.thy ===== *)
theory Ingest
  imports Packages Netguard Webvtt Source Go_Run Go_Rune
begin

text \<open>
  The media pipeline: links admitted by the web server (\<open>ingest/ingest.go\<close>) and the handler of one
  attempt (\<open>ingest/worker.go\<close>), from the probe to publication.  The extractor, ffmpeg and the HTTP
  client are the record \<open>tools\<close>; every write of the database may fail.  Between two calls of the
  handler other processes run: \<open>tn_others\<close> holds, call by call, the time and what they did.
\<close>

section \<open>Admission (\<open>ingest.go\<close>)\<close>

datatype admission_err = Unsupported | SourceBlocked | PrivateLink | UnknownHost guard_err | StoreError

record source_policy =
  po_allow_private :: bool
  po_url_host :: "string \<Rightarrow> string option"
  po_resolver :: "string \<Rightarrow> string + ip_addr list"

text \<open>Cancelling the lookup is left out: the caller has gone then.\<close>

definition policy_check :: "source_policy \<Rightarrow> string \<Rightarrow> string \<Rightarrow> admission_err + unit" where
  "policy_check p key url =
     (if po_allow_private p \<or> has_prefix ''youtube:'' key then Inr ()
      else case check_url (po_url_host p) (po_resolver p) url of
          Inr _ \<Rightarrow> Inr ()
        | Inl PrivateAddress \<Rightarrow> Inl PrivateLink
        | Inl e \<Rightarrow> Inl (UnknownHost e))"

text \<open>\<open>key_of\<close> is the extractor's key of a link, \<open>blocked\<close> the answer of the blocklist.\<close>

definition admit_link ::
  "source_policy \<Rightarrow> (string \<Rightarrow> string option) \<Rightarrow> (string \<Rightarrow> bool option) \<Rightarrow> string \<Rightarrow> admission_err + string \<times> string" where
  "admit_link p key_of blocked url = (case key_of url of
      None \<Rightarrow> Inl Unsupported
    | Some key \<Rightarrow> (case blocked key of
          None \<Rightarrow> Inl StoreError
        | Some True \<Rightarrow> Inl SourceBlocked
        | Some False \<Rightarrow> (case policy_check p key url of Inl e \<Rightarrow> Inl e | Inr _ \<Rightarrow> Inr (key, url))))"

definition job_kind :: string where
  "job_kind = ''ingest''"

definition max_attempts :: int where
  "max_attempts = 3"

text \<open>\<open>Create\<close>, in one transaction: a new row comes with its job.\<close>

definition create_link :: "uuid \<Rightarrow> uuid \<Rightarrow> time \<Rightarrow> string \<times> string \<Rightarrow> media list \<times> job list \<Rightarrow> media \<times> media list \<times> job list" where
  "create_link mid jid now a s = (case a of (key, url) \<Rightarrow> case s of (ms, rows) \<Rightarrow>
     (case admit_media mid now key url ms of ((m, created), ms') \<Rightarrow>
        (m, ms', if created then enqueue now now jid job_kind (uuid_text (m_id m)) max_attempts rows else rows)))"

text \<open>\<open>Retry\<close>: two statements, each of which may fail.\<close>

definition retry_media :: "bool \<Rightarrow> bool \<Rightarrow> time \<Rightarrow> uuid \<Rightarrow> media \<Rightarrow> media list \<times> job list \<Rightarrow> bool \<times> media list \<times> job list" where
  "retry_media fail1 fail2 now jid m s = (case s of (ms, rows) \<Rightarrow>
     (if m_status m \<noteq> MediaFailed \<or> fail1 then (False, ms, rows)
      else case mark_media now (m_id m) MediaQueued ms of
          None \<Rightarrow> (False, ms, rows)
        | Some ms' \<Rightarrow> if fail2 then (False, ms', rows)
            else (True, ms', enqueue now now jid job_kind (uuid_text (m_id m)) max_attempts rows)))"

record preview =
  pv_title :: string
  pv_duration :: int
  pv_thumbnail :: string
  pv_status :: "media_status option"

record probe =
  pb_title :: string
  pb_duration :: int
  pb_thumbnail :: string
  pb_formats :: "fmt list"
  pb_subtitles :: "subtitle list"
  pb_chapters :: "media_chapter list"

datatype preview_err = Refused admission_err | ProbeError string

definition preview_link ::
  "source_policy \<Rightarrow> (string \<Rightarrow> string option) \<Rightarrow> (string \<Rightarrow> bool option) \<Rightarrow> (string \<Rightarrow> string + probe) \<Rightarrow> (string \<Rightarrow> cerr + media)
     \<Rightarrow> string \<Rightarrow> preview_err + preview" where
  "preview_link p key_of blocked probing by_key url = (case key_of url of
      None \<Rightarrow> Inl (Refused Unsupported)
    | Some key \<Rightarrow> (case blocked key of
          None \<Rightarrow> Inl (Refused StoreError)
        | Some True \<Rightarrow> Inl (Refused SourceBlocked)
        | Some False \<Rightarrow>
            let fresh = (\<lambda>status. case policy_check p key url of Inl e \<Rightarrow> Inl (Refused e) | Inr _ \<Rightarrow>
                 (case probing url of Inl e \<Rightarrow> Inl (ProbeError e) | Inr pr \<Rightarrow>
                    Inr \<lparr>pv_title = pb_title pr, pv_duration = pb_duration pr, pv_thumbnail = pb_thumbnail pr, pv_status = status\<rparr>))
            in case by_key key of
                Inl e \<Rightarrow> if e = NotFoundErr then fresh None else Inl (Refused StoreError)
              | Inr m \<Rightarrow> if m_title m \<noteq> [] \<or> m_status m = MediaReady
                  then Inr \<lparr>pv_title = m_title m, pv_duration = m_duration_ms m, pv_thumbnail = m_thumbnail_url m, pv_status = Some (m_status m)\<rparr>
                  else fresh (Some (m_status m))))"

section \<open>Files of an attempt\<close>

text \<open>\<open>strings.Map\<close> goes rune by rune; an invalid byte is one rune.\<close>

definition tag_char :: "char \<Rightarrow> bool" where
  "tag_char c \<longleftrightarrow> in_range 97 122 c \<or> in_range 65 90 c \<or> in_range 48 57 c \<or> c = CHR ''-''"

function safe_tag :: "string \<Rightarrow> string" where
  "safe_tag [] = []"
| "safe_tag (c # s) = (if tag_char c then c else CHR ''_'') # safe_tag (drop (rune_len c s) s)"
  by pat_completeness auto
termination by (relation "measure length") auto

definition subtitle_file :: "string \<Rightarrow> string" where
  "subtitle_file lang = ''sub-'' @ safe_tag lang @ ''.vtt''"

definition thumbnail_max_bytes :: nat where
  "thumbnail_max_bytes = 8 * 1024 * 1024"

definition thumbnail_ext :: "(string \<times> string) list" where
  "thumbnail_ext = [(''image/jpeg'', ''.jpg''), (''image/png'', ''.png''), (''image/webp'', ''.webp'')]"

definition thumbnail_file :: "string \<Rightarrow> string" where
  "thumbnail_file ct = (case map_of thumbnail_ext (to_lower (trim_space (hd (split_on CHR '';'' ct)))) of
      None \<Rightarrow> [] | Some ext \<Rightarrow> ''thumb'' @ ext)"

text \<open>
  A reply of the thumbnail's site: the status, the content type, what came of the body and whether
  it broke off; a body that broke off leaves its file behind.
\<close>

definition fetch_thumbnail :: "(string \<Rightarrow> (nat \<times> string \<times> string \<times> bool) option) \<Rightarrow> string \<Rightarrow> (string \<times> string) list \<Rightarrow> string \<times> (string \<times> string) list" where
  "fetch_thumbnail get url out =
     (if url = [] then ([], out)
      else case get url of
          None \<Rightarrow> ([], out)
        | Some (status, ct, body, broken) \<Rightarrow>
            let name = thumbnail_file ct in
            if status \<noteq> 200 \<or> name = [] then ([], out)
            else if thumbnail_max_bytes < length body then ([], filter (\<lambda>f. fst f \<noteq> name) out)
            else (if broken then [] else name, AList.update name body out))"

text \<open>The tracks that arrived; \<open>data\<close> is None for one that is missing or could not be read or written.\<close>

fun keep_subtitles :: "(string \<Rightarrow> string option) \<Rightarrow> subtitle list \<Rightarrow> (string \<times> string) list \<Rightarrow> subtitle list \<times> (string \<times> string) list" where
  "keep_subtitles data [] out = ([], out)"
| "keep_subtitles data (t # ts) out = (case data (sub_lang t) of
      None \<Rightarrow> keep_subtitles data ts out
    | Some d \<Rightarrow> (case keep_subtitles data ts (AList.update (subtitle_file (sub_lang t)) (normalize d) out) of
        (kept, out') \<Rightarrow> (t # kept, out')))"

definition fetch_subtitles :: "(string \<Rightarrow> string option) option \<Rightarrow> subtitle list \<Rightarrow> (string \<times> string) list \<Rightarrow> subtitle list \<times> (string \<times> string) list" where
  "fetch_subtitles files ts out = (case files of None \<Rightarrow> ([], out) | Some data \<Rightarrow> keep_subtitles data ts out)"

section \<open>Calls of an attempt\<close>

record turn =
  tn_pipe :: pipe
  tn_now :: time
  tn_faults :: "bool list"
  tn_others :: "(time \<times> (pipe \<Rightarrow> pipe)) list"

text \<open>Why an attempt stops: it lost its job, for good, or to be tried again.\<close>

datatype work_err = Lost | Perm string | Temp string

definition err_text :: "work_err \<Rightarrow> string" where
  "err_text e = (case e of Lost \<Rightarrow> ''jobs: lease lost'' | Perm s \<Rightarrow> s | Temp s \<Rightarrow> s)"

type_synonym 'a act = "(turn, work_err, 'a) run"

text \<open>An error that is permanent whatever it is.\<close>

definition for_good :: "'a act \<Rightarrow> 'a act" where
  "for_good m t = (case m t of (Inl e, t') \<Rightarrow> (Inl (Perm (err_text e)), t') | r \<Rightarrow> r)"

definition others_run :: "turn \<Rightarrow> turn" where
  "others_run t = (case tn_others t of [] \<Rightarrow> t
    | (now, f) # fs \<Rightarrow> t\<lparr>tn_pipe := f (tn_pipe t), tn_now := now, tn_others := fs\<rparr>)"

text \<open>A call of the store: first the others run, then it fails or does its work.\<close>

definition call :: "(time \<Rightarrow> pipe \<Rightarrow> (work_err + 'a) \<times> pipe) \<Rightarrow> 'a act" where
  "call f t = (let u = others_run t; v = u\<lparr>tn_faults := tl (tn_faults u)\<rparr> in
     if tn_faults u \<noteq> [] \<and> hd (tn_faults u) then (Inl (Temp ''store''), v)
     else case f (tn_now u) (tn_pipe u) of (r, p) \<Rightarrow> (r, v\<lparr>tn_pipe := p\<rparr>))"

definition fenced_media :: "job \<Rightarrow> (time \<Rightarrow> media list \<Rightarrow> media list option) \<Rightarrow> unit act" where
  "fenced_media j w = call (\<lambda>now p. case fenced now j (w now) (js_rows (pp_jobs p), pp_media p) of
      (Inr _, rows, ms) \<Rightarrow> (Inr (), p\<lparr>pp_jobs := (pp_jobs p)\<lparr>js_rows := rows\<rparr>, pp_media := ms\<rparr>)
    | (Inl e, _) \<Rightarrow> (Inl (if e = LeaseLost then Lost else Temp ''not found''), p))"

definition set_status :: "job \<Rightarrow> uuid \<Rightarrow> media_status \<Rightarrow> unit act" where
  "set_status j i st = fenced_media j (\<lambda>now. mark_media now i st)"

text \<open>A progress report; the extractor and ffmpeg make any number of them.\<close>

definition report_progress :: "job \<Rightarrow> uuid \<Rightarrow> rat \<times> int \<times> int \<Rightarrow> unit act" where
  "report_progress j i v = anyway (fenced_media j (\<lambda>now. mark_progress now i (fst v) (fst (snd v)) (snd (snd v))))"

fun report_all :: "job \<Rightarrow> uuid \<Rightarrow> (rat \<times> int \<times> int) list \<Rightarrow> unit act" where
  "report_all j i [] = oka ()"
| "report_all j i (v # vs) = thena (report_progress j i v) (report_all j i vs)"

definition store_probe :: "uuid \<Rightarrow> probe \<Rightarrow> unit act" where
  "store_probe i pr = call (\<lambda>now p. case mark_probed now i (pb_title pr) (pb_duration pr) (pb_thumbnail pr) (pb_chapters pr) (pp_media p) of
      None \<Rightarrow> (Inl (Temp ''not found''), p)
    | Some ms \<Rightarrow> (Inr (), p\<lparr>pp_media := ms\<rparr>))"

definition lease_of :: "job \<Rightarrow> uuid" where
  "lease_of j = (case jb_lease j of None \<Rightarrow> uuid_nil | Some l \<Rightarrow> l)"

text \<open>\<open>UploadDir\<close>: file by file, with the bytes so far.\<close>

fun upload_dir :: "job \<Rightarrow> uuid \<Rightarrow> int \<Rightarrow> (string \<times> string) list \<Rightarrow> int act" where
  "upload_dir j i n [] = oka n"
| "upload_dir j i n ((name, data) # fs) =
     thena (call (\<lambda>now p. let key = package_of i (lease_of j) @ name in
         (Inr (), p\<lparr>pp_objects := put_object \<lparr>ob_key = key, ob_modified = now, ob_etag = []\<rparr> (pp_objects p),
                    pp_sent := (j, key) # pp_sent p\<rparr>)))
       (upload_dir j i (n + int (length data)) fs)"

definition publish :: "job \<Rightarrow> uuid \<Rightarrow> published_media \<Rightarrow> string list \<Rightarrow> unit act" where
  "publish j i pub keys = call (\<lambda>now p. case fenced now j (publish_media now i pub) (js_rows (pp_jobs p), pp_media p) of
      (Inr _, rows, ms) \<Rightarrow> (Inr (), p\<lparr>pp_jobs := (pp_jobs p)\<lparr>js_rows := rows\<rparr>, pp_media := ms,
          pp_packages := (pm_prefix pub, keys) # pp_packages p\<rparr>)
    | (Inl e, _) \<Rightarrow> (Inl (if e = LeaseLost then Lost else Temp ''publish: not found''), p))"

section \<open>The handler (\<open>worker.go\<close>)\<close>

record tools =
  tl_workdir :: bool
  tl_policy :: source_policy
  tl_probe :: "string \<Rightarrow> string + probe"
  tl_ladder :: "int list"
  tl_download :: "selection \<Rightarrow> string option"
  tl_downloading :: "(rat \<times> int \<times> int) list"
  tl_subtitles :: "(string \<Rightarrow> string option) option"
  tl_get :: "string \<Rightarrow> (nat \<times> string \<times> string \<times> bool) option"
  tl_package :: "selection \<Rightarrow> string + (string \<times> string) list"
  tl_packaging :: "(rat \<times> int \<times> int) list"
  tl_storyboard :: "(storyboard \<times> (string \<times> string) list) option"

definition add_files :: "(string \<times> string) list \<Rightarrow> (string \<times> string) list \<Rightarrow> (string \<times> string) list" where
  "add_files new out = foldl (\<lambda>fs f. AList.update (fst f) (snd f) fs) out new"

definition renditions_of :: "fmt list \<Rightarrow> rendition list" where
  "renditions_of vs = map2 (\<lambda>k v. \<lparr>rd_id = dec k, rd_height = fm_height v, rd_width = fm_width v,
     rd_codec = codec_family v, rd_bitrate = fm_bitrate v\<rparr>) [0..<length vs] vs"

text \<open>The poster and the subtitles, with the files of the package so far.\<close>

definition extras :: "tools \<Rightarrow> probe \<Rightarrow> subtitle list \<times> string \<times> (string \<times> string) list" where
  "extras kit pr = (case fetch_subtitles (tl_subtitles kit) (pb_subtitles pr) [] of (subs, out) \<Rightarrow>
     (case fetch_thumbnail (tl_get kit) (pb_thumbnail pr) out of (thumb, out') \<Rightarrow> (subs, thumb, out')))"

definition storyboard_of :: "tools \<Rightarrow> probe \<Rightarrow> (storyboard \<times> (string \<times> string) list) option" where
  "storyboard_of kit pr = (if pb_duration pr \<le> 0 then None else tl_storyboard kit)"

definition check_source :: "tools \<Rightarrow> media \<Rightarrow> work_err + unit" where
  "check_source kit m = (case policy_check (tl_policy kit) (m_source_key m) (m_source_url m) of
      Inr _ \<Rightarrow> Inr ()
    | Inl PrivateLink \<Rightarrow> Inl (Perm ''links to private or local addresses are not allowed'')
    | Inl _ \<Rightarrow> Inl (Temp ''ingest: unknown host''))"

definition pick_formats :: "tools \<Rightarrow> probe \<Rightarrow> work_err + selection" where
  "pick_formats kit pr = (case select_formats (pb_formats pr) (tl_ladder kit) of
      Inr s \<Rightarrow> Inr s
    | Inl NoVideo \<Rightarrow> Inl (Perm ''source: no video format matches the quality ladder'')
    | Inl NoAudio \<Rightarrow> Inl (Perm ''source: no audio-only format available''))"

text \<open>The upload and the publication.\<close>

definition upload_step :: "job \<Rightarrow> uuid \<Rightarrow> selection \<Rightarrow> subtitle list \<Rightarrow> string \<Rightarrow> storyboard option \<Rightarrow> (string \<times> string) list \<Rightarrow> unit act" where
  "upload_step j i sel subs thumb board out =
     (let prefix = package_of i (lease_of j) in
      thena (set_status j i MediaUploading)
      (binda (upload_dir j i 0 out) (\<lambda>n.
       publish j i \<lparr>pm_renditions = renditions_of (sl_video sel), pm_size = n, pm_prefix = prefix, pm_subtitles = subs,
           pm_storyboard = board, pm_thumbnail = (if thumb = [] then [] else ''/media/'' @ uuid_text i @ ''/'' @ thumb)\<rparr>
         (map (\<lambda>f. prefix @ fst f) out))))"

definition package_step :: "tools \<Rightarrow> job \<Rightarrow> uuid \<Rightarrow> probe \<Rightarrow> selection \<Rightarrow> unit act" where
  "package_step kit j i pr sel = (case extras kit pr of (subs, thumb, out) \<Rightarrow>
     thena (set_status j i MediaPackaging)
     (thena (report_all j i (tl_packaging kit))
     (binda (lifta (case tl_package kit sel of Inl e \<Rightarrow> Inl (Perm (''package: '' @ e)) | Inr fs \<Rightarrow> Inr fs)) (\<lambda>fs.
      thena (report_progress j i (1, 0, 0))
      (case storyboard_of kit pr of
         None \<Rightarrow> upload_step j i sel subs thumb None (add_files fs out)
       | Some (board, sheets) \<Rightarrow> upload_step j i sel subs thumb (Some board) (add_files sheets (add_files fs out)))))))"

definition download_step :: "tools \<Rightarrow> job \<Rightarrow> uuid \<Rightarrow> probe \<Rightarrow> selection \<Rightarrow> unit act" where
  "download_step kit j i pr sel =
     thena (set_status j i MediaDownloading)
     (thena (report_all j i (tl_downloading kit))
     (thena (lifta (case tl_download kit sel of None \<Rightarrow> Inr () | Some e \<Rightarrow> Inl (Temp (''download: '' @ e))))
     (thena (report_progress j i (1, 0, 0)) (package_step kit j i pr sel))))"

definition process :: "tools \<Rightarrow> job \<Rightarrow> media \<Rightarrow> unit act" where
  "process kit j m =
     thena (lifta (if tl_workdir kit then Inr () else Inl (Temp ''work dir'')))
     (thena (set_status j (m_id m) MediaProbing)
     (thena (lifta (check_source kit m))
     (binda (lifta (case tl_probe kit (m_source_url m) of Inl e \<Rightarrow> Inl (Temp (''probe: '' @ e)) | Inr pr \<Rightarrow> Inr pr)) (\<lambda>pr.
      binda (lifta (pick_formats kit pr)) (\<lambda>sel.
      thena (store_probe (m_id m) pr) (download_step kit j (m_id m) pr sel))))))"

text \<open>A failed attempt marks the media failed, if it still owns the job.\<close>

definition or_fail :: "job \<Rightarrow> uuid \<Rightarrow> unit act \<Rightarrow> unit act" where
  "or_fail j i m t = (case m t of
      (Inr x, t') \<Rightarrow> (Inr x, t')
    | (Inl e, t') \<Rightarrow> (Inl e, snd (fenced_media j (\<lambda>now. fail_media now i (take 500 (err_text e))) t')))"

definition find_media :: "uuid \<Rightarrow> media act" where
  "find_media i = for_good (call (\<lambda>now p. case find (\<lambda>m. m_id m = i) (pp_media p) of
      None \<Rightarrow> (Inl (Perm ''load media''), p) | Some m \<Rightarrow> (Inr m, p)))"

definition handle_job :: "tools \<Rightarrow> job \<Rightarrow> unit act" where
  "handle_job kit j = (case uuid_parse (jb_payload j) of
      None \<Rightarrow> stopa (Perm ''decode payload'')
    | Some i \<Rightarrow> binda (find_media i) (\<lambda>m. if m_status m = MediaReady then oka () else or_fail j i (process kit j m)))"

text \<open>\<open>Worker.run\<close> of \<open>jobs/worker.go\<close>: the handler and the record of its outcome.\<close>

definition run_attempt :: "tools \<Rightarrow> bool \<Rightarrow> job \<Rightarrow> turn \<Rightarrow> turn" where
  "run_attempt kit lost j t = (case handle_job kit j t of (r, t') \<Rightarrow>
     snd (call (\<lambda>now p. (Inr (), p\<lparr>pp_jobs := (pp_jobs p)\<lparr>js_rows := record_attempt now j lost
        (case r of Inr _ \<Rightarrow> None | Inl (Perm e) \<Rightarrow> Some (e, True) | Inl e \<Rightarrow> Some (err_text e, False)) (js_rows (pp_jobs p))\<rparr>\<rparr>)) t'))"

section \<open>An attempt only takes steps of the system\<close>

abbreviation psteps :: "pipe \<Rightarrow> pipe \<Rightarrow> bool" where
  "psteps \<equiv> pstep\<^sup>*\<^sup>*"

definition others_ok :: "turn \<Rightarrow> bool" where
  "others_ok t \<longleftrightarrow> (\<forall>(now, f) \<in> set (tn_others t). \<forall>p. psteps p (f p))"

definition sent_by :: "job \<Rightarrow> string set \<Rightarrow> pipe \<Rightarrow> bool" where
  "sent_by j K p \<longleftrightarrow> j \<in> set (js_out (pp_jobs p)) \<and> (\<forall>k \<in> K. (j, k) \<in> set (pp_sent p))"

lemma sent_by_step: "pstep p q \<Longrightarrow> sent_by j K p \<Longrightarrow> sent_by j K q"
  by (induction rule: pstep.induct) (auto simp: sent_by_def dest: out_grows)

lemma sent_by_steps: "psteps p q \<Longrightarrow> sent_by j K p \<Longrightarrow> sent_by j K q"
  by (induction rule: rtranclp_induct) (auto intro: sent_by_step)

lemma preach_steps: "psteps p q \<Longrightarrow> preach p \<Longrightarrow> preach q"
  by (induction rule: rtranclp_induct) (auto intro: preach.step)

text \<open>
  \<open>takes_steps j K m L\<close>: whatever the others do, \<open>m\<close> takes steps of the system for the attempt \<open>j\<close>
  that stored the keys \<open>K\<close>; when it goes on, \<open>j\<close> stored those of \<open>L\<close> too.
\<close>

definition takes_steps :: "job \<Rightarrow> string set \<Rightarrow> 'a act \<Rightarrow> string set \<Rightarrow> bool" where
  "takes_steps j K m L \<longleftrightarrow> (\<forall>t. others_ok t \<longrightarrow> sent_by j K (tn_pipe t) \<longrightarrow>
     others_ok (snd (m t)) \<and> psteps (tn_pipe t) (tn_pipe (snd (m t)))
     \<and> ((\<exists>x. fst (m t) = Inr x) \<longrightarrow> sent_by j L (tn_pipe (snd (m t)))))"

lemma steps_ok: "takes_steps j K (oka x) K"
  by (simp add: takes_steps_def oka_def)

lemma steps_stop: "takes_steps j K (stopa e) L"
  by (simp add: takes_steps_def stopa_def)

lemma steps_lift: "takes_steps j K (lifta r) K"
  by (simp add: takes_steps_def lifta_def)

lemma steps_bind:
  assumes m: "takes_steps j K m L" and k: "\<And>x. takes_steps j L (k x) M"
  shows "takes_steps j K (binda m k) M"
  unfolding takes_steps_def
proof (intro allI impI)
  fix t
  assume t: "others_ok t" "sent_by j K (tn_pipe t)"
  note a = m [unfolded takes_steps_def, rule_format, OF t]
  show "others_ok (snd (binda m k t)) \<and> psteps (tn_pipe t) (tn_pipe (snd (binda m k t)))
     \<and> ((\<exists>x. fst (binda m k t) = Inr x) \<longrightarrow> sent_by j M (tn_pipe (snd (binda m k t))))"
  proof (cases "m t")
    case (Pair r u)
    show ?thesis
    proof (cases r)
      case (Inl e)
      with a Pair show ?thesis by (simp add: binda_def)
    next
      case (Inr x)
      with a Pair have u: "others_ok u" "psteps (tn_pipe t) (tn_pipe u)" "sent_by j L (tn_pipe u)" by auto
      from k [unfolded takes_steps_def, rule_format, OF u(1,3), of x] u(2) Pair Inr show ?thesis
        by (auto simp: binda_def)
    qed
  qed
qed

lemma steps_then: "takes_steps j K m L \<Longrightarrow> takes_steps j L k M \<Longrightarrow> takes_steps j K (thena m k) M"
  unfolding thena_def by (rule steps_bind)

lemma steps_anyway: "takes_steps j K m L \<Longrightarrow> takes_steps j K (anyway m) K"
  by (auto simp: takes_steps_def anyway_def intro: sent_by_steps)

lemma steps_for_good: "takes_steps j K m L \<Longrightarrow> takes_steps j K (for_good m) L"
  by (auto simp: takes_steps_def for_good_def split: prod.split sum.split)

lemma others_run_ok: "others_ok t \<Longrightarrow> others_ok (others_run t) \<and> psteps (tn_pipe t) (tn_pipe (others_run t))"
  by (auto simp: others_run_def others_ok_def split: list.split)

lemma steps_call:
  assumes f: "\<And>now p. sent_by j K p \<Longrightarrow> psteps p (snd (f now p)) \<and> ((\<exists>x. fst (f now p) = Inr x) \<longrightarrow> sent_by j L (snd (f now p)))"
  shows "takes_steps j K (call f) L"
  unfolding takes_steps_def
proof (intro allI impI)
  fix t
  assume t: "others_ok t" "sent_by j K (tn_pipe t)"
  let ?u = "others_run t"
  have u: "others_ok ?u" "psteps (tn_pipe t) (tn_pipe ?u)" "sent_by j K (tn_pipe ?u)"
    using others_run_ok [OF t(1)] sent_by_steps t(2) by auto
  note a = f [OF u(3), of "tn_now ?u"]
  show "others_ok (snd (call f t)) \<and> psteps (tn_pipe t) (tn_pipe (snd (call f t)))
     \<and> ((\<exists>x. fst (call f t) = Inr x) \<longrightarrow> sent_by j L (tn_pipe (snd (call f t))))"
    using a u by (cases "f (tn_now ?u) (tn_pipe ?u)") (auto simp: call_def Let_def others_ok_def)
qed

text \<open>A fenced write that leaves the package alone is a renewal and an edit.\<close>

lemma edit_step: "keeps_package f \<Longrightarrow> on_media i f (pp_media p) = Some ms \<Longrightarrow> pstep p (p\<lparr>pp_media := ms\<rparr>)"
proof -
  assume f: "keeps_package f" and "on_media i f (pp_media p) = Some ms"
  then have "ms = map (\<lambda>m. if m_id m = i then f m else m) (pp_media p)" by (simp add: on_media_def split: if_splits)
  moreover have "keeps_package (\<lambda>m. if m_id m = i then f m else m)" using f by (simp add: keeps_package_def)
  ultimately show ?thesis using pstep.Edited by simp
qed

lemma renew_step: "j \<in> set (js_out (pp_jobs p)) \<Longrightarrow>
    pstep p (p\<lparr>pp_jobs := (pp_jobs p)\<lparr>js_rows := snd (renew now j (js_rows (pp_jobs p)))\<rparr>\<rparr>)"
  by (rule pstep.Queue) (rule jstep.Extended)

lemma steps_fenced:
  assumes "\<And>now. \<exists>f. keeps_package f \<and> w now = on_media i f"
  shows "takes_steps j K (fenced_media j w) K"
  unfolding fenced_media_def
proof (rule steps_call)
  fix now p
  assume p: "sent_by j K p"
  let ?f = "\<lambda>now p. case fenced now j (w now) (js_rows (pp_jobs p), pp_media p) of
      (Inr _, rows, ms) \<Rightarrow> (Inr (), p\<lparr>pp_jobs := (pp_jobs p)\<lparr>js_rows := rows\<rparr>, pp_media := ms\<rparr>)
    | (Inl e, _) \<Rightarrow> (Inl (if e = LeaseLost then Lost else Temp ''not found''), p)"
  obtain f where f: "keeps_package f" "w now = on_media i f" using assms by blast
  have "psteps p (snd (?f now p))"
  proof (cases "fenced now j (w now) (js_rows (pp_jobs p), pp_media p)")
    case (fields r rows ms)
    show ?thesis
    proof (cases r)
      case (Inr u)
      with fields have ok: "fenced now j (w now) (js_rows (pp_jobs p), pp_media p) = (Inr (), rows, ms)" by simp
      note g = fenced_ok [OF ok]
      have s1: "pstep p (p\<lparr>pp_jobs := (pp_jobs p)\<lparr>js_rows := rows\<rparr>\<rparr>)"
        unfolding g(2) using p by (intro renew_step) (simp add: sent_by_def)
      have s2: "pstep (p\<lparr>pp_jobs := (pp_jobs p)\<lparr>js_rows := rows\<rparr>\<rparr>) (p\<lparr>pp_jobs := (pp_jobs p)\<lparr>js_rows := rows\<rparr>, pp_media := ms\<rparr>)"
        using edit_step [OF f(1), of i "p\<lparr>pp_jobs := (pp_jobs p)\<lparr>js_rows := rows\<rparr>\<rparr>" ms] g(3) f(2) by simp
      from s1 s2 ok show ?thesis by simp
    qed (simp add: fields)
  qed
  with p show "psteps p (snd (?f now p)) \<and> ((\<exists>x. fst (?f now p) = Inr x) \<longrightarrow> sent_by j K (snd (?f now p)))"
    using sent_by_steps by blast
qed

lemma media_writes_keep:
  "\<exists>f. keeps_package f \<and> mark_media now i st = on_media i f"
  "\<exists>f. keeps_package f \<and> mark_progress now i v speed eta = on_media i f"
  "\<exists>f. keeps_package f \<and> fail_media now i msg = on_media i f"
  "\<exists>f. keeps_package f \<and> mark_probed now i title dur thumb chs = on_media i f"
  unfolding mark_media_def mark_progress_def fail_media_def mark_probed_def
  by (rule exI, rule conjI [OF _ HOL.refl], simp add: keeps_package_def)+

lemma steps_status: "takes_steps j K (set_status j i st) K"
  unfolding set_status_def by (rule steps_fenced) (rule media_writes_keep)

lemma steps_report: "takes_steps j K (report_progress j i v) K"
  unfolding report_progress_def by (rule steps_anyway) (rule steps_fenced, rule media_writes_keep)

lemma steps_reports: "takes_steps j K (report_all j i vs) K"
  by (induction vs) (auto intro: steps_ok steps_then steps_report)

lemma steps_probe: "takes_steps j K (store_probe i pr) K"
  unfolding store_probe_def
proof (rule steps_call)
  fix now p
  assume p: "sent_by j K p"
  obtain f where f: "keeps_package f" "mark_probed now i (pb_title pr) (pb_duration pr) (pb_thumbnail pr) (pb_chapters pr) = on_media i f"
    using media_writes_keep(4) by blast
  have "psteps p (p\<lparr>pp_media := ms\<rparr>)" if "on_media i f (pp_media p) = Some ms" for ms
    using edit_step [OF f(1) that] by blast
  then show "psteps p (snd (case mark_probed now i (pb_title pr) (pb_duration pr) (pb_thumbnail pr) (pb_chapters pr) (pp_media p) of
        None \<Rightarrow> (Inl (Temp ''not found''), p) | Some ms \<Rightarrow> (Inr (), p\<lparr>pp_media := ms\<rparr>))) \<and>
      ((\<exists>x. fst (case mark_probed now i (pb_title pr) (pb_duration pr) (pb_thumbnail pr) (pb_chapters pr) (pp_media p) of
        None \<Rightarrow> (Inl (Temp ''not found''), p) | Some ms \<Rightarrow> (Inr (), p\<lparr>pp_media := ms\<rparr>)) = Inr x) \<longrightarrow>
       sent_by j K (snd (case mark_probed now i (pb_title pr) (pb_duration pr) (pb_thumbnail pr) (pb_chapters pr) (pp_media p) of
        None \<Rightarrow> (Inl (Temp ''not found''), p) | Some ms \<Rightarrow> (Inr (), p\<lparr>pp_media := ms\<rparr>))))"
    using p by (auto simp: f(2) sent_by_def split: option.split)
qed

lemma steps_upload:
  assumes "jb_lease j = Some l"
  shows "takes_steps j K (upload_dir j i n fs) (K \<union> (\<lambda>f. package_of i l @ fst f) ` set fs)"
proof (induction fs arbitrary: n K)
  case Nil
  show ?case by (simp add: steps_ok)
next
  case (Cons nf fs)
  obtain name data where nf: "nf = (name, data)" by (cases nf)
  let ?k = "package_of i l @ name"
  have one: "takes_steps j K (call (\<lambda>now p. let key = package_of i (lease_of j) @ name in
         (Inr (), p\<lparr>pp_objects := put_object \<lparr>ob_key = key, ob_modified = now, ob_etag = []\<rparr> (pp_objects p),
                    pp_sent := (j, key) # pp_sent p\<rparr>))) (insert ?k K)"
  proof (rule steps_call)
    fix now p
    assume p: "sent_by j K p"
    let ?b = "\<lparr>ob_key = ?k, ob_modified = now, ob_etag = []\<rparr>"
    have "pstep p (p\<lparr>pp_objects := put_object ?b (pp_objects p), pp_sent := (j, ob_key ?b) # pp_sent p\<rparr>)"
      by (rule pstep.Sent [OF _ assms]) (use p in \<open>auto simp: sent_by_def\<close>)
    with p assms show "psteps p (snd (let key = package_of i (lease_of j) @ name in
         (Inr (), p\<lparr>pp_objects := put_object \<lparr>ob_key = key, ob_modified = now, ob_etag = []\<rparr> (pp_objects p),
                    pp_sent := (j, key) # pp_sent p\<rparr>))) \<and>
      ((\<exists>x. fst (let key = package_of i (lease_of j) @ name in
         (Inr (), p\<lparr>pp_objects := put_object \<lparr>ob_key = key, ob_modified = now, ob_etag = []\<rparr> (pp_objects p),
                    pp_sent := (j, key) # pp_sent p\<rparr>)) = Inr x) \<longrightarrow>
       sent_by j (insert ?k K) (snd (let key = package_of i (lease_of j) @ name in
         (Inr (), p\<lparr>pp_objects := put_object \<lparr>ob_key = key, ob_modified = now, ob_etag = []\<rparr> (pp_objects p),
                    pp_sent := (j, key) # pp_sent p\<rparr>))))"
      by (auto simp: Let_def lease_of_def sent_by_def)
  qed
  from steps_then [OF one Cons.IH] show ?case unfolding nf by (simp add: insert_commute Un_insert_left)
qed

lemma steps_publish:
  assumes "jb_lease j = Some l" and "pm_prefix pub = package_of i l" and "set keys \<subseteq> K"
    and "\<forall>k \<in> set keys. has_prefix (pm_prefix pub) k"
  shows "takes_steps j K (publish j i pub keys) K"
  unfolding publish_def
proof (rule steps_call)
  fix now p
  assume p: "sent_by j K p"
  let ?f = "\<lambda>now p. case fenced now j (publish_media now i pub) (js_rows (pp_jobs p), pp_media p) of
      (Inr _, rows, ms) \<Rightarrow> (Inr (), p\<lparr>pp_jobs := (pp_jobs p)\<lparr>js_rows := rows\<rparr>, pp_media := ms,
          pp_packages := (pm_prefix pub, keys) # pp_packages p\<rparr>)
    | (Inl e, _) \<Rightarrow> (Inl (if e = LeaseLost then Lost else Temp ''publish: not found''), p)"
  have keys: "\<forall>k \<in> set keys. (j, k) \<in> set (pp_sent p) \<and> has_prefix (pm_prefix pub) k"
    using assms(3,4) p by (auto simp: sent_by_def)
  have "psteps p (snd (?f now p))"
  proof (cases "fenced now j (publish_media now i pub) (js_rows (pp_jobs p), pp_media p)")
    case (fields r rows ms)
    show ?thesis
    proof (cases r)
      case (Inr u)
      with fields have ok: "fenced now j (publish_media now i pub) (js_rows (pp_jobs p), pp_media p) = (Inr (), rows, ms)" by simp
      have "j \<in> set (js_out (pp_jobs p))" using p by (simp add: sent_by_def)
      from pstep.Published [OF this assms(1,2) keys ok] ok show ?thesis by auto
    qed (simp add: fields)
  qed
  with p show "psteps p (snd (?f now p)) \<and> ((\<exists>x. fst (?f now p) = Inr x) \<longrightarrow> sent_by j K (snd (?f now p)))"
    using sent_by_steps by blast
qed

lemma takes_steps_mono: "takes_steps j K m L \<Longrightarrow> M \<subseteq> L \<Longrightarrow> takes_steps j K m M"
  unfolding takes_steps_def sent_by_def by blast

lemma steps_upload_step:
  assumes l: "jb_lease j = Some l"
  shows "takes_steps j K (upload_step j i sel subs thumb board out) K"
proof -
  have e: "lease_of j = l" using l by (simp add: lease_of_def)
  have p: "has_prefix (package_of i l) (package_of i l @ x)" for x by (simp add: has_prefix_def)
  show ?thesis
    unfolding upload_step_def Let_def e
    by (intro steps_then [OF steps_status] steps_bind [OF steps_upload [OF l]] takes_steps_mono [OF steps_publish [OF l]])
      (auto simp: p)
qed

lemma steps_package_step: "jb_lease j = Some l \<Longrightarrow> takes_steps j K (package_step kit j i pr sel) K"
  unfolding package_step_def
  by (auto split: prod.split option.split intro!: steps_then [OF steps_status] steps_then [OF steps_reports] steps_bind [OF steps_lift]
      steps_then [OF steps_report] steps_upload_step)

lemma steps_process: "jb_lease j = Some l \<Longrightarrow> takes_steps j K (process kit j m) K"
  unfolding process_def download_step_def
  by (intro steps_then [OF steps_status] steps_then [OF steps_reports] steps_bind [OF steps_lift] steps_then [OF steps_lift]
      steps_then [OF steps_report] steps_then [OF steps_probe] steps_package_step)

lemma steps_or_fail:
  assumes "takes_steps j K m K"
  shows "takes_steps j K (or_fail j i m) K"
  unfolding takes_steps_def
proof (intro allI impI)
  fix t
  assume t: "others_ok t" "sent_by j K (tn_pipe t)"
  note a = assms [unfolded takes_steps_def, rule_format, OF t]
  obtain r u where m: "m t = (r, u)" by (cases "m t")
  have u: "sent_by j K (tn_pipe u)" using a sent_by_steps t(2) m by auto
  have "takes_steps j K (fenced_media j (\<lambda>now. fail_media now i msg)) K" for msg
    by (rule steps_fenced) (rule media_writes_keep)
  note f = this [unfolded takes_steps_def, rule_format, OF _ u]
  show "others_ok (snd (or_fail j i m t)) \<and> psteps (tn_pipe t) (tn_pipe (snd (or_fail j i m t)))
     \<and> ((\<exists>x. fst (or_fail j i m t) = Inr x) \<longrightarrow> sent_by j K (tn_pipe (snd (or_fail j i m t))))"
    using a f m by (cases r) (auto simp: or_fail_def intro: rtranclp_trans)
qed

lemma steps_find: "takes_steps j K (find_media i) K"
  unfolding find_media_def
  by (intro steps_for_good steps_call) (auto split: option.split)

lemma steps_handle: "jb_lease j = Some l \<Longrightarrow> takes_steps j K (handle_job kit j) K"
  unfolding handle_job_def
  by (auto split: option.split intro!: steps_stop steps_bind [OF steps_find] steps_ok steps_or_fail steps_process)

lemma steps_run:
  assumes "jb_lease j = Some l" and "others_ok t" and "j \<in> set (js_out (pp_jobs (tn_pipe t)))"
  shows "psteps (tn_pipe t) (tn_pipe (run_attempt kit lost j t))"
proof -
  have j: "sent_by j {} (tn_pipe t)" using assms(3) by (simp add: sent_by_def)
  note a = steps_handle [OF assms(1), unfolded takes_steps_def, rule_format, OF assms(2) j, of kit]
  obtain r u where h: "handle_job kit j t = (r, u)" by (cases "handle_job kit j t")
  define fl where "fl = (case r of Inr _ \<Rightarrow> None | Inl (Perm e) \<Rightarrow> Some (e, True) | Inl e \<Rightarrow> Some (err_text e, False))"
  let ?f = "\<lambda>now p. (Inr () :: work_err + unit, p\<lparr>pp_jobs := (pp_jobs p)\<lparr>js_rows := record_attempt now j lost fl (js_rows (pp_jobs p))\<rparr>\<rparr>)"
  have "takes_steps j {} (call ?f) {}"
  proof (rule steps_call)
    fix now p
    assume p: "sent_by j {} p"
    have "pstep p (snd (?f now p))"
      unfolding snd_conv by (rule pstep.Queue) (rule jstep.Recorded, use p in \<open>simp add: sent_by_def\<close>)
    with p show "psteps p (snd (?f now p)) \<and> ((\<exists>x. fst (?f now p) = Inr x) \<longrightarrow> sent_by j {} (snd (?f now p)))"
      using sent_by_step by blast
  qed
  from this [unfolded takes_steps_def, rule_format, of u] a h sent_by_steps [OF _ j]
  have "psteps (tn_pipe u) (tn_pipe (snd (call ?f u)))" by auto
  with a h show ?thesis unfolding run_attempt_def h by (simp add: fl_def rtranclp_trans [of pstep "tn_pipe t" "tn_pipe u"])
qed

text \<open>
  C33: whatever the other processes do between its calls and whichever call fails, an attempt from
  its first write to the record of its outcome takes only steps of the system; so a reachable
  state stays reachable, and everything said of those holds while attempts run.
\<close>

theorem attempts_take_steps:
  assumes "preach (tn_pipe t)" and "j \<in> set (js_out (pp_jobs (tn_pipe t)))"
    and "\<forall>(now, f) \<in> set (tn_others t). \<forall>p. pstep\<^sup>*\<^sup>* p (f p)"
  shows "pstep\<^sup>*\<^sup>* (tn_pipe t) (tn_pipe (run_attempt kit lost j t)) \<and> preach (tn_pipe (run_attempt kit lost j t))"
proof -
  have "jobs_ok (pp_jobs (tn_pipe t))" using preach_ok [OF assms(1)] by (simp add: packages_ok_def)
  then obtain l where l: "jb_lease j = Some l" using assms(2) by (auto simp: jobs_ok_def)
  have "psteps (tn_pipe t) (tn_pipe (run_attempt kit lost j t))"
    by (rule steps_run [OF l _ assms(2)]) (use assms(3) in \<open>simp add: others_ok_def\<close>)
  with preach_steps assms(1) show ?thesis by blast
qed

section \<open>How an undisturbed attempt ends\<close>

definition owning :: "job \<Rightarrow> uuid \<Rightarrow> turn \<Rightarrow> bool" where
  "owning j i t \<longleftrightarrow> tn_faults t = [] \<and> tn_others t = [] \<and> holds_job j (js_rows (pp_jobs (tn_pipe t)))
     \<and> (\<exists>m \<in> set (pp_media (tn_pipe t)). m_id m = i)"

text \<open>\<open>keeps_job\<close>: the job and the row are still there afterwards; \<open>delivers\<close>: and when it goes on, the package is out.\<close>

definition delivered :: "job \<Rightarrow> uuid \<Rightarrow> pipe \<Rightarrow> bool" where
  "delivered j i p \<longleftrightarrow> (\<forall>m \<in> set (pp_media p). m_id m = i \<longrightarrow> m_status m = MediaReady \<and> m_s3_prefix m = package_of i (lease_of j))
     \<and> (\<exists>keys. (package_of i (lease_of j), keys) \<in> set (pp_packages p) \<and> set keys \<subseteq> ob_key ` set (pp_objects p))"

definition keeps_job :: "job \<Rightarrow> uuid \<Rightarrow> 'a act \<Rightarrow> bool" where
  "keeps_job j i m \<longleftrightarrow> (\<forall>t. owning j i t \<longrightarrow> owning j i (snd (m t)))"

definition delivers :: "job \<Rightarrow> uuid \<Rightarrow> unit act \<Rightarrow> bool" where
  "delivers j i m \<longleftrightarrow> keeps_job j i m \<and> (\<forall>t. owning j i t \<longrightarrow> fst (m t) = Inr () \<longrightarrow> delivered j i (tn_pipe (snd (m t))))"

lemma job_lift: "keeps_job j i (lifta r)"
  by (simp add: keeps_job_def lifta_def)

lemma job_ok: "keeps_job j i (oka x)"
  by (simp add: keeps_job_def oka_def)

lemma job_bind: "keeps_job j i m \<Longrightarrow> (\<And>x. keeps_job j i (k x)) \<Longrightarrow> keeps_job j i (binda m k)"
proof -
  assume m: "keeps_job j i m" and k: "\<And>x. keeps_job j i (k x)"
  have "owning j i (snd (binda m k t))" if "owning j i t" for t
  proof (cases "m t")
    case (Pair r u)
    with m that have "owning j i u" by (metis keeps_job_def snd_conv)
    with k Pair show ?thesis by (cases r) (auto simp: binda_def keeps_job_def)
  qed
  then show ?thesis by (simp add: keeps_job_def)
qed

lemma job_anyway: "keeps_job j i m \<Longrightarrow> keeps_job j i (anyway m)"
  by (simp add: keeps_job_def anyway_def)

lemma deliver_bind: "keeps_job j i m \<Longrightarrow> (\<And>x. delivers j i (k x)) \<Longrightarrow> delivers j i (binda m k)"
proof -
  assume m: "keeps_job j i m" and k: "\<And>x. delivers j i (k x)"
  have "fst (binda m k t) = Inr () \<longrightarrow> delivered j i (tn_pipe (snd (binda m k t)))" if "owning j i t" for t
  proof (cases "m t")
    case (Pair r u)
    with m that have "owning j i u" by (metis keeps_job_def snd_conv)
    with k Pair show ?thesis by (cases r) (auto simp: binda_def delivers_def)
  qed
  with job_bind [OF m] k show ?thesis by (auto simp: delivers_def)
qed

lemma deliver_then: "keeps_job j i m \<Longrightarrow> delivers j i k \<Longrightarrow> delivers j i (thena m k)"
  unfolding thena_def by (rule deliver_bind)

lemma call_owning: "owning j i t \<Longrightarrow> call f t = (case f (tn_now t) (tn_pipe t) of (r, p) \<Rightarrow> (r, t\<lparr>tn_pipe := p\<rparr>))"
  by (cases t) (simp add: owning_def call_def others_run_def Let_def split: prod.split)

lemma holds_renewed: "holds_job j (snd (renew now j rows)) = holds_job j rows"
proof -
  have "owned_by j (if owned_by j r then r\<lparr>jb_locked_at := Some now\<rparr> else r) = owned_by j r" for r by simp
  then show ?thesis unfolding renew_def write_owned_map holds_job_def by fastforce
qed

lemma still_there:
  assumes "m \<in> set ms" and "m_id m = i" and "m_id (f m) = m_id m"
  shows "\<exists>x \<in> set (map (\<lambda>m. if m_id m = i then f m else m) ms). m_id x = i"
  by (rule bexI [of _ "f m"]) (use assms in auto)

lemma fenced_works:
  assumes "holds_job j rows" and "m \<in> set ms" and "m_id m = i"
  shows "fenced now j (on_media i f) (rows, ms) = (Inr (), snd (renew now j rows), map (\<lambda>m. if m_id m = i then f m else m) ms)"
proof -
  have "on_media i f ms = Some (map (\<lambda>m. if m_id m = i then f m else m) ms)" using assms(2,3) by (auto simp: on_media_def)
  moreover have "\<exists>r \<in> set rows. owned_by j r" using assms(1) by (simp add: holds_job_def)
  ultimately show ?thesis by (simp add: fenced_def renew_def write_owned_def)
qed

lemma fenced_media_works:
  assumes t: "owning j i t" and w: "w (tn_now t) = on_media i f" and f: "\<And>m. m_id (f m) = m_id m"
  shows "\<exists>u. fenced_media j w t = (Inr (), u) \<and> owning j i u
     \<and> pp_media (tn_pipe u) = map (\<lambda>m. if m_id m = i then f m else m) (pp_media (tn_pipe t))"
proof -
  from t obtain m where m: "m \<in> set (pp_media (tn_pipe t))" "m_id m = i" and h: "holds_job j (js_rows (pp_jobs (tn_pipe t)))"
    by (auto simp: owning_def)
  note g = fenced_works [OF h m, of "tn_now t" f]
  have "\<exists>x \<in> set (map (\<lambda>m. if m_id m = i then f m else m) (pp_media (tn_pipe t))). m_id x = i"
    by (rule still_there [where f = f, OF m f])
  with t h show ?thesis
    unfolding fenced_media_def call_owning [OF t] w g by (simp add: owning_def holds_renewed)
qed

lemma job_fenced:
  assumes "\<And>now. \<exists>f. keeps_package f \<and> w now = on_media i f"
  shows "keeps_job j i (fenced_media j w)"
  unfolding keeps_job_def
proof (intro allI impI)
  fix t
  assume t: "owning j i t"
  obtain f where f: "keeps_package f" "w (tn_now t) = on_media i f" using assms by blast
  have "\<And>m. m_id (f m) = m_id m" using f(1) by (simp add: keeps_package_def)
  from fenced_media_works [where f = f and w = w, OF t f(2) this] show "owning j i (snd (fenced_media j w t))" by auto
qed

lemma job_status: "keeps_job j i (set_status j i st)"
  unfolding set_status_def by (rule job_fenced) (rule media_writes_keep)

lemma job_report: "keeps_job j i (report_progress j i v)"
  unfolding report_progress_def by (rule job_anyway) (rule job_fenced, rule media_writes_keep)

lemma job_then: "keeps_job j i m \<Longrightarrow> keeps_job j i k \<Longrightarrow> keeps_job j i (thena m k)"
  unfolding thena_def by (rule job_bind)

lemma job_reports: "keeps_job j i (report_all j i vs)"
  by (induction vs) (auto intro: job_ok job_then job_report)

lemma job_probe: "keeps_job j i (store_probe i pr)"
  unfolding keeps_job_def
proof (intro allI impI)
  fix t
  assume t: "owning j i t"
  let ?f = "\<lambda>m. m\<lparr>m_title := pb_title pr, m_duration_ms := pb_duration pr, m_thumbnail_url := pb_thumbnail pr,
       m_chapters := pb_chapters pr, m_updated := tn_now t\<rparr>"
  let ?ms = "map (\<lambda>m. if m_id m = i then ?f m else m) (pp_media (tn_pipe t))"
  have "mark_probed (tn_now t) i (pb_title pr) (pb_duration pr) (pb_thumbnail pr) (pb_chapters pr) (pp_media (tn_pipe t)) = Some ?ms"
    using t by (simp add: owning_def mark_probed_def on_media_def)
  moreover have "\<exists>m \<in> set ?ms. m_id m = i" using t still_there [where f = ?f] by (auto simp: owning_def simp del: set_map)
  ultimately show "owning j i (snd (store_probe i pr t))"
    using t unfolding store_probe_def call_owning [OF t] by (simp add: owning_def)
qed

lemma job_upload: "keeps_job j i (upload_dir j i n fs)"
proof (induction fs arbitrary: n)
  case Nil
  show ?case by (simp add: job_ok)
next
  case (Cons nf fs)
  obtain name data where nf: "nf = (name, data)" by (cases nf)
  show ?case unfolding nf upload_dir.simps
  proof (rule job_then [OF _ Cons.IH], unfold keeps_job_def, intro allI impI)
    fix t
    assume t: "owning j i t"
    then show "owning j i (snd (call (\<lambda>now p. let key = package_of i (lease_of j) @ name in
         (Inr (), p\<lparr>pp_objects := put_object \<lparr>ob_key = key, ob_modified = now, ob_etag = []\<rparr> (pp_objects p),
                    pp_sent := (j, key) # pp_sent p\<rparr>)) t))"
      unfolding call_owning [OF t] by (simp add: owning_def Let_def)
  qed
qed

text \<open>What was uploaded is there when the upload returns.\<close>

lemma upload_stores:
  "owning j i t \<Longrightarrow> fst (upload_dir j i n fs t) = Inr x \<Longrightarrow>
     ob_key ` set (pp_objects (tn_pipe t)) \<union> (\<lambda>f. package_of i (lease_of j) @ fst f) ` set fs
       \<subseteq> ob_key ` set (pp_objects (tn_pipe (snd (upload_dir j i n fs t))))"
proof (induction fs arbitrary: n t)
  case Nil
  then show ?case by (simp add: oka_def)
next
  case (Cons nf fs)
  obtain name data where nf: "nf = (name, data)" by (cases nf)
  let ?b = "\<lparr>ob_key = package_of i (lease_of j) @ name, ob_modified = tn_now t, ob_etag = []\<rparr>"
  let ?u = "t\<lparr>tn_pipe := (tn_pipe t)\<lparr>pp_objects := put_object ?b (pp_objects (tn_pipe t)),
      pp_sent := (j, ob_key ?b) # pp_sent (tn_pipe t)\<rparr>\<rparr>"
  have e: "upload_dir j i n (nf # fs) t = upload_dir j i (n + int (length data)) fs ?u"
    unfolding nf upload_dir.simps thena_def binda_def call_owning [OF Cons.prems(1)] by (simp add: Let_def)
  have u: "owning j i ?u" using Cons.prems(1) by (simp add: owning_def)
  have k: "ob_key ` set (put_object ?b (pp_objects (tn_pipe t))) = insert (ob_key ?b) (ob_key ` set (pp_objects (tn_pipe t)))"
    by (auto simp: put_object_def image_iff)
  from Cons.IH [OF u, of "n + int (length data)"] Cons.prems(2) k show ?case
    unfolding e by (simp add: nf)
qed

lemma publish_delivers:
  assumes t: "owning j i t" and p: "pm_prefix pub = package_of i (lease_of j)"
    and k: "set keys \<subseteq> ob_key ` set (pp_objects (tn_pipe t))"
  shows "owning j i (snd (publish j i pub keys t)) \<and> delivered j i (tn_pipe (snd (publish j i pub keys t)))"
proof -
  let ?f = "\<lambda>m. m\<lparr>m_status := MediaReady, m_progress := 1, m_error := [],
     m_renditions := pm_renditions pub, m_size_bytes := pm_size pub, m_s3_prefix := pm_prefix pub, m_subtitles := pm_subtitles pub,
     m_storyboard := pm_storyboard pub, m_thumbnail_url := (if pm_thumbnail pub = [] then m_thumbnail_url m else pm_thumbnail pub),
     m_updated := tn_now t, m_last_accessed := tn_now t\<rparr>"
  from t obtain m where m: "m \<in> set (pp_media (tn_pipe t))" "m_id m = i" and h: "holds_job j (js_rows (pp_jobs (tn_pipe t)))"
    by (auto simp: owning_def)
  have w: "publish_media (tn_now t) i pub = on_media i ?f" by (simp add: publish_media_def)
  have "\<exists>x \<in> set (map (\<lambda>m. if m_id m = i then ?f m else m) (pp_media (tn_pipe t))). m_id x = i"
    by (rule still_there [where f = ?f, OF m]) simp
  with t h p k show ?thesis
    unfolding publish_def call_owning [OF t] w fenced_works [OF h m]
    by (auto simp: owning_def holds_renewed delivered_def)
qed

lemma deliver_upload: "delivers j i (upload_step j i sel subs thumb board out)"
proof -
  define pub where "pub n = \<lparr>pm_renditions = renditions_of (sl_video sel), pm_size = n, pm_prefix = package_of i (lease_of j),
     pm_subtitles = subs, pm_storyboard = board,
     pm_thumbnail = (if thumb = [] then [] else ''/media/'' @ uuid_text i @ ''/'' @ thumb)\<rparr>" for n
  define keys where "keys = map (\<lambda>f. package_of i (lease_of j) @ fst f) out"
  have "delivers j i (binda (upload_dir j i 0 out) (\<lambda>n. publish j i (pub n) keys))" (is "delivers j i ?m")
  proof -
    have "owning j i (snd (?m t)) \<and> (fst (?m t) = Inr () \<longrightarrow> delivered j i (tn_pipe (snd (?m t))))" if t: "owning j i t" for t
    proof (cases "upload_dir j i 0 out t")
      case (Pair r u)
      have u: "owning j i u" using job_upload t Pair by (metis keeps_job_def snd_conv)
      show ?thesis
      proof (cases r)
        case (Inl e)
        with Pair u show ?thesis by (simp add: binda_def)
      next
        case (Inr n)
        have "set keys \<subseteq> ob_key ` set (pp_objects (tn_pipe u))"
          using upload_stores [OF t, of 0 out n] Pair Inr by (auto simp: keys_def)
        from publish_delivers [OF u _ this, of "pub n"] Pair Inr show ?thesis by (simp add: binda_def pub_def)
      qed
    qed
    then show ?thesis by (auto simp: delivers_def keeps_job_def)
  qed
  from deliver_then [OF job_status this] show ?thesis
    by (simp add: upload_step_def Let_def pub_def keys_def)
qed

lemma deliver_package: "delivers j i (package_step kit j i pr sel)"
  unfolding package_step_def
  by (auto split: prod.split option.split intro!: deliver_then [OF job_status] deliver_then [OF job_reports] deliver_bind [OF job_lift]
      deliver_then [OF job_report] deliver_upload)

lemma deliver_process: "delivers j (m_id m) (process kit j m)"
  unfolding process_def download_step_def
  by (intro deliver_then [OF job_status] deliver_then [OF job_reports] deliver_bind [OF job_lift] deliver_then [OF job_lift]
      deliver_then [OF job_report] deliver_then [OF job_probe] deliver_package)

lemma find_owning:
  assumes "owning j i t" and "find (\<lambda>m. m_id m = i) (pp_media (tn_pipe t)) = Some m"
  shows "find_media i t = (Inr m, t)"
  unfolding find_media_def for_good_def call_owning [OF assms(1)] using assms(2) by (cases t) simp

lemma process_settles:
  assumes t: "owning j (m_id m) t"
  shows "owning j (m_id m) (snd (or_fail j (m_id m) (process kit j m) t))
    \<and> (case fst (or_fail j (m_id m) (process kit j m) t) of
        Inr _ \<Rightarrow> delivered j (m_id m) (tn_pipe (snd (or_fail j (m_id m) (process kit j m) t)))
      | Inl e \<Rightarrow> (\<forall>x \<in> set (pp_media (tn_pipe (snd (or_fail j (m_id m) (process kit j m) t)))). m_id x = m_id m \<longrightarrow>
          m_status x = MediaFailed \<and> m_error x = take 500 (err_text e)))"
proof (cases "process kit j m t")
  case (Pair r u)
  note d = deliver_process [of j m kit, unfolded delivers_def]
  have u: "owning j (m_id m) u" using d t Pair unfolding keeps_job_def by (metis snd_conv)
  show ?thesis
  proof (cases r)
    case (Inr x)
    with d t Pair u show ?thesis by (simp add: or_fail_def) (metis fst_conv snd_conv old.unit.exhaust)
  next
    case (Inl e)
    let ?w = "\<lambda>now. fail_media now (m_id m) (take 500 (err_text e))"
    have "\<exists>v. fenced_media j ?w u = (Inr (), v) \<and> owning j (m_id m) v \<and> pp_media (tn_pipe v) =
        map (\<lambda>x. if m_id x = m_id m then x\<lparr>m_status := MediaFailed, m_error := take 500 (err_text e), m_updated := tn_now u\<rparr> else x)
          (pp_media (tn_pipe u))"
      by (rule fenced_media_works [OF u]) (simp_all add: fail_media_def)
    with Pair Inl show ?thesis by (auto simp: or_fail_def)
  qed
qed

text \<open>
  C34: an attempt that nobody disturbs settles its media: it ends ready, with the attempt's package
  complete in the store, exactly when the handler reports success; otherwise it ends failed with
  the first 500 bytes of the reason.  The attempt still owns its job then, so its outcome counts.
\<close>

theorem attempts_settle_media:
  assumes "tn_faults t = []" and "tn_others t = []" and "uuid_parse (jb_payload j) = Some i"
    and "holds_job j (js_rows (pp_jobs (tn_pipe t)))"
    and "find (\<lambda>m. m_id m = i) (pp_media (tn_pipe t)) = Some m0" and "m_status m0 \<noteq> MediaReady"
  shows "(let (r, u) = handle_job kit j t in holds_job j (js_rows (pp_jobs (tn_pipe u)))
    \<and> (case r of
        Inr _ \<Rightarrow> (\<forall>m \<in> set (pp_media (tn_pipe u)). m_id m = i \<longrightarrow> m_status m = MediaReady \<and> m_s3_prefix m = package_of i (lease_of j))
          \<and> (\<exists>keys. (package_of i (lease_of j), keys) \<in> set (pp_packages (tn_pipe u)) \<and> set keys \<subseteq> ob_key ` set (pp_objects (tn_pipe u)))
      | Inl e \<Rightarrow> \<forall>m \<in> set (pp_media (tn_pipe u)). m_id m = i \<longrightarrow> m_status m = MediaFailed \<and> m_error m = take 500 (err_text e)))"
proof -
  from assms(5) have m0: "m0 \<in> set (pp_media (tn_pipe t))" "m_id m0 = i" by (auto simp: find_Some_iff)
  have t: "owning j i t" using assms m0 by (auto simp: owning_def)
  have "handle_job kit j t = or_fail j i (process kit j m0) t"
    using find_owning [OF t assms(5)] assms(3,6) by (simp add: handle_job_def binda_def)
  moreover obtain r u where e: "or_fail j i (process kit j m0) t = (r, u)" by (cases "or_fail j i (process kit j m0) t")
  ultimately show ?thesis
    using process_settles [of j m0 t kit, unfolded m0(2), OF t, unfolded e fst_conv snd_conv]
    by (cases r) (simp_all add: owning_def delivered_def)
qed

section \<open>What goes wrong between attempts\<close>

text \<open>The probe's result is written without the fence: an attempt that lost its job replaces the poster of a published package.\<close>

lemma probe_is_not_fenced:
  assumes "tn_faults t = []" and "tn_others t = []" and "pp_media (tn_pipe t) = [m]" and "js_rows (pp_jobs (tn_pipe t)) = []"
  shows "fst (store_probe (m_id m) pr t) = Inr ()
    \<and> map m_thumbnail_url (pp_media (tn_pipe (snd (store_probe (m_id m) pr t)))) = [pb_thumbnail pr]"
  using assms by (simp add: store_probe_def call_def others_run_def Let_def mark_probed_def on_media_def)

text \<open>
  A job whose last attempt died is given up, but its media stays in progress, and a retry refuses
  it: nothing moves it any more.
\<close>

lemma last_crash_strands_media:
  assumes "stale now lease r" and "jb_max r \<le> jb_attempts r" and "m_status m = MediaDownloading"
  shows "map jb_status (recover_stale now lease [r]) = [JobFailed] \<and> retry_media f1 f2 now' jid m ([m], [r]) = (False, [m], [r])"
  using assms by (simp add: recover_stale_def unlocked_def retry_media_def)

text \<open>A failure that will be retried marks the media failed, so a retry by hand adds a second job for it.\<close>

lemma retry_adds_second_job:
  assumes "m_status m = MediaFailed" and "jb_status r = JobPending" and "jb_payload r = uuid_text (m_id m)"
  shows "\<exists>ms rows. retry_media False False now jid m ([m], [r]) = (True, ms, rows)
    \<and> map (\<lambda>r. (jb_status r, jb_payload r)) rows = [(JobPending, uuid_text (m_id m)), (JobPending, uuid_text (m_id m))]"
  using assms by (simp add: retry_media_def mark_media_def on_media_def enqueue_def)

section \<open>Admitted links\<close>

text \<open>
  C35: a link is admitted only under its own key, when it is not on the blocklist, and, unless
  private sources are allowed or it is a video of YouTube, only when its host is a public address
  or resolves to public addresses alone.
\<close>

theorem admitted_links_are_public:
  assumes "admit_link p key_of blocked url = Inr (key, u)"
  shows "u = url \<and> key_of url = Some key \<and> blocked key = Some False
    \<and> (po_allow_private p \<or> has_prefix ''youtube:'' key
       \<or> (\<exists>host. po_url_host p (trim_space url) = Some host \<and> host \<noteq> [] \<and>
            (case literal host of Some a \<Rightarrow> is_public_addr a
             | None \<Rightarrow> \<exists>as. po_resolver p host = Inr as \<and> as \<noteq> [] \<and> list_all is_public_addr as)))"
proof -
  from assms have a: "u = url" "key_of url = Some key" "blocked key = Some False" "policy_check p key url = Inr ()"
    by (auto simp: admit_link_def split: option.splits bool.splits sum.splits)
  have "\<exists>host. po_url_host p (trim_space url) = Some host \<and> host \<noteq> [] \<and> check_host (po_resolver p) host = Inr ()"
    if "check_url (po_url_host p) (po_resolver p) url = Inr ()"
    using that by (auto simp: check_url_def split: option.splits if_splits)
  with a show ?thesis
    unfolding resolved_hosts by (auto simp: policy_check_def split: if_splits sum.splits guard_err.splits)
qed

section \<open>Examples\<close>

definition sample_policy :: source_policy where
  "sample_policy = \<lparr>po_allow_private = False, po_url_host = (\<lambda>u. Some (drop 7 u)), po_resolver = (\<lambda>h. Inr [V4 0x09090909])\<rparr>"

theorem admitted_links_are_public_witness:
  "admit_link sample_policy Some (\<lambda>_. Some False) ''http://host'' = Inr (''http://host'', ''http://host'')
    \<and> (\<exists>host. po_url_host sample_policy (trim_space ''http://host'') = Some host \<and> host \<noteq> [])"
proof -
  have t: "trim_space ''http://host'' = ''http://host''" by (rule trim_space_stays) code_simp+
  have l: "literal ''host'' = None" by code_simp
  have p: "is_public_addr (V4 0x09090909)" by (simp add: public_v4 special_v4_def within_def del: is_public_addr.simps)
  have h: "check_host (po_resolver sample_policy) ''host'' = Inr ()"
    unfolding resolved_hosts l using p by (simp add: sample_policy_def del: is_public_addr.simps)
  have n: "po_url_host sample_policy ''http://host'' = Some ''host''" "\<not> po_allow_private sample_policy" by (simp_all add: sample_policy_def)
  have c: "policy_check sample_policy ''http://host'' ''http://host'' = Inr ()"
    unfolding policy_check_def check_url_def t n(1) option.case h using n(2) by (simp add: h)
  have a: "admit_link sample_policy Some (\<lambda>_. Some False) ''http://host'' = Inr (''http://host'', ''http://host'')"
    unfolding admit_link_def option.case bool.case c sum.case by (rule HOL.refl)
  have "\<not> has_prefix ''youtube:'' ''http://host''" by (simp add: has_prefix_def)
  with admitted_links_are_public [OF a] n(2) a show ?thesis by blast
qed

text \<open>An attempt whose probe fails.\<close>

definition sample_tools :: tools where
  "sample_tools = \<lparr>tl_workdir = True, tl_policy = sample_policy\<lparr>po_allow_private := True\<rparr>, tl_probe = (\<lambda>_. Inl ''gone''), tl_ladder = [720],
     tl_download = (\<lambda>_. None), tl_downloading = [], tl_subtitles = None, tl_get = (\<lambda>_. None), tl_package = (\<lambda>_. Inr []),
     tl_packaging = [], tl_storyboard = None\<rparr>"

definition sample_job :: job where
  "sample_job = first_try\<lparr>jb_payload := uuid_text 7\<rparr>"

definition sample_turn :: turn where
  "sample_turn = \<lparr>tn_pipe = no_pipe\<lparr>pp_jobs := no_jobs\<lparr>js_rows := [sample_job], js_out := [sample_job]\<rparr>,
     pp_media := [media_row 7 ''k'' ''u'' 0]\<rparr>, tn_now = 5, tn_faults = [], tn_others = []\<rparr>"

lemma sample_job_facts: "jb_lease sample_job = Some 1" "jb_status sample_job = JobRunning" "jb_id sample_job = 7"
  "uuid_parse (jb_payload sample_job) = Some 7"
  by (simp_all add: sample_job_def first_try_facts uuid_parse_def uuid_text_def)

lemma sample_settles: "fst (handle_job sample_tools sample_job sample_turn) = Inl (Temp ''probe: gone'')"
proof -
  let ?m = "media_row 7 ''k'' ''u'' 0"
  have h: "owning sample_job 7 sample_turn"
    by (simp add: owning_def sample_turn_def holds_job_def owned_by_def sample_job_facts media_row_def)
  have m: "m_id ?m = 7" "m_status ?m \<noteq> MediaReady" by (simp_all add: media_row_def)
  have "fenced_media sample_job (\<lambda>now. mark_media now 7 MediaProbing) sample_turn
      = (Inr (), snd (fenced_media sample_job (\<lambda>now. mark_media now 7 MediaProbing) sample_turn))"
    using fenced_media_works [OF h, of "\<lambda>now. mark_media now 7 MediaProbing"] by (fastforce simp: mark_media_def)
  then obtain u where s: "set_status sample_job 7 MediaProbing sample_turn = (Inr (), u)" unfolding set_status_def by blast
  have k: "tl_workdir sample_tools" "tl_probe sample_tools url = Inl ''gone''" for url by (simp_all add: sample_tools_def)
  have c: "check_source sample_tools ?m = Inr ()" by (simp add: check_source_def sample_tools_def policy_check_def)
  have f: "find (\<lambda>m. m_id m = 7) (pp_media (tn_pipe sample_turn)) = Some ?m"
    by (simp add: sample_turn_def media_row_def)
  have "fst (process sample_tools sample_job ?m sample_turn) = Inl (Temp ''probe: gone'')"
    by (simp add: process_def thena_def binda_def lifta_def m s c k)
  then show ?thesis
    using find_owning [OF h f] m by (cases "process sample_tools sample_job ?m sample_turn")
      (simp add: handle_job_def sample_job_facts binda_def or_fail_def)
qed

theorem attempts_settle_media_witness:
  "list_all (\<lambda>m. if m_id m = 7 then m_status m = MediaFailed \<and> m_error m = ''probe: gone'' else True)
     (pp_media (tn_pipe (snd (handle_job sample_tools sample_job sample_turn))))"
proof -
  have p: "tn_faults sample_turn = []" "tn_others sample_turn = []" "holds_job sample_job (js_rows (pp_jobs (tn_pipe sample_turn)))"
    "find (\<lambda>m. m_id m = 7) (pp_media (tn_pipe sample_turn)) = Some (media_row 7 ''k'' ''u'' 0)" "m_status (media_row 7 ''k'' ''u'' 0) \<noteq> MediaReady"
    by (simp_all add: sample_turn_def holds_job_def owned_by_def sample_job_facts media_row_def)
  from attempts_settle_media [OF p(1,2) sample_job_facts(4) p(3-5), of sample_tools] sample_settles show ?thesis
    by (cases "handle_job sample_tools sample_job sample_turn") (auto simp: err_text_def list_all_iff)
qed

theorem attempts_take_steps_witness: "preach (tn_pipe (run_attempt sample_tools False first_try \<lparr>tn_pipe = uploaded, tn_now = 5,
    tn_faults = [False, True], tn_others = [(6, \<lambda>p. p)]\<rparr>))"
proof -
  have "preach (tn_pipe \<lparr>tn_pipe = uploaded, tn_now = 5, tn_faults = [False, True], tn_others = [(6, \<lambda>p. p)]\<rparr>)"
    using uploaded_reach by simp
  then show ?thesis
    by (rule attempts_take_steps [THEN conjunct2]) (simp_all add: uploaded_def first_try_facts)
qed

end
