(* ===== verification/Passwords.thy ===== *)
theory Passwords
  imports Base64
begin

text \<open>
  Password hashes (\<open>auth/password.go\<close>) in the PHC format.  The key derivation
  (\<open>argon2.IDKey\<close>: password, salt, passes, memory, threads, length) is the parameter \<open>kdf\<close>; it panics on
  zero passes or threads, and returns as many bytes as it is asked for.
\<close>

type_synonym derivation = "string \<Rightarrow> string \<Rightarrow> nat \<Rightarrow> nat \<Rightarrow> nat \<Rightarrow> nat \<Rightarrow> string"

definition argon_version :: nat where "argon_version = 19"
definition argon_time :: nat where "argon_time = 3"
definition argon_memory :: nat where "argon_memory = 64 * 1024"
definition argon_threads :: nat where "argon_threads = 4"
definition argon_key_len :: nat where "argon_key_len = 32"

section \<open>Scanning (\<open>fmt.Sscanf\<close>)\<close>

definition line_end :: char where
  "line_end = char_of (10 :: nat)"

text \<open>Blanks before a number are skipped; a line end is an error.\<close>

definition scan_blank :: "string \<Rightarrow> string option" where
  "scan_blank s = (let r = trim_left (filter (\<lambda>w. w \<noteq> [line_end]) spaces) s in
     if r \<noteq> [] \<and> hd r = line_end then None else Some r)"

definition is_digit :: "char \<Rightarrow> bool" where
  "is_digit c = (let n = of_char c :: nat in 48 \<le> n \<and> n \<le> 57)"

definition scan_uint :: "nat \<Rightarrow> string \<Rightarrow> (nat \<times> string) option" where
  "scan_uint bits s = (case scan_blank s of
      None \<Rightarrow> None
    | Some r \<Rightarrow> map_option (\<lambda>n. (n, dropWhile is_digit r)) (parse_uint 10 bits (takeWhile is_digit r)))"

definition scan_int :: "string \<Rightarrow> (int \<times> string) option" where
  "scan_int s = (case scan_blank s of
      None \<Rightarrow> None
    | Some r \<Rightarrow>
        let sign = (if r \<noteq> [] \<and> hd r \<in> {CHR ''-'', CHR ''+''} then [hd r] else []); t = drop (length sign) r in
        if takeWhile is_digit t = [] then None
        else map_option (\<lambda>n. (n, dropWhile is_digit t)) (parse_int64 (sign @ takeWhile is_digit t)))"

definition scan_text :: "string \<Rightarrow> string \<Rightarrow> string option" where
  "scan_text lit s = (if has_prefix lit s then Some (drop (length lit) s) else None)"

text \<open>Input after the last number is not looked at.\<close>

definition scan_version :: "string \<Rightarrow> int option" where
  "scan_version s = (case scan_text ''v='' s of None \<Rightarrow> None | Some r \<Rightarrow> map_option fst (scan_int r))"

definition scan_costs :: "string \<Rightarrow> (nat \<times> nat \<times> nat) option" where
  "scan_costs s =
     Option.bind (scan_text ''m='' s) (\<lambda>s1. Option.bind (scan_uint 32 s1) (\<lambda>(m, s2).
     Option.bind (scan_text '',t='' s2) (\<lambda>s3. Option.bind (scan_uint 32 s3) (\<lambda>(t, s4).
     Option.bind (scan_text '',p='' s4) (\<lambda>s5. Option.bind (scan_uint 8 s5) (\<lambda>(p, _). Some (m, t, p)))))))"

section \<open>Hashing and verifying\<close>

definition hash_password :: "derivation \<Rightarrow> string \<Rightarrow> string \<Rightarrow> string" where
  "hash_password kdf salt password =
     ''$argon2id$v='' @ dec argon_version @ ''$m='' @ dec argon_memory @ '',t='' @ dec argon_time @ '',p='' @ dec argon_threads
       @ ''$'' @ b64_encode std_alphabet salt
       @ ''$'' @ b64_encode std_alphabet (kdf password salt argon_time argon_memory argon_threads argon_key_len)"

datatype verdict = InvalidHash | Panics | Checked bool

definition verify_password :: "derivation \<Rightarrow> string \<Rightarrow> string \<Rightarrow> verdict" where
  "verify_password kdf hash password = (case split_on CHR ''$'' hash of
      [_, name, version, costs, salt, key] \<Rightarrow>
        if name \<noteq> ''argon2id'' \<or> scan_version version \<noteq> Some (int argon_version) then InvalidHash
        else (case scan_costs costs of
          None \<Rightarrow> InvalidHash
        | Some (memory, passes, threads) \<Rightarrow>
            (case (b64_decode std_alphabet salt, b64_decode std_alphabet key) of
              (Some salt', Some want) \<Rightarrow>
                if want = [] \<or> 1024 < length want then InvalidHash
                else if passes = 0 \<or> threads = 0 then Panics
                else Checked (kdf password salt' passes memory threads (length want) = want)
            | _ \<Rightarrow> InvalidHash))
    | _ \<Rightarrow> InvalidHash)"

section \<open>A hash verifies the password it was made of\<close>

lemma letters_plain: "c \<in> set (b64_encode std_alphabet s) \<Longrightarrow> c \<noteq> CHR ''$''"
  using encode_letters [OF alphabets_ok(1), of s] by (auto simp: std_alphabet_def b64_letters_def)

lemma dollar_free [simp]: "CHR ''$'' \<notin> set (b64_encode std_alphabet s)"
  using letters_plain by blast

text \<open>Nothing is skipped in front of a digit.\<close>

lemma scan_blank_digit: "is_digit (hd r) \<Longrightarrow> scan_blank r = Some r"
proof -
  assume d: "is_digit (hd r)"
  then have p: "printable (hd r)" and l: "hd r \<noteq> line_end"
    by (auto simp: is_digit_def printable_def line_end_def Let_def)
  have "trim_left (filter (\<lambda>w. w \<noteq> [line_end]) spaces) r = r"
    by (rule trim_left_stays) (use p spaces_not_printable in fastforce)
  with l show ?thesis by (simp add: scan_blank_def)
qed

definition own_costs :: string where
  "own_costs = ''m=65536,t=3,p=4''"

lemma own_digits: "map digit [1, 9, 6, 5, 3, 4] = ''196534''"
  by code_simp

lemma own_numbers: "dec argon_version = ''19''" "dec argon_memory = ''65536''" "dec argon_time = ''3''" "dec argon_threads = ''4''"
  using own_digits
  by (simp_all add: argon_version_def argon_memory_def argon_time_def argon_threads_def
      dec.simps [of 65536] dec.simps [of 6553] dec.simps [of 655] dec.simps [of 65] dec.simps [of 6]
      dec.simps [of 19] dec.simps [of "Suc 0"] dec.simps [of 3] dec.simps [of 4])

lemma own_costs_scanned: "scan_costs own_costs = Some (argon_memory, argon_time, argon_threads)"
  by (simp add: scan_costs_def own_costs_def scan_text_def has_prefix_def scan_uint_def scan_blank_digit is_digit_def
      parse_uint_def digit_val_def argon_memory_def argon_time_def argon_threads_def)

lemma own_version_scanned: "scan_version ''v=19'' = Some (int argon_version)"
  by (simp add: scan_version_def scan_text_def has_prefix_def scan_int_def scan_blank_digit is_digit_def
      parse_int64_def parse_uint_def digit_val_def argon_version_def)

lemma split_own_hash:
  "split_on CHR ''$'' (hash_password kdf salt pw) =
     [[], ''argon2id'', ''v=19'', own_costs, b64_encode std_alphabet salt,
      b64_encode std_alphabet (kdf pw salt argon_time argon_memory argon_threads argon_key_len)]"
proof -
  have "hash_password kdf salt pw = [] @ CHR ''$'' # ''argon2id'' @ CHR ''$'' # ''v=19'' @ CHR ''$'' # own_costs
      @ CHR ''$'' # b64_encode std_alphabet salt
      @ CHR ''$'' # b64_encode std_alphabet (kdf pw salt argon_time argon_memory argon_threads argon_key_len)"
    by (simp add: hash_password_def own_costs_def own_numbers)
  moreover have "CHR ''$'' \<notin> set ''argon2id''" "CHR ''$'' \<notin> set ''v=19''" "CHR ''$'' \<notin> set own_costs" "CHR ''$'' \<notin> set []"
    by (simp_all add: own_costs_def)
  ultimately show ?thesis by (simp only: split_on_append split_on_plain dollar_free simp_thms not_False_eq_True)
qed

lemma encode_Nil: "b64_encode al s = [] \<longleftrightarrow> s = []"
  by (cases "(al, s)" rule: b64_encode.cases) (auto simp: Let_def)

text \<open>
  A stored hash accepts exactly the passwords with the same derived key: the salt, the costs and the
  key survive the text.
\<close>

lemma verify_hashed:
  assumes "\<And>p s t m c n. length (kdf p s t m c n) = n"
  shows "verify_password kdf (hash_password kdf salt pw) pw' =
    Checked (kdf pw' salt argon_time argon_memory argon_threads argon_key_len
             = kdf pw salt argon_time argon_memory argon_threads argon_key_len)"
proof -
  have n: "length (kdf pw salt argon_time argon_memory argon_threads argon_key_len) = 32"
    by (simp only: assms) (simp add: argon_key_len_def)
  then have "kdf pw salt argon_time argon_memory argon_threads argon_key_len \<noteq> []" by auto
  with n show ?thesis
    unfolding verify_password_def split_own_hash
    by (simp add: own_version_scanned own_costs_scanned decode_encode alphabets_ok)
       (simp add: argon_time_def argon_threads_def argon_key_len_def)
qed

end
