(* ===== verification/Site.thy ===== *)
theory Site
  imports Web Packages Passwords Go_Run Go_Rune
begin

text \<open>
  The rest of the site's tables, for the account and the administration pages: the sessions, the reports
  of videos, the blocklist and the audit log, beside the tables of \<open>Repository\<close>, with their
  statements (\<open>repository/sessions.go\<close>, \<open>users.go\<close>, \<open>admin.go\<close>).  Every call of the store may
  fail (\<open>si_faults\<close>, call by call).
\<close>

section \<open>State of a request\<close>

record cookie =
  ck_value :: string
  ck_expires :: time
  ck_max_age :: int
  ck_secure :: bool

record report_row =
  rp_id :: uuid
  rp_media :: uuid
  rp_reporter :: uuid
  rp_room :: "uuid option"
  rp_added_by :: "uuid option"
  rp_reason :: string
  rp_comment :: string
  rp_created :: time
  rp_resolved :: "time option"
  rp_resolved_by :: "uuid option"

record block_row =
  bl_key :: string
  bl_reason :: string
  bl_created_by :: "uuid option"
  bl_created :: time

record audit_row =
  al_id :: int
  al_entry :: audit_entry
  al_created :: time

datatype limiter = AuthLimit | LoginLimit | ReportLimit

datatype site_hook = UserBanned uuid | RoomGone uuid | MediaGone uuid

text \<open>
  \<open>si_cookies\<close> are the cookies the reply sets, \<open>si_hooks\<close> the calls into the live rooms and
  \<open>si_asked\<close> when each key asked each limiter; a request reads the clock once.
\<close>

record site =
  si_db :: db
  si_sessions :: "session list"
  si_reports :: "report_row list"
  si_blocked :: "block_row list"
  si_audit :: "audit_row list"
  si_jobs :: "job list"
  si_objects :: "object list"
  si_faults :: "bool list"
  si_now :: time
  si_cookies :: "cookie list"
  si_hooks :: "site_hook list"
  si_asked :: "limiter \<Rightarrow> string \<Rightarrow> time list"

type_synonym 'a call = "site \<Rightarrow> (cerr + 'a) \<times> site"

definition store :: "'a call \<Rightarrow> (site, cerr, 'a) run" where
  "store f s = (case si_faults s of
      True # fs \<Rightarrow> (Inl InternalErr, s\<lparr>si_faults := fs\<rparr>)
    | fs \<Rightarrow> f (s\<lparr>si_faults := tl fs\<rparr>))"

definition peek :: "(site \<Rightarrow> cerr + 'a) \<Rightarrow> 'a call" where
  "peek f s = (f s, s)"

text \<open>A call of \<open>Members\<close> or \<open>Repository\<close>.\<close>

definition on_db :: "(db \<Rightarrow> 'a outcome) \<Rightarrow> 'a call" where
  "on_db f s = (case f (si_db s) of (r, d) \<Rightarrow> (r, s\<lparr>si_db := d\<rparr>))"

text \<open>PostgreSQL keeps no zero byte and no invalid UTF-8 in a text.\<close>

definition text_ok :: "string \<Rightarrow> bool" where
  "text_ok t \<longleftrightarrow> valid_utf8 t \<and> CHR 0x00 \<notin> set t"

lemma gives_store:
  assumes "\<And>t fs. P t \<Longrightarrow> P (t\<lparr>si_faults := fs\<rparr>)" and "\<And>t. P t \<Longrightarrow> P (snd (f t))"
    and "\<And>t x. P t \<Longrightarrow> fst (f t) = Inr x \<Longrightarrow> Q x"
  shows "gives P (store f) Q"
proof (rule gives_intro)
  fix t assume t: "P t"
  show "P (snd (store f t))" using assms(1,2) t by (auto simp: store_def split: list.split bool.split)
  fix x assume "fst (store f t) = Inr x"
  then have "\<exists>fs. fst (f (t\<lparr>si_faults := fs\<rparr>)) = Inr x" by (auto simp: store_def split: list.splits bool.splits)
  with assms(1,3) t show "Q x" by blast
qed

section \<open>Sessions (\<open>sessions.go\<close>)\<close>

definition create_session :: "nat list \<Rightarrow> uuid \<Rightarrow> uuid \<Rightarrow> string \<Rightarrow> time \<Rightarrow> unit call" where
  "create_session h i uid agent expires s =
     (if \<not> text_ok agent then (Inl InternalErr, s)
      else if \<exists>x \<in> set (si_sessions s). s_token_hash x = h \<or> s_id x = i then (Inl ConflictErr, s)
      else if uid \<notin> u_id ` set (d_users (si_db s)) then (Inl InternalErr, s)
      else (Inr (), s\<lparr>si_sessions := si_sessions s @ [\<lparr>s_token_hash = h, s_id = i, s_user = uid, s_user_agent = agent,
              s_created = si_now s, s_last_seen = si_now s, s_expires = expires\<rparr>]\<rparr>))"

definition get_session_user :: "nat list \<Rightarrow> time \<Rightarrow> (session \<times> user) call" where
  "get_session_user h now = peek (\<lambda>s. case find (\<lambda>x. s_token_hash x = h \<and> now < s_expires x) (si_sessions s) of
      None \<Rightarrow> Inl NotFoundErr
    | Some x \<Rightarrow> (case get_user (si_db s) (s_user x) of Inl e \<Rightarrow> Inl e | Inr u \<Rightarrow> Inr (x, u)))"

definition touch_session :: "nat list \<Rightarrow> time \<Rightarrow> time \<Rightarrow> unit call" where
  "touch_session h now expires s = (Inr (), s\<lparr>si_sessions :=
     map (\<lambda>x. if s_token_hash x = h then x\<lparr>s_last_seen := now, s_expires := expires\<rparr> else x) (si_sessions s)\<rparr>)"

definition drop_sessions :: "(session \<Rightarrow> bool) \<Rightarrow> nat call" where
  "drop_sessions gone s = (Inr (length (filter gone (si_sessions s))), s\<lparr>si_sessions := filter (\<lambda>x. \<not> gone x) (si_sessions s)\<rparr>)"

definition delete_session :: "nat list \<Rightarrow> nat call" where
  "delete_session h = drop_sessions (\<lambda>x. s_token_hash x = h)"

definition delete_user_sessions :: "uuid \<Rightarrow> nat call" where
  "delete_user_sessions uid = drop_sessions (\<lambda>x. s_user x = uid)"

definition list_user_sessions :: "uuid \<Rightarrow> time \<Rightarrow> session list call" where
  "list_user_sessions uid now = peek (\<lambda>s. Inr (sort_key (\<lambda>x. (- s_last_seen x, - s_created x))
     (filter (\<lambda>x. s_user x = uid \<and> now < s_expires x) (si_sessions s))))"

definition delete_user_session :: "uuid \<Rightarrow> uuid \<Rightarrow> unit call" where
  "delete_user_session uid i s = (case drop_sessions (\<lambda>x. s_user x = uid \<and> s_id x = i) s of
      (Inl e, s') \<Rightarrow> (Inl e, s')
    | (Inr n, s') \<Rightarrow> (if n = 0 then Inl NotFoundErr else Inr (), s'))"

definition delete_other_sessions :: "uuid \<Rightarrow> nat list \<Rightarrow> nat call" where
  "delete_other_sessions uid keep = drop_sessions (\<lambda>x. s_user x = uid \<and> s_token_hash x \<noteq> keep)"

definition delete_expired_sessions :: "time \<Rightarrow> nat call" where
  "delete_expired_sessions now = drop_sessions (\<lambda>x. s_expires x \<le> now)"

section \<open>Users (\<open>users.go\<close>)\<close>

definition create_user :: "string \<Rightarrow> string \<Rightarrow> uuid \<Rightarrow> user call" where
  "create_user name hash i s =
     (let u = \<lparr>u_id = i, u_name = name, u_password_hash = hash, u_role = SiteUser, u_banned_at = None, u_banned_reason = None,
               u_banned_by = None, u_created = si_now s, u_color = []\<rparr>
      in if \<exists>x \<in> set (d_users (si_db s)). u_id x = i \<or> to_lower (u_name x) = to_lower name then (Inl ConflictErr, s)
         else (Inr u, s\<lparr>si_db := (si_db s)\<lparr>d_users := d_users (si_db s) @ [u]\<rparr>\<rparr>))"

text \<open>An update of one row of the users; \<open>exec\<close> wants it to be there, the other statements do not.\<close>

definition change_user :: "uuid \<Rightarrow> (user \<Rightarrow> user) \<Rightarrow> site \<Rightarrow> site" where
  "change_user i f s = s\<lparr>si_db := (si_db s)\<lparr>d_users := map (\<lambda>u. if u_id u = i then f u else u) (d_users (si_db s))\<rparr>\<rparr>"

definition exec_user :: "uuid \<Rightarrow> (user \<Rightarrow> user) \<Rightarrow> unit call" where
  "exec_user i f s = (if i \<in> u_id ` set (d_users (si_db s)) then (Inr (), change_user i f s) else (Inl NotFoundErr, s))"

definition set_user_role :: "uuid \<Rightarrow> site_role \<Rightarrow> unit call" where
  "set_user_role i r = exec_user i (\<lambda>u. u\<lparr>u_role := r\<rparr>)"

definition ban_user :: "uuid \<Rightarrow> uuid \<Rightarrow> string \<Rightarrow> time \<Rightarrow> unit call" where
  "ban_user i by_id reason now s =
     (if \<not> text_ok reason \<or> (i \<in> u_id ` set (d_users (si_db s)) \<and> by_id \<notin> u_id ` set (d_users (si_db s))) then (Inl InternalErr, s)
      else exec_user i (\<lambda>u. u\<lparr>u_banned_at := Some now, u_banned_by := Some by_id, u_banned_reason := Some reason\<rparr>) s)"

definition unban_user :: "uuid \<Rightarrow> unit call" where
  "unban_user i = exec_user i (\<lambda>u. u\<lparr>u_banned_at := None, u_banned_by := None, u_banned_reason := None\<rparr>)"

definition set_user_color :: "uuid \<Rightarrow> string \<Rightarrow> unit call" where
  "set_user_color i c s = (Inr (), change_user i (\<lambda>u. u\<lparr>u_color := c\<rparr>) s)"

definition set_user_password :: "uuid \<Rightarrow> string \<Rightarrow> unit call" where
  "set_user_password i h s = (Inr (), change_user i (\<lambda>u. u\<lparr>u_password_hash := h\<rparr>) s)"

section \<open>LIKE patterns\<close>

datatype like_part = Lit char | AnyRune | AnyText

text \<open>A pattern, read; None is a backslash at its end, which is an error.\<close>

fun like_parts :: "string \<Rightarrow> like_part list option" where
  "like_parts [] = Some []"
| "like_parts [c] = (if c = CHR 0x5C then None else Some [if c = CHR ''%'' then AnyText else if c = CHR ''_'' then AnyRune else Lit c])"
| "like_parts (c # d # p) =
     (if c = CHR 0x5C then map_option (Cons (Lit d)) (like_parts p)
      else map_option (Cons (if c = CHR ''%'' then AnyText else if c = CHR ''_'' then AnyRune else Lit c)) (like_parts (d # p)))"

function like_match :: "like_part list \<Rightarrow> string \<Rightarrow> bool" where
  "like_match [] s = (s = [])"
| "like_match (Lit c # ps) s = (case s of [] \<Rightarrow> False | d # t \<Rightarrow> c = d \<and> like_match ps t)"
| "like_match (AnyRune # ps) s = (case s of [] \<Rightarrow> False | d # t \<Rightarrow> like_match ps (drop (rune_len d t) t))"
| "like_match (AnyText # ps) s = (like_match ps s \<or> (case s of [] \<Rightarrow> False | d # t \<Rightarrow> like_match (AnyText # ps) (drop (rune_len d t) t)))"
  by pat_completeness auto
termination by (relation "measures [length \<circ> snd, length \<circ> fst]") auto

definition like :: "string \<Rightarrow> string \<Rightarrow> bool" where
  "like s p = (case like_parts p of None \<Rightarrow> False | Some ps \<Rightarrow> like_match ps s)"

text \<open>\<open>escapeLike\<close>: three passes of \<open>strings.ReplaceAll\<close>.\<close>

definition replace_char :: "char \<Rightarrow> string \<Rightarrow> string \<Rightarrow> string" where
  "replace_char c r s = concat (map (\<lambda>d. if d = c then r else [d]) s)"

definition escape_like :: "string \<Rightarrow> string" where
  "escape_like s = replace_char CHR ''_'' [CHR 0x5C, CHR ''_''] (replace_char CHR ''%'' [CHR 0x5C, CHR ''%'']
     (replace_char (CHR 0x5C) [CHR 0x5C, CHR 0x5C] s))"

definition search_usernames :: "string \<Rightarrow> nat \<Rightarrow> string list call" where
  "search_usernames prefix limit = peek (\<lambda>s. if \<not> text_ok prefix then Inl InternalErr
     else Inr (take limit (map u_name (sort_key (\<lambda>u. (to_lower (u_name u), u_name u))
       (filter (\<lambda>u. u_banned_at u = None \<and> like (to_lower (u_name u)) (to_lower (escape_like prefix) @ ''%'')) (d_users (si_db s)))))))"

section \<open>An escaped pattern is literal text\<close>

definition escaped :: "char \<Rightarrow> string" where
  "escaped c = (if c \<in> {CHR 0x5C, CHR ''%'', CHR ''_''} then [CHR 0x5C, c] else [c])"

lemma escape_like_chars: "escape_like s = concat (map escaped s)"
  by (induction s) (auto simp: escape_like_def replace_char_def escaped_def)

lemma like_parts_escaped: "q \<noteq> [] \<Longrightarrow> like_parts (escaped c @ q) = map_option (Cons (Lit c)) (like_parts q)"
  by (cases q) (simp_all add: escaped_def)

lemma like_parts_literal: "like_parts (concat (map escaped s) @ ''%'') = Some (map Lit s @ [AnyText])"
proof (induction s)
  case (Cons c s)
  with like_parts_escaped [of "concat (map escaped s) @ ''%''" c] show ?case by simp
qed simp

lemma like_match_any: "like_match [AnyText] s"
proof (induction "length s" arbitrary: s rule: less_induct)
  case less
  show ?case
  proof (cases s)
    case (Cons d t)
    with less [of "drop (rune_len d t) t"] show ?thesis by simp
  qed simp
qed

lemma like_match_literal: "like_match (map Lit p @ [AnyText]) s \<longleftrightarrow> has_prefix p s"
proof (induction p arbitrary: s)
  case Nil
  show ?case using like_match_any [of s] by (simp only: list.map append_Nil) (simp add: has_prefix_def)
next
  case (Cons c p)
  then show ?case by (cases s) (auto simp: has_prefix_def)
qed

lemma like_escaped: "like s (escape_like p @ ''%'') = has_prefix p s"
  by (simp add: like_def escape_like_chars like_parts_literal like_match_literal)

definition lower_char :: "char \<Rightarrow> char" where
  "lower_char c = (let n = of_char c :: nat in if 65 \<le> n \<and> n \<le> 90 then char_of (n + 32) else c)"

lemma to_lower_chars: "to_lower s = map lower_char s"
  by (simp add: to_lower_def lower_char_def)

lemma lower_escaped: "map lower_char (escaped c) = escaped (lower_char c)"
proof (cases "65 \<le> (of_char c :: nat) \<and> (of_char c :: nat) \<le> 90")
  case True
  then have l: "lower_char c = char_of (of_char c + 32 :: nat)" by (simp add: lower_char_def)
  with True have n: "of_char (lower_char c) = (of_char c + 32 :: nat)" by simp
  from True have "c \<notin> {CHR 0x5C, CHR ''%'', CHR ''_''}" by auto
  moreover have "lower_char c \<notin> {CHR 0x5C, CHR ''%'', CHR ''_''}"
  proof
    assume "lower_char c \<in> {CHR 0x5C, CHR ''%'', CHR ''_''}"
    then have "of_char (lower_char c) \<in> {92, 37, 95 :: nat}" by auto
    with n True show False by auto
  qed
  ultimately show ?thesis by (simp add: escaped_def)
next
  case False
  then have "lower_char c = c" by (auto simp: lower_char_def Let_def)
  moreover have "lower_char (CHR 0x5C) = CHR 0x5C" by (simp add: lower_char_def)
  ultimately show ?thesis by (simp add: escaped_def)
qed

lemma lower_escape_like: "to_lower (escape_like s) = escape_like (to_lower s)"
proof -
  have "map lower_char (concat (map escaped s)) = concat (map escaped (map lower_char s))"
    by (induction s) (simp_all add: lower_escaped)
  then show ?thesis by (simp only: to_lower_chars escape_like_chars)
qed

end
