(* ===== verification/Ratelimit.thy ===== *)
theory Ratelimit
  imports Go_Text
begin

text \<open>
  The rate limits (\<open>ratelimit/ratelimit.go\<close>): one token bucket per key, forgotten when it is idle.
  The bucket of \<open>golang.org/x/time/rate\<close> is a parameter: \<open>fresh\<close> is a new one, \<open>take_one now b\<close> is
  \<open>AllowN(now, 1)\<close> with the bucket after it.
\<close>

section \<open>Limiter\<close>

type_synonym 'b buckets = "string \<Rightarrow> ('b \<times> int) option"

definition idle_ttl :: int where
  "idle_ttl = 10 * 60 * 1000000000"

definition allow_key :: "'b \<Rightarrow> (int \<Rightarrow> 'b \<Rightarrow> bool \<times> 'b) \<Rightarrow> int \<Rightarrow> string \<Rightarrow> 'b buckets \<Rightarrow> bool \<times> 'b buckets" where
  "allow_key fresh take_one now k bs =
     (let b = (case bs k of None \<Rightarrow> fresh | Some (b, _) \<Rightarrow> b) in
      case take_one now b of (ok, b') \<Rightarrow> (ok, bs(k \<mapsto> (b', now))))"

definition sweep :: "int \<Rightarrow> 'b buckets \<Rightarrow> 'b buckets" where
  "sweep now bs = (\<lambda>k. case bs k of None \<Rightarrow> None | Some (b, seen) \<Rightarrow> if seen < now - idle_ttl then None else Some (b, seen))"

text \<open>\<open>Middleware\<close>: an empty key is not limited.\<close>

definition limited :: "'b \<Rightarrow> (int \<Rightarrow> 'b \<Rightarrow> bool \<times> 'b) \<Rightarrow> int \<Rightarrow> string \<Rightarrow> 'b buckets \<Rightarrow> bool \<times> 'b buckets" where
  "limited fresh take_one now k bs = (if k = [] then (True, bs) else allow_key fresh take_one now k bs)"

section \<open>Keys\<close>

definition find_last :: "char \<Rightarrow> string \<Rightarrow> nat option" where
  "find_last c s = (if c \<in> set s then Some (length s - 1 - length (takeWhile (\<lambda>d. d \<noteq> c) (rev s))) else None)"

text \<open>The host of \<open>net.SplitHostPort\<close>; None is an error.\<close>

definition split_host :: "string \<Rightarrow> string option" where
  "split_host s = (case find_last CHR '':'' s of
      None \<Rightarrow> None
    | Some i \<Rightarrow>
        if hd s = CHR ''['' then
          let inner = takeWhile (\<lambda>c. c \<noteq> CHR '']'') s; e = length inner in
          if e = length s \<or> e + 1 \<noteq> i \<or> CHR ''['' \<in> set (drop 1 s) \<or> CHR '']'' \<in> set (drop (e + 1) s) then None
          else Some (drop 1 inner)
        else if CHR '':'' \<in> set (take i s) \<or> CHR ''['' \<in> set s \<or> CHR '']'' \<in> set s then None
        else Some (take i s))"

definition trim_blanks :: "string \<Rightarrow> string" where
  "trim_blanks s = rev (dropWhile (\<lambda>c. c = CHR '' '') (rev (dropWhile (\<lambda>c. c = CHR '' '') s)))"

definition client_ip :: "bool \<Rightarrow> string \<Rightarrow> string \<Rightarrow> string" where
  "client_ip trust forwarded remote =
     (if trust \<and> forwarded \<noteq> [] then trim_blanks (takeWhile (\<lambda>c. c \<noteq> CHR '','') forwarded)
      else case split_host remote of None \<Rightarrow> remote | Some h \<Rightarrow> h)"

section \<open>Sweeping\<close>

text \<open>A run of the limiter: what it answered, event by event.\<close>

datatype limiter_event = Asks string int | Sweeps int

fun limiter_run :: "'b \<Rightarrow> (int \<Rightarrow> 'b \<Rightarrow> bool \<times> 'b) \<Rightarrow> limiter_event list \<Rightarrow> 'b buckets \<Rightarrow> bool list" where
  "limiter_run fresh take_one [] bs = []"
| "limiter_run fresh take_one (Asks k now # es) bs =
     (case allow_key fresh take_one now k bs of (ok, bs') \<Rightarrow> ok # limiter_run fresh take_one es bs')"
| "limiter_run fresh take_one (Sweeps now # es) bs = limiter_run fresh take_one es (sweep now bs)"

fun event_time :: "limiter_event \<Rightarrow> int" where
  "event_time (Asks k now) = now"
| "event_time (Sweeps now) = now"

text \<open>
  A bucket that answers like a new one from \<open>t\<close> on, whatever it is asked.
\<close>

definition like_new :: "'b \<Rightarrow> (int \<Rightarrow> 'b \<Rightarrow> bool \<times> 'b) \<Rightarrow> int \<Rightarrow> 'b \<Rightarrow> bool" where
  "like_new fresh take_one t b \<longleftrightarrow> (\<forall>now \<ge> t. take_one now b = take_one now fresh)"

text \<open>Buckets that agree, but for one that is missing and one like new from \<open>t\<close> on.\<close>

definition same_buckets :: "'b \<Rightarrow> (int \<Rightarrow> 'b \<Rightarrow> bool \<times> 'b) \<Rightarrow> int \<Rightarrow> 'b buckets \<Rightarrow> 'b buckets \<Rightarrow> bool" where
  "same_buckets fresh take_one t bs cs \<longleftrightarrow> (\<forall>k. case (bs k, cs k) of
      (Some (b, x), None) \<Rightarrow> like_new fresh take_one t b
    | (None, Some (c, x)) \<Rightarrow> False
    | (Some (b, x), Some (c, y)) \<Rightarrow> b = c \<and> x = y
    | (None, None) \<Rightarrow> True)"

text \<open>When an idle bucket is full again by the time it is swept, sweeping is not noticed.\<close>

definition refills :: "'b \<Rightarrow> (int \<Rightarrow> 'b \<Rightarrow> bool \<times> 'b) \<Rightarrow> bool" where
  "refills fresh take_one \<longleftrightarrow> (\<forall>b now t. now + idle_ttl < t \<longrightarrow> like_new fresh take_one t (snd (take_one now b)))"

definition seen_ok :: "'b \<Rightarrow> (int \<Rightarrow> 'b \<Rightarrow> bool \<times> 'b) \<Rightarrow> 'b buckets \<Rightarrow> bool" where
  "seen_ok fresh take_one bs \<longleftrightarrow> (\<forall>k b x. bs k = Some (b, x) \<longrightarrow> (\<exists>c. b = snd (take_one x c)))"

lemma seen_ok_allow: "seen_ok fresh take_one bs \<Longrightarrow> seen_ok fresh take_one (snd (allow_key fresh take_one now k bs))"
  by (auto simp: seen_ok_def allow_key_def Let_def split: prod.splits) (metis snd_conv)+

lemma same_allow:
  assumes "same_buckets fresh take_one t bs cs" and "t \<le> now"
  shows "fst (allow_key fresh take_one now k bs) = fst (allow_key fresh take_one now k cs)
    \<and> same_buckets fresh take_one t (snd (allow_key fresh take_one now k bs)) (snd (allow_key fresh take_one now k cs))"
proof -
  have "take_one now (case bs k of None \<Rightarrow> fresh | Some (b, _) \<Rightarrow> b) = take_one now (case cs k of None \<Rightarrow> fresh | Some (b, _) \<Rightarrow> b)"
    using assms(1) [unfolded same_buckets_def, rule_format, of k] assms(2)
    by (cases "bs k"; cases "cs k") (auto simp: like_new_def)
  then obtain ok b' where "take_one now (case bs k of None \<Rightarrow> fresh | Some (b, _) \<Rightarrow> b) = (ok, b')"
      "take_one now (case cs k of None \<Rightarrow> fresh | Some (b, _) \<Rightarrow> b) = (ok, b')" by (metis prod.exhaust)
  then have a: "allow_key fresh take_one now k bs = (ok, bs(k \<mapsto> (b', now)))"
      "allow_key fresh take_one now k cs = (ok, cs(k \<mapsto> (b', now)))" by (simp_all add: allow_key_def)
  show ?thesis unfolding a fst_conv snd_conv using assms(1) by (simp add: same_buckets_def)
qed

lemma like_new_later: "like_new fresh take_one t b \<Longrightarrow> t \<le> u \<Longrightarrow> like_new fresh take_one u b"
  by (auto simp: like_new_def)

lemma same_sweep:
  assumes s: "same_buckets fresh take_one t bs cs" and seen: "seen_ok fresh take_one bs"
    and r: "refills fresh take_one" and t: "t \<le> now"
  shows "same_buckets fresh take_one now bs (sweep now cs)"
  unfolding same_buckets_def
proof
  fix k
  have k: "case (bs k, cs k) of (Some (b, x), None) \<Rightarrow> like_new fresh take_one t b | (None, Some (c, x)) \<Rightarrow> False
    | (Some (b, x), Some (c, y)) \<Rightarrow> b = c \<and> x = y | (None, None) \<Rightarrow> True"
    using s by (simp add: same_buckets_def)
  have new: "like_new fresh take_one now b" if "bs k = Some (b, x)" "x < now - idle_ttl" for b x
    using seen r that by (fastforce simp: seen_ok_def refills_def)
  show "case (bs k, sweep now cs k) of (Some (b, x), None) \<Rightarrow> like_new fresh take_one now b | (None, Some (c, x)) \<Rightarrow> False
    | (Some (b, x), Some (c, y)) \<Rightarrow> b = c \<and> x = y | (None, None) \<Rightarrow> True"
    using k new like_new_later [OF _ t] by (auto simp: sweep_def split: option.splits)
qed

text \<open>The answers of a limiter that is never swept.\<close>

fun unswept :: "limiter_event list \<Rightarrow> limiter_event list" where
  "unswept [] = []"
| "unswept (Asks k now # es) = Asks k now # unswept es"
| "unswept (Sweeps now # es) = unswept es"

lemma sweeping_unnoticed_from:
  assumes "refills fresh take_one" "sorted_wrt (\<le>) (t # map event_time es)"
    "same_buckets fresh take_one t bs cs" "seen_ok fresh take_one bs"
  shows "limiter_run fresh take_one es cs = limiter_run fresh take_one (unswept es) bs"
  using assms(2-)
proof (induction es arbitrary: t bs cs)
  case (Cons e es)
  show ?case
  proof (cases e)
    case (Asks k now)
    with Cons.prems have t: "t \<le> now" "sorted_wrt (\<le>) (t # map event_time es)" by auto
    note a = same_allow [OF Cons.prems(2) t(1), of k]
    note i = Cons.IH [OF t(2) conjunct2 [OF a] seen_ok_allow [OF Cons.prems(3)]]
    show ?thesis using Asks a i by (simp add: case_prod_beta)
  next
    case (Sweeps now)
    with Cons.prems have t: "t \<le> now" "sorted_wrt (\<le>) (now # map event_time es)" by auto
    from Cons.IH [OF t(2) same_sweep [OF Cons.prems(2,3) assms(1) t(1)] Cons.prems(3)] Sweeps
    show ?thesis by simp
  qed
qed simp


text \<open>
  The other way round: a key that was swept is answered as if it had never asked, however much of
  its budget it had used up.
\<close>

lemma swept_key_starts_over:
  assumes "bs k = Some (b, seen)" and "seen < now - idle_ttl"
  shows "fst (allow_key fresh take_one t k (sweep now bs)) = fst (take_one t fresh)"
  using assms by (simp add: allow_key_def sweep_def case_prod_beta)

text \<open>The first entry of the list of proxies decides, and a peer address loses its port.\<close>

lemma direct_client: "CHR '':'' \<notin> set host \<Longrightarrow> CHR ''['' \<notin> set (host @ port) \<Longrightarrow> CHR '']'' \<notin> set (host @ port)
    \<Longrightarrow> CHR '':'' \<notin> set port \<Longrightarrow> host \<noteq> [] \<Longrightarrow> client_ip False forwarded (host @ CHR '':'' # port) = host"
proof -
  assume a: "CHR '':'' \<notin> set host" "CHR ''['' \<notin> set (host @ port)" "CHR '']'' \<notin> set (host @ port)"
    "CHR '':'' \<notin> set port" "host \<noteq> []"
  have "takeWhile (\<lambda>d. d \<noteq> CHR '':'') (rev port @ CHR '':'' # rev host) = rev port"
    using a(4) by (subst takeWhile_append2) auto
  then have "find_last CHR '':'' (host @ CHR '':'' # port) = Some (length host)"
    by (simp add: find_last_def)
  moreover have "hd (host @ CHR '':'' # port) \<noteq> CHR ''[''" using a(2,5) by (cases host) auto
  ultimately show ?thesis using a by (simp add: client_ip_def split_host_def)
qed

end
