(* ===== verification/Sessions.thy ===== *)
theory Sessions
  imports Site Ratelimit
begin

text \<open>
  Sessions and who a request belongs to (\<open>auth/session.go\<close>, \<open>auth/middleware.go\<close>).  A request is a
  \<open>visit\<close>; SHA-256, the parts of a URL and case folding are parameters.
\<close>

section \<open>Requests\<close>

text \<open>\<open>vs_random\<close>, \<open>vs_salt\<close> and the \<open>vs_new\<close> identifiers are the fresh random values of the request.\<close>

record visit =
  vs_cookie :: "string option"
  vs_agent :: string
  vs_method :: string
  vs_fetch_site :: string
  vs_origin :: string
  vs_referer :: string
  vs_host :: string
  vs_remote :: string
  vs_forwarded :: string
  vs_random :: string
  vs_salt :: string
  vs_new_user :: uuid
  vs_new_row :: uuid

record site_env =
  se_hash :: "string \<Rightarrow> nat list"
  se_ttl :: duration
  se_secure :: bool
  se_kdf :: derivation
  se_dummy_salt :: string
  se_url_host :: "string \<Rightarrow> string option"
  se_fold :: "string \<Rightarrow> string \<Rightarrow> bool"
  se_lower :: "string \<Rightarrow> string"
  se_allow :: "limiter \<Rightarrow> (time list \<Rightarrow> time \<Rightarrow> bool) option"
  se_trust_proxy :: bool
  se_hook :: bool
  se_objects :: bool
  se_drop_objects :: "string \<Rightarrow> (object \<Rightarrow> bool) option"
  se_loaded :: "nat option"
  se_budget :: int

definition touch_interval :: duration where "touch_interval = 5 * 60 * 1000000000"
definition max_user_agent :: nat where "max_user_agent = 512"

text \<open>
  \<open>se_allow\<close> is what a limiter answers after the times its key has asked (\<open>Ratelimit\<close>); None is no
  limiter.  \<open>se_lower\<close> is \<open>strings.ToLower\<close>.
\<close>

datatype auth_err = BannedAccount | CurrentSession | NoSession | StoreErr cerr

definition auth_call :: "'a call \<Rightarrow> (site, auth_err, 'a) run" where
  "auth_call f = rescue (store f) (\<lambda>e. stopa (StoreErr e))"

definition reading_clock :: "(time \<Rightarrow> (site, 'e, 'a) run) \<Rightarrow> (site, 'e, 'a) run" where
  "reading_clock k s = k (si_now s) s"

section \<open>Sessions (\<open>session.go\<close>)\<close>

definition token_of_request :: "visit \<Rightarrow> string option" where
  "token_of_request v = (case vs_cookie v of None \<Rightarrow> None | Some t \<Rightarrow> if t = [] then None else Some t)"

definition session_cookie :: "site_env \<Rightarrow> string \<Rightarrow> time \<Rightarrow> cookie" where
  "session_cookie env t expires = \<lparr>ck_value = t, ck_expires = expires, ck_max_age = 0, ck_secure = se_secure env\<rparr>"

definition cleared_cookie :: "site_env \<Rightarrow> cookie" where
  "cleared_cookie env = (session_cookie env [] 0)\<lparr>ck_max_age := - 1\<rparr>"

definition set_cookie :: "cookie \<Rightarrow> (site, 'e, unit) run" where
  "set_cookie c s = (Inr (), s\<lparr>si_cookies := si_cookies s @ [c]\<rparr>)"

definition issue :: "site_env \<Rightarrow> visit \<Rightarrow> uuid \<Rightarrow> (site, auth_err, unit) run" where
  "issue env v uid =
     thena (case token_of_request v of None \<Rightarrow> oka () | Some old \<Rightarrow> anyway (store (delete_session (se_hash env old))))
     (reading_clock (\<lambda>now.
        let token = b64_encode url_alphabet (vs_random v); expires = now + se_ttl env;
            agent = (if max_user_agent < length (vs_agent v) then to_valid_utf8 (take max_user_agent (vs_agent v)) else vs_agent v)
        in thena (auth_call (create_session (se_hash env token) (vs_new_row v) uid agent expires))
                 (set_cookie (session_cookie env token expires))))"

definition resolve :: "site_env \<Rightarrow> visit \<Rightarrow> (site, auth_err, user option) run" where
  "resolve env v = (case token_of_request v of
      None \<Rightarrow> oka None
    | Some token \<Rightarrow> reading_clock (\<lambda>now. let h = se_hash env token in
        binda (rescue (binda (store (get_session_user h now)) (\<lambda>p. oka (Some p)))
                (\<lambda>e. if e = NotFoundErr then oka None else stopa (StoreErr e))) (\<lambda>r. case r of
            None \<Rightarrow> oka None
          | Some (x, u) \<Rightarrow>
              if user_is_banned (Some u) then thena (anyway (store (delete_user_sessions (u_id u)))) (stopa BannedAccount)
              else thena (if touch_interval < time_sub now (s_last_seen x)
                     then anyway (store (touch_session h now (now + se_ttl env))) else oka ()) (oka (Some u)))))"

definition revoke :: "site_env \<Rightarrow> visit \<Rightarrow> (site, auth_err, unit) run" where
  "revoke env v =
     thena (case token_of_request v of None \<Rightarrow> oka ()
            | Some t \<Rightarrow> binda (auth_call (delete_session (se_hash env t))) (\<lambda>_. oka ()))
       (set_cookie (cleared_cookie env))"

definition revoke_all :: "uuid \<Rightarrow> (site, auth_err, unit) run" where
  "revoke_all uid = binda (auth_call (delete_user_sessions uid)) (\<lambda>_. oka ())"

text \<open>The sessions of the profile page; the flag marks the request's own.\<close>

definition list_sessions :: "site_env \<Rightarrow> visit \<Rightarrow> uuid \<Rightarrow> (site, auth_err, (session \<times> bool) list) run" where
  "list_sessions env v uid = reading_clock (\<lambda>now.
     binda (auth_call (list_user_sessions uid now)) (\<lambda>xs.
       oka (map (\<lambda>x. (x, Some (s_token_hash x) = map_option (se_hash env) (token_of_request v))) xs)))"

definition revoke_by_id :: "site_env \<Rightarrow> visit \<Rightarrow> uuid \<Rightarrow> uuid \<Rightarrow> (site, auth_err, unit) run" where
  "revoke_by_id env v uid i =
     binda (list_sessions env v uid) (\<lambda>xs.
     thena (unlessa (\<not> list_ex (\<lambda>(x, mine). s_id x = i \<and> mine) xs) CurrentSession)
       (auth_call (delete_user_session uid i)))"

definition revoke_others :: "site_env \<Rightarrow> visit \<Rightarrow> uuid \<Rightarrow> (site, auth_err, nat) run" where
  "revoke_others env v uid = (case token_of_request v of
      None \<Rightarrow> stopa NoSession
    | Some t \<Rightarrow> auth_call (delete_other_sessions uid (se_hash env t)))"

section \<open>In front of the handlers (\<open>middleware.go\<close>)\<close>

text \<open>A reply: an error with its text, or a result.\<close>

datatype 'p result = Refuse nat string | Result nat 'p

type_synonym ('p, 'a) handler = "(site, 'p result, 'a) run"

definition server_error :: "('p, 'a) handler" where
  "server_error = stopa (Refuse 500 ''internal error'')"

text \<open>\<open>Middleware\<close>: \<open>next\<close> runs with the user of the request.\<close>

definition with_session :: "site_env \<Rightarrow> visit \<Rightarrow> (user option \<Rightarrow> ('p, 'p result) handler) \<Rightarrow> ('p, 'p result) handler" where
  "with_session env v h =
     binda (rescue (resolve env v) (\<lambda>e. if e = BannedAccount
         then thena (set_cookie (cleared_cookie env)) (stopa (Refuse 403 ''account is banned'')) else server_error)) h"

definition signed_in :: "user option \<Rightarrow> (user \<Rightarrow> ('p, 'a) handler) \<Rightarrow> ('p, 'a) handler" where
  "signed_in u h = (case u of None \<Rightarrow> stopa (Refuse 401 ''authentication required'') | Some x \<Rightarrow> h x)"

definition as_admin :: "user option \<Rightarrow> (user \<Rightarrow> ('p, 'a) handler) \<Rightarrow> ('p, 'a) handler" where
  "as_admin u h = (case u of
      None \<Rightarrow> stopa (Refuse 401 ''authentication required'')
    | Some x \<Rightarrow> if \<not> user_is_admin (Some x) then stopa (Refuse 403 ''administrator role required'') else h x)"

definition safe_method :: "string \<Rightarrow> bool" where
  "safe_method m \<longleftrightarrow> m \<in> {''GET'', ''HEAD'', ''OPTIONS''}"

definition same_origin :: "site_env \<Rightarrow> visit \<Rightarrow> bool" where
  "same_origin env v =
     (if vs_fetch_site v \<notin> {[], ''same-origin'', ''none''} then False
      else let o1 = (if vs_origin v = [] then vs_referer v else vs_origin v)
        in if o1 = [] then True
           else case se_url_host env o1 of None \<Rightarrow> False | Some h \<Rightarrow> se_fold env h (vs_host v))"

definition check_origin :: "site_env \<Rightarrow> visit \<Rightarrow> ('p, 'a) handler \<Rightarrow> ('p, 'a) handler" where
  "check_origin env v h = (if safe_method (vs_method v) \<or> same_origin env v then h
     else stopa (Refuse 403 ''cross-origin request rejected''))"

text \<open>The group \<open>/api/v1\<close> of the router: every request passes both.\<close>

definition api :: "site_env \<Rightarrow> visit \<Rightarrow> (user option \<Rightarrow> ('p, 'p result) handler) \<Rightarrow> site \<Rightarrow> 'p result \<times> site" where
  "api env v h = finish (with_session env v (\<lambda>u. check_origin env v (h u)))"


section \<open>What requests keep\<close>

text \<open>The account a request runs as: the owner of the live session its cookie names, not banned.\<close>

definition owns :: "site_env \<Rightarrow> visit \<Rightarrow> site \<Rightarrow> user \<Rightarrow> bool" where
  "owns env v s u \<longleftrightarrow> u \<in> set (d_users (si_db s)) \<and> u_banned_at u = None \<and>
     (\<exists>token. token_of_request v = Some token \<and>
       (\<exists>x \<in> set (si_sessions s). s_token_hash x = se_hash env token \<and> s_user x = u_id u \<and> si_now s < s_expires x))"

lemma session_user_found:
  assumes "fst (store (get_session_user h now) s) = Inr (x, u)"
  shows "x \<in> set (si_sessions s) \<and> s_token_hash x = h \<and> now < s_expires x \<and> u \<in> set (d_users (si_db s)) \<and> u_id u = s_user x"
proof -
  obtain fs where "fst (get_session_user h now (s\<lparr>si_faults := fs\<rparr>)) = Inr (x, u)"
    using assms by (auto simp: store_def split: list.splits bool.splits)
  then show ?thesis
    by (auto simp: get_session_user_def peek_def get_user_def find_Some_iff split: option.splits)
qed

lemma resolve_owner:
  assumes "fst (resolve env v s) = Inr (Some u)"
  shows "owns env v s u"
proof -
  obtain token where t: "token_of_request v = Some token"
    using assms by (cases "token_of_request v") (auto simp: resolve_def oka_def)
  let ?h = "se_hash env token"
  obtain x where x: "fst (store (get_session_user ?h (si_now s)) s) = Inr (x, u)" and b: "u_banned_at u = None"
    using assms t
    by (auto simp: resolve_def run_steps reading_clock_def Let_def user_is_banned_def split: sum.splits prod.splits if_splits option.splits)
  from session_user_found [OF x] b t show ?thesis by (auto simp: owns_def)
qed

text \<open>Properties of the tables that losing sessions and using one cannot break.\<close>

locale kept_property =
  fixes P :: "site \<Rightarrow> bool"
  assumes faults: "P t \<Longrightarrow> P (t\<lparr>si_faults := fs\<rparr>)"
    and cookies: "P t \<Longrightarrow> P (t\<lparr>si_cookies := cs\<rparr>)"
    and asked: "P t \<Longrightarrow> P (t\<lparr>si_asked := f\<rparr>)"
    and fewer: "P t \<Longrightarrow> P (t\<lparr>si_sessions := filter g (si_sessions t)\<rparr>)"
    and touched: "P t \<Longrightarrow> P (snd (touch_session h now expires t))"
begin

lemma peeks: "(\<And>t x. P t \<Longrightarrow> f t = Inr x \<Longrightarrow> Q x) \<Longrightarrow> gives P (store (peek f)) Q"
  by (rule gives_store) (auto simp: peek_def faults)

lemma stores: "(\<And>t. P t \<Longrightarrow> P (snd (f t))) \<Longrightarrow> keeps P (store f)"
  by (rule gives_store) (auto simp: faults)

lemma drops: "keeps P (store (drop_sessions g))"
  by (rule stores) (simp add: drop_sessions_def fewer)

lemma calls: "gives P (store f) Q \<Longrightarrow> gives P (auth_call f) Q"
  unfolding auth_call_def by (rule gives_rescue) simp_all

lemma clock: "(\<And>now. gives P (k now) Q) \<Longrightarrow> gives P (reading_clock k) Q"
  by (simp add: gives_def reading_clock_def)

lemma sets_cookie: "keeps P (set_cookie c)"
  by (simp add: gives_def set_cookie_def cookies)

lemma resolves: "keeps P (resolve env v)"
proof -
  have "keeps P (store (get_session_user h now))" for h now
    unfolding get_session_user_def by (rule peeks) simp
  moreover have "keeps P (store (touch_session h now e))" for h now e
    by (rule stores) (rule touched)
  moreover have "keeps P (store (delete_user_sessions i))" for i
    unfolding delete_user_sessions_def by (rule drops)
  ultimately show ?thesis
    unfolding resolve_def Let_def
    by (auto split: option.split intro!: clock gives_bind [where Q = "\<lambda>_. True"] gives_rescue gives_then [where Q = "\<lambda>_. True"] keeps_anyway)
qed

lemma issues:
  assumes "\<And>now agent. keeps P (store (create_session (se_hash env (b64_encode url_alphabet (vs_random v))) (vs_new_row v) uid agent (now + se_ttl env)))"
  shows "keeps P (issue env v uid)"
  unfolding issue_def Let_def
  by (auto split: option.split simp: delete_session_def
      intro!: clock gives_then [where Q = "\<lambda>_. True"] keeps_anyway calls assms drops sets_cookie)

lemma revokes: "keeps P (revoke env v)"
  unfolding revoke_def
  by (auto split: option.split simp: delete_session_def
      intro!: gives_bind [where Q = "\<lambda>_. True"] gives_then [where Q = "\<lambda>_. True"] calls drops sets_cookie)

lemma revokes_all: "keeps P (revoke_all uid)"
  unfolding revoke_all_def
  by (auto simp: delete_user_sessions_def intro!: gives_bind [where Q = "\<lambda>_. True"] calls drops)

lemma lists: "keeps P (list_sessions env v uid)"
  unfolding list_sessions_def
  by (auto simp: list_user_sessions_def intro!: clock gives_bind [where Q = "\<lambda>_. True"] calls peeks)

lemma revokes_one: "keeps P (revoke_by_id env v uid i)"
  unfolding revoke_by_id_def
proof (rule gives_bind [OF lists], rule gives_then [OF gives_unless])
  show "keeps P (auth_call (delete_user_session uid i))"
    by (rule calls, rule stores) (auto simp: delete_user_session_def drop_sessions_def fewer split: sum.split)
qed

lemma revokes_others: "keeps P (revoke_others env v uid)"
  unfolding revoke_others_def by (auto split: option.split simp: delete_other_sessions_def intro!: calls drops)

text \<open>A handler runs as the owner of the session.\<close>

lemma serves:
  assumes "P s" and "\<And>u. (\<And>x. u = Some x \<Longrightarrow> owns env v s x) \<Longrightarrow> keeps P (h u)"
  shows "P (snd (api env v h s))"
proof -
  have r: "P (snd (resolve env v s))" using resolves assms(1) by (rule gives_keeps)
  show ?thesis
  proof (cases "resolve env v s")
    case (Pair q t)
    show ?thesis
    proof (cases q)
      case (Inl e)
      with Pair r show ?thesis
        by (auto simp: api_def with_session_def finish_def run_steps set_cookie_def server_error_def cookies)
    next
      case (Inr u)
      have "keeps P (check_origin env v (h u))"
        unfolding check_origin_def using assms(2) resolve_owner Pair Inr by auto
      then have "P (snd (finish (check_origin env v (h u)) t))" by (rule finish_keeps) (use r Pair in simp)
      moreover have "api env v h s = finish (check_origin env v (h u)) t"
        using Pair Inr by (simp add: api_def with_session_def finish_def run_steps)
      ultimately show ?thesis by simp
    qed
  qed
qed

end

end
