(* ===== verification/Accounts.thy ===== *)
theory Accounts
  imports Sessions
begin

text \<open>
  The account pages (\<open>apihttp/auth.go\<close>): registration, login, the profile, the password and the list of
  sessions.
\<close>

section \<open>Requests and replies\<close>

record credentials =
  cr_username :: string
  cr_password :: string

record account_view =
  av_id :: uuid
  av_username :: string
  av_role :: site_role
  av_created :: time
  av_color :: string

record session_view =
  sv_id :: uuid
  sv_agent :: string
  sv_created :: time
  sv_last_seen :: time
  sv_current :: bool

datatype account_reply = Nothing | Account account_view | Names "string list" | SessionList "session_view list" | Revoked nat

definition account_of :: "user \<Rightarrow> account_view" where
  "account_of u = \<lparr>av_id = u_id u, av_username = u_name u, av_role = u_role u, av_created = u_created u, av_color = u_color u\<rparr>"

definition session_view_of :: "session \<times> bool \<Rightarrow> session_view" where
  "session_view_of p = (case p of (x, mine) \<Rightarrow> \<lparr>sv_id = s_id x, sv_agent = s_user_agent x, sv_created = s_created x,
     sv_last_seen = s_last_seen x, sv_current = mine\<rparr>)"

definition read_body :: "'q body \<Rightarrow> ('p, 'q) handler" where
  "read_body b = (case b of
      Body q \<Rightarrow> oka q
    | NoBody \<Rightarrow> stopa (Refuse 400 ''request body is required'')
    | TooLarge \<Rightarrow> stopa (Refuse 413 ''request body too large'')
    | Malformed e \<Rightarrow> stopa (Refuse 400 (''malformed JSON: '' @ e)))"

definition need :: "bool \<Rightarrow> nat \<Rightarrow> string \<Rightarrow> ('p, unit) handler" where
  "need b status msg = unlessa b (Refuse status msg)"

text \<open>A call whose errors are internal ones, and one with an answer of its own for one error.\<close>

definition required :: "(site, 'e, 'a) run \<Rightarrow> ('p, 'a) handler" where
  "required m = rescue m (\<lambda>_. server_error)"

definition required_but :: "cerr \<Rightarrow> nat \<Rightarrow> string \<Rightarrow> 'a call \<Rightarrow> ('p, 'a) handler" where
  "required_but e status msg f = rescue (store f) (\<lambda>e'. if e' = e then stopa (Refuse status msg) else server_error)"

definition found_or_none :: "'a call \<Rightarrow> ('p, 'a option) handler" where
  "found_or_none f = rescue (binda (store f) (\<lambda>x. oka (Some x))) (\<lambda>e. if e = NotFoundErr then oka None else server_error)"

text \<open>Asking a limiter counts, whatever it answers.\<close>

definition under_limit :: "site_env \<Rightarrow> limiter \<Rightarrow> string \<Rightarrow> string \<Rightarrow> ('p, unit) handler" where
  "under_limit env l k msg s = (case se_allow env l of
      None \<Rightarrow> (Inr (), s)
    | Some allow \<Rightarrow> (if allow (si_asked s l k) (si_now s) then Inr () else Inl (Refuse 429 msg),
        s\<lparr>si_asked := (si_asked s)(l := (si_asked s l)(k := si_asked s l k @ [si_now s]))\<rparr>))"

definition by_address :: "site_env \<Rightarrow> visit \<Rightarrow> ('p, unit) handler" where
  "by_address env v = (let k = client_ip (se_trust_proxy env) (vs_forwarded v) (vs_remote v) in
     if k = [] then oka () else under_limit env AuthLimit k ''too many requests'')"

section \<open>Registration and login\<close>

definition username_char :: "char \<Rightarrow> bool" where
  "username_char c \<longleftrightarrow> in_range 65 90 c \<or> in_range 97 122 c \<or> in_range 48 57 c \<or> c = CHR ''_''"

definition username_ok :: "string \<Rightarrow> bool" where
  "username_ok s \<longleftrightarrow> 3 \<le> length s \<and> length s \<le> 32 \<and> list_all username_char s"

definition min_password_len :: nat where "min_password_len = 8"
definition max_password_len :: nat where "max_password_len = 128"

definition password_ok :: "string \<Rightarrow> bool" where
  "password_ok s \<longleftrightarrow> min_password_len \<le> length s \<and> length s \<le> max_password_len"

definition normalize_credentials :: "credentials \<Rightarrow> ('p, credentials) handler" where
  "normalize_credentials c = (let n = trim_space (cr_username c) in
     thena (need (username_ok n) 400 ''username must be 3-32 characters: letters, digits and underscore'')
     (thena (need (password_ok (cr_password c)) 400 ''password must be between 8 and 128 characters'')
       (oka (c\<lparr>cr_username := n\<rparr>))))"

definition handle_register :: "site_env \<Rightarrow> visit \<Rightarrow> credentials body \<Rightarrow> (account_reply, account_reply result) handler" where
  "handle_register env v b =
     binda (read_body b) (\<lambda>q.
     binda (normalize_credentials q) (\<lambda>c.
     binda (required_but ConflictErr 409 ''username is taken''
       (create_user (cr_username c) (hash_password (se_kdf env) (vs_salt v) (cr_password c)) (vs_new_user v))) (\<lambda>u.
     thena (required (issue env v (u_id u)))
       (oka (Result 201 (Account (account_of u)))))))"

definition user_by_name :: "string \<Rightarrow> user call" where
  "user_by_name name = peek (\<lambda>s. if \<not> text_ok name then Inl InternalErr else get_user_by_name (si_db s) name)"

definition dummy_hash :: "site_env \<Rightarrow> string" where
  "dummy_hash env = hash_password (se_kdf env) (se_dummy_salt env) ''dummy-password-for-timing''"

text \<open>A panic of the key derivation is turned into 500 by \<open>middleware.Recoverer\<close>.\<close>

definition verifying :: "site_env \<Rightarrow> string \<Rightarrow> string \<Rightarrow> ('p, bool) handler" where
  "verifying env hash password = (case verify_password (se_kdf env) hash password of
      InvalidHash \<Rightarrow> server_error
    | Panics \<Rightarrow> stopa (Refuse 500 [])
    | Checked ok \<Rightarrow> oka ok)"

text \<open>The second half of a login: an unknown name is verified against a hash nobody has.\<close>

definition login_as :: "site_env \<Rightarrow> visit \<Rightarrow> string \<Rightarrow> user option \<Rightarrow> (account_reply, account_reply result) handler" where
  "login_as env v password u =
     binda (verifying env (case u of None \<Rightarrow> dummy_hash env | Some x \<Rightarrow> u_password_hash x) password) (\<lambda>ok.
      case u of
        None \<Rightarrow> stopa (Refuse 401 ''invalid username or password'')
      | Some x \<Rightarrow>
          thena (need ok 401 ''invalid username or password'')
          (thena (need (\<not> user_is_banned (Some x)) 403 ''account is banned'')
          (thena (required (issue env v (u_id x)))
             (oka (Result 200 (Account (account_of x)))))))"

definition handle_login :: "site_env \<Rightarrow> visit \<Rightarrow> credentials body \<Rightarrow> (account_reply, account_reply result) handler" where
  "handle_login env v b =
     binda (read_body b) (\<lambda>c. let name = trim_space (cr_username c) in
     thena (under_limit env LoginLimit (''user:'' @ se_lower env name) ''too many login attempts'')
     (binda (found_or_none (user_by_name name)) (login_as env v (cr_password c))))"

definition handle_logout :: "site_env \<Rightarrow> visit \<Rightarrow> (account_reply, account_reply result) handler" where
  "handle_logout env v = thena (required (revoke env v)) (oka (Result 204 Nothing))"

section \<open>Profile\<close>

definition handle_search_users :: "string \<Rightarrow> (account_reply, account_reply result) handler" where
  "handle_search_users q = (let prefix = trim_space q in
     if length prefix < 2 \<or> 32 < length prefix then oka (Result 200 (Names []))
     else binda (required (store (search_usernames prefix 8))) (\<lambda>ns. oka (Result 200 (Names ns))))"

definition handle_me :: "user option \<Rightarrow> (account_reply, account_reply result) handler" where
  "handle_me u = (case u of
      None \<Rightarrow> stopa (Refuse 401 ''authentication required'')
    | Some x \<Rightarrow> oka (Result 200 (Account (account_of x))))"

definition handle_update_me :: "user \<Rightarrow> string option body \<Rightarrow> (account_reply, account_reply result) handler" where
  "handle_update_me u b = binda (read_body b) (\<lambda>color. case color of
      None \<Rightarrow> oka (Result 200 (Account (account_of u)))
    | Some c \<Rightarrow>
        thena (need (valid_avatar_color c) 400 ''unknown avatar colour'')
        (thena (required (store (set_user_color (u_id u) c)))
           (oka (Result 200 (Account (account_of (u\<lparr>u_color := c\<rparr>)))))))"

record password_change =
  pc_current :: string
  pc_new :: string

definition handle_change_password :: "site_env \<Rightarrow> visit \<Rightarrow> user \<Rightarrow> password_change body \<Rightarrow> (account_reply, account_reply result) handler" where
  "handle_change_password env v u b =
     binda (read_body b) (\<lambda>q.
     thena (need (password_ok (pc_new q)) 400 ''password must be 8-128 characters'')
     (binda (verifying env (u_password_hash u) (pc_current q)) (\<lambda>ok.
      thena (need ok 403 ''current password is wrong'')
      (thena (required (store (set_user_password (u_id u) (hash_password (se_kdf env) (vs_salt v) (pc_new q)))))
      (thena (required (revoke_all (u_id u)))
      (thena (required (issue env v (u_id u)))
        (oka (Result 204 Nothing))))))))"

definition handle_my_sessions :: "site_env \<Rightarrow> visit \<Rightarrow> user \<Rightarrow> (account_reply, account_reply result) handler" where
  "handle_my_sessions env v u =
     binda (required (list_sessions env v (u_id u))) (\<lambda>xs. oka (Result 200 (SessionList (map session_view_of xs))))"

definition handle_revoke_session :: "site_env \<Rightarrow> visit \<Rightarrow> user \<Rightarrow> string \<Rightarrow> (account_reply, account_reply result) handler" where
  "handle_revoke_session env v u i = (case uuid_parse i of
      None \<Rightarrow> stopa (Refuse 404 ''session not found'')
    | Some sid \<Rightarrow>
        thena (rescue (revoke_by_id env v (u_id u) sid) (\<lambda>e.
           if e = CurrentSession then stopa (Refuse 400 ''this is the current session: log out instead'')
           else if e = StoreErr NotFoundErr then stopa (Refuse 404 ''session not found'') else server_error))
         (oka (Result 204 Nothing)))"

definition handle_revoke_others :: "site_env \<Rightarrow> visit \<Rightarrow> user \<Rightarrow> (account_reply, account_reply result) handler" where
  "handle_revoke_others env v u = binda (required (revoke_others env v (u_id u))) (\<lambda>n. oka (Result 200 (Revoked n)))"

section \<open>Routes (\<open>server.go\<close>)\<close>

datatype account_request =
  Register "credentials body"
| Login "credentials body"
| Logout
| Me
| SearchUsers string
| UpdateMe "string option body"
| ChangePassword "password_change body"
| MySessions
| RevokeSession string
| RevokeOthers

fun account_route :: "site_env \<Rightarrow> visit \<Rightarrow> account_request \<Rightarrow> user option \<Rightarrow> (account_reply, account_reply result) handler" where
  "account_route env v (Register b) u = thena (by_address env v) (handle_register env v b)"
| "account_route env v (Login b) u = thena (by_address env v) (handle_login env v b)"
| "account_route env v Logout u = handle_logout env v"
| "account_route env v Me u = handle_me u"
| "account_route env v (SearchUsers q) u = signed_in u (\<lambda>x. handle_search_users q)"
| "account_route env v (UpdateMe b) u = signed_in u (\<lambda>x. handle_update_me x b)"
| "account_route env v (ChangePassword b) u = signed_in u (\<lambda>x. handle_change_password env v x b)"
| "account_route env v MySessions u = signed_in u (\<lambda>x. handle_my_sessions env v x)"
| "account_route env v (RevokeSession i) u = signed_in u (\<lambda>x. handle_revoke_session env v x i)"
| "account_route env v RevokeOthers u = signed_in u (handle_revoke_others env v)"

definition serve_account :: "site_env \<Rightarrow> visit \<Rightarrow> account_request \<Rightarrow> site \<Rightarrow> account_reply result \<times> site" where
  "serve_account env v q = api env v (account_route env v q)"

section \<open>What the routes keep\<close>

context kept_property begin

lemma limits: "keeps P (under_limit env l k msg)"
  by (simp add: gives_def under_limit_def asked split: option.split)

lemma limits_address: "keeps P (by_address env v)"
  by (simp add: by_address_def Let_def limits)

lemma reads: "gives P (read_body b) (\<lambda>q. b = Body q)"
  by (simp add: read_body_def gives_ok split: body.split)

lemma needs: "gives P (need b status msg) (\<lambda>_. b)"
  unfolding need_def by (rule gives_unless)

lemma requires: "gives P m Q \<Longrightarrow> gives P (required m) Q"
  unfolding required_def server_error_def by (erule gives_rescue) simp

lemma requires_but: "gives P (store f) Q \<Longrightarrow> gives P (required_but e status msg f) Q"
  unfolding required_but_def server_error_def by (erule gives_rescue) simp

lemma finds: "gives P (store f) Q \<Longrightarrow> gives P (found_or_none f) (\<lambda>r. \<forall>x. r = Some x \<longrightarrow> Q x)"
  unfolding found_or_none_def server_error_def
  by (rule gives_rescue, erule gives_bind) (auto intro: gives_ok)

lemma verifies: "gives P (verifying env hash pw) (\<lambda>ok. verify_password (se_kdf env) hash pw = Checked ok)"
  by (simp add: verifying_def server_error_def gives_ok split: verdict.split)

lemma normalizes: "keeps P (normalize_credentials c)"
  unfolding normalize_credentials_def Let_def
  by (rule gives_then [OF needs], rule gives_then [OF needs]) simp

lemma registers:
  assumes user: "\<And>name hash. keeps P (store (create_user name hash (vs_new_user v)))"
    and session: "\<And>now agent. keeps P (store (create_session (se_hash env (b64_encode url_alphabet (vs_random v))) (vs_new_row v) (vs_new_user v) agent (now + se_ttl env)))"
  shows "keeps P (handle_register env v b)"
proof -
  have new: "gives P (store (create_user name hash (vs_new_user v))) (\<lambda>u. u_id u = vs_new_user v)" for name hash
    by (rule gives_also [OF user]) (auto simp: store_def create_user_def Let_def split: list.splits bool.splits if_splits)
  show ?thesis
    unfolding handle_register_def
    by (rule gives_bind [OF reads], rule gives_bind [OF normalizes], rule gives_bind [OF requires_but [OF new]],
        rule gives_then [OF requires [OF issues]]) (simp_all add: session)
qed

lemma logs_in:
  assumes owner: "\<And>c t x. b = Body c \<Longrightarrow> P t \<Longrightarrow> get_user_by_name (si_db t) (trim_space (cr_username c)) = Inr x
        \<Longrightarrow> verify_password (se_kdf env) (u_password_hash x) (cr_password c) = Checked True \<Longrightarrow> u_banned_at x = None \<Longrightarrow> M (u_id x)"
    and session: "\<And>uid now agent. M uid \<Longrightarrow>
        keeps P (store (create_session (se_hash env (b64_encode url_alphabet (vs_random v))) (vs_new_row v) uid agent (now + se_ttl env)))"
  shows "keeps P (handle_login env v b)"
  unfolding handle_login_def Let_def
proof (rule gives_bind [OF reads], rule gives_then [OF limits])
  fix c assume b: "b = Body c"
  let ?name = "trim_space (cr_username c)"
  let ?Q = "\<lambda>x :: user. verify_password (se_kdf env) (u_password_hash x) (cr_password c) = Checked True \<longrightarrow> u_banned_at x = None \<longrightarrow> M (u_id x)"
  have "gives P (store (user_by_name ?name)) ?Q"
    unfolding user_by_name_def by (rule peeks) (use owner [OF b] in \<open>auto split: if_splits\<close>)
  from finds [OF this]
  show "keeps P (binda (found_or_none (user_by_name ?name)) (login_as env v (cr_password c)))"
  proof (rule gives_bind)
    fix u assume u: "\<forall>x. u = Some x \<longrightarrow> ?Q x"
    show "keeps P (login_as env v (cr_password c) u)"
    proof (cases u)
      case (Some x)
      show ?thesis
        unfolding Some option.case login_as_def
        by (rule gives_bind [OF verifies], rule gives_then [OF needs], rule gives_then [OF needs],
            rule gives_then [OF requires [OF issues]]) (use u Some session in \<open>auto simp: user_is_banned_def\<close>)
    qed (auto simp: login_as_def intro: gives_bind [OF verifies])
  qed
qed

lemma changes_password:
  assumes row: "\<And>p h. b = Body p \<Longrightarrow> verify_password (se_kdf env) (u_password_hash u) (pc_current p) = Checked True
        \<Longrightarrow> keeps P (store (set_user_password (u_id u) h))"
    and session: "\<And>p now agent. b = Body p \<Longrightarrow> verify_password (se_kdf env) (u_password_hash u) (pc_current p) = Checked True \<Longrightarrow>
        keeps P (store (create_session (se_hash env (b64_encode url_alphabet (vs_random v))) (vs_new_row v) (u_id u) agent (now + se_ttl env)))"
  shows "keeps P (handle_change_password env v u b)"
  unfolding handle_change_password_def
  by (rule gives_bind [OF reads], rule gives_then [OF needs], rule gives_bind [OF verifies], rule gives_then [OF needs],
      rule gives_then [OF requires [OF row]], simp_all, rule gives_then [OF requires [OF revokes_all]],
      rule gives_then [OF requires [OF issues]]) (simp_all add: session)

lemma updates_me:
  assumes "\<And>c. b = Body (Some c) \<Longrightarrow> keeps P (store (set_user_color (u_id u) c))"
  shows "keeps P (handle_update_me u b)"
  unfolding handle_update_me_def
proof (rule gives_bind [OF reads])
  fix color assume b: "b = Body color"
  show "keeps P (case color of None \<Rightarrow> oka (Result 200 (Account (account_of u)))
    | Some c \<Rightarrow> thena (need (valid_avatar_color c) 400 ''unknown avatar colour'')
        (thena (required (store (set_user_color (u_id u) c))) (oka (Result 200 (Account (account_of (u\<lparr>u_color := c\<rparr>)))))))"
    using assms b by (auto split: option.split intro!: gives_then [OF needs] gives_then [OF requires])
qed

text \<open>A route keeps \<open>P\<close> when its new user, its new session and its change of a user do.\<close>

lemma account_routes:
  assumes "\<And>b name hash. q = Register b \<Longrightarrow> keeps P (store (create_user name hash (vs_new_user v)))"
    and "\<And>b. q = Register b \<Longrightarrow> M (vs_new_user v)"
    and "\<And>c t x. q = Login (Body c) \<Longrightarrow> P t \<Longrightarrow> get_user_by_name (si_db t) (trim_space (cr_username c)) = Inr x
        \<Longrightarrow> verify_password (se_kdf env) (u_password_hash x) (cr_password c) = Checked True \<Longrightarrow> u_banned_at x = None \<Longrightarrow> M (u_id x)"
    and "\<And>c x. q = UpdateMe (Body (Some c)) \<Longrightarrow> u = Some x \<Longrightarrow> keeps P (store (set_user_color (u_id x) c))"
    and "\<And>p x h. q = ChangePassword (Body p) \<Longrightarrow> u = Some x \<Longrightarrow> verify_password (se_kdf env) (u_password_hash x) (pc_current p) = Checked True
        \<Longrightarrow> keeps P (store (set_user_password (u_id x) h)) \<and> M (u_id x)"
    and session: "\<And>uid now agent. M uid \<Longrightarrow>
        keeps P (store (create_session (se_hash env (b64_encode url_alphabet (vs_random v))) (vs_new_row v) uid agent (now + se_ttl env)))"
  shows "keeps P (account_route env v q u)"
proof -
  have signed: "keeps P (signed_in u h)" if "\<And>x. u = Some x \<Longrightarrow> keeps P (h x)" for h :: "user \<Rightarrow> (account_reply, account_reply result) handler"
    using that by (simp add: signed_in_def split: option.split)
  show ?thesis
  proof (cases q)
    case (Register b)
    show ?thesis unfolding Register account_route.simps
      by (rule gives_then [OF limits_address], rule registers) (use assms Register in auto)
  next
    case (Login b)
    show ?thesis unfolding Login account_route.simps
      by (rule gives_then [OF limits_address], rule logs_in [where M = M]) (use assms Login in auto)
  next
    case Logout
    then show ?thesis by (auto simp: handle_logout_def intro!: gives_then [OF requires [OF revokes]])
  next
    case Me
    then show ?thesis by (simp add: handle_me_def split: option.split)
  next
    case (SearchUsers p)
    have "keeps P (store (search_usernames s n))" for s n
      unfolding search_usernames_def by (rule peeks) simp
    then have "keeps P (handle_search_users p)"
      by (auto simp: handle_search_users_def Let_def intro!: gives_bind [OF requires])
    with SearchUsers show ?thesis by (simp add: signed)
  next
    case (UpdateMe b)
    show ?thesis unfolding UpdateMe account_route.simps by (rule signed, rule updates_me) (use assms UpdateMe in auto)
  next
    case (ChangePassword b)
    show ?thesis unfolding ChangePassword account_route.simps
      by (rule signed, rule changes_password) (use assms ChangePassword in auto)
  next
    case MySessions
    have "keeps P (handle_my_sessions env v x)" for x
      by (auto simp: handle_my_sessions_def intro!: gives_bind [OF requires [OF lists]])
    with MySessions show ?thesis by (simp add: signed)
  next
    case (RevokeSession i)
    have "keeps P (handle_revoke_session env v x i)" for x
      by (auto simp: handle_revoke_session_def server_error_def split: option.split
          intro!: gives_then [OF gives_rescue [OF revokes_one]])
    with RevokeSession show ?thesis by (simp add: signed)
  next
    case RevokeOthers
    have "keeps P (handle_revoke_others env v x)" for x
      by (auto simp: handle_revoke_others_def intro!: gives_bind [OF requires [OF revokes_others]])
    with RevokeOthers show ?thesis by (simp add: signed)
  qed
qed

end

end
