(* ===== verification/Accounts_Safe.thy ===== *)
theory Accounts_Safe
  imports Accounts
begin

text \<open>
  What the account pages guarantee whatever fails: the keys of the tables, who gets a session and
  whose row is written; and what an undisturbed change of the password leaves.
\<close>

section \<open>The tables stay coherent\<close>

definition accounts_ok :: "site \<Rightarrow> bool" where
  "accounts_ok s \<longleftrightarrow> distinct (map s_token_hash (si_sessions s)) \<and> distinct (map s_id (si_sessions s))
     \<and> (\<forall>x \<in> set (si_sessions s). s_user x \<in> u_id ` set (d_users (si_db s)))
     \<and> distinct (map u_id (d_users (si_db s))) \<and> distinct (map (\<lambda>u. to_lower (u_name u)) (d_users (si_db s)))"

lemma map_touch: "(\<And>x. f (g x) = f x) \<Longrightarrow> map f (map (\<lambda>x. if c x then g x else x) xs) = map f xs"
  by (induction xs) auto

lemma touched_keys:
  "map s_token_hash (si_sessions (snd (touch_session h now e t))) = map s_token_hash (si_sessions t)"
  "map s_id (si_sessions (snd (touch_session h now e t))) = map s_id (si_sessions t)"
  "map s_user (si_sessions (snd (touch_session h now e t))) = map s_user (si_sessions t)"
  by (simp_all add: touch_session_def map_touch del: map_map)

lemma touched_db [simp]: "si_db (snd (touch_session h now e t)) = si_db t"
  by (simp add: touch_session_def)

lemma accounts_ok_users: "accounts_ok s \<longleftrightarrow> distinct (map s_token_hash (si_sessions s)) \<and> distinct (map s_id (si_sessions s))
     \<and> set (map s_user (si_sessions s)) \<subseteq> u_id ` set (d_users (si_db s))
     \<and> distinct (map u_id (d_users (si_db s))) \<and> distinct (map (\<lambda>u. to_lower (u_name u)) (d_users (si_db s)))"
  by (auto simp: accounts_ok_def)

interpretation coherent: kept_property accounts_ok
proof unfold_locales
  fix t g assume "accounts_ok t"
  then show "accounts_ok (t\<lparr>si_sessions := filter g (si_sessions t)\<rparr>)"
    by (auto simp: accounts_ok_def intro: distinct_map_filter)
next
  fix t h now e assume "accounts_ok t"
  then show "accounts_ok (snd (touch_session h now e t))" by (simp add: accounts_ok_users touched_keys del: set_map)
qed (auto simp: accounts_ok_def)

lemma coherent_session: "keeps accounts_ok (store (create_session h i uid agent e))"
  by (rule coherent.stores) (auto simp: create_session_def accounts_ok_def)

lemma coherent_user: "keeps accounts_ok (store (create_user name h i))"
  by (rule coherent.stores) (auto simp: create_user_def accounts_ok_def Let_def)

lemma changed_rows:
  "(\<And>u. g (f u) = g u) \<Longrightarrow> map g (d_users (si_db (change_user i f t))) = map g (d_users (si_db t))"
  by (simp add: change_user_def map_touch del: map_map)

lemma coherent_change: "(\<And>u. u_id (f u) = u_id u \<and> u_name (f u) = u_name u) \<Longrightarrow> accounts_ok t \<Longrightarrow> accounts_ok (change_user i f t)"
proof -
  assume f: "\<And>u. u_id (f u) = u_id u \<and> u_name (f u) = u_name u" and t: "accounts_ok t"
  have "map u_id (d_users (si_db (change_user i f t))) = map u_id (d_users (si_db t))"
    "map (\<lambda>u. to_lower (u_name u)) (d_users (si_db (change_user i f t))) = map (\<lambda>u. to_lower (u_name u)) (d_users (si_db t))"
    "si_sessions (change_user i f t) = si_sessions t"
    using f by (auto intro!: changed_rows simp: change_user_def)
  with t show ?thesis unfolding accounts_ok_users by (metis image_set)
qed

theorem accounts_stay_coherent: "accounts_ok s \<Longrightarrow> accounts_ok (snd (serve_account env v q s))"
  unfolding serve_account_def
  by (erule coherent.serves, rule coherent.account_routes [where M = "\<lambda>_. True"])
     (auto intro!: coherent_session coherent_user coherent.stores coherent_change simp: set_user_color_def set_user_password_def)

section \<open>Sessions are for those who know the password\<close>

text \<open>Every session is one of \<open>s\<close> or satisfies \<open>A\<close>; with \<open>fixed\<close> the users are those of \<open>s\<close>.\<close>

definition sessions_from :: "site \<Rightarrow> (session \<Rightarrow> bool) \<Rightarrow> bool \<Rightarrow> site \<Rightarrow> bool" where
  "sessions_from s A fixed t \<longleftrightarrow> (fixed \<longrightarrow> d_users (si_db t) = d_users (si_db s)) \<and>
     (\<forall>x \<in> set (si_sessions t). (s_token_hash x, s_user x) \<in> (\<lambda>y. (s_token_hash y, s_user y)) ` set (si_sessions s) \<or> A x)"

definition new_for :: "nat list \<Rightarrow> (uuid \<Rightarrow> bool) \<Rightarrow> session \<Rightarrow> bool" where
  "new_for h M x \<longleftrightarrow> s_token_hash x = h \<and> M (s_user x)"

interpretation handed_out: kept_property "sessions_from s (new_for h M) fixed" for s h M fixed
  by unfold_locales (auto simp: sessions_from_def touch_session_def new_for_def)

definition may_get_session :: "site_env \<Rightarrow> visit \<Rightarrow> account_request \<Rightarrow> site \<Rightarrow> uuid \<Rightarrow> bool" where
  "may_get_session env v q s uid = (case q of
      Register b \<Rightarrow> uid = vs_new_user v
    | Login (Body c) \<Rightarrow> list_ex (\<lambda>x. u_id x = uid \<and> to_lower (u_name x) = to_lower (trim_space (cr_username c)) \<and> u_banned_at x = None
        \<and> verify_password (se_kdf env) (u_password_hash x) (cr_password c) = Checked True) (d_users (si_db s))
    | ChangePassword (Body p) \<Rightarrow> list_ex (\<lambda>x. u_id x = uid \<and> owns env v s x
        \<and> verify_password (se_kdf env) (u_password_hash x) (pc_current p) = Checked True) (d_users (si_db s))
    | _ \<Rightarrow> False)"

lemma get_by_name_found: "get_user_by_name d name = Inr x \<Longrightarrow> x \<in> set (d_users d) \<and> to_lower (u_name x) = to_lower name"
  by (auto simp: get_user_by_name_def find_Some_iff split: option.splits)

lemma handed_out_session:
  "M uid \<Longrightarrow> keeps (sessions_from s (new_for h M) fixed) (store (create_session h i uid agent e))"
  by (rule handed_out.stores) (auto simp: create_session_def sessions_from_def new_for_def)

lemma unfixed_users: "si_sessions t' = si_sessions t \<Longrightarrow> sessions_from s A False t \<Longrightarrow> sessions_from s A False t'"
  by (simp add: sessions_from_def)

lemma sessions_handed_out:
  "sessions_from s (new_for (se_hash env (b64_encode url_alphabet (vs_random v))) (may_get_session env v q s)) False
     (snd (serve_account env v q s))"
proof -
  define h where "h = se_hash env (b64_encode url_alphabet (vs_random v))"
  define M where "M = may_get_session env v q s"
  define fixed where "fixed = (case q of Login _ \<Rightarrow> True | _ \<Rightarrow> False)"
  let ?P = "sessions_from s (new_for h M) fixed"
  have start: "?P s" by (auto simp: sessions_from_def)
  have unfixed: "sessions_from s (new_for h M) False t \<Longrightarrow> ?P t" if "\<not> fixed" for t
    using that by (auto simp: sessions_from_def)
  have route: "keeps ?P (account_route env v q u)" if own: "\<And>x. u = Some x \<Longrightarrow> owns env v s x" for u
  proof (rule handed_out.account_routes [where M = M])
    fix b name hash assume "q = Register b"
    then show "keeps ?P (store (create_user name hash (vs_new_user v)))"
      by (intro handed_out.stores) (auto simp: create_user_def sessions_from_def Let_def fixed_def)
  next
    fix b assume "q = Register b"
    then show "M (vs_new_user v)" by (simp add: M_def may_get_session_def)
  next
    fix c t x assume q: "q = Login (Body c)" and t: "?P t" and x: "get_user_by_name (si_db t) (trim_space (cr_username c)) = Inr x"
      and ok: "verify_password (se_kdf env) (u_password_hash x) (cr_password c) = Checked True" "u_banned_at x = None"
    from t q have "d_users (si_db t) = d_users (si_db s)" by (simp add: sessions_from_def fixed_def)
    with get_by_name_found [OF x] q ok show "M (u_id x)"
      by (auto simp: M_def may_get_session_def list_ex_iff)
  next
    fix c x assume "q = UpdateMe (Body (Some c))"
    then show "keeps ?P (store (set_user_color (u_id x) c))"
      by (intro handed_out.stores) (auto simp: set_user_color_def change_user_def sessions_from_def fixed_def)
  next
    fix p x k assume q: "q = ChangePassword (Body p)" and x: "u = Some x"
      and ok: "verify_password (se_kdf env) (u_password_hash x) (pc_current p) = Checked True"
    have "M (u_id x)" using own [OF x] q ok by (auto simp: M_def may_get_session_def list_ex_iff owns_def)
    moreover have "keeps ?P (store (set_user_password (u_id x) k))" using q
      by (intro handed_out.stores) (auto simp: set_user_password_def change_user_def sessions_from_def fixed_def)
    ultimately show "keeps ?P (store (set_user_password (u_id x) k)) \<and> M (u_id x)" by simp
  next
    fix uid now agent assume "M uid"
    then show "keeps ?P (store (create_session (se_hash env (b64_encode url_alphabet (vs_random v))) (vs_new_row v) uid agent (now + se_ttl env)))"
      unfolding h_def by (rule handed_out_session)
  qed
  have "?P (snd (serve_account env v q s))"
    unfolding serve_account_def by (rule handed_out.serves [OF start route])
  then show ?thesis by (simp add: sessions_from_def h_def M_def)
qed

section \<open>Rows are written by their owners\<close>

text \<open>The rows of \<open>s\<close> whose user does not satisfy \<open>W\<close> are still there as they were.\<close>

definition rows_of_others :: "site \<Rightarrow> (uuid \<Rightarrow> bool) \<Rightarrow> site \<Rightarrow> bool" where
  "rows_of_others s W t \<longleftrightarrow> list_all (\<lambda>u. W (u_id u) \<or> u \<in> set (d_users (si_db t))) (d_users (si_db s))"

interpretation others: kept_property "rows_of_others s W" for s W
  by unfold_locales (auto simp: rows_of_others_def)

lemma others_change: "W i \<Longrightarrow> rows_of_others s W t \<Longrightarrow> rows_of_others s W (change_user i f t)"
  by (auto simp: rows_of_others_def change_user_def list_all_iff)

definition may_write_row :: "site_env \<Rightarrow> visit \<Rightarrow> account_request \<Rightarrow> site \<Rightarrow> uuid \<Rightarrow> bool" where
  "may_write_row env v q s uid = (case q of
      UpdateMe (Body (Some c)) \<Rightarrow> list_ex (\<lambda>x. u_id x = uid \<and> owns env v s x) (d_users (si_db s))
    | ChangePassword (Body p) \<Rightarrow> list_ex (\<lambda>x. u_id x = uid \<and> owns env v s x
        \<and> verify_password (se_kdf env) (u_password_hash x) (pc_current p) = Checked True) (d_users (si_db s))
    | _ \<Rightarrow> False)"

lemma rows_kept: "rows_of_others s (may_write_row env v q s) (snd (serve_account env v q s))"
proof -
  let ?W = "may_write_row env v q s"
  let ?P = "rows_of_others s ?W"
  have "keeps ?P (account_route env v q u)" if own: "\<And>x. u = Some x \<Longrightarrow> owns env v s x" for u
  proof (rule others.account_routes [where M = "\<lambda>_. True"])
    fix name h show "keeps ?P (store (create_user name h (vs_new_user v)))"
      by (rule others.stores) (auto simp: create_user_def rows_of_others_def Let_def list_all_iff)
  next
    fix c x assume q: "q = UpdateMe (Body (Some c))" "u = Some x"
    then have "?W (u_id x)" using own by (auto simp: may_write_row_def list_ex_iff owns_def)
    then show "keeps ?P (store (set_user_color (u_id x) c))"
      by (intro others.stores) (simp add: set_user_color_def others_change)
  next
    fix p x k assume q: "q = ChangePassword (Body p)" "u = Some x"
      and ok: "verify_password (se_kdf env) (u_password_hash x) (pc_current p) = Checked True"
    then have "?W (u_id x)" using own by (auto simp: may_write_row_def list_ex_iff owns_def)
    then show "keeps ?P (store (set_user_password (u_id x) k)) \<and> True"
      by (intro conjI others.stores) (simp_all add: set_user_password_def others_change)
  next
    fix uid now agent
    show "keeps ?P (store (create_session (se_hash env (b64_encode url_alphabet (vs_random v))) (vs_new_row v) uid agent (now + se_ttl env)))"
      by (rule others.stores) (auto simp: create_session_def rows_of_others_def)
  qed simp_all
  then show ?thesis
    unfolding serve_account_def by (intro others.serves) (auto simp: rows_of_others_def list_all_iff)
qed

section \<open>Changing the password\<close>

lemma store_calm: "si_faults s = [] \<Longrightarrow> store f s = f s"
  by (cases s) (simp add: store_def)

lemma filter_touch: "(\<And>y. y \<in> set xs \<Longrightarrow> c y \<Longrightarrow> \<not> g y \<and> \<not> g (f y)) \<Longrightarrow> filter g (map (\<lambda>x. if c x then f x else x) xs) = filter g xs"
  by (induction xs) auto

lemma found_by_key: "distinct (map f xs) \<Longrightarrow> x \<in> set xs \<Longrightarrow> Q x \<Longrightarrow> find (\<lambda>y. f y = f x \<and> Q y) xs = Some x"
  by (induction xs) auto

lemma session_of_owner:
  assumes ok: "accounts_ok s" and u: "u \<in> set (d_users (si_db s))"
    and x: "x \<in> set (si_sessions s)" "s_user x = u_id u" "now < s_expires x"
  shows "fst (get_session_user (s_token_hash x) now s) = Inr (x, u)"
proof -
  have "find (\<lambda>y. s_token_hash y = s_token_hash x \<and> now < s_expires y) (si_sessions s) = Some x"
    by (rule found_by_key) (use ok x in \<open>auto simp: accounts_ok_def\<close>)
  moreover have "find (\<lambda>w. u_id w = u_id u) (d_users (si_db s)) = Some u"
    using found_by_key [of u_id "d_users (si_db s)" u "\<lambda>_. True"] ok u by (auto simp: accounts_ok_def)
  ultimately show ?thesis using x by (simp add: get_session_user_def peek_def get_user_def)
qed

text \<open>An undisturbed request of the owner: at most the session's own row is renewed.\<close>

lemma resolve_calm:
  assumes calm: "si_faults s = []" and ok: "accounts_ok s" and own: "owns env v s u"
  obtains ss where "resolve env v s = (Inr (Some u), s\<lparr>si_sessions := ss\<rparr>)"
    and "map s_token_hash ss = map s_token_hash (si_sessions s)" and "map s_id ss = map s_id (si_sessions s)"
    and "filter (\<lambda>x. s_user x \<noteq> u_id u) ss = filter (\<lambda>x. s_user x \<noteq> u_id u) (si_sessions s)"
proof -
  obtain token x where t: "token_of_request v = Some token" and x: "x \<in> set (si_sessions s)"
      "s_token_hash x = se_hash env token" "s_user x = u_id u" "si_now s < s_expires x"
    and u: "u \<in> set (d_users (si_db s))" "u_banned_at u = None"
    using own by (auto simp: owns_def)
  let ?h = "se_hash env token"
  have g: "get_session_user ?h (si_now s) s = (Inr (x, u), s)"
    using session_of_owner [OF ok u(1) x(1,3,4)] x(2) by (simp add: get_session_user_def peek_def)
  let ?t = "snd (touch_session ?h (si_now s) (si_now s + se_ttl env) s)"
  let ?ss = "if touch_interval < time_sub (si_now s) (s_last_seen x) then si_sessions ?t else si_sessions s"
  have r: "resolve env v s = (Inr (Some u), s\<lparr>si_sessions := ?ss\<rparr>)"
    by (simp add: resolve_def t reading_clock_def run_steps Let_def store_calm calm g user_is_banned_def u(2) touch_session_def)
  have "filter (\<lambda>y. s_user y \<noteq> u_id u) (si_sessions ?t) = filter (\<lambda>y. s_user y \<noteq> u_id u) (si_sessions s)"
  proof -
    have inj: "inj_on s_token_hash (set (si_sessions s))" using ok by (simp add: accounts_ok_def distinct_map)
    have "y = x" if "y \<in> set (si_sessions s)" "s_token_hash y = ?h" for y
      by (rule inj_onD [OF inj]) (use that x(1,2) in simp_all)
    then have "s_user y = u_id u" if "y \<in> set (si_sessions s)" "s_token_hash y = ?h" for y using that x(3) by blast
    then show ?thesis unfolding touch_session_def by (simp add: filter_touch)
  qed
  with r show ?thesis by (intro that [OF r]) (auto simp: touched_keys)
qed


text \<open>What \<open>issue\<close> does when its values are new: the old session of the request goes, one comes.\<close>

definition new_session :: "site_env \<Rightarrow> visit \<Rightarrow> uuid \<Rightarrow> time \<Rightarrow> session" where
  "new_session env v uid now = \<lparr>s_token_hash = se_hash env (b64_encode url_alphabet (vs_random v)), s_id = vs_new_row v, s_user = uid,
     s_user_agent = (if max_user_agent < length (vs_agent v) then to_valid_utf8 (take max_user_agent (vs_agent v)) else vs_agent v),
     s_created = now, s_last_seen = now, s_expires = now + se_ttl env\<rparr>"

definition fresh_session :: "site_env \<Rightarrow> visit \<Rightarrow> site \<Rightarrow> bool" where
  "fresh_session env v s \<longleftrightarrow>
     list_all (\<lambda>x. s_token_hash x \<noteq> se_hash env (b64_encode url_alphabet (vs_random v)) \<and> s_id x \<noteq> vs_new_row v) (si_sessions s)"

lemma issue_calm:
  assumes "si_faults s = []" and "fresh_session env v s" and "text_ok (s_user_agent (new_session env v uid (si_now s)))"
    and "uid \<in> u_id ` set (d_users (si_db s))"
  shows "issue env v uid s = (Inr (), s\<lparr>si_sessions :=
      filter (\<lambda>x. \<forall>t. token_of_request v = Some t \<longrightarrow> s_token_hash x \<noteq> se_hash env t) (si_sessions s) @ [new_session env v uid (si_now s)],
      si_cookies := si_cookies s @ [session_cookie env (b64_encode url_alphabet (vs_random v)) (si_now s + se_ttl env)]\<rparr>)"
proof -
  let ?ss = "filter (\<lambda>x. \<forall>t. token_of_request v = Some t \<longrightarrow> s_token_hash x \<noteq> se_hash env t) (si_sessions s)"
  let ?t = "s\<lparr>si_sessions := ?ss\<rparr>"
  have same: "s\<lparr>si_sessions := si_sessions s\<rparr> = s" by simp
  have old: "(case token_of_request v of None \<Rightarrow> oka () | Some old \<Rightarrow> anyway (store (delete_session (se_hash env old)))) s = (Inr (), ?t)"
    using assms(1) by (auto simp: oka_def anyway_def store_calm delete_session_def drop_sessions_def same split: option.split)
  have "\<not> (\<exists>x \<in> set ?ss. s_token_hash x = se_hash env (b64_encode url_alphabet (vs_random v)) \<or> s_id x = vs_new_row v)"
    using assms(2) by (auto simp: fresh_session_def list_all_iff)
  then have new: "create_session (se_hash env (b64_encode url_alphabet (vs_random v))) (vs_new_row v) uid
       (s_user_agent (new_session env v uid (si_now s))) (si_now s + se_ttl env) ?t
     = (Inr (), ?t\<lparr>si_sessions := ?ss @ [new_session env v uid (si_now s)]\<rparr>)"
    using assms(3,4) by (simp add: create_session_def new_session_def)
  show ?thesis
    using new assms(1)
    by (simp add: issue_def Let_def old reading_clock_def auth_call_def rescue_def thena_def binda_def store_calm set_cookie_def new_session_def)
qed

lemma change_password_calm:
  assumes calm: "si_faults s = []" and fresh: "fresh_session env v s" and agent: "text_ok (s_user_agent (new_session env v (u_id u) (si_now s)))"
    and u: "u \<in> set (d_users (si_db s))"
    and current: "verify_password (se_kdf env) (u_password_hash u) (pc_current p) = Checked True" and new: "password_ok (pc_new p)"
  shows "handle_change_password env v u (Body p) s = (Inr (Result 204 Nothing),
    (change_user (u_id u) (\<lambda>w. w\<lparr>u_password_hash := hash_password (se_kdf env) (vs_salt v) (pc_new p)\<rparr>) s)
      \<lparr>si_sessions := filter (\<lambda>x. s_user x \<noteq> u_id u \<and> (\<forall>t. token_of_request v = Some t \<longrightarrow> s_token_hash x \<noteq> se_hash env t)) (si_sessions s)
         @ [new_session env v (u_id u) (si_now s)],
       si_cookies := si_cookies s @ [session_cookie env (b64_encode url_alphabet (vs_random v)) (si_now s + se_ttl env)]\<rparr>)"
proof -
  let ?t = "change_user (u_id u) (\<lambda>w. w\<lparr>u_password_hash := hash_password (se_kdf env) (vs_salt v) (pc_new p)\<rparr>) s"
  let ?w = "?t\<lparr>si_sessions := filter (\<lambda>x. s_user x \<noteq> u_id u) (si_sessions s)\<rparr>"
  have t: "si_faults ?t = []" "si_sessions ?t = si_sessions s" "si_now ?t = si_now s" "si_cookies ?t = si_cookies s"
    using calm by (simp_all add: change_user_def)
  have ids: "u_id ` set (d_users (si_db ?t)) = u_id ` set (d_users (si_db s))"
    using changed_rows [of u_id] by (metis (no_types, lifting) image_set user.select_convs(1) user.update_convs(3) user.surjective)
  have w: "si_faults ?w = []" "fresh_session env v ?w" "text_ok (s_user_agent (new_session env v (u_id u) (si_now ?w)))"
    "u_id u \<in> u_id ` set (d_users (si_db ?w))"
    using t fresh agent u ids by (auto simp: fresh_session_def list_all_iff new_session_def)
  have i: "required (issue env v (u_id u)) ?w = (Inr (), snd (issue env v (u_id u) ?w))"
    unfolding required_def rescue_def issue_calm [OF w] by simp
  have e: "snd (issue env v (u_id u) ?w) = ?t\<lparr>si_sessions := filter (\<lambda>x. s_user x \<noteq> u_id u \<and> (\<forall>t. token_of_request v = Some t \<longrightarrow> s_token_hash x \<noteq> se_hash env t)) (si_sessions s)
         @ [new_session env v (u_id u) (si_now s)],
       si_cookies := si_cookies s @ [session_cookie env (b64_encode url_alphabet (vs_random v)) (si_now s + se_ttl env)]\<rparr>"
    unfolding issue_calm [OF w] using t by (simp add: conj_commute)
  have r: "required (revoke_all (u_id u)) ?t = (Inr (), ?w)"
    using t by (simp add: required_def rescue_def revoke_all_def binda_def auth_call_def store_calm delete_user_sessions_def drop_sessions_def oka_def)
  have p: "required (store (set_user_password (u_id u) (hash_password (se_kdf env) (vs_salt v) (pc_new p)))) s = (Inr (), ?t)"
    using calm by (simp add: required_def rescue_def store_calm set_user_password_def)
  show ?thesis
    using current new
    by (simp add: handle_change_password_def read_body_def binda_def oka_def need_def unlessa_def verifying_def thena_def p r i e)
qed

section \<open>Properties\<close>

text \<open>
  C36: A session that a request adds is the one of the fresh token of that request, and it is given
  only to the account just registered, to an account that is not banned whose password was sent with
  its name, or to the owner of the session who sent the current password.  Whichever calls fail.
\<close>

theorem sessions_need_password:
  assumes "x \<in> set (si_sessions (snd (serve_account env v q s)))"
    and "(s_token_hash x, s_user x) \<notin> (\<lambda>y. (s_token_hash y, s_user y)) ` set (si_sessions s)"
  shows "s_token_hash x = se_hash env (b64_encode url_alphabet (vs_random v)) \<and> may_get_session env v q s (s_user x)"
  using sessions_handed_out [of s env v q] assms by (auto simp: sessions_from_def new_for_def)

text \<open>The row of a user changes only by a request of the owner, and the password with the current one.\<close>

theorem rows_need_owner:
  assumes "u \<in> set (d_users (si_db s))" and "u \<notin> set (d_users (si_db (snd (serve_account env v q s))))"
  shows "may_write_row env v q s (u_id u)"
  using rows_kept [of s env v q] assms by (auto simp: rows_of_others_def list_all_iff)

lemma served_owner:
  assumes "resolve env v s = (Inr u, t)" and "same_origin env v"
  shows "api env v h s = finish (h u) t"
  using assms by (simp add: api_def with_session_def check_origin_def finish_def run_steps)

lemma password_change_leaves:
  assumes "si_faults s = []" and "accounts_ok s" and "owns env v s u" and "same_origin env v"
    and "fresh_session env v s" and "text_ok (s_user_agent (new_session env v (u_id u) (si_now s)))"
    and "verify_password (se_kdf env) (u_password_hash u) (pc_current p) = Checked True" and "password_ok (pc_new p)"
  shows "case serve_account env v (ChangePassword (Body p)) s of (r, t) \<Rightarrow>
    r = Result 204 Nothing
    \<and> filter (\<lambda>x. s_user x = u_id u) (si_sessions t) = [new_session env v (u_id u) (si_now s)]
    \<and> filter (\<lambda>x. s_user x \<noteq> u_id u) (si_sessions t) = filter (\<lambda>x. s_user x \<noteq> u_id u) (si_sessions s)
    \<and> d_users (si_db t) = map (\<lambda>w. if u_id w = u_id u
          then w\<lparr>u_password_hash := hash_password (se_kdf env) (vs_salt v) (pc_new p)\<rparr> else w) (d_users (si_db s))
    \<and> si_cookies t = si_cookies s @ [session_cookie env (b64_encode url_alphabet (vs_random v)) (si_now s + se_ttl env)]"
proof -
  obtain ss where r: "resolve env v s = (Inr (Some u), s\<lparr>si_sessions := ss\<rparr>)"
    and keys: "map s_token_hash ss = map s_token_hash (si_sessions s)" "map s_id ss = map s_id (si_sessions s)"
    and rest: "filter (\<lambda>x. s_user x \<noteq> u_id u) ss = filter (\<lambda>x. s_user x \<noteq> u_id u) (si_sessions s)"
    using resolve_calm [OF assms(1-3)] by blast
  let ?s = "s\<lparr>si_sessions := ss\<rparr>"
  let ?mine = "\<lambda>x. \<forall>t. token_of_request v = Some t \<longrightarrow> s_token_hash x \<noteq> se_hash env t"
  have h: "(\<forall>x \<in> set ss. s_token_hash x \<noteq> k) \<longleftrightarrow> (\<forall>x \<in> set (si_sessions s). s_token_hash x \<noteq> k)" for k
    using arg_cong [OF keys(1), of set] by (auto simp: set_map) (metis imageE imageI)+
  have i: "(\<forall>x \<in> set ss. s_id x \<noteq> k) \<longleftrightarrow> (\<forall>x \<in> set (si_sessions s). s_id x \<noteq> k)" for k
    using arg_cong [OF keys(2), of set] by (auto simp: set_map) (metis imageE imageI)+
  have fresh: "fresh_session env v ?s"
    using assms(5) h i by (auto simp: fresh_session_def list_all_iff)
  have others: "filter (\<lambda>x. s_user x \<noteq> u_id u \<and> ?mine x) ss = filter (\<lambda>x. s_user x \<noteq> u_id u) (si_sessions s)"
  proof -
    have "?mine x" if "x \<in> set (si_sessions s)" "s_user x \<noteq> u_id u" for x
    proof -
      have inj: "inj_on s_token_hash (set (si_sessions s))" using assms(2) by (simp add: accounts_ok_def distinct_map)
      show ?thesis
      proof (intro allI impI notI)
        fix k assume k: "token_of_request v = Some k" "s_token_hash x = se_hash env k"
        then obtain y where y: "y \<in> set (si_sessions s)" "s_token_hash y = se_hash env k" "s_user y = u_id u"
          using assms(3) by (auto simp: owns_def)
        have "x = y" by (rule inj_onD [OF inj]) (use k y that in simp_all)
        with y that show False by simp
      qed
    qed
    then have "filter ?mine (filter (\<lambda>x. s_user x \<noteq> u_id u) (si_sessions s)) = filter (\<lambda>x. s_user x \<noteq> u_id u) (si_sessions s)"
      by (intro filter_True) auto
    then show ?thesis unfolding rest [symmetric] by (simp only: filter_filter)
  qed
  have u: "u \<in> set (d_users (si_db ?s))" using assms(3) by (simp add: owns_def)
  have c: "handle_change_password env v u (Body p) ?s = (Inr (Result 204 Nothing),
    (change_user (u_id u) (\<lambda>w. w\<lparr>u_password_hash := hash_password (se_kdf env) (vs_salt v) (pc_new p)\<rparr>) ?s)
      \<lparr>si_sessions := filter (\<lambda>x. s_user x \<noteq> u_id u) (si_sessions s) @ [new_session env v (u_id u) (si_now s)],
       si_cookies := si_cookies s @ [session_cookie env (b64_encode url_alphabet (vs_random v)) (si_now s + se_ttl env)]\<rparr>)"
    using change_password_calm [where s = ?s, OF _ fresh _ u assms(7,8)] assms(1,6) others by simp
  have e: "serve_account env v (ChangePassword (Body p)) s = finish (handle_change_password env v u (Body p)) ?s"
    unfolding serve_account_def served_owner [OF r assms(4)] by (simp add: signed_in_def)
  show ?thesis
    unfolding e finish_def c
    by (simp add: change_user_def filter_empty_conv new_session_def)
qed

text \<open>
  C37: An undisturbed change of the password by the owner of a session answers 204 and leaves the
  account with exactly one session, the one of the new cookie, and with the hash of the new password;
  the sessions and the rows of all others are as before.
\<close>

theorem password_change_signs_out:
  assumes "si_faults s = []" and "accounts_ok s" and "owns env v s u" and "same_origin env v"
    and "fresh_session env v s" and "text_ok (s_user_agent (new_session env v (u_id u) (si_now s)))"
    and "verify_password (se_kdf env) (u_password_hash u) (pc_current p) = Checked True" and "password_ok (pc_new p)"
  shows "case serve_account env v (ChangePassword (Body p)) s of (r, t) \<Rightarrow>
    r = Result 204 Nothing
    \<and> filter (\<lambda>x. s_user x = u_id u) (si_sessions t) = [new_session env v (u_id u) (si_now s)]
    \<and> filter (\<lambda>x. s_user x \<noteq> u_id u) (si_sessions t) = filter (\<lambda>x. s_user x \<noteq> u_id u) (si_sessions s)
    \<and> d_users (si_db t) = map (\<lambda>w. if u_id w = u_id u
          then w\<lparr>u_password_hash := hash_password (se_kdf env) (vs_salt v) (pc_new p)\<rparr> else w) (d_users (si_db s))
    \<and> si_cookies t = si_cookies s @ [session_cookie env (b64_encode url_alphabet (vs_random v)) (si_now s + se_ttl env)]"
  using password_change_leaves [OF assms] .

text \<open>A site with one account, signed in on two devices, and its requests.\<close>

definition toy_kdf :: derivation where
  "toy_kdf pw salt t m c n = take n (pw @ replicate n CHR ''x'')"

definition owner_row :: user where
  "owner_row = \<lparr>u_id = 1, u_name = ''ann'', u_password_hash = hash_password toy_kdf ''salt'' ''old password'', u_role = SiteUser,
     u_banned_at = None, u_banned_reason = None, u_banned_by = None, u_created = 0, u_color = []\<rparr>"

definition other_row :: user where
  "other_row = owner_row\<lparr>u_id := 2, u_name := ''bob''\<rparr>"

definition session_row :: "nat \<Rightarrow> uuid \<Rightarrow> session" where
  "session_row k uid = \<lparr>s_token_hash = [k], s_id = k, s_user = uid, s_user_agent = [], s_created = 0, s_last_seen = 0, s_expires = 100\<rparr>"

definition small_site :: site where
  "small_site = \<lparr>si_db = \<lparr>d_rooms = [], d_users = [owner_row, other_row], d_members = [], d_items = [], d_votes = [], d_media = [], d_jobs = [],
       d_messages = [], d_bans = [], d_mutes = [], d_invites = [], d_links = [], d_stars = [], d_slugs = [], d_next = 9, d_next_msg = 1\<rparr>,
     si_sessions = [session_row 1 1, session_row 2 1, session_row 3 2], si_reports = [], si_blocked = [], si_audit = [], si_jobs = [],
     si_objects = [], si_faults = [], si_now = 10, si_cookies = [], si_hooks = [], si_asked = (\<lambda>_ _. [])\<rparr>"

text \<open>The hash of a token is its length here.\<close>

definition small_env :: site_env where
  "small_env = \<lparr>se_hash = (\<lambda>t. [length t]), se_ttl = 50, se_secure = True, se_kdf = toy_kdf, se_dummy_salt = ''dummy'',
     se_url_host = Some, se_fold = (=), se_lower = id, se_allow = (\<lambda>_. None), se_trust_proxy = False,
     se_hook = True, se_objects = True, se_drop_objects = (\<lambda>_. None), se_loaded = None, se_budget = 0\<rparr>"

definition owner_visit :: visit where
  "owner_visit = \<lparr>vs_cookie = Some ''a'', vs_agent = ''firefox'', vs_method = ''POST'', vs_fetch_site = ''same-origin'', vs_origin = [],
     vs_referer = [], vs_host = [], vs_remote = ''10.0.0.1:99'', vs_forwarded = [], vs_random = ''random'', vs_salt = ''newsalt'',
     vs_new_user = 7, vs_new_row = 8\<rparr>"

definition password_form :: password_change where
  "password_form = \<lparr>pc_current = ''old password'', pc_new = ''new password''\<rparr>"

lemma toy_kdf_length: "length (toy_kdf p s t m c n) = n"
  by (simp add: toy_kdf_def)

lemma old_password_accepted: "verify_password (se_kdf small_env) (u_password_hash owner_row) (pc_current password_form) = Checked True"
  by (simp add: small_env_def owner_row_def password_form_def verify_hashed [of toy_kdf] toy_kdf_length)

lemma new_token: "length (b64_encode url_alphabet (vs_random owner_visit)) = 8"
  by (simp add: owner_visit_def Let_def)

lemma small_site_facts:
  "si_faults small_site = []" "accounts_ok small_site" "owns small_env owner_visit small_site owner_row"
  "same_origin small_env owner_visit" "fresh_session small_env owner_visit small_site"
  "text_ok (s_user_agent (new_session small_env owner_visit (u_id owner_row) (si_now small_site)))" "password_ok (pc_new password_form)"
  using new_token
  by (simp_all add: small_site_def accounts_ok_def session_row_def owner_row_def other_row_def owns_def owner_visit_def small_env_def
      token_of_request_def same_origin_def fresh_session_def new_session_def text_ok_def max_user_agent_def rune_ok_def in_range_def rune_len_def
      rune_tail_def password_form_def password_ok_def min_password_len_def max_password_len_def to_lower_def)

theorem password_change_signs_out_witness:
  "case serve_account small_env owner_visit (ChangePassword (Body password_form)) small_site of (r, t) \<Rightarrow>
    r = Result 204 Nothing
    \<and> filter (\<lambda>x. s_user x = 1) (si_sessions t) = [new_session small_env owner_visit 1 10]
    \<and> filter (\<lambda>x. s_user x \<noteq> 1) (si_sessions t) = [session_row 3 2]"
  using password_change_signs_out [OF small_site_facts(1-6) old_password_accepted small_site_facts(7)]
  by (simp add: case_prod_beta owner_row_def small_site_def session_row_def)

theorem sessions_need_password_witness:
  "may_get_session small_env owner_visit (ChangePassword (Body password_form)) small_site 1"
proof -
  let ?t = "snd (serve_account small_env owner_visit (ChangePassword (Body password_form)) small_site)"
  let ?n = "new_session small_env owner_visit 1 10"
  have "filter (\<lambda>x. s_user x = 1) (si_sessions ?t) = [?n]"
    using password_change_leaves [OF small_site_facts(1-6) old_password_accepted small_site_facts(7)]
    by (simp add: case_prod_beta owner_row_def small_site_def)
  then have "?n \<in> set (filter (\<lambda>x. s_user x = 1) (si_sessions ?t))" by simp
  then have "?n \<in> set (si_sessions ?t)" unfolding set_filter by simp
  moreover have "(s_token_hash ?n, s_user ?n) \<notin> (\<lambda>y. (s_token_hash y, s_user y)) ` set (si_sessions small_site)"
    using new_token by (simp add: new_session_def small_site_def session_row_def small_env_def)
  ultimately have "may_get_session small_env owner_visit (ChangePassword (Body password_form)) small_site (s_user ?n)"
    by (rule conjunct2 [OF sessions_need_password])
  then show ?thesis by (simp add: new_session_def)
qed

text \<open>
  A browser string of at most 512 bytes is stored as it is: one that is not UTF-8 is refused by the
  database, and the login with the right password ends with an internal error.
\<close>

lemma raw_agent_refused:
  assumes "si_faults s = []" and "length (vs_agent v) \<le> max_user_agent" and "\<not> valid_utf8 (vs_agent v)"
  shows "\<exists>t. required (issue env v uid) s = (Inl (Refuse 500 ''internal error''), t)"
proof -
  let ?drop = "(case token_of_request v of None \<Rightarrow> oka () | Some old \<Rightarrow> anyway (store (delete_session (se_hash env old)))) :: (site, auth_err, unit) run"
  have "\<exists>t. ?drop s = (Inr (), t) \<and> si_faults t = []"
    using assms(1) by (auto simp: oka_def anyway_def store_calm delete_session_def drop_sessions_def split: option.split)
  then obtain t where t: "?drop s = (Inr (), t)"
    "si_faults t = []" by blast
  show ?thesis
    using assms(2,3) t(2)
    by (simp add: required_def rescue_def issue_def thena_def binda_def t(1) reading_clock_def Let_def auth_call_def store_calm
        create_session_def text_ok_def stopa_def server_error_def)
qed

text \<open>
  A change of the password that fails after the new hash is stored answers 500: the new password is
  in force and every session is still alive.
\<close>

lemma half_changed_password:
  "case serve_account small_env owner_visit (ChangePassword (Body password_form)) (small_site\<lparr>si_faults := [False, False, True]\<rparr>) of (r, t) \<Rightarrow>
     r = Refuse 500 ''internal error'' \<and> si_sessions t = si_sessions small_site
     \<and> map u_password_hash (d_users (si_db t)) = [hash_password toy_kdf ''newsalt'' ''new password'', u_password_hash other_row]"
  using old_password_accepted
  by (simp add: serve_account_def api_def with_session_def check_origin_def signed_in_def same_origin_def small_env_def finish_def run_steps
      resolve_def token_of_request_def owner_visit_def small_site_def store_def reading_clock_def Let_def get_session_user_def peek_def
      session_row_def get_user_def owner_row_def other_row_def user_is_banned_def touch_interval_def time_sub_def
      handle_change_password_def read_body_def need_def verifying_def required_def server_error_def set_user_password_def change_user_def
      revoke_all_def auth_call_def password_form_def password_ok_def min_password_len_def max_password_len_def)

text \<open>The names found for an invite are those that start with the letters typed, upper or lower case.\<close>

theorem search_is_literal:
  assumes "text_ok p"
  shows "search_usernames p n s = (Inr (take n (map u_name (sort_key (\<lambda>u. (to_lower (u_name u), u_name u))
    (filter (\<lambda>u. u_banned_at u = None \<and> has_prefix (to_lower p) (to_lower (u_name u))) (d_users (si_db s)))))), s)"
  using assms by (simp add: search_usernames_def peek_def lower_escape_like like_escaped)

end
