(* ===== verification/Admin_Tables.thy ===== *)
theory Admin_Tables
  imports Site
begin

text \<open>
  The statements of the administration pages (\<open>repository/admin.go\<close>, the blocklist and the removal
  of media in \<open>media.go\<close>, \<open>audit.go\<close>): reports, placements, lists, counters, the audit log.
\<close>

section \<open>Reports\<close>

definition users_of :: "site \<Rightarrow> uuid set" where
  "users_of s = u_id ` set (d_users (si_db s))"

definition ref_ok :: "uuid option \<Rightarrow> uuid set \<Rightarrow> bool" where
  "ref_ok r ids \<longleftrightarrow> (case r of None \<Rightarrow> True | Some i \<Rightarrow> i \<in> ids)"

definition create_report :: "uuid \<Rightarrow> uuid \<Rightarrow> uuid \<Rightarrow> uuid option \<Rightarrow> uuid option \<Rightarrow> string \<Rightarrow> string \<Rightarrow> unit call" where
  "create_report i mid by_id room who reason comment s =
     (if \<not> text_ok comment \<or> \<not> valid_report_reason reason then (Inl InternalErr, s)
      else if \<exists>r \<in> set (si_reports s). rp_media r = mid \<and> rp_reporter r = by_id then (Inl ConflictErr, s)
      else if mid \<notin> m_id ` set (d_media (si_db s)) \<or> by_id \<notin> users_of s \<or> \<not> ref_ok room (ri_id ` set (d_rooms (si_db s)))
        \<or> \<not> ref_ok who (users_of s) then (Inl InternalErr, s)
      else (Inr (), s\<lparr>si_reports := si_reports s @ [\<lparr>rp_id = i, rp_media = mid, rp_reporter = by_id, rp_room = room, rp_added_by = who,
              rp_reason = reason, rp_comment = comment, rp_created = si_now s, rp_resolved = None, rp_resolved_by = None\<rparr>]\<rparr>))"

text \<open>Who queued the media in the room; None when it is not there.\<close>

definition queue_adder :: "uuid \<Rightarrow> uuid \<Rightarrow> uuid option option call" where
  "queue_adder rid mid = peek (\<lambda>s. Inr (case sort_key ir_created (filter (\<lambda>r. ir_room r = rid \<and> ir_media r = mid) (d_items (si_db s))) of
      [] \<Rightarrow> None | r # _ \<Rightarrow> Some (ir_added_by r)))"

record placement =
  pl_room :: uuid
  pl_slug :: string
  pl_name :: string
  pl_added_by :: string

definition placement_in :: "db \<Rightarrow> item_row list \<Rightarrow> uuid \<Rightarrow> placement option" where
  "placement_in d items rid = (case (find_room d rid, sort_key ir_created (filter (\<lambda>r. ir_room r = rid) items)) of
      (Some i, r # _) \<Rightarrow> Some \<lparr>pl_room = rid, pl_slug = ri_slug i, pl_name = ri_name i, pl_added_by = username_of d (ir_added_by r)\<rparr>
    | _ \<Rightarrow> None)"

definition list_placements :: "uuid \<Rightarrow> placement list call" where
  "list_placements mid = peek (\<lambda>s. let items = filter (\<lambda>r. ir_media r = mid) (d_items (si_db s)) in
     Inr (List.map_filter (placement_in (si_db s) items) (sort (remdups (map ir_room items)))))"

definition open_reports :: "uuid \<Rightarrow> site \<Rightarrow> report_row list" where
  "open_reports mid s = filter (\<lambda>r. rp_media r = mid \<and> rp_resolved r = None) (si_reports s)"

text \<open>A report with the names of its reporter, its room and who queued the video; an unknown reporter drops it.\<close>

record report_info =
  rf_id :: uuid
  rf_reporter :: string
  rf_room_slug :: string
  rf_room_name :: string
  rf_added_by :: string
  rf_reason :: string
  rf_comment :: string
  rf_created :: time

definition report_info_of :: "db \<Rightarrow> report_row \<Rightarrow> report_info option" where
  "report_info_of d r = (case get_user d (rp_reporter r) of
      Inl _ \<Rightarrow> None
    | Inr u \<Rightarrow>
        let room = (case rp_room r of None \<Rightarrow> None | Some i \<Rightarrow> find_room d i) in
        Some \<lparr>rf_id = rp_id r, rf_reporter = u_name u, rf_room_slug = (case room of None \<Rightarrow> [] | Some i \<Rightarrow> ri_slug i),
          rf_room_name = (case room of None \<Rightarrow> [] | Some i \<Rightarrow> ri_name i), rf_added_by = username_of d (rp_added_by r),
          rf_reason = rp_reason r, rf_comment = rp_comment r, rf_created = rp_created r\<rparr>)"

definition list_open_reports :: "uuid \<Rightarrow> report_info list call" where
  "list_open_reports mid = peek (\<lambda>s. Inr (List.map_filter (report_info_of (si_db s)) (sort_key rp_created (open_reports mid s))))"

definition most_reported :: "nat \<Rightarrow> (media \<times> nat) list call" where
  "most_reported limit = peek (\<lambda>s. Inr (map (\<lambda>m. (m, length (open_reports (m_id m) s)))
     (take limit (sort_key (\<lambda>m. (- int (length (open_reports (m_id m) s)), m_created m))
       (filter (\<lambda>m. open_reports (m_id m) s \<noteq> []) (d_media (si_db s)))))))"

record reported_media =
  rx_media :: media
  rx_count :: nat
  rx_reports :: "report_info list"
  rx_placements :: "placement list"

text \<open>Two more queries for each; the first that fails ends the list.\<close>

fun with_reports :: "(media \<times> nat) list \<Rightarrow> (site, cerr, reported_media list) run" where
  "with_reports [] = oka []"
| "with_reports ((m, n) # ms) =
     binda (store (list_open_reports (m_id m))) (\<lambda>rs.
     binda (store (list_placements (m_id m))) (\<lambda>ps.
     binda (with_reports ms) (\<lambda>rest. oka (\<lparr>rx_media = m, rx_count = n, rx_reports = rs, rx_placements = ps\<rparr> # rest))))"

definition list_reported_media :: "nat \<Rightarrow> (site, cerr, reported_media list) run" where
  "list_reported_media limit = binda (store (most_reported limit)) with_reports"

definition resolve_reports :: "uuid \<Rightarrow> uuid \<Rightarrow> nat call" where
  "resolve_reports mid by_id s =
     (let n = length (open_reports mid s) in
      if 0 < n \<and> by_id \<notin> users_of s then (Inl InternalErr, s)
      else (Inr n, s\<lparr>si_reports := map (\<lambda>r. if rp_media r = mid \<and> rp_resolved r = None
             then r\<lparr>rp_resolved := Some (si_now s), rp_resolved_by := Some by_id\<rparr> else r) (si_reports s)\<rparr>))"

section \<open>Blocklist\<close>

definition block_source :: "string \<Rightarrow> string \<Rightarrow> uuid \<Rightarrow> unit call" where
  "block_source key reason by_id s =
     (if \<not> text_ok key \<or> \<not> text_ok reason then (Inl InternalErr, s)
      else if \<exists>b \<in> set (si_blocked s). bl_key b = key
        then (Inr (), s\<lparr>si_blocked := map (\<lambda>b. if bl_key b = key then b\<lparr>bl_reason := reason\<rparr> else b) (si_blocked s)\<rparr>)
      else if by_id \<notin> users_of s then (Inl InternalErr, s)
      else (Inr (), s\<lparr>si_blocked := si_blocked s @ [\<lparr>bl_key = key, bl_reason = reason, bl_created_by = Some by_id, bl_created = si_now s\<rparr>]\<rparr>))"

definition source_blocked :: "string \<Rightarrow> bool call" where
  "source_blocked key = peek (\<lambda>s. if \<not> text_ok key then Inl InternalErr else Inr (\<exists>b \<in> set (si_blocked s). bl_key b = key))"

definition list_blocklist :: "(block_row \<times> string) list call" where
  "list_blocklist = peek (\<lambda>s. Inr (map (\<lambda>b. (b, username_of (si_db s) (bl_created_by b))) (sort_key (\<lambda>b. - bl_created b) (si_blocked s))))"

definition unblock_source :: "string \<Rightarrow> unit call" where
  "unblock_source key s =
     (if \<not> text_ok key then (Inl InternalErr, s)
      else if \<exists>b \<in> set (si_blocked s). bl_key b = key then (Inr (), s\<lparr>si_blocked := filter (\<lambda>b. bl_key b \<noteq> key) (si_blocked s)\<rparr>)
      else (Inl NotFoundErr, s))"

section \<open>Lists and counters\<close>

record stats =
  st_users :: nat
  st_banned :: nat
  st_rooms :: nat
  st_private :: nat
  st_by_status :: "(media_status \<times> nat) list"
  st_bytes :: int
  st_pending :: nat
  st_running :: nat
  st_failed :: nat
  st_open_reports :: nat

definition count_of :: "('a \<Rightarrow> bool) \<Rightarrow> 'a list \<Rightarrow> nat" where
  "count_of p xs = length (filter p xs)"

definition site_stats :: "(site, cerr, stats) run" where
  "site_stats =
     binda (store (peek (\<lambda>s. Inr (d_users (si_db s))))) (\<lambda>us.
     binda (store (peek (\<lambda>s. Inr (d_rooms (si_db s))))) (\<lambda>rs.
     binda (store (peek (\<lambda>s. Inr (si_jobs s)))) (\<lambda>js.
     binda (store (peek (\<lambda>s. Inr (count_of (\<lambda>r. rp_resolved r = None) (si_reports s))))) (\<lambda>n.
     binda (store (peek (\<lambda>s. Inr (ready_bytes (d_media (si_db s)))))) (\<lambda>b.
     binda (store (peek (\<lambda>s. Inr (map m_status (d_media (si_db s)))))) (\<lambda>ms.
     oka \<lparr>st_users = length us, st_banned = count_of (\<lambda>u. u_banned_at u \<noteq> None) us, st_rooms = length rs,
          st_private = count_of (\<lambda>r. ri_visibility r = VisPrivate) rs, st_by_status = map (\<lambda>x. (x, count_list ms x)) (remdups ms),
          st_bytes = b, st_pending = count_of (\<lambda>j. jb_status j = JobPending) js, st_running = count_of (\<lambda>j. jb_status j = JobRunning) js,
          st_failed = count_of (\<lambda>j. jb_status j = JobFailed) js, st_open_reports = n\<rparr>))))))"

text \<open>The search strings of these two lists are patterns as they are.\<close>

definition list_users :: "string \<Rightarrow> nat \<Rightarrow> (user \<times> nat) list call" where
  "list_users q limit = peek (\<lambda>s. if \<not> text_ok q then Inl InternalErr
     else Inr (map (\<lambda>u. (u, count_of (\<lambda>m. rm_user m = u_id u) (d_members (si_db s))))
       (take limit (sort_key (\<lambda>u. - u_created u) (filter (\<lambda>u. q = [] \<or> like (to_lower (u_name u)) (to_lower q @ ''%'')) (d_users (si_db s)))))))"

definition list_rooms :: "string \<Rightarrow> nat \<Rightarrow> room_info list call" where
  "list_rooms q limit = peek (\<lambda>s. if \<not> text_ok q then Inl InternalErr
     else Inr (take limit (sort_key (\<lambda>r. - ri_created r)
       (filter (\<lambda>r. q = [] \<or> like (ri_slug r) (q @ ''%'') \<or> like (to_lower (ri_name r)) (to_lower q @ ''%'')) (d_rooms (si_db s))))))"

definition usernames_by_id :: "uuid list \<Rightarrow> (uuid \<times> string) list call" where
  "usernames_by_id ids = peek (\<lambda>s. Inr (map (\<lambda>u. (u_id u, u_name u)) (filter (\<lambda>u. u_id u \<in> set ids) (d_users (si_db s)))))"

section \<open>Audit log (\<open>audit.go\<close>)\<close>

definition next_audit_id :: "audit_row list \<Rightarrow> int" where
  "next_audit_id rows = (case rev rows of [] \<Rightarrow> 1 | r # _ \<Rightarrow> al_id r + 1)"

definition record_entry :: "audit_entry \<Rightarrow> unit call" where
  "record_entry e s =
     (if \<not> ref_ok (au_actor e) (users_of s) \<or> \<not> ref_ok (au_room e) (ri_id ` set (d_rooms (si_db s))) then (Inl InternalErr, s)
      else (Inr (), s\<lparr>si_audit := si_audit s @ [\<lparr>al_id = next_audit_id (si_audit s), al_entry = e, al_created = si_now s\<rparr>]\<rparr>))"

record audit_query =
  aq_room :: "uuid option"
  aq_actor :: "uuid option"
  aq_action :: string

definition audit_matches :: "audit_query \<Rightarrow> audit_row \<Rightarrow> bool" where
  "audit_matches q r \<longleftrightarrow> (aq_room q \<noteq> None \<longrightarrow> au_room (al_entry r) = aq_room q) \<and> (aq_actor q \<noteq> None \<longrightarrow> au_actor (al_entry r) = aq_actor q)
     \<and> (aq_action q = [] \<or> like (au_action (al_entry r)) (escape_like (aq_action q) @ ''%''))"

definition audit_rows :: "audit_query \<Rightarrow> int \<Rightarrow> nat \<Rightarrow> audit_row list \<Rightarrow> audit_row list" where
  "audit_rows q before limit rows = take limit (sort_key (\<lambda>r. - al_id r) (filter (\<lambda>r. audit_matches q r \<and> (before = 0 \<or> al_id r < before)) rows))"

definition list_audit :: "audit_query \<Rightarrow> int \<Rightarrow> nat \<Rightarrow> audit_row list call" where
  "list_audit q before limit = peek (\<lambda>s. if \<not> text_ok (aq_action q) then Inl InternalErr else Inr (audit_rows q before limit (si_audit s)))"

section \<open>Media\<close>

definition media_by_id :: "uuid \<Rightarrow> media call" where
  "media_by_id i = peek (\<lambda>s. case find (\<lambda>m. m_id m = i) (d_media (si_db s)) of None \<Rightarrow> Inl NotFoundErr | Some m \<Rightarrow> Inr m)"

definition queued_ids :: "site \<Rightarrow> uuid list" where
  "queued_ids s = map ir_media (d_items (si_db s))"

definition media_queued :: "uuid \<Rightarrow> bool call" where
  "media_queued i = peek (\<lambda>s. Inr (i \<in> set (queued_ids s)))"

text \<open>The row, with what the foreign keys remove: its items in every queue and its reports.\<close>

definition delete_media :: "uuid \<Rightarrow> unit call" where
  "delete_media i s = (case remove_media i (d_media (si_db s)) of
      None \<Rightarrow> (Inl NotFoundErr, s)
    | Some ms \<Rightarrow> (Inr (), s\<lparr>si_db := drop_items (\<lambda>r. ir_media r = i) ((si_db s)\<lparr>d_media := ms\<rparr>),
                          si_reports := filter (\<lambda>r. rp_media r \<noteq> i) (si_reports s)\<rparr>))"

definition media_by_size :: "nat \<Rightarrow> (media \<times> bool) list call" where
  "media_by_size limit = peek (\<lambda>s. Inr (map (\<lambda>m. (m, m_id m \<in> set (queued_ids s)))
     (take limit (sort_key (\<lambda>m. (- m_size_bytes m, m_created m)) (filter (\<lambda>m. m_status m = MediaReady) (d_media (si_db s)))))))"

definition evictable_media :: "nat \<Rightarrow> media list call" where
  "evictable_media limit = peek (\<lambda>s. Inr (evictable limit (queued_ids s) (d_media (si_db s))))"

end
