(* ===== verification/Admin.thy ===== *)
theory Admin
  imports Admin_Tables Accounts
begin

text \<open>
  The administration pages and the reports of videos (\<open>apihttp/admin.go\<close>).
\<close>

section \<open>Requests and replies\<close>

record report_form =
  rq_reason :: string
  rq_comment :: string
  rq_room_slug :: string

record audit_form =
  af_room :: string
  af_actor :: string
  af_action :: string
  af_before :: string

datatype admin_request =
  Report string "report_form body"
| AdminStats
| AdminUsers string
| AdminBan string "string body option"
| AdminUnban string
| AdminRooms string
| AdminDeleteRoom string
| AdminReports
| AdminDismiss string
| AdminDeleteMedia string "string body option"
| AdminBlocklist
| AdminBlock "(string \<times> string) body"
| AdminUnblock string
| AdminAudit audit_form
| AdminStorage
| AdminEvict string
| AdminEvictStale "int body"

record admin_user_view =
  uv_user :: account_view
  uv_banned :: bool
  uv_reason :: string
  uv_rooms :: nat

record admin_room_view =
  ov_id :: uuid
  ov_slug :: string
  ov_name :: string
  ov_visibility :: visibility
  ov_settings :: settings
  ov_owner :: string
  ov_created :: time

record audit_view =
  wv_id :: int
  wv_actor :: string
  wv_entry :: audit_entry
  wv_created :: time

datatype admin_reply =
  AdminDone
| StatsReply stats nat
| UserListing "admin_user_view list"
| RoomListing "admin_room_view list"
| ReportListing "reported_media list"
| Blocked "(block_row \<times> string) list"
| AuditPage "audit_view list" int
| StorageReply int int "(media \<times> bool) list"
| Evicted nat int

type_synonym 'a admin_act = "(admin_reply, 'a) handler"

definition done_204 :: "admin_reply result admin_act" where
  "done_204 = oka (Result 204 AdminDone)"

definition tell_rooms :: "site_env \<Rightarrow> site_hook \<Rightarrow> (site, 'e, unit) run" where
  "tell_rooms env h s = (Inr (), if se_hook env then s\<lparr>si_hooks := si_hooks s @ [h]\<rparr> else s)"

text \<open>\<open>Server.audit\<close>: an entry that cannot be written is only logged.\<close>

definition log_entry :: "user \<Rightarrow> string \<Rightarrow> string \<Rightarrow> string \<Rightarrow> (string \<times> meta) list \<Rightarrow> unit admin_act" where
  "log_entry by_user action tt target meta = anyway (store (record_entry \<lparr>au_actor = Some (u_id by_user), au_action = action, au_target_type = tt,
     au_target = target, au_room = None, au_meta = meta\<rparr>))"

definition with_id :: "string \<Rightarrow> string \<Rightarrow> (uuid \<Rightarrow> 'a admin_act) \<Rightarrow> 'a admin_act" where
  "with_id i msg h = (case uuid_parse i of None \<Rightarrow> stopa (Refuse 404 msg) | Some n \<Rightarrow> h n)"

text \<open>A body that may be left out.\<close>

definition read_optional :: "'q \<Rightarrow> 'q body option \<Rightarrow> 'q admin_act" where
  "read_optional d b = (case b of None \<Rightarrow> oka d | Some c \<Rightarrow> read_body c)"

section \<open>Reports\<close>

definition seen_in :: "string \<Rightarrow> uuid \<Rightarrow> (uuid option \<times> uuid option) admin_act" where
  "seen_in room_slug mid = (let slug = trim_space room_slug in
     if slug = [] then oka (None, None)
     else rescue (binda (store (peek (\<lambda>s. get_room_by_slug (si_db s) slug))) (\<lambda>room.
            binda (store (queue_adder (ri_id room) mid)) (\<lambda>a. oka (case a of None \<Rightarrow> (None, None) | Some w \<Rightarrow> (Some (ri_id room), w)))))
          (\<lambda>_. oka (None, None)))"

definition handle_create_report :: "site_env \<Rightarrow> visit \<Rightarrow> user \<Rightarrow> string \<Rightarrow> report_form body \<Rightarrow> admin_reply result admin_act" where
  "handle_create_report env v u i b = with_id i ''media not found'' (\<lambda>mid.
     binda (read_body b) (\<lambda>q.
     thena (need (valid_report_reason (rq_reason q)) 400 ''reason must be one of copyright, illegal, nsfw, other'')
     (thena (need (length (rq_comment q) \<le> 500) 400 ''comment must be at most 500 characters'')
     (thena (under_limit env ReportLimit (uuid_text (u_id u)) ''you are doing that too often; try again later'')
     (binda (required_but NotFoundErr 404 ''media not found'' (media_by_id mid)) (\<lambda>_.
      binda (seen_in (rq_room_slug q) mid) (\<lambda>(room, who).
      binda (required_but ConflictErr 409 ''you have already reported this video''
        (create_report (vs_new_row v) mid (u_id u) room who (rq_reason q) (trim_space (rq_comment q)))) (\<lambda>_. done_204)))))))) "

definition handle_admin_reports :: "admin_reply result admin_act" where
  "handle_admin_reports = binda (required (list_reported_media 100)) (\<lambda>xs. oka (Result 200 (ReportListing xs)))"

definition handle_dismiss :: "user \<Rightarrow> string \<Rightarrow> admin_reply result admin_act" where
  "handle_dismiss u i = with_id i ''media not found'' (\<lambda>mid.
     binda (required (store (resolve_reports mid (u_id u)))) (\<lambda>n.
     thena (log_entry u ''reports.dismiss'' ''media'' (uuid_text mid) [(''count'', MetaInt (int n))]) done_204))"

section \<open>Users and rooms\<close>

definition handle_stats :: "site_env \<Rightarrow> admin_reply result admin_act" where
  "handle_stats env = binda (required site_stats) (\<lambda>st. oka (Result 200 (StatsReply st (case se_loaded env of None \<Rightarrow> 0 | Some n \<Rightarrow> n))))"

definition admin_user_view_of :: "user \<times> nat \<Rightarrow> admin_user_view" where
  "admin_user_view_of p = (case p of (u, n) \<Rightarrow> \<lparr>uv_user = account_of u, uv_banned = user_is_banned (Some u),
     uv_reason = (case u_banned_reason u of None \<Rightarrow> [] | Some r \<Rightarrow> r), uv_rooms = n\<rparr>)"

definition handle_users :: "string \<Rightarrow> admin_reply result admin_act" where
  "handle_users q = binda (required (store (list_users (trim_space q) 100))) (\<lambda>us. oka (Result 200 (UserListing (map admin_user_view_of us))))"

definition handle_ban_user :: "site_env \<Rightarrow> user \<Rightarrow> string \<Rightarrow> string body option \<Rightarrow> admin_reply result admin_act" where
  "handle_ban_user env u i b = with_id i ''user not found'' (\<lambda>uid.
     thena (need (uid \<noteq> u_id u) 400 ''you cannot ban yourself'')
     (binda (required_but NotFoundErr 404 ''user not found'' (peek (\<lambda>s. get_user (si_db s) uid))) (\<lambda>target.
      thena (need (\<not> user_is_admin (Some target)) 400 ''administrators cannot be banned'')
      (binda (read_optional [] b) (\<lambda>reason.
       reading_clock (\<lambda>now.
       thena (required (store (ban_user uid (u_id u) reason now)))
       (thena (anyway (revoke_all uid))
       (thena (tell_rooms env (UserBanned uid))
       (thena (log_entry u ''user.ban'' ''user'' (uuid_text uid) [(''username'', MetaText (u_name target)), (''reason'', MetaText reason)])
         done_204)))))))))"

definition handle_unban_user :: "user \<Rightarrow> string \<Rightarrow> admin_reply result admin_act" where
  "handle_unban_user u i = with_id i ''user not found'' (\<lambda>uid.
     thena (required_but NotFoundErr 404 ''user not found'' (unban_user uid))
     (thena (log_entry u ''user.unban'' ''user'' (uuid_text uid) []) done_204))"

definition admin_room_view_of :: "(uuid \<times> string) list \<Rightarrow> room_info \<Rightarrow> admin_room_view" where
  "admin_room_view_of names r = \<lparr>ov_id = ri_id r, ov_slug = ri_slug r, ov_name = ri_name r, ov_visibility = ri_visibility r,
     ov_settings = ri_settings r, ov_owner = (case map_of names (ri_owner r) of None \<Rightarrow> [] | Some n \<Rightarrow> n), ov_created = ri_created r\<rparr>"

definition handle_rooms :: "site_env \<Rightarrow> string \<Rightarrow> admin_reply result admin_act" where
  "handle_rooms env q =
     binda (required (store (list_rooms (se_lower env (trim_space q)) 100))) (\<lambda>rs.
     binda (required (store (usernames_by_id (map ri_owner rs)))) (\<lambda>names.
       oka (Result 200 (RoomListing (map (admin_room_view_of names) rs)))))"

definition handle_delete_room_admin :: "site_env \<Rightarrow> user \<Rightarrow> string \<Rightarrow> admin_reply result admin_act" where
  "handle_delete_room_admin env u slug =
     binda (required_but NotFoundErr 404 ''room not found'' (peek (\<lambda>s. get_room_by_slug (si_db s) slug))) (\<lambda>room.
     thena (required (store (on_db (delete_room (ri_id room)))))
     (thena (tell_rooms env (RoomGone (ri_id room)))
     (thena (log_entry u ''room.delete'' ''room'' (uuid_text (ri_id room))
        [(''slug'', MetaText (ri_slug room)), (''name'', MetaText (ri_name room)), (''admin'', MetaBool True)]) done_204)))"

section \<open>Media and blocklist\<close>

definition drop_objects :: "site_env \<Rightarrow> string \<Rightarrow> (site, cerr, unit) run" where
  "drop_objects env prefix s = (case try_delete (se_drop_objects env prefix) prefix (si_objects s) of
      (ok, obs) \<Rightarrow> (if ok then Inr () else Inl InternalErr, s\<lparr>si_objects := obs\<rparr>))"

definition drop_package :: "site_env \<Rightarrow> media \<Rightarrow> (site, cerr, unit) run" where
  "drop_package env m = (if se_objects env \<and> m_s3_prefix m \<noteq> [] then drop_objects env (m_s3_prefix m) else oka ())"

definition handle_delete_media :: "site_env \<Rightarrow> user \<Rightarrow> string \<Rightarrow> string body option \<Rightarrow> admin_reply result admin_act" where
  "handle_delete_media env u i b = with_id i ''media not found'' (\<lambda>mid.
     binda (required_but NotFoundErr 404 ''media not found'' (media_by_id mid)) (\<lambda>m.
     binda (read_optional [] b) (\<lambda>reason.
     thena (required (store (block_source (m_source_key m) reason (u_id u))))
     (thena (anyway (drop_package env m))
     (thena (anyway (store (resolve_reports mid (u_id u))))
     (thena (required (store (delete_media mid)))
     (thena (tell_rooms env (MediaGone mid))
     (thena (log_entry u ''media.delete'' ''media'' (uuid_text mid)
        [(''sourceKey'', MetaText (m_source_key m)), (''title'', MetaText (m_title m)), (''reason'', MetaText reason)]) done_204))))))))"

definition handle_blocklist :: "admin_reply result admin_act" where
  "handle_blocklist = binda (required (store list_blocklist)) (\<lambda>bs. oka (Result 200 (Blocked bs)))"

definition handle_block :: "user \<Rightarrow> (string \<times> string) body \<Rightarrow> admin_reply result admin_act" where
  "handle_block u b = binda (read_body b) (\<lambda>(k, reason). let key = trim_space k in
     thena (need (key \<noteq> [] \<and> length key \<le> 500) 400 ''sourceKey is required'')
     (thena (required (store (block_source key reason (u_id u))))
     (thena (log_entry u ''source.block'' ''source'' key [(''reason'', MetaText reason)]) done_204)))"

definition handle_unblock :: "user \<Rightarrow> string \<Rightarrow> admin_reply result admin_act" where
  "handle_unblock u key =
     thena (required_but NotFoundErr 404 ''source is not blocked'' (unblock_source key))
     (thena (log_entry u ''source.unblock'' ''source'' key []) done_204)"

section \<open>Audit log\<close>

definition audit_page_size :: nat where
  "audit_page_size = 100"

text \<open>The rows of a page and where the next one starts, 0 at the end, from one row more than fits.\<close>

definition page_of :: "audit_row list \<Rightarrow> audit_row list \<times> int" where
  "page_of rows = (if audit_page_size < length rows then (take audit_page_size rows, al_id (last (take audit_page_size rows))) else (rows, 0))"

definition audit_view_of :: "(uuid \<times> string) list \<Rightarrow> audit_row \<Rightarrow> audit_view" where
  "audit_view_of names r = \<lparr>wv_id = al_id r,
     wv_actor = (case au_actor (al_entry r) of None \<Rightarrow> [] | Some a \<Rightarrow> (case map_of names a of None \<Rightarrow> [] | Some n \<Rightarrow> n)),
     wv_entry = al_entry r, wv_created = al_created r\<rparr>"

definition read_before :: "string \<Rightarrow> int admin_act" where
  "read_before t = (if t = [] then oka 0
     else case parse_int64 t of None \<Rightarrow> stopa (Refuse 400 ''before must be an id'')
        | Some n \<Rightarrow> thena (need (0 \<le> n) 400 ''before must be an id'') (oka n))"

definition audit_list :: "audit_query \<Rightarrow> string \<Rightarrow> admin_reply result admin_act" where
  "audit_list q before_text =
     binda (read_before before_text) (\<lambda>before.
     binda (required (store (list_audit q before (audit_page_size + 1)))) (\<lambda>rows.
     case page_of rows of (page, before_next) \<Rightarrow>
       binda (required (store (usernames_by_id (List.map_filter (\<lambda>r. au_actor (al_entry r)) page)))) (\<lambda>names.
       oka (Result 200 (AuditPage (map (audit_view_of names) page) before_next)))))"

definition handle_audit :: "audit_form \<Rightarrow> admin_reply result admin_act" where
  "handle_audit f = (let action = trim_space (af_action f); actor_name = trim_space (af_actor f) in
     binda (if af_room f = [] then oka None
            else case uuid_parse (af_room f) of None \<Rightarrow> stopa (Refuse 400 ''room must be a uuid'') | Some r \<Rightarrow> oka (Some r)) (\<lambda>room.
     if actor_name = [] then audit_list \<lparr>aq_room = room, aq_actor = None, aq_action = action\<rparr> (af_before f)
     else binda (found_or_none (user_by_name actor_name)) (\<lambda>u. case u of
         None \<Rightarrow> oka (Result 200 (AuditPage [] 0))
       | Some x \<Rightarrow> audit_list \<lparr>aq_room = room, aq_actor = Some (u_id x), aq_action = action\<rparr> (af_before f))))"

section \<open>Storage\<close>

definition handle_storage :: "site_env \<Rightarrow> admin_reply result admin_act" where
  "handle_storage env =
     binda (required (store (peek (\<lambda>s. Inr (ready_bytes (d_media (si_db s))))))) (\<lambda>n.
     binda (required (store (media_by_size 100))) (\<lambda>ms. oka (Result 200 (StorageReply n (se_budget env) ms))))"

definition evict_media :: "site_env \<Rightarrow> media \<Rightarrow> (site, cerr, unit) run" where
  "evict_media env m =
     thena (drop_package env m) (thena (store (delete_media (m_id m))) (tell_rooms env (MediaGone (m_id m))))"

definition handle_evict_media :: "site_env \<Rightarrow> user \<Rightarrow> string \<Rightarrow> admin_reply result admin_act" where
  "handle_evict_media env u i = with_id i ''media not found'' (\<lambda>mid.
     binda (required_but NotFoundErr 404 ''media not found'' (media_by_id mid)) (\<lambda>m.
     binda (required (store (media_queued mid))) (\<lambda>queued.
     thena (need (\<not> queued) 409 ''this video is still queued in a room'')
     (thena (required (evict_media env m))
     (thena (log_entry u ''media.evict'' ''media'' (uuid_text mid)
        [(''title'', MetaText (m_title m)), (''bytes'', MetaInt (m_size_bytes m)), (''by'', MetaText (u_name u))]) done_204)))))"

text \<open>The candidates come least recently watched first; one that cannot be removed is skipped.\<close>

fun evict_stale :: "site_env \<Rightarrow> time \<Rightarrow> media list \<Rightarrow> nat \<Rightarrow> int \<Rightarrow> (nat \<times> int) admin_act" where
  "evict_stale env cutoff [] n b = oka (n, b)"
| "evict_stale env cutoff (m # ms) n b =
     (if \<not> m_last_accessed m < cutoff then oka (n, b)
      else binda (rescue (binda (evict_media env m) (\<lambda>_. oka True)) (\<lambda>_. oka False)) (\<lambda>gone.
        if gone then evict_stale env cutoff ms (n + 1) (b + m_size_bytes m) else evict_stale env cutoff ms n b))"

definition handle_evict_stale :: "site_env \<Rightarrow> user \<Rightarrow> int body \<Rightarrow> admin_reply result admin_act" where
  "handle_evict_stale env u b = binda (read_body b) (\<lambda>days.
     thena (need (1 \<le> days \<and> days \<le> 3650) 400 ''olderThanDays must be between 1 and 3650'')
     (reading_clock (\<lambda>now.
      binda (required (store (evictable_media 500))) (\<lambda>ms.
      binda (evict_stale env (now - days * (24 * 3600 * 1000000000)) ms 0 0) (\<lambda>(n, bytes).
      thena (log_entry u ''storage.evict'' ''storage'' ''stale''
         [(''olderThanDays'', MetaInt days), (''removed'', MetaInt (int n)), (''bytes'', MetaInt bytes)])
       (oka (Result 200 (Evicted n bytes))))))))"

section \<open>Routes\<close>

fun admin_route :: "site_env \<Rightarrow> visit \<Rightarrow> admin_request \<Rightarrow> user option \<Rightarrow> admin_reply result admin_act" where
  "admin_route env v (Report i b) u = signed_in u (\<lambda>x. handle_create_report env v x i b)"
| "admin_route env v AdminStats u = as_admin u (\<lambda>x. handle_stats env)"
| "admin_route env v (AdminUsers q) u = as_admin u (\<lambda>x. handle_users q)"
| "admin_route env v (AdminBan i b) u = as_admin u (\<lambda>x. handle_ban_user env x i b)"
| "admin_route env v (AdminUnban i) u = as_admin u (\<lambda>x. handle_unban_user x i)"
| "admin_route env v (AdminRooms q) u = as_admin u (\<lambda>x. handle_rooms env q)"
| "admin_route env v (AdminDeleteRoom slug) u = as_admin u (\<lambda>x. handle_delete_room_admin env x slug)"
| "admin_route env v AdminReports u = as_admin u (\<lambda>x. handle_admin_reports)"
| "admin_route env v (AdminDismiss i) u = as_admin u (\<lambda>x. handle_dismiss x i)"
| "admin_route env v (AdminDeleteMedia i b) u = as_admin u (\<lambda>x. handle_delete_media env x i b)"
| "admin_route env v AdminBlocklist u = as_admin u (\<lambda>x. handle_blocklist)"
| "admin_route env v (AdminBlock b) u = as_admin u (\<lambda>x. handle_block x b)"
| "admin_route env v (AdminUnblock k) u = as_admin u (\<lambda>x. handle_unblock x k)"
| "admin_route env v (AdminAudit f) u = as_admin u (\<lambda>x. handle_audit f)"
| "admin_route env v AdminStorage u = as_admin u (\<lambda>x. handle_storage env)"
| "admin_route env v (AdminEvict i) u = as_admin u (\<lambda>x. handle_evict_media env x i)"
| "admin_route env v (AdminEvictStale b) u = as_admin u (\<lambda>x. handle_evict_stale env x b)"

definition serve_admin :: "site_env \<Rightarrow> visit \<Rightarrow> admin_request \<Rightarrow> site \<Rightarrow> admin_reply result \<times> site" where
  "serve_admin env v q = api env v (admin_route env v q)"

end
