(* ===== verification/Admin_Safe.thy ===== *)
theory Admin_Safe
  imports Admin Accounts_Safe
begin

text \<open>
  What the administration pages guarantee, whichever call fails: they need an administrator, a banned
  account is out, eviction spares what is queued, a removed video stays blocked, and the pages of the
  audit log show every entry once.
\<close>

section \<open>Administrators only\<close>

text \<open>Everything but the sessions, the cookies and the limiters.\<close>

definition site_tables :: "site \<Rightarrow> site" where
  "site_tables s = s\<lparr>si_sessions := [], si_faults := [], si_cookies := [], si_asked := (\<lambda>_ _. [])\<rparr>"

interpretation unchanged: kept_property "\<lambda>t. site_tables t = site_tables s" for s
  by unfold_locales (auto simp: site_tables_def touch_session_def)

fun needs_admin :: "admin_request \<Rightarrow> bool" where
  "needs_admin (Report i b) = False"
| "needs_admin q = True"

lemma admin_route_refuses:
  assumes "needs_admin q" and "\<not> user_is_admin u"
  shows "\<exists>n e. admin_route env v q u = stopa (Refuse n e)"
proof -
  have "\<exists>n e. as_admin u h = stopa (Refuse n e)" for h :: "user \<Rightarrow> admin_reply result admin_act"
    using assms(2) by (auto simp: as_admin_def user_is_admin_def split: option.split)
  with assms(1) show ?thesis by (cases q) auto
qed

lemma api_refuses:
  assumes "\<And>u. (\<And>x. u = Some x \<Longrightarrow> owns env v s x) \<Longrightarrow> \<exists>n e. h u = stopa (Refuse n e)"
  shows "\<exists>n e. fst (api env v h s) = Refuse n e"
proof (cases "resolve env v s")
  case (Pair r t)
  show ?thesis
  proof (cases r)
    case (Inl e)
    with Pair show ?thesis
      by (auto simp: api_def with_session_def finish_def run_steps set_cookie_def server_error_def)
  next
    case (Inr u)
    have "owns env v s x" if "u = Some x" for x using resolve_owner [of env v s x] Pair Inr that by simp
    then obtain n e where "h u = stopa (Refuse n e)" using assms by blast
    with Pair Inr show ?thesis
      by (simp add: api_def with_session_def finish_def run_steps check_origin_def)
  qed
qed

theorem admin_needs_admin:
  assumes "needs_admin q" and "\<And>u. owns env v s u \<Longrightarrow> u_role u \<noteq> SiteAdmin"
  shows "site_tables (snd (serve_admin env v q s)) = site_tables s \<and> (\<exists>n e. fst (serve_admin env v q s) = Refuse n e)"
proof -
  have r: "\<exists>n e. admin_route env v q u = stopa (Refuse n e)" if "\<And>x. u = Some x \<Longrightarrow> owns env v s x" for u
    by (rule admin_route_refuses [OF assms(1)]) (use assms(2) that in \<open>auto simp: user_is_admin_def split: option.splits\<close>)
  have "gives (\<lambda>t. site_tables t = site_tables s) (admin_route env v q u) (\<lambda>_. True)" if "\<And>x. u = Some x \<Longrightarrow> owns env v s x" for u
  proof -
    obtain n e where "admin_route env v q u = stopa (Refuse n e)" using r \<open>\<And>x. u = Some x \<Longrightarrow> owns env v s x\<close> by blast
    then show ?thesis by simp
  qed
  then have "site_tables (snd (api env v (admin_route env v q) s)) = site_tables s"
    by (intro unchanged.serves) auto
  with api_refuses [OF r] show ?thesis by (simp add: serve_admin_def)
qed

section \<open>How a handler ends\<close>

text \<open>\<open>ends P m Q\<close>: from \<open>P\<close>, \<open>m\<close> is refused or goes on with a value and a state that satisfy \<open>Q\<close>.\<close>

definition ends :: "(site \<Rightarrow> bool) \<Rightarrow> ('p, 'a) handler \<Rightarrow> ('a \<Rightarrow> site \<Rightarrow> bool) \<Rightarrow> bool" where
  "ends P m Q \<longleftrightarrow> (\<forall>t. P t \<longrightarrow> (case m t of (Inl r, t') \<Rightarrow> (\<exists>n e. r = Refuse n e) | (Inr x, t') \<Rightarrow> Q x t'))"

lemma ends_ok: "(\<And>t. P t \<Longrightarrow> Q x t) \<Longrightarrow> ends P (oka x) Q"
  by (simp add: ends_def oka_def)

lemma ends_stop [simp]: "ends P (stopa (Refuse n e)) Q"
  by (simp add: ends_def stopa_def)

lemma ends_bind: "ends P m Q \<Longrightarrow> (\<And>x. ends (Q x) (k x) R) \<Longrightarrow> ends P (binda m k) R"
  by (fastforce simp: ends_def binda_def split: prod.splits sum.splits)

lemma ends_then: "ends P m (\<lambda>_. Q) \<Longrightarrow> ends Q k R \<Longrightarrow> ends P (thena m k) R"
  unfolding thena_def by (erule ends_bind)

lemma ends_weaken: "ends P m Q \<Longrightarrow> (\<And>t. P' t \<Longrightarrow> P t) \<Longrightarrow> (\<And>x t. Q x t \<Longrightarrow> Q' x t) \<Longrightarrow> ends P' m Q'"
  by (fastforce simp: ends_def split: prod.splits sum.splits)

lemma ends_any: "ends (\<lambda>_. True) m Q \<Longrightarrow> ends P m Q"
  by (simp add: ends_def)

lemma ends_need: "ends P (need b n e) (\<lambda>_ t. b \<and> P t)"
  by (simp add: ends_def need_def unlessa_def oka_def stopa_def)

lemma ends_clock: "(\<And>now. ends P (k now) Q) \<Longrightarrow> ends P (reading_clock k) Q"
  by (simp add: ends_def reading_clock_def)

lemma ends_kept: "keeps P m \<Longrightarrow> (\<And>r t. P t \<Longrightarrow> fst (m t) = Inl r \<Longrightarrow> \<exists>n e. r = Refuse n e) \<Longrightarrow> ends P m (\<lambda>_. P)"
  by (fastforce simp: ends_def gives_def split: prod.splits sum.splits)

lemma ends_anyway: "keeps P m \<Longrightarrow> ends P (anyway m) (\<lambda>_. P)"
  by (simp add: ends_def anyway_def gives_def)

text \<open>A call of the store that went through.\<close>

lemma ends_required:
  assumes "\<And>t fs. P t \<Longrightarrow> P (t\<lparr>si_faults := fs\<rparr>)" and "\<And>t x t'. P t \<Longrightarrow> f t = (Inr x, t') \<Longrightarrow> Q x t'"
  shows "ends P (required (store f)) Q"
  using assms by (fastforce simp: ends_def required_def rescue_def store_def server_error_def stopa_def split: prod.splits sum.splits list.splits bool.splits)

lemma ends_required_but:
  assumes "\<And>t fs. P t \<Longrightarrow> P (t\<lparr>si_faults := fs\<rparr>)" and "\<And>t x t'. P t \<Longrightarrow> f t = (Inr x, t') \<Longrightarrow> Q x t'"
  shows "ends P (required_but e n msg f) Q"
  using assms by (fastforce simp: ends_def required_but_def rescue_def store_def server_error_def stopa_def split: prod.splits sum.splits list.splits bool.splits)

lemma ends_with_id: "(\<And>n. uuid_parse i = Some n \<Longrightarrow> ends P (h n) Q) \<Longrightarrow> ends P (with_id i msg h) Q"
  by (simp add: with_id_def split: option.split)

lemma ends_read: "ends P (read_body b) (\<lambda>q t. b = Body q \<and> P t)"
  by (simp add: read_body_def ends_def oka_def stopa_def split: body.split)

lemma ends_optional: "ends P (read_optional d b) (\<lambda>_. P)"
  by (auto simp: read_optional_def ends_ok split: option.split intro: ends_weaken [OF ends_read])

lemma ends_admin: "(\<And>x. u = Some x \<Longrightarrow> ends P (h x) Q) \<Longrightarrow> ends P (as_admin u h) Q"
  by (auto simp: as_admin_def split: option.split)

lemma api_ends:
  assumes "\<And>u. ends (\<lambda>_. True) (h u) Q" and "fst (api env v h s) = Result n p"
  shows "Q (Result n p) (snd (api env v h s))"
proof (cases "resolve env v s")
  case (Pair r t)
  show ?thesis
  proof (cases r)
    case (Inl e)
    with Pair assms(2) show ?thesis
      by (auto simp: api_def with_session_def finish_def run_steps set_cookie_def server_error_def split: if_splits)
  next
    case (Inr u)
    have e: "ends (\<lambda>_. True) (check_origin env v (h u)) Q" using assms(1) by (simp add: check_origin_def)
    have a: "api env v h s = finish (check_origin env v (h u)) t"
      using Pair Inr by (simp add: api_def with_session_def finish_def run_steps)
    with e assms(2) show ?thesis by (fastforce simp: finish_def ends_def split: prod.splits sum.splits)
  qed
qed

section \<open>A banned account is out\<close>

definition banned_in :: "uuid \<Rightarrow> site \<Rightarrow> bool" where
  "banned_in uid t \<longleftrightarrow> list_all (\<lambda>w. u_id w \<noteq> uid \<or> u_banned_at w \<noteq> None) (d_users (si_db t))"

interpretation banned: kept_property "banned_in uid" for uid
  by unfold_locales (auto simp: banned_in_def)

lemma banned_logged: "keeps (banned_in uid) (store (record_entry e))"
  by (rule banned.stores) (simp add: record_entry_def banned_in_def)

lemma ban_ends:
  "ends (\<lambda>_. True) (handle_ban_user env u i b) (\<lambda>r t. r = Result 204 AdminDone \<and> uuid_parse i \<noteq> None \<and> banned_in (the (uuid_parse i)) t
     \<and> (se_hook env \<longrightarrow> UserBanned (the (uuid_parse i)) \<in> set (si_hooks t)))"
  unfolding handle_ban_user_def
proof (rule ends_with_id)
  fix uid assume i: "uuid_parse i = Some uid"
  have ban: "ends (\<lambda>_. True) (required (store (ban_user uid (u_id u) reason now))) (\<lambda>_. banned_in uid)" for reason now
    by (rule ends_required) (auto simp: ban_user_def exec_user_def banned_in_def change_user_def list_all_iff split: if_splits)
  have told: "ends (banned_in uid) (tell_rooms env (UserBanned uid)) (\<lambda>_ t. banned_in uid t \<and> (se_hook env \<longrightarrow> UserBanned uid \<in> set (si_hooks t)))"
    by (simp add: ends_def tell_rooms_def banned_in_def)
  have logged: "ends (\<lambda>t. banned_in uid t \<and> (se_hook env \<longrightarrow> UserBanned uid \<in> set (si_hooks t))) (log_entry u a tt target meta)
      (\<lambda>_ t. banned_in uid t \<and> (se_hook env \<longrightarrow> UserBanned uid \<in> set (si_hooks t)))" for a tt target meta
    unfolding log_entry_def
    by (rule ends_anyway, rule gives_store) (auto simp: record_entry_def banned_in_def)
  show "ends (\<lambda>_. True) (thena (need (uid \<noteq> u_id u) 400 ''you cannot ban yourself'')
     (binda (required_but NotFoundErr 404 ''user not found'' (peek (\<lambda>s. get_user (si_db s) uid))) (\<lambda>target.
      thena (need (\<not> user_is_admin (Some target)) 400 ''administrators cannot be banned'')
      (binda (read_optional [] b) (\<lambda>reason.
       reading_clock (\<lambda>now.
       thena (required (store (ban_user uid (u_id u) reason now)))
       (thena (anyway (revoke_all uid))
       (thena (tell_rooms env (UserBanned uid))
       (thena (log_entry u ''user.ban'' ''user'' (uuid_text uid) [(''username'', MetaText (u_name target)), (''reason'', MetaText reason)])
         done_204))))))))) (\<lambda>r t. r = Result 204 AdminDone \<and> uuid_parse i \<noteq> None \<and> banned_in (the (uuid_parse i)) t
     \<and> (se_hook env \<longrightarrow> UserBanned (the (uuid_parse i)) \<in> set (si_hooks t)))"
    by (rule ends_then [OF ends_need], rule ends_any,
        rule ends_bind [OF ends_required_but [where Q = "\<lambda>_ _. True"]], simp, simp,
        rule ends_then [OF ends_need], rule ends_any,
        rule ends_bind [OF ends_optional], rule ends_clock, rule ends_then [OF ban],
        rule ends_then [OF ends_anyway [OF banned.revokes_all]], rule ends_then [OF told], rule ends_then [OF logged])
       (simp add: done_204_def ends_ok i)
qed



section \<open>Eviction spares what is queued\<close>

text \<open>The queues are those of \<open>s\<close>, and a video of \<open>s\<close> that is gone satisfies \<open>W\<close>.\<close>

definition media_kept :: "site \<Rightarrow> (uuid \<Rightarrow> bool) \<Rightarrow> site \<Rightarrow> bool" where
  "media_kept s W t \<longleftrightarrow> si_now t = si_now s \<and> d_items (si_db t) = d_items (si_db s) \<and> set (d_media (si_db t)) \<subseteq> set (d_media (si_db s))
     \<and> (\<forall>m \<in> set (d_media (si_db s)). m \<in> set (d_media (si_db t)) \<or> W (m_id m))"

interpretation evicted: kept_property "media_kept s W" for s W
  by unfold_locales (auto simp: media_kept_def touch_session_def)

lemma unqueued_stays: "i \<notin> set (queued_ids s) \<Longrightarrow> filter (\<lambda>r. ir_media r \<noteq> i) (d_items (si_db s)) = d_items (si_db s)"
  by (auto simp: queued_ids_def filter_id_conv)

lemma evicted_row:
  assumes "W i" and "i \<notin> set (queued_ids s)"
  shows "keeps (media_kept s W) (store (delete_media i))"
proof (rule evicted.stores)
  fix t assume t: "media_kept s W t"
  show "media_kept s W (snd (delete_media i t))"
  proof (cases "remove_media i (d_media (si_db t))")
    case (Some ms)
    then have ms: "ms = filter (\<lambda>m. m_id m \<noteq> i) (d_media (si_db t))" by (auto simp: remove_media_def split: if_splits)
    have "d_items (si_db (snd (delete_media i t))) = d_items (si_db t)"
      using unqueued_stays [OF assms(2)] t Some by (simp add: delete_media_def drop_items_def media_kept_def Let_def)
    moreover have "d_media (si_db (snd (delete_media i t))) = ms"
      using Some by (simp add: delete_media_def drop_items_def Let_def)
    moreover have "si_now (snd (delete_media i t)) = si_now t" using Some by (simp add: delete_media_def)
    ultimately show ?thesis using t assms(1) by (auto simp: media_kept_def ms)
  qed (use t in \<open>simp add: delete_media_def\<close>)
qed

lemma evicted_objects: "keeps (media_kept s W) (drop_package env m)"
  by (auto simp: drop_package_def drop_objects_def oka_def gives_def media_kept_def split: prod.split)

lemma evicted_told: "keeps (media_kept s W) (tell_rooms env h)"
  by (auto simp: tell_rooms_def gives_def media_kept_def)

lemma evicted_logged: "keeps (media_kept s W) (log_entry u a tt target meta)"
  unfolding log_entry_def
  by (rule keeps_anyway, rule evicted.stores) (simp add: record_entry_def media_kept_def)

lemma evicts: "W (m_id m) \<Longrightarrow> m_id m \<notin> set (queued_ids s) \<Longrightarrow> keeps (media_kept s W) (evict_media env m)"
  unfolding evict_media_def
  by (rule gives_then [OF evicted_objects], rule gives_then [OF evicted_row]) (simp_all add: evicted_told)

lemma evicts_stale:
  assumes "\<And>m. m \<in> set ms \<Longrightarrow> m_last_accessed m < cutoff \<Longrightarrow> W (m_id m) \<and> m_id m \<notin> set (queued_ids s)"
  shows "keeps (media_kept s W) (evict_stale env cutoff ms n b)"
  using assms
proof (induction ms arbitrary: n b)
  case (Cons m ms)
  have e: "keeps (media_kept s W) (evict_media env m)" if "m_last_accessed m < cutoff"
    using Cons.prems [of m] that by (intro evicts) auto
  show ?case
    unfolding evict_stale.simps
    by (auto intro!: gives_bind [where Q = "\<lambda>_. True"] gives_rescue e Cons)
qed simp

definition may_be_evicted :: "time \<Rightarrow> admin_request \<Rightarrow> site \<Rightarrow> uuid \<Rightarrow> bool" where
  "may_be_evicted now q s i \<longleftrightarrow> i \<notin> set (queued_ids s) \<and> (case q of
      AdminEvict t \<Rightarrow> uuid_parse t = Some i
    | AdminEvictStale (Body days) \<Rightarrow> list_ex (\<lambda>m. m_id m = i \<and> m_status m = MediaReady
        \<and> m_last_accessed m < now - days * (24 * 3600 * 1000000000)) (d_media (si_db s))
    | _ \<Rightarrow> False)"


lemma evicts_one: "keeps (media_kept s (may_be_evicted now (AdminEvict i) s)) (handle_evict_media env u i)"
proof -
  let ?W = "may_be_evicted now (AdminEvict i) s"
  let ?P = "media_kept s ?W"
  have m: "gives ?P (store (media_by_id mid)) (\<lambda>m. m_id m = mid)" for mid
    unfolding media_by_id_def by (rule evicted.peeks) (auto simp: find_Some_iff split: option.splits)
  have q: "gives ?P (store (media_queued mid)) (\<lambda>b. b = (mid \<in> set (queued_ids s)))" for mid
    unfolding media_queued_def by (rule evicted.peeks) (auto simp: queued_ids_def media_kept_def)
  show ?thesis
  proof (cases "uuid_parse i")
    case (Some mid)
    show ?thesis
      unfolding handle_evict_media_def with_id_def Some option.case
      by (rule gives_bind [OF evicted.requires_but [OF m]], rule gives_bind [OF evicted.requires [OF q]], rule gives_then [OF evicted.needs],
          rule gives_then [OF evicted.requires [OF evicts]], (simp add: may_be_evicted_def Some)+,
          rule gives_then [OF evicted_logged]) (simp add: done_204_def)
  qed (simp add: handle_evict_media_def with_id_def)
qed

lemma evicted_clock: "keeps (media_kept s W) (k (si_now s)) \<Longrightarrow> keeps (media_kept s W) (reading_clock k)"
  by (auto simp: gives_def reading_clock_def media_kept_def)

lemma evicts_all_stale: "keeps (media_kept s (may_be_evicted (si_now s) (AdminEvictStale b) s)) (handle_evict_stale env u b)"
proof -
  let ?W = "may_be_evicted (si_now s) (AdminEvictStale b) s"
  let ?P = "media_kept s ?W"
  have c: "gives ?P (store (evictable_media n)) (\<lambda>ms. \<forall>m \<in> set ms. m \<in> set (d_media (si_db s)) \<and> m_status m = MediaReady \<and> m_id m \<notin> set (queued_ids s))" for n
    unfolding evictable_media_def
    by (rule evicted.peeks) (auto simp: evictable_def queued_ids_def media_kept_def dest!: in_set_takeD)
  show ?thesis
    unfolding handle_evict_stale_def
  proof (rule gives_bind [OF evicted.reads], rule gives_then [OF evicted.needs], rule evicted_clock, rule gives_bind [OF evicted.requires [OF c]])
    fix days ms assume b: "b = Body days"
      and ms: "\<forall>m \<in> set ms. m \<in> set (d_media (si_db s)) \<and> m_status m = MediaReady \<and> m_id m \<notin> set (queued_ids s)"
    have "keeps ?P (evict_stale env (si_now s - days * (24 * 3600 * 1000000000)) ms 0 0)"
      by (rule evicts_stale) (use ms b in \<open>auto simp: may_be_evicted_def list_ex_iff\<close>)
    then show "keeps ?P (binda (evict_stale env (si_now s - days * (24 * 3600 * 1000000000)) ms 0 0) (\<lambda>(n, bytes).
      thena (log_entry u ''storage.evict'' ''storage'' ''stale''
         [(''olderThanDays'', MetaInt days), (''removed'', MetaInt (int n)), (''bytes'', MetaInt bytes)])
       (oka (Result 200 (Evicted n bytes)))))"
      by (rule gives_bind) (auto intro!: gives_then [OF evicted_logged] split: prod.split)
  qed
qed

text \<open>
  C39: The two ways to evict remove only videos that no room queues or remembers: the one that was
  asked for, or ready ones not watched for the given number of days.  Whichever calls fail.
\<close>

theorem eviction_spares_queued:
  assumes "q = AdminEvict i \<or> q = AdminEvictStale b"
    and "m \<in> set (d_media (si_db s))" and "m \<notin> set (d_media (si_db (snd (serve_admin env v q s))))"
  shows "may_be_evicted (si_now s) q s (m_id m)"
proof -
  let ?P = "media_kept s (may_be_evicted (si_now s) q s)"
  have adm: "keeps ?P (as_admin u h)" if "\<And>x. keeps ?P (h x)" for u and h :: "user \<Rightarrow> admin_reply result admin_act"
    using that by (auto simp: as_admin_def split: option.split)
  have "keeps ?P (admin_route env v q u)" for u
    using assms(1)
  proof
    assume q: "q = AdminEvict i"
    show ?thesis unfolding q admin_route.simps by (rule adm [unfolded q], rule evicts_one)
  next
    assume q: "q = AdminEvictStale b"
    show ?thesis unfolding q admin_route.simps by (rule adm [unfolded q], rule evicts_all_stale)
  qed
  moreover have "?P s" by (simp add: media_kept_def)
  ultimately have "?P (snd (serve_admin env v q s))" unfolding serve_admin_def by (intro evicted.serves) auto
  with assms(2,3) show ?thesis by (auto simp: media_kept_def)
qed

section \<open>The pages of the audit log\<close>

definition audit_page :: "audit_query \<Rightarrow> int \<Rightarrow> audit_row list \<Rightarrow> audit_row list \<times> int" where
  "audit_page q before rows = page_of (audit_rows q before (audit_page_size + 1) rows)"

text \<open>A reader who follows \<open>nextBefore\<close> until it is 0, for at most \<open>n\<close> pages.\<close>

fun read_pages :: "nat \<Rightarrow> audit_query \<Rightarrow> int \<Rightarrow> audit_row list \<Rightarrow> audit_row list option" where
  "read_pages 0 q before rows = None"
| "read_pages (Suc n) q before rows = (case audit_page q before rows of (page, before_next) \<Rightarrow>
     if before_next = 0 then Some page else map_option (append page) (read_pages n q before_next rows))"

text \<open>The whole log that matches, newest first.\<close>

definition newest_first :: "audit_query \<Rightarrow> audit_row list \<Rightarrow> audit_row list" where
  "newest_first q rows = sort_key (\<lambda>r. - al_id r) (filter (audit_matches q) rows)"

definition log_ok :: "audit_row list \<Rightarrow> bool" where
  "log_ok rows \<longleftrightarrow> sorted_wrt (<) (map al_id rows) \<and> list_all (\<lambda>r. 0 < al_id r) rows"

lemma recorded_log_ok:
  assumes "log_ok (si_audit s)"
  shows "log_ok (si_audit (snd (record_entry e s)))"
proof (cases "si_audit s" rule: rev_cases)
  case Nil
  then show ?thesis by (simp add: record_entry_def log_ok_def next_audit_id_def)
next
  case (snoc rows r)
  with assms show ?thesis
    by (auto simp: record_entry_def log_ok_def next_audit_id_def sorted_wrt_append list_all_iff)
qed


definition older :: "int \<Rightarrow> audit_row \<Rightarrow> bool" where
  "older before r \<longleftrightarrow> before = 0 \<or> al_id r < before"

lemma audit_rows_newest: "audit_rows q before n rows = take n (filter (older before) (newest_first q rows))"
  by (simp add: audit_rows_def newest_first_def filter_sort older_def [abs_def] conj_commute)

lemma strictly_falling:
  "distinct (map f xs) \<Longrightarrow> sorted_wrt (\<lambda>r r'. - f r \<le> - f r') xs \<Longrightarrow> sorted_wrt (\<lambda>r r'. f r' < f r) xs" for f :: "'a \<Rightarrow> int"
  by (induction xs) (auto simp: order.order_iff_strict image_iff)

lemma newest_first_sorted:
  assumes "log_ok rows"
  shows "sorted_wrt (\<lambda>r r'. al_id r' < al_id r) (newest_first q rows)"
proof -
  have d: "distinct (map al_id rows)"
    using assms by (simp add: log_ok_def strict_sorted_iff)
  have "distinct (map al_id (newest_first q rows))"
    using d by (simp add: newest_first_def distinct_map inj_on_def)
  moreover have "sorted_wrt (\<lambda>r r'. - al_id r \<le> - al_id r') (newest_first q rows)"
    using sorted_sort_key [of "\<lambda>r. - al_id r" "filter (audit_matches q) rows"] by (simp add: newest_first_def sorted_map)
  ultimately show ?thesis by (rule strictly_falling)
qed

lemma older_rest:
  assumes "sorted_wrt (\<lambda>r r'. al_id r' < al_id r) (xs @ r # ys)" and "al_id r \<noteq> 0"
  shows "filter (older (al_id r)) (xs @ r # ys) = ys"
  using assms by (auto simp: older_def sorted_wrt_append filter_empty_conv filter_id_conv dest: order.strict_trans)

lemma pages_from:
  assumes "log_ok rows" and "filter (older before) (newest_first q rows) = ms" and "0 < n" and "length ms \<le> 100 * n"
  shows "read_pages n q before rows = Some ms"
  using assms(2-)
proof (induction n arbitrary: before ms)
  case (Suc n)
  let ?L = "newest_first q rows"
  have sL: "sorted_wrt (\<lambda>r r'. al_id r' < al_id r) ?L" by (rule newest_first_sorted [OF assms(1)])
  have s: "sorted_wrt (\<lambda>r r'. al_id r' < al_id r) ms"
    using sL Suc.prems(1) by (metis sorted_wrt_filter)
  have page: "audit_page q before rows = page_of (take 101 ms)"
    using Suc.prems(1) by (simp add: audit_page_def audit_rows_newest audit_page_size_def)
  show ?case
  proof (cases "length ms \<le> 100")
    case True
    then show ?thesis using page by (simp add: page_of_def audit_page_size_def)
  next
    case False
    then have l: "99 < length ms" by simp
    obtain xs r ys where ms: "ms = xs @ r # ys" and xs: "length xs = 99"
      by (rule that [OF id_take_nth_drop [OF l]]) (use l in simp)
    have "r \<in> set ms" by (simp add: ms)
    then have "r \<in> set ?L" and old: "older before r" unfolding Suc.prems(1) [symmetric] by simp_all
    then have pos: "0 < al_id r" using assms(1) by (auto simp: newest_first_def log_ok_def list_all_iff)
    have "filter (older (al_id r)) ?L = filter (older (al_id r)) ms"
      unfolding Suc.prems(1) [symmetric] filter_filter using old pos by (intro filter_cong) (auto simp: older_def)
    also have "\<dots> = ys" using older_rest [of xs r ys] s pos by (simp add: ms)
    finally have rest: "filter (older (al_id r)) ?L = ys" .
    have n: "length ys \<le> 100 * n" "ys \<noteq> []" using Suc.prems(3) xs False by (auto simp: ms)
    then have "0 < n" by (cases n) auto
    from Suc.IH [OF rest this n(1)] have "read_pages n q (al_id r) rows = Some ys" .
    moreover have "page_of (take 101 ms) = (xs @ [r], al_id r)" using False xs by (simp add: ms page_of_def audit_page_size_def)
    ultimately show ?thesis using page pos by (simp add: ms)
  qed
qed simp

text \<open>The page of the handler, when its calls go through.\<close>

lemma audit_page_served:
  assumes "si_faults s = []" and "text_ok (aq_action q)" and "read_before t = oka before"
  shows "\<exists>names. audit_list q t s = (Inr (case audit_page q before (si_audit s) of (page, before_next) \<Rightarrow>
    Result 200 (AuditPage (map (audit_view_of names) page) before_next)), s)"
  using assms
  by (auto simp: audit_list_def run_steps required_def store_calm list_audit_def peek_def usernames_by_id_def audit_page_def split: prod.split)

text \<open>
  C40: Following \<open>nextBefore\<close> from the newest page to the end shows every matching entry of the log once,
  newest first, and ends after one page per hundred entries.
\<close>

theorem audit_pages_show_all:
  assumes "log_ok rows" and "0 < n" and "length (newest_first q rows) \<le> 100 * n"
  shows "read_pages n q 0 rows = Some (newest_first q rows) \<and> distinct (newest_first q rows)"
proof -
  have "filter (older 0) (newest_first q rows) = newest_first q rows" by (simp add: older_def)
  from pages_from [OF assms(1) this assms(2,3)] assms(1) show ?thesis
    by (auto simp: newest_first_def log_ok_def strict_sorted_iff distinct_map)
qed


section \<open>A small site with an administrator\<close>

definition video_row :: "uuid \<Rightarrow> media" where
  "video_row i = (media_row i (''key'' @ dec i) ''http://example.com'' 0)\<lparr>m_status := MediaReady, m_size_bytes := 5\<rparr>"

definition queued_row :: item_row where
  "queued_row = \<lparr>ir_id = 1, ir_room = 1, ir_media = 12, ir_added_by = None, ir_rank = [], ir_created = 0, ir_played = None\<rparr>"

text \<open>Videos 11 and 12, of which 12 is queued, and a log of two entries.\<close>

definition log_row :: "int \<Rightarrow> audit_row" where
  "log_row k = \<lparr>al_id = k, al_entry = \<lparr>au_actor = None, au_action = ''user.ban'', au_target_type = [], au_target = [], au_room = None,
     au_meta = []\<rparr>, al_created = 0\<rparr>"

definition admin_row :: user where
  "admin_row = owner_row\<lparr>u_role := SiteAdmin\<rparr>"

definition admin_site :: site where
  "admin_site = small_site\<lparr>si_db := (si_db small_site)\<lparr>d_users := [admin_row, other_row],
     d_media := [video_row 11, video_row 12], d_items := [queued_row]\<rparr>, si_audit := [log_row 1, log_row 2]\<rparr>"

lemmas run_admin = serve_admin_def api_def with_session_def check_origin_def as_admin_def finish_def run_steps resolve_def
  token_of_request_def owner_visit_def small_env_def same_origin_def reading_clock_def Let_def store_def get_session_user_def
  peek_def get_user_def admin_site_def small_site_def session_row_def admin_row_def owner_row_def other_row_def user_is_banned_def
  user_is_admin_def touch_interval_def time_sub_def with_id_def uuid_parse_def parse_uint_def digit_val_def need_def required_def
  required_but_def server_error_def log_entry_def done_204_def

lemma ban_succeeds: "fst (serve_admin small_env owner_visit (AdminBan ''2'' None) admin_site) = Result 204 AdminDone"
  by (simp add: run_admin handle_ban_user_def read_optional_def ban_user_def exec_user_def change_user_def text_ok_def
      revoke_all_def auth_call_def delete_user_sessions_def drop_sessions_def tell_rooms_def)


lemma eviction_example:
  "d_media (si_db (snd (serve_admin small_env owner_visit (AdminEvict ''11'') admin_site))) = [video_row 12]"
  by (simp add: run_admin handle_evict_media_def media_by_id_def media_queued_def queued_ids_def video_row_def media_row_def queued_row_def
      evict_media_def drop_package_def delete_media_def remove_media_def drop_items_def tell_rooms_def
      record_entry_def ref_ok_def users_of_def)

theorem eviction_spares_queued_witness:
  "may_be_evicted 10 (AdminEvict ''11'') admin_site 11"
proof -
  have "video_row 11 \<in> set (d_media (si_db admin_site))" by (simp add: admin_site_def)
  moreover have "video_row 11 \<notin> set (d_media (si_db (snd (serve_admin small_env owner_visit (AdminEvict ''11'') admin_site))))"
    unfolding eviction_example by (simp add: video_row_def media_row_def)
  ultimately have "may_be_evicted (si_now admin_site) (AdminEvict ''11'') admin_site (m_id (video_row 11))"
    by (rule eviction_spares_queued [OF disjI1 [OF HOL.refl]])
  then show ?thesis by (simp add: admin_site_def small_site_def video_row_def media_row_def)
qed

theorem audit_pages_show_all_witness:
  "read_pages 1 \<lparr>aq_room = None, aq_actor = None, aq_action = []\<rparr> 0 [log_row 1, log_row 2] = Some [log_row 2, log_row 1]"
proof -
  let ?q = "\<lparr>aq_room = None, aq_actor = None, aq_action = []\<rparr>"
  have n: "newest_first ?q [log_row 1, log_row 2] = [log_row 2, log_row 1]"
    by (simp add: newest_first_def audit_matches_def log_row_def)
  have "read_pages 1 ?q 0 [log_row 1, log_row 2] = Some (newest_first ?q [log_row 1, log_row 2])"
    by (rule conjunct1 [OF audit_pages_show_all]) (simp add: log_ok_def log_row_def, simp, simp add: n)
  with n show ?thesis by simp
qed

text \<open>
  The two lists of the administration take the search string as a pattern: an underscore matches any
  character, unlike in the search for names to invite.
\<close>

lemma admin_search_is_a_pattern:
  "fst (list_users ''_ob'' 100 small_site) = Inr [(other_row, 0)]"
  "fst (search_usernames ''_ob'' 8 small_site) = Inr []"
  by (simp_all add: list_users_def search_usernames_def peek_def text_ok_def rune_ok_def in_range_def rune_len_def rune_tail_def
      small_site_def owner_row_def other_row_def like_def to_lower_def like_match_any like_escaped has_prefix_def count_of_def
      escape_like_def replace_char_def)

end
