(* ===== verification/Spec2Isabelle.thy ===== *)
theory Spec2Isabelle
  imports Clock Order Access Protocol Hub Rooms_Names Jobs Live Netguard Webvtt Packages Source Ingest Accounts_Safe Admin_Safe
begin

text \<open>
  A verification development for couchcast, a server for watching videos together.

  \<^bold>\<open>The program.\<close>  A \<^emph>\<open>room\<close> (\<open>src/internal/room\<close>) has a queue of videos, a history, a playback clock,
  viewers and a chat.  Each viewer has a WebSocket connection (\<open>src/internal/hub\<close>), whose messages
  (\<open>src/internal/protocol\<close>) become commands of the room; every command is checked against the
  permissions (\<open>src/internal/access\<close>) of the actor, whose membership, ban and mute are looked up
  afresh.  A command runs under the room's mutex, writes through the tables of PostgreSQL
  (\<open>src/internal/repository\<close>) and tells the viewers.  Timers run further steps: the end of the
  current video, an empty room, buffering viewers, a countdown.

  \<^bold>\<open>The theories.\<close>
  \<^item> \<open>Go_Base\<close>, \<open>Go_Float\<close>: what the code uses of Go: identifiers, times and durations as integers,
    \<open>int64\<close> wrap-around, \<open>float64\<close> rounding, decimal text, list surgery.
  \<^item> \<open>Entity\<close>, \<open>Protocol\<close>: the records and enumerations of \<open>entity/*.go\<close> and \<open>protocol/protocol.go\<close>.
  \<^item> \<open>Access\<close> (\<open>access/access.go\<close>): who may do what.
  \<^item> \<open>Clock\<close> (\<open>room/clock.go\<close>), \<open>Order\<close> (\<open>room/order.go\<close>), \<open>Rank\<close> (rank strings): the pure parts.
  \<^item> \<open>Repository\<close>, \<open>Members\<close>: the queries of \<open>repository/*.go\<close> as functions on the tables, with keys,
    conflicts and cascades; \<open>Queue_Rows\<close>: what the queue updates do to a room's rows.
  \<^item> \<open>Room_State\<close> (\<open>room/room.go\<close>, \<open>timers.go\<close>): the state of a room with its environment.  A command
    is a function on it that returns an error or a value and the state it left; every call of the
    store may fail.  \<open>Room_Snapshot\<close>, \<open>Room_Queue_State\<close>, \<open>Room_Playback\<close>, \<open>Room_Queue\<close>,
    \<open>Room_Presence\<close>, \<open>Room_Chat\<close>, \<open>Room_Life\<close>: the files of \<open>room/\<close>, one definition per function.
  \<^item> \<open>Room_Quiet\<close>, \<open>Room_Contract\<close>, \<open>Room_Coherent\<close>: what the operations leave alone; a locale of the
    laws the queue rests on, with every command proved against it once; and its
    interpretations: memory equals the tables, other rooms are untouched, the history is short.
  \<^item> \<open>Hub\<close> (\<open>hub/hub.go\<close>): the dispatch of a message and the connection's send buffer.

  \<^item> \<open>Web\<close>, \<open>Rooms_Api\<close>, \<open>Members_Api\<close> (\<open>apihttp/rooms.go\<close>, \<open>mutes.go\<close>, \<open>stars.go\<close>,
    \<open>invite_links.go\<close>): the HTTP handlers of the rooms.  A handler reads and writes the tables, the
    audit log, the hooks and the notices; every call of the store may fail, and other requests may
    run in between.  \<open>serve\<close> is the router.
  \<^item> \<open>Rooms_Safe\<close>: a triple for handlers and the locale of the laws of the tables, with every
    handler proved against it once.  \<open>Rooms_Laws\<close> interprets it for ownership, invite links and the
    queue tables; \<open>Rooms_Refuse\<close> is about error replies, \<open>Rooms_Entry\<close> about permissions and bans,
    \<open>Rooms_Names\<close> about slugs and invites.
  \<^item> \<open>Manager\<close> (\<open>room/manager.go\<close>): the rooms in memory and everything that reaches into them;
    \<open>Manager_Safe\<close>: all of it interleaved, as a step relation, keeps every settled room the
    abstraction of its stored rows.  \<open>Live\<close> (\<open>cmd/couchcast/serve.go\<close>): a request on the running
    process, with its hooks.
  \<^item> \<open>Jobs\<close> (\<open>jobs/*.go\<close>): the queue of the ingest workers with its leases, as a step relation.
  \<^item> \<open>Go_Text\<close>: strings as bytes: trimming, splitting, cutting, numbers as text.
    \<open>Netguard\<close> (\<open>netguard/netguard.go\<close>): which addresses a link may lead to, with the parser of
    addresses.  \<open>Webvtt\<close> (\<open>webvtt/webvtt.go\<close>): the subtitle files, parsed, converted and printed.
  \<^item> \<open>Base64\<close>; \<open>Media_Store\<close> (\<open>mediastore/token.go\<close>, \<open>handler.go\<close>, \<open>store.go\<close>): the tokens and the
    handler that serves packaged media.  \<open>Packages\<close> (\<open>mediastore/attempts.go\<close>, \<open>evict.go\<close>,
    \<open>repository/media.go\<close>): uploads, publication, pruning and eviction of all processes, interleaved
    over \<open>Jobs\<close>.  \<open>Source\<close> (\<open>source/source.go\<close>): which formats are downloaded.
  \<^item> \<open>Ingest\<close> (\<open>ingest/*.go\<close>): the admission of links and one attempt of the worker, call by call, with
    whatever the other processes do in between; it takes only steps of \<open>Packages\<close>.
  \<^item> \<open>Go_Run\<close>, \<open>Go_Rune\<close>: a run that calls the outside and may give up, with the triple \<open>gives\<close>; UTF-8.
    \<open>Passwords\<close> (\<open>auth/password.go\<close>), \<open>Ratelimit\<close> (\<open>ratelimit/ratelimit.go\<close>).
  \<^item> \<open>Site\<close>, \<open>Sessions\<close> (\<open>auth/session.go\<close>, \<open>middleware.go\<close>, \<open>repository/sessions.go\<close>, \<open>users.go\<close>): the
    account tables and who a request belongs to, with the locale \<open>kept_property\<close> of what using and
    losing sessions cannot break; \<open>Accounts\<close> (\<open>apihttp/auth.go\<close>): its handlers, each proved against the
    locale once; \<open>Accounts_Safe\<close>: its interpretations, the keys of the tables, who gets a session and
    whose row is written.
  \<^item> \<open>Admin_Tables\<close>, \<open>Admin\<close> (\<open>repository/admin.go\<close>, \<open>apihttp/admin.go\<close>): reports, bans, the removal and
    eviction of videos, the blocklist and the audit log; \<open>Admin_Safe\<close>: what they guarantee.

  \<^bold>\<open>Bounds.\<close>  Rank strings have eight digits; \<open>headroom\<close> asks that the ranks a message may still use
  fit them.  Integers from the wire are mathematical integers where the code only compares them and
  words where it wraps (\<open>seq\<close>, the clock).

  \<^bold>\<open>Not modelled.\<close>  JSON text, SQL text, HTTP and WebSocket framing, goroutine scheduling below the
  mutex (a command is one step), logging and metrics.
\<close>

end
